(* ===== verification/Prelude.thy ===== *)
theory Prelude
  imports Main "HOL-Library.Word"
begin

text \<open>
  Shared vocabulary of the development: the machine integers and byte buffers of the C++ sources,
  the faults a C++ execution can run into (a read or a write outside a buffer, an abort, an
  exception that leaves the function, a null dereference), the result monad that threads them, and the
  byte-order primitives \<^verbatim>\<open>htons\<close>, \<^verbatim>\<open>ntohs\<close>,
  \<^verbatim>\<open>htonl\<close>, \<^verbatim>\<open>ntohl\<close> together with the unaligned loads and stores
  \<^verbatim>\<open>*(uint16_t*) p\<close> and \<^verbatim>\<open>*(uint32_t*) p\<close> on a little-endian host.
  A pointer that only moves forward is modelled by the bytes that are still in front of it, so
  that reading past the end of the buffer is the value \<open>Inl Overread\<close> and never an
  unspecified byte.  The collections \<open>codec_simps\<close> and \<open>result_simps\<close> hold the
  rewrite rules that carry the component proofs.  The locale \<open>wire_codec\<close> is the contract
  every header codec of the framework offers to the protocol above it.
\<close>

unbundle bit_operations_syntax

section \<open>Machine integers and buffers\<close>

type_synonym u8 = "8 word"
type_synonym u16 = "16 word"
type_synonym u32 = "32 word"
type_synonym bytes = "u8 list"

named_theorems codec_simps "rewrite rules of the byte-level codecs"
named_theorems result_simps "rewrite rules of the result monad"
named_theorems load_ifs "loads as conditionals on the length of the buffer"

section \<open>Faults and results\<close>

datatype fault =
    Overread      \<comment> \<open>a load outside the buffer it was given\<close>
  | Overwrite     \<comment> \<open>a store outside the buffer it was given\<close>
  | Aborted       \<comment> \<open>\<^verbatim>\<open>abort()\<close>\<close>
  | Thrown        \<comment> \<open>an exception leaves the function, or a bare \<^verbatim>\<open>throw;\<close> ends the program\<close>
  | Null_deref    \<comment> \<open>a member call on a null pointer\<close>
  | Undefined     \<comment> \<open>any other undefined behaviour of C++\<close>

type_synonym 'a result = "fault + 'a"

definition bind_r :: "'a result \<Rightarrow> ('a \<Rightarrow> 'b result) \<Rightarrow> 'b result" where
  "bind_r m f = (case m of Inl e \<Rightarrow> Inl e | Inr x \<Rightarrow> f x)"

lemma bind_r_Inl [simp, result_simps]: "bind_r (Inl e) f = Inl e"
  by (simp add: bind_r_def)

lemma bind_r_Inr [simp, result_simps]: "bind_r (Inr x) f = f x"
  by (simp add: bind_r_def)

lemma bind_r_eq_Inr [result_simps]:
  "bind_r m f = Inr y \<longleftrightarrow> (\<exists>x. m = Inr x \<and> f x = Inr y)"
  by (cases m) auto

lemma bind_r_eq_Inl [result_simps]:
  "bind_r m f = Inl e \<longleftrightarrow> m = Inl e \<or> (\<exists>x. m = Inr x \<and> f x = Inl e)"
  by (cases m) auto

lemma bind_r_assoc: "bind_r (bind_r m f) g = bind_r m (\<lambda>x. bind_r (f x) g)"
  by (cases m) auto

lemma bind_r_cong [fundef_cong]:
  "m = m' \<Longrightarrow> (\<And>x. m' = Inr x \<Longrightarrow> f x = f' x) \<Longrightarrow> bind_r m f = bind_r m' f'"
  by (cases m') auto

text \<open>A computation that may also not end: the outer option is termination.\<close>

definition bind_ro :: "'a result option \<Rightarrow> ('a \<Rightarrow> 'b result option) \<Rightarrow> 'b result option" where
  "bind_ro m f = (case m of None \<Rightarrow> None | Some (Inl e) \<Rightarrow> Some (Inl e) | Some (Inr x) \<Rightarrow> f x)"

lemma bind_ro_simps [simp, result_simps]:
  "bind_ro None f = None" "bind_ro (Some (Inl e)) f = Some (Inl e)" "bind_ro (Some (Inr x)) f = f x"
  by (simp_all add: bind_ro_def)

lemma bind_ro_eq_Some:
  "bind_ro m f = Some (Inr y) \<longleftrightarrow> (\<exists>x. m = Some (Inr x) \<and> f x = Some (Inr y))"
  by (auto simp: bind_ro_def split: option.splits sum.splits)

section \<open>Byte order\<close>

text \<open>The host is little-endian: the byte at the lowest address is the least significant one.\<close>

definition join16 :: "u8 \<Rightarrow> u8 \<Rightarrow> u16" where
  "join16 a b = ucast a OR push_bit 8 (ucast b)"

definition join32 :: "u8 \<Rightarrow> u8 \<Rightarrow> u8 \<Rightarrow> u8 \<Rightarrow> u32" where
  "join32 a b c d = ucast a OR push_bit 8 (ucast b) OR push_bit 16 (ucast c) OR push_bit 24 (ucast d)"

definition store16 :: "u16 \<Rightarrow> bytes" where
  "store16 w = [ucast w, ucast (drop_bit 8 w)]"

definition store32 :: "u32 \<Rightarrow> bytes" where
  "store32 w = [ucast w, ucast (drop_bit 8 w), ucast (drop_bit 16 w), ucast (drop_bit 24 w)]"

definition htons :: "u16 \<Rightarrow> u16" where
  "htons w = join16 (ucast (drop_bit 8 w)) (ucast w)"

definition htonl :: "u32 \<Rightarrow> u32" where
  "htonl w = join32 (ucast (drop_bit 24 w)) (ucast (drop_bit 16 w)) (ucast (drop_bit 8 w)) (ucast w)"

abbreviation ntohs :: "u16 \<Rightarrow> u16" where "ntohs \<equiv> htons"

abbreviation ntohl :: "u32 \<Rightarrow> u32" where "ntohl \<equiv> htonl"

fun load8 :: "bytes \<Rightarrow> (u8 \<times> bytes) result" where
  "load8 (b # p) = Inr (b, p)"
| "load8 [] = Inl Overread"

fun load16 :: "bytes \<Rightarrow> (u16 \<times> bytes) result" where
  "load16 (a # b # p) = Inr (join16 a b, p)"
| "load16 _ = Inl Overread"

fun load32 :: "bytes \<Rightarrow> (u32 \<times> bytes) result" where
  "load32 (a # b # c # d # p) = Inr (join32 a b c d, p)"
| "load32 _ = Inl Overread"

text \<open>\<^verbatim>\<open>memcpy\<close> out of a buffer, and a vector built from a pointer range.\<close>

definition load_bytes :: "nat \<Rightarrow> bytes \<Rightarrow> (bytes \<times> bytes) result" where
  "load_bytes n p = (if n \<le> length p then Inr (take n p, drop n p) else Inl Overread)"

text \<open>\<^verbatim>\<open>memcpy\<close> of \<open>xs\<close> into a buffer at an offset.\<close>

definition store_at :: "nat \<Rightarrow> bytes \<Rightarrow> bytes \<Rightarrow> bytes result" where
  "store_at off xs buf =
     (if off + length xs \<le> length buf
      then Inr (take off buf @ xs @ drop (off + length xs) buf) else Inl Overwrite)"

lemma and_FF: "x AND 0xFF = take_bit 8 (x :: 'a :: len word)"
  by (simp add: take_bit_eq_mask mask_eq_exp_minus_1)

lemma unat_u8_less [simp]: "unat (x :: u8) < 256"
  using unsigned_less [of x, where ?'a = nat] by simp

lemma unat_u16_less: "unat (x :: u16) < 65536"
  using unsigned_less [of x, where ?'a = nat] by simp

subsection \<open>Laws of the byte-order primitives\<close>

lemma join16_sel [simp, codec_simps]:
  "ucast (join16 a b) = a" "ucast (drop_bit 8 (join16 a b)) = b"
  by (rule bit_word_eqI; auto simp: join16_def bit_simps dest: bit_imp_le_length)+

lemma join16_split [simp, codec_simps]: "join16 (ucast w) (ucast (drop_bit 8 w)) = w"
  by (rule bit_word_eqI) (auto simp: join16_def bit_simps)

lemma join32_sel [simp, codec_simps]:
  "ucast (join32 a b c d) = a" "ucast (drop_bit 8 (join32 a b c d)) = b"
  "ucast (drop_bit 16 (join32 a b c d)) = c" "ucast (drop_bit 24 (join32 a b c d)) = d"
  by (rule bit_word_eqI; auto simp: join32_def bit_simps dest: bit_imp_le_length)+

lemma join32_split [simp, codec_simps]:
  "join32 (ucast w) (ucast (drop_bit 8 w)) (ucast (drop_bit 16 w)) (ucast (drop_bit 24 w)) = w"
proof (rule bit_word_eqI)
  fix n assume "n < LENGTH(32)"
  then consider "n < 8" | "8 \<le> n" "n < 16" | "16 \<le> n" "n < 24" | "24 \<le> n" "n < 32"
    by force
  then show "bit (join32 (ucast w) (ucast (drop_bit 8 w)) (ucast (drop_bit 16 w)) (ucast (drop_bit 24 w))) n
      = bit w n"
    by cases (auto simp: join32_def bit_simps)
qed

lemma htons_htons [simp, codec_simps]: "htons (htons w) = w"
  by (simp add: htons_def)

lemma htonl_htonl [simp, codec_simps]: "htonl (htonl w) = w"
  by (simp add: htonl_def)

lemma load16_store16 [simp, codec_simps]: "load16 (store16 w @ p) = Inr (w, p)"
  by (simp add: store16_def)

lemma load32_store32 [simp, codec_simps]: "load32 (store32 w @ p) = Inr (w, p)"
  by (simp add: store32_def)

lemma length_store16 [simp, codec_simps]: "length (store16 w) = 2"
  by (simp add: store16_def)

lemma length_store32 [simp, codec_simps]: "length (store32 w) = 4"
  by (simp add: store32_def)

lemma load_bytes_append [simp, codec_simps]:
  "n = length xs \<Longrightarrow> load_bytes n (xs @ p) = Inr (xs, p)"
  by (simp add: load_bytes_def)

text \<open>What a big-endian field looks like on the wire.\<close>

lemma store16_htons: "store16 (htons w) = [ucast (drop_bit 8 w), ucast w]"
  by (simp add: store16_def htons_def)

lemma store32_htonl:
  "store32 (htonl w) = [ucast (drop_bit 24 w), ucast (drop_bit 16 w), ucast (drop_bit 8 w), ucast w]"
  by (simp add: store32_def htonl_def)

text \<open>Every load shortens the buffer by its width, or faults.\<close>

lemma load8_length: "load8 p = Inr (x, q) \<Longrightarrow> length p = length q + 1"
  by (cases p) auto

lemma load16_length: "load16 p = Inr (x, q) \<Longrightarrow> length p = length q + 2"
  by (induction p rule: load16.induct) auto

lemma load32_length: "load32 p = Inr (x, q) \<Longrightarrow> length p = length q + 4"
  by (induction p rule: load32.induct) auto

lemma load_bytes_length: "load_bytes n p = Inr (x, q) \<Longrightarrow> length p = length q + n \<and> length x = n"
  by (auto simp: load_bytes_def split: if_splits)

lemma load8_fault: "load8 p = Inl e \<longleftrightarrow> e = Overread \<and> length p < 1"
  by (cases p) auto

lemma load16_fault: "load16 p = Inl e \<longleftrightarrow> e = Overread \<and> length p < 2"
  by (induction p rule: load16.induct) auto

lemma load32_fault: "load32 p = Inl e \<longleftrightarrow> e = Overread \<and> length p < 4"
  by (induction p rule: load32.induct) auto

lemma load_bytes_fault: "load_bytes n p = Inl e \<longleftrightarrow> e = Overread \<and> length p < n"
  by (auto simp: load_bytes_def)

text \<open>A load as a conditional on the length, which turns an extractor into one chain of length tests.\<close>

lemma load8_if [load_ifs]: "load8 p = (if 1 \<le> length p then Inr (p ! 0, drop 1 p) else Inl Overread)"
  by (cases p) auto

lemma load16_if [load_ifs]:
  "load16 p = (if 2 \<le> length p then Inr (join16 (p ! 0) (p ! 1), drop 2 p) else Inl Overread)"
  by (induction p rule: load16.induct) auto

lemma load32_if [load_ifs]:
  "load32 p = (if 4 \<le> length p then Inr (join32 (p ! 0) (p ! 1) (p ! 2) (p ! 3), drop 4 p) else Inl Overread)"
  by (induction p rule: load32.induct) auto

lemma load_bytes_if [load_ifs]:
  "load_bytes n p = (if n \<le> length p then Inr (take n p, drop n p) else Inl Overread)"
  by (rule load_bytes_def)

lemmas load_lengths = load8_length load16_length load32_length load_bytes_length
lemmas load_faults = load8_fault load16_fault load32_fault load_bytes_fault

lemma store_at_frame:
  "length hd_bytes = n \<Longrightarrow>
   bind_r (store_at 0 hd_bytes (replicate (n + length d) 0)) (store_at n d) = Inr (hd_bytes @ d)"
  by (simp add: store_at_def)

subsection \<open>How many bytes an extractor needs\<close>

text \<open>
  \<open>reads f n\<close>: the cursor step \<open>f\<close> consumes exactly \<open>n\<close> bytes, and over-reads on a shorter
  buffer.  \<open>parses e n\<close>: the extractor \<open>e\<close> succeeds on every buffer of at least \<open>n\<close> bytes
  and over-reads on a shorter one.
\<close>

definition reads :: "(bytes \<Rightarrow> ('a \<times> bytes) result) \<Rightarrow> nat \<Rightarrow> bool" where
  "reads f n \<longleftrightarrow> (\<forall>p. if n \<le> length p then \<exists>x. f p = Inr (x, drop n p) else f p = Inl Overread)"

definition parses :: "(bytes \<Rightarrow> 'a result) \<Rightarrow> nat \<Rightarrow> bool" where
  "parses e n \<longleftrightarrow> (\<forall>p. if n \<le> length p then \<exists>x. e p = Inr x else e p = Inl Overread)"

named_theorems reads_intros "introduction rules of reads and parses"

lemma reads_loads [reads_intros]:
  "reads load8 1" "reads load16 2" "reads load32 4" "reads (load_bytes k) k"
  by (simp_all add: reads_def load_ifs)

lemma parses_return [reads_intros]: "parses (\<lambda>p. Inr v) 0"
  by (simp add: parses_def)

lemma parses_bind [reads_intros]:
  assumes "reads f a" and "\<And>x. parses (g x) b"
  shows "parses (\<lambda>p. bind_r (f p) (\<lambda>(x, q). g x q)) (a + b)"
  unfolding parses_def
proof
  fix p
  have g: "if b \<le> length q then \<exists>y. g x q = Inr y else g x q = Inl Overread" for x q
    using assms(2) [of x] by (simp add: parses_def)
  have f: "if a \<le> length p then \<exists>x. f p = Inr (x, drop a p) else f p = Inl Overread"
    using assms(1) by (simp add: reads_def)
  show "if a + b \<le> length p then \<exists>y. bind_r (f p) (\<lambda>(x, q). g x q) = Inr y
     else bind_r (f p) (\<lambda>(x, q). g x q) = Inl Overread"
  proof (cases "a \<le> length p")
    case True
    with f obtain x where x: "f p = Inr (x, drop a p)" by auto
    have "a + b \<le> length p \<longleftrightarrow> b \<le> length (drop a p)" using True by auto
    with x g [of "drop a p" x] show ?thesis by simp
  qed (use f in simp)
qed

lemma parses_fault: "parses e n \<Longrightarrow> e d = Inl x \<longleftrightarrow> x = Overread \<and> length d < n"
  unfolding parses_def by (metis leD le_less_linear sum.distinct(1) sum.inject(1))

text \<open>\<^verbatim>\<open>optional::value\<close> throws when there is no value.\<close>

definition opt_value :: "'a option \<Rightarrow> 'a result" where
  "opt_value x = (case x of None \<Rightarrow> Inl Thrown | Some v \<Rightarrow> Inr v)"

section \<open>The contract of a header codec\<close>

text \<open>
  A codec writes a header (the writer may fault: some abort on an ill-formed header) and extracts
  it again from a buffer that may go on with a payload, returning the number of bytes it consumed.
\<close>

locale wire_codec =
  fixes wr :: "'h \<Rightarrow> bytes result"
    and ex :: "bytes \<Rightarrow> ('h \<times> nat) result"
    and wf :: "'h \<Rightarrow> bool"
  assumes wr_total: "wf h \<Longrightarrow> \<exists>bs. wr h = Inr bs"
    and ex_wr: "wf h \<Longrightarrow> wr h = Inr bs \<Longrightarrow> ex (bs @ p) = Inr (h, length bs)"
begin

lemma ex_payload:
  assumes "wf h" and "wr h = Inr bs"
  shows "bind_r (ex (bs @ p)) (\<lambda>(h', n). Inr (h', drop n (bs @ p))) = Inr (h, p)"
  using ex_wr [OF assms] by simp

lemma unique_parse:
  assumes "wf h" and "wf h'" and "wr h = Inr a" and "wr h' = Inr b" and "a @ p = b @ q"
  shows "h = h' \<and> p = q"
proof -
  have "Inr (h, length a) = ex (b @ q)"
    using ex_wr [OF assms(1,3), of p] assms(5) by simp
  also have "\<dots> = Inr (h', length b)"
    by (rule ex_wr [OF assms(2,4)])
  finally show ?thesis using assms(5) by simp
qed

lemma wr_inj:
  "wf h \<Longrightarrow> wf h' \<Longrightarrow> wr h = Inr a \<Longrightarrow> wr h' = Inr a \<Longrightarrow> h = h'"
  using unique_parse [of h h' a a "[]" "[]"] by simp

end

text \<open>
  A framed protocol delivers the payload behind a header to its listener when the header passes the
  listener's conditions, and drops the frame otherwise.
\<close>

locale framed_protocol = wire_codec +
  fixes sel :: "'c \<Rightarrow> 'a \<Rightarrow> bool"
    and rcv :: "'c \<Rightarrow> bytes \<Rightarrow> ('a \<times> bytes) option result"
  assumes rcv_eq: "rcv c d = bind_r (ex d) (\<lambda>(h, n). Inr (if sel c h then Some (h, drop n d) else None))"
begin

lemma rcv_frame:
  assumes "wf h" and "wr h = Inr bs"
  shows "rcv c (bs @ d) = Inr (if sel c h then Some (h, d) else None)"
  using ex_wr [OF assms] by (simp add: rcv_eq)

lemma rcv_fault_iff: "rcv c d = Inl e \<longleftrightarrow> ex d = Inl e"
  by (cases "ex d") (auto simp: rcv_eq)

lemma rcv_delivers_only_matching: "rcv c d = Inr (Some (h, p)) \<Longrightarrow> sel c h"
  by (auto simp: rcv_eq bind_r_eq_Inr split: if_splits)

end

text \<open>
  What a send does to the access below it: nothing when the pointer to that access is null, and
  otherwise one call of its \<^verbatim>\<open>send_data\<close> with the frame.  The value is the list of such calls.
\<close>

definition send_frame :: "'s option \<Rightarrow> bytes result \<Rightarrow> ('s \<times> bytes) list result" where
  "send_frame surface frame =
     (case surface of None \<Rightarrow> Inr [] | Some s \<Rightarrow> bind_r frame (\<lambda>buff. Inr [(s, buff)]))"

lemma send_frame_simps [simp]:
  "send_frame None frame = Inr []" "send_frame (Some s) frame = bind_r frame (\<lambda>buff. Inr [(s, buff)])"
  by (simp_all add: send_frame_def)

text \<open>A buffer of zeros that holds a header and behind it the encapsulated data.\<close>

definition frame_buff :: "nat \<Rightarrow> bytes \<Rightarrow> bytes \<Rightarrow> bytes result" where
  "frame_buff sz header_bytes data =
     bind_r (store_at 0 header_bytes (replicate (sz + length data) 0)) (store_at sz data)"

lemma frame_buff_eq [simp]: "length h = sz \<Longrightarrow> frame_buff sz h data = Inr (h @ data)"
  using store_at_frame [of h sz data] by (simp add: frame_buff_def)

text \<open>A frame built in a local array of \<open>cap\<close> bytes, of which the written prefix is sent.\<close>

definition fixed_frame :: "nat \<Rightarrow> bytes \<Rightarrow> bytes \<Rightarrow> bytes result" where
  "fixed_frame cap header_bytes data =
     bind_r (store_at 0 header_bytes (replicate cap 0)) (\<lambda>buff.
     bind_r (store_at (length header_bytes) data buff) (\<lambda>buff.
     Inr (take (length header_bytes + length data) buff)))"

lemma fixed_frame_eq:
  "fixed_frame cap h d = (if length h + length d \<le> cap then Inr (h @ d) else Inl Overwrite)"
  by (auto simp: fixed_frame_def store_at_def)

text \<open>An optional condition of a listener: an absent one matches everything.\<close>

definition opt_sel :: "('a \<Rightarrow> 'a \<Rightarrow> bool) \<Rightarrow> 'a option \<Rightarrow> 'a \<Rightarrow> bool" where
  "opt_sel neq c x = (case c of None \<Rightarrow> True | Some v \<Rightarrow> \<not> neq x v)"

lemma opt_sel_simps [simp]: "opt_sel neq None x" "opt_sel neq (Some v) x = (\<not> neq x v)"
  by (simp_all add: opt_sel_def)

end
