(* ===== verification/Var_Len.thy ===== *)
theory Var_Len
  imports Prelude
begin

text \<open>
  The variable-length encodings of \<^verbatim>\<open>lib/var_len_encoding.h\<close> and
  \<^verbatim>\<open>lib/var_len_encoding.cpp\<close>: byte strings terminated by the two-byte delimiter
  \<open>00 01\<close> with every zero byte escaped as \<open>00 00\<close>, and little-endian base-128
  numbers.  The lemmas give the round trips, the exact and the worst-case encoded sizes, and that the
  decoder never looks past the delimiter.
\<close>

section \<open>Escaped byte strings\<close>

definition ENCODE_ESCAPE_BYTE :: u8 where "ENCODE_ESCAPE_BYTE = 0x00"
definition ENCODE_DELIMITER :: u8 where "ENCODE_DELIMITER = 0x01"

lemmas escape_defs = ENCODE_ESCAPE_BYTE_def ENCODE_DELIMITER_def

text \<open>The bytes \<^verbatim>\<open>var_len_encode_bytes\<close> stores from \<^verbatim>\<open>dest_buff\<close> on; the
  C++ function returns their number.\<close>

fun var_len_encode_bytes :: "bytes \<Rightarrow> bytes" where
  "var_len_encode_bytes [] = [ENCODE_ESCAPE_BYTE, ENCODE_DELIMITER]"
| "var_len_encode_bytes (b # bs) =
     (if b = ENCODE_ESCAPE_BYTE then ENCODE_ESCAPE_BYTE # b # var_len_encode_bytes bs
      else b # var_len_encode_bytes bs)"

text \<open>The \<^verbatim>\<open>while (true)\<close> loop: the decoded bytes so far, the count, and what
  \<^verbatim>\<open>next_byte\<close> points at.\<close>

fun var_len_decode_loop :: "bytes \<Rightarrow> nat \<Rightarrow> bytes \<Rightarrow> (bytes \<times> nat) result" where
  "var_len_decode_loop dest cnt [] = Inl Overread"
| "var_len_decode_loop dest cnt (b # p) =
     (if b = ENCODE_ESCAPE_BYTE then
        (case p of
           [] \<Rightarrow> Inl Overread
         | c # q \<Rightarrow> if c = ENCODE_DELIMITER then Inr (dest, cnt + 2)
                    else var_len_decode_loop (dest @ [c]) (cnt + 2) q)
      else var_len_decode_loop (dest @ [b]) (cnt + 1) p)"

definition var_len_decode_bytes :: "bytes \<Rightarrow> (bytes \<times> nat) result" where
  "var_len_decode_bytes src = var_len_decode_loop [] 0 src"

lemma decode_loop_encode:
  "var_len_decode_loop dest cnt (var_len_encode_bytes xs @ p)
     = Inr (dest @ xs, cnt + length (var_len_encode_bytes xs))"
  by (induction xs arbitrary: dest cnt) (auto simp: escape_defs)

lemma var_len_decode_encode [simp, codec_simps]:
  "var_len_decode_bytes (var_len_encode_bytes xs @ p) = Inr (xs, length (var_len_encode_bytes xs))"
  by (simp add: var_len_decode_bytes_def decode_loop_encode)

lemma length_var_len_encode:
  "length (var_len_encode_bytes xs) = length xs + count_list xs ENCODE_ESCAPE_BYTE + 2"
  by (induction xs) auto

lemma length_var_len_encode_le: "length (var_len_encode_bytes xs) \<le> 2 * length xs + 2"
  by (induction xs) auto

lemma var_len_decode_loop_consumed:
  "var_len_decode_loop dest cnt p = Inr (xs, n) \<Longrightarrow> cnt + 2 \<le> n \<and> n \<le> cnt + length p"
proof (induction dest cnt p rule: var_len_decode_loop.induct)
  case (2 dest cnt b p)
  then show ?case by (fastforce split: if_splits list.splits)
qed simp

lemma var_len_decode_consumed:
  "var_len_decode_bytes p = Inr (xs, n) \<Longrightarrow> 2 \<le> n \<and> n \<le> length p"
  using var_len_decode_loop_consumed [of "[]" 0 p xs n] by (simp add: var_len_decode_bytes_def)

interpretation escaped: wire_codec
  "\<lambda>xs. Inr (var_len_encode_bytes xs)" var_len_decode_bytes "\<lambda>_. True"
  by unfold_locales auto

section \<open>Base-128 numbers\<close>

text \<open>
  \<^verbatim>\<open>NUM_TYPE\<close> is an unsigned type of \<open>LENGTH('a)\<close> bits.  The mask
  \<^verbatim>\<open>~((uint8_t) 0) ^ (((uint8_t) 1) << 7)\<close> is evaluated in \<^verbatim>\<open>int\<close>: it is
  \<open>-1 XOR 128 = -129\<close>, whose low eight bits are \<open>0x7F\<close>; only these reach the
  \<^verbatim>\<open>uint8_t\<close> it is used with.
\<close>

definition LOW7 :: u8 where "LOW7 = 0x7F"
definition HIGH1 :: u8 where "HIGH1 = 0x80"

lemmas septet_defs = LOW7_def HIGH1_def

function var_len_encode_num_loop :: "'a::len word \<Rightarrow> bytes" where
  "var_len_encode_num_loop num =
     (if num = 0 then []
      else let next_byte = ucast num AND LOW7;
               num' = drop_bit 7 num;
               next_byte' = (if num' \<noteq> 0 then next_byte OR HIGH1 else next_byte)
           in next_byte' # var_len_encode_num_loop num')"
  by pat_completeness auto
termination
proof (relation "measure unat")
  fix num num' :: "'a::len word"
  assume "num \<noteq> 0" "num' = drop_bit 7 num"
  then show "(num', num) \<in> measure unat"
    by (metis div_less_dividend drop_bit_eq_div in_measure one_less_numeral_iff one_less_power
        semiring_norm(76) unat_drop_bit_eq unat_gt_0 zero_less_numeral)
qed simp

declare var_len_encode_num_loop.simps [simp del]

definition var_len_encode_num :: "'a::len word \<Rightarrow> bytes" where
  "var_len_encode_num num = (if num = 0 then [0] else var_len_encode_num_loop num)"

text \<open>
  The decoder's \<^verbatim>\<open>next_bits << bits_cnt\<close> is a shift of the 32-bit \<^verbatim>\<open>int\<close>
  that \<^verbatim>\<open>next_bits\<close> is promoted to; a shift by 32 or more is undefined, and the result is
  sign-extended when it is joined with a wider \<^verbatim>\<open>NUM_TYPE\<close>.
\<close>

fun var_len_decode_num_loop :: "'a::len word \<Rightarrow> nat \<Rightarrow> nat \<Rightarrow> bytes \<Rightarrow> ('a word \<times> nat) result" where
  "var_len_decode_num_loop res_num res_cnt bits_cnt [] = Inl Overread"
| "var_len_decode_num_loop res_num res_cnt bits_cnt (b # p) =
     (if bits_cnt \<ge> 32 then Inl Undefined
      else let next_bits = b AND LOW7;
               res_num' = res_num OR scast (push_bit bits_cnt (ucast next_bits :: 32 word))
           in if b AND HIGH1 = 0 then Inr (res_num', res_cnt + 1)
              else var_len_decode_num_loop res_num' (res_cnt + 1) (bits_cnt + 7) p)"

definition var_len_decode_num :: "bytes \<Rightarrow> ('a::len word \<times> nat) result" where
  "var_len_decode_num buff =
     (case buff of [] \<Rightarrow> Inl Overread
      | b # _ \<Rightarrow> if b = 0 then Inr (0, 1) else var_len_decode_num_loop 0 0 0 buff)"

lemma septet_bits: "bit LOW7 n \<longleftrightarrow> n < 7" "bit HIGH1 n \<longleftrightarrow> n = 7"
proof -
  have low: "LOW7 = mask 7" by (simp add: LOW7_def mask_eq_exp_minus_1)
  show "bit LOW7 n \<longleftrightarrow> n < 7" unfolding low bit_mask_iff by auto
  have high: "HIGH1 = push_bit 7 1" by (simp add: HIGH1_def push_bit_eq_mult)
  show "bit HIGH1 n \<longleftrightarrow> n = 7" unfolding high bit_push_bit_iff by (auto simp: bit_1_iff)
qed

lemma septet_or_high:
  "((x AND LOW7) OR HIGH1) AND LOW7 = x AND LOW7" "(x AND LOW7) AND LOW7 = x AND LOW7"
  "(x AND LOW7) AND HIGH1 = 0" "((x AND LOW7) OR HIGH1) AND HIGH1 = HIGH1"
  by (rule bit_word_eqI; auto simp: bit_simps septet_bits)+

lemma HIGH1_nz [simp]: "HIGH1 \<noteq> 0"
  by (simp add: HIGH1_def)

text \<open>One decoding step extends the recovered low bits of the number by seven.\<close>

lemma decode_num_step:
  fixes N :: u32
  shows "take_bit k N OR scast (push_bit k (ucast (ucast (drop_bit k N) AND LOW7) :: u32)) = take_bit (k + 7) N"
proof (rule bit_word_eqI)
  fix n assume "n < LENGTH(32)"
  then show "bit (take_bit k N OR scast (push_bit k (ucast (ucast (drop_bit k N) AND LOW7) :: u32))) n
      = bit (take_bit (k + 7) N) n"
    by (cases "n < k") (auto simp: bit_simps septet_bits signed_scast_eq dest: bit_imp_le_length)
qed

lemma drop_bit_nz_less: "drop_bit k (N :: u32) \<noteq> 0 \<Longrightarrow> k < 32"
  by (rule ccontr) (simp add: drop_bit_word_beyond)

lemma decode_num_loop_encode:
  fixes N :: u32
  assumes "num = drop_bit k N" and "num \<noteq> 0"
  shows "var_len_decode_num_loop (take_bit k N) c k (var_len_encode_num_loop num @ p)
           = Inr (N, c + length (var_len_encode_num_loop num))"
  using assms
proof (induction num arbitrary: k c rule: var_len_encode_num_loop.induct)
  case (1 num)
  note num = \<open>num = drop_bit k N\<close>
  have k: "k < 32" using 1 drop_bit_nz_less by blast
  have next': "drop_bit 7 num = drop_bit (k + 7) N"
    by (simp add: num add.commute)
  show ?case
  proof (cases "drop_bit 7 num = 0")
    case True
    then have "take_bit (k + 7) N = N"
      using next' by (metis bits_ident add.left_neutral push_bit_of_0)
    moreover have "var_len_encode_num_loop num = [ucast num AND LOW7]"
      using True \<open>num \<noteq> 0\<close>
      by (simp add: var_len_encode_num_loop.simps [of num] var_len_encode_num_loop.simps [of 0])
    ultimately show ?thesis
      using k decode_num_step [of k N] by (simp add: Let_def septet_or_high num)
  next
    case False
    then have enc: "var_len_encode_num_loop num
        = (ucast num AND LOW7 OR HIGH1) # var_len_encode_num_loop (drop_bit 7 num)"
      using \<open>num \<noteq> 0\<close> by (simp add: var_len_encode_num_loop.simps [of num] Let_def)
    from 1(1) [OF \<open>num \<noteq> 0\<close> refl refl refl next' False, of "c + 1"]
    show ?thesis
      unfolding enc using k decode_num_step [of k N] by (simp add: Let_def septet_or_high num)
  qed
qed

text \<open>The first byte of a non-zero number is not the byte that stands for zero.\<close>

lemma encode_num_loop_hd:
  fixes num :: u32
  assumes "num \<noteq> 0"
  shows "\<exists>b bs. var_len_encode_num_loop num = b # bs \<and> b \<noteq> 0"
proof (cases "drop_bit 7 num = 0")
  case False
  have "ucast num AND LOW7 OR HIGH1 \<noteq> 0"
  proof
    assume "ucast num AND LOW7 OR HIGH1 = 0"
    then have "bit (ucast num AND LOW7 OR HIGH1) 7 = bit (0 :: u8) 7" by simp
    then show False by (simp add: bit_simps septet_bits)
  qed
  with False assms show ?thesis
    by (simp add: var_len_encode_num_loop.simps [of num] Let_def)
next
  case True
  have "ucast num AND LOW7 \<noteq> 0"
  proof
    assume low: "ucast num AND LOW7 = 0"
    have "bit num n = bit (0 :: u32) n" if "n < 32" for n
    proof (cases "n < 7")
      case True
      then have "bit (ucast num AND LOW7) n = bit num n"
        by (simp add: bit_simps septet_bits)
      with low show ?thesis by simp
    next
      case False
      then have "bit (drop_bit 7 num) (n - 7) = bit num n" by (simp add: bit_simps)
      with True show ?thesis using \<open>drop_bit 7 num = 0\<close> by simp
    qed
    then have "num = 0" by (auto intro: bit_word_eqI)
    with assms show False by simp
  qed
  with True assms show ?thesis
    by (simp add: var_len_encode_num_loop.simps [of num] Let_def)
qed

section \<open>Properties\<close>

text \<open>\<^verbatim>\<open>var_len_decode_bytes\<close> inverts \<^verbatim>\<open>var_len_encode_bytes\<close>
  on every byte string, whatever follows the encoding in the buffer: it returns the string and
  exactly the number of bytes the encoder wrote, so it stops at its own delimiter even when the
  string holds delimiter and escape bytes itself.\<close>

theorem var_len_bytes_roundtrip:
  "var_len_decode_bytes (var_len_encode_bytes xs @ p)
     = Inr (xs, length xs + count_list xs 0 + 2)"
  using length_var_len_encode [of xs] by (simp add: escape_defs)

text \<open>On 32-bit numbers \<^verbatim>\<open>var_len_decode_num\<close> inverts
  \<^verbatim>\<open>var_len_encode_num\<close> for every value, with any bytes following, and consumes exactly
  what was written.\<close>

theorem var_len_num_roundtrip:
  fixes N :: u32
  shows "var_len_decode_num (var_len_encode_num N @ p) = Inr (N, length (var_len_encode_num N))"
proof (cases "N = 0")
  case True
  then show ?thesis by (simp add: var_len_encode_num_def var_len_decode_num_def)
next
  case False
  then have loop: "var_len_decode_num_loop 0 0 0 (var_len_encode_num_loop N @ p)
      = Inr (N, length (var_len_encode_num_loop N))"
    using decode_num_loop_encode [of N 0 N 0 p] by simp
  from False have "\<exists>b bs. var_len_encode_num_loop N = b # bs \<and> b \<noteq> 0"
    by (rule encode_num_loop_hd)
  with False loop show ?thesis
    by (auto simp: var_len_encode_num_def var_len_decode_num_def)
qed

text \<open>On 64-bit numbers the decoder is wrong from \<open>2 ^ 31\<close> on: the 32-bit
  \<^verbatim>\<open>int\<close> it shifts in is sign-extended, so \<open>2 ^ 31\<close> comes back as
  \<open>0xFFFFFFFF80000000\<close>, and from \<open>2 ^ 35\<close> on the shift amount is undefined.\<close>

theorem var_len_num_64_bit_broken:
  "var_len_decode_num (var_len_encode_num (2 ^ 31 :: 64 word))
     = Inr (0xFFFFFFFF80000000 :: 64 word, 5)
   \<and> var_len_decode_num (var_len_encode_num (2 ^ 35 :: 64 word))
     = (Inl Undefined :: (64 word \<times> nat) result)"
  by code_simp

end
