(* ===== verification/Circular_Queue.thy ===== *)
theory Circular_Queue
  imports Prelude "HOL-Library.Sublist"
begin

text \<open>
  The ring buffer \<^verbatim>\<open>circular_queue\<close> of \<^verbatim>\<open>src/utils/circular_queue.h\<close>, the listener
  \<^verbatim>\<open>recv_queue\<close> that stores what it receives in one, and the asynchronous listener
  \<^verbatim>\<open>async_recv_listener\<close> whose worker thread drains one.  The ring buffer is shown to
  implement a bounded double-ended queue (locale \<open>bounded_deque\<close>, interpreted on the code's
  operations); the clients' lemmas are proved from that contract only.
\<close>

section \<open>The ring buffer\<close>

text \<open>\<^verbatim>\<open>BUFF_SZ\<close> is the length of the array.\<close>

record 'a circular_queue =
  buff :: "'a list"
  base_in :: nat
  count :: nat

abbreviation BUFF_SZ :: "'a circular_queue \<Rightarrow> nat" where
  "BUFF_SZ q \<equiv> length (buff q)"

definition is_empty :: "'a circular_queue \<Rightarrow> bool" where
  "is_empty q \<longleftrightarrow> count q = 0"

definition is_full :: "'a circular_queue \<Rightarrow> bool" where
  "is_full q \<longleftrightarrow> count q = BUFF_SZ q"

text \<open>
  \<^verbatim>\<open>front\<close> and \<^verbatim>\<open>rear\<close> poll until the queue is non-empty or the time is
  over.  The list holds the states of the queue that the successive polls see (other threads push
  in between); it ends when the time-out strikes.
\<close>

fun front :: "'a circular_queue list \<Rightarrow> 'a option" where
  "front [] = None"
| "front (q # later) = (if \<not> is_empty q then Some (buff q ! base_in q) else front later)"

fun rear :: "'a circular_queue list \<Rightarrow> 'a option" where
  "rear [] = None"
| "rear (q # later) =
     (if \<not> is_empty q then Some (buff q ! ((base_in q + count q - 1) mod BUFF_SZ q)) else rear later)"

definition pop_front :: "'a circular_queue \<Rightarrow> bool \<times> 'a circular_queue" where
  "pop_front q =
     (if is_empty q then (False, q)
      else (True, q\<lparr>base_in := (base_in q + 1) mod BUFF_SZ q, count := count q - 1\<rparr>))"

definition pop_back :: "'a circular_queue \<Rightarrow> bool \<times> 'a circular_queue" where
  "pop_back q = (if is_empty q then (False, q) else (True, q\<lparr>count := count q - 1\<rparr>))"

definition clear :: "'a circular_queue \<Rightarrow> 'a circular_queue" where
  "clear q = q\<lparr>count := 0\<rparr>"

definition push_back :: "'a \<Rightarrow> 'a circular_queue \<Rightarrow> bool \<times> 'a circular_queue" where
  "push_back x q =
     (if is_full q then (False, q)
      else (True, q\<lparr>buff := (buff q)[(base_in q + count q) mod BUFF_SZ q := x], count := count q + 1\<rparr>))"

definition push_front :: "'a \<Rightarrow> 'a circular_queue \<Rightarrow> bool \<times> 'a circular_queue" where
  "push_front x q =
     (if is_full q then (False, q)
      else let b = (base_in q + BUFF_SZ q - 1) mod BUFF_SZ q
           in (True, q\<lparr>base_in := b, buff := (buff q)[b := x], count := count q + 1\<rparr>))"

definition cq_inv :: "'a circular_queue \<Rightarrow> bool" where
  "cq_inv q \<longleftrightarrow> base_in q < BUFF_SZ q \<and> count q \<le> BUFF_SZ q"

text \<open>The contents, first element first: the slots \<^verbatim>\<open>[base_in, base_in + count)\<close> with
  circular indexes.\<close>

definition contents :: "'a circular_queue \<Rightarrow> 'a list" where
  "contents q = map (\<lambda>i. buff q ! ((base_in q + i) mod BUFF_SZ q)) [0..<count q]"

definition empty_queue :: "'a list \<Rightarrow> 'a circular_queue" where
  "empty_queue init = \<lparr>buff = init, base_in = 0, count = 0\<rparr>"

lemma length_contents [simp]: "length (contents q) = count q"
  by (simp add: contents_def)

lemma contents_nth:
  "i < count q \<Longrightarrow> contents q ! i = buff q ! ((base_in q + i) mod BUFF_SZ q)"
  by (simp add: contents_def)

lemma ring_index_le:
  assumes "i \<le> j" and "j < n" and "(b + i) mod n = (b + j) mod n"
  shows "i = (j::nat)"
proof -
  have "n dvd (b + j) - (b + i)"
    using assms mod_eq_dvd_iff_nat [of "b + i" "b + j" n] by simp
  then have "n dvd j - i" by simp
  moreover have "j - i < n" using assms by simp
  ultimately have "j - i = 0" using nat_dvd_not_less by blast
  with assms(1) show ?thesis by simp
qed

lemma ring_index_inj:
  "i < n \<Longrightarrow> j < n \<Longrightarrow> (b + i) mod n = (b + j) mod n \<Longrightarrow> i = (j::nat)"
  using ring_index_le [of i j n b] ring_index_le [of j i n b] by (cases "i \<le> j") auto

lemma contents_push_back:
  assumes "cq_inv q" and "\<not> is_full q"
  shows "contents (snd (push_back x q)) = contents q @ [x]"
proof (rule nth_equalityI)
  let ?n = "BUFF_SZ q"
  have n: "0 < ?n" "count q < ?n" using assms by (auto simp: cq_inv_def is_full_def)
  fix i assume "i < length (contents (snd (push_back x q)))"
  then have i: "i \<le> count q" using assms by (simp add: push_back_def split: if_splits)
  show "contents (snd (push_back x q)) ! i = (contents q @ [x]) ! i"
  proof (cases "i = count q")
    case True
    then show ?thesis using assms n by (simp add: push_back_def contents_nth nth_append)
  next
    case False
    with i n have "(base_in q + i) mod ?n \<noteq> (base_in q + count q) mod ?n"
      using ring_index_inj [of i ?n "count q" "base_in q"] by auto
    with False i assms show ?thesis by (simp add: push_back_def contents_nth nth_append)
  qed
qed (use assms in \<open>simp add: push_back_def\<close>)

lemma contents_push_front:
  assumes "cq_inv q" and "\<not> is_full q"
  shows "contents (snd (push_front x q)) = x # contents q"
proof (rule nth_equalityI)
  let ?n = "BUFF_SZ q" and ?b = "(base_in q + BUFF_SZ q - 1) mod BUFF_SZ q"
  have n: "0 < ?n" "count q < ?n" using assms by (auto simp: cq_inv_def is_full_def)
  have succ: "(?b + Suc i) mod ?n = (base_in q + i) mod ?n" for i
  proof -
    have "(?b + Suc i) mod ?n = (base_in q + ?n - 1 + Suc i) mod ?n"
      by (rule mod_add_left_eq)
    also have "\<dots> = (base_in q + i + ?n) mod ?n" using n by (simp add: algebra_simps)
    finally show ?thesis by simp
  qed
  fix i assume "i < length (contents (snd (push_front x q)))"
  then have i: "i \<le> count q" using assms by (simp add: push_front_def Let_def split: if_splits)
  show "contents (snd (push_front x q)) ! i = (x # contents q) ! i"
  proof (cases i)
    case 0
    then show ?thesis using assms n by (simp add: push_front_def Let_def contents_nth)
  next
    case (Suc j)
    with i n have "(?b + Suc j) mod ?n \<noteq> (?b + 0) mod ?n"
      using ring_index_inj [of "Suc j" ?n 0 ?b] by auto
    then have "?b \<noteq> (base_in q + j) mod ?n" unfolding succ by (metis add.right_neutral mod_mod_trivial)
    with Suc i assms succ [of j] show ?thesis
      by (simp add: push_front_def Let_def contents_nth del: add_Suc_right)
  qed
qed (use assms in \<open>simp add: push_front_def Let_def\<close>)

lemma contents_pop_front:
  assumes "cq_inv q" and "\<not> is_empty q"
  shows "contents (snd (pop_front q)) = tl (contents q)"
proof (rule nth_equalityI)
  fix i assume "i < length (contents (snd (pop_front q)))"
  then have "i < count q - 1" using assms by (simp add: pop_front_def)
  then show "contents (snd (pop_front q)) ! i = tl (contents q) ! i"
    using assms by (simp add: pop_front_def contents_nth nth_tl mod_add_left_eq)
qed (use assms in \<open>simp add: pop_front_def\<close>)

lemma contents_pop_back:
  assumes "\<not> is_empty q"
  shows "contents (snd (pop_back q)) = butlast (contents q)"
  using assms by (intro nth_equalityI) (auto simp: pop_back_def contents_nth nth_butlast)

lemma contents_clear [simp]: "contents (clear q) = []"
  by (simp add: clear_def contents_def)

lemma contents_empty_queue [simp]: "contents (empty_queue init) = []"
  by (simp add: empty_queue_def contents_def)

lemma contents_Nil_iff: "contents q = [] \<longleftrightarrow> is_empty q"
  by (metis is_empty_def length_0_conv length_contents)

lemma front_hd: "cq_inv q \<Longrightarrow> \<not> is_empty q \<Longrightarrow> buff q ! base_in q = hd (contents q)"
  using contents_Nil_iff [of q] contents_nth [of 0 q]
  by (simp add: hd_conv_nth cq_inv_def is_empty_def)

lemma rear_last:
  "cq_inv q \<Longrightarrow> \<not> is_empty q \<Longrightarrow>
   buff q ! ((base_in q + count q - 1) mod BUFF_SZ q) = last (contents q)"
  using contents_Nil_iff [of q] contents_nth [of "count q - 1" q]
  by (simp add: last_conv_nth is_empty_def)

text \<open>Every operation keeps the index bounds, whatever it is called on.\<close>

lemma cq_inv_ops:
  assumes "cq_inv q"
  shows "cq_inv (snd (push_back x q))" "cq_inv (snd (push_front x q))"
    "cq_inv (snd (pop_front q))" "cq_inv (snd (pop_back q))" "cq_inv (clear q)"
  using assms
  by (auto simp: cq_inv_def push_back_def push_front_def pop_front_def pop_back_def clear_def
      is_full_def is_empty_def Let_def intro!: mod_less_divisor)

lemma BUFF_SZ_ops [simp]:
  "BUFF_SZ (snd (push_back x q)) = BUFF_SZ q" "BUFF_SZ (snd (pop_front q)) = BUFF_SZ q"
  by (simp_all add: push_back_def pop_front_def)

section \<open>The contract of a bounded queue\<close>

locale bounded_queue =
  fixes push :: "'a \<Rightarrow> 'q \<Rightarrow> bool \<times> 'q"
    and pop :: "'q \<Rightarrow> bool \<times> 'q"
    and list_of :: "'q \<Rightarrow> 'a list"
    and cap :: "'q \<Rightarrow> nat"
    and invar :: "'q \<Rightarrow> bool"
  assumes push_room: "invar q \<Longrightarrow> length (list_of q) < cap q \<Longrightarrow>
            fst (push x q) \<and> list_of (snd (push x q)) = list_of q @ [x]"
    and push_full: "invar q \<Longrightarrow> \<not> length (list_of q) < cap q \<Longrightarrow> push x q = (False, q)"
    and pop_some: "invar q \<Longrightarrow> list_of q \<noteq> [] \<Longrightarrow> fst (pop q) \<and> list_of (snd (pop q)) = tl (list_of q)"
    and pop_none: "invar q \<Longrightarrow> list_of q = [] \<Longrightarrow> pop q = (False, q)"
    and invar_push: "invar q \<Longrightarrow> invar (snd (push x q))"
    and invar_pop: "invar q \<Longrightarrow> invar (snd (pop q))"
    and cap_push: "cap (snd (push x q)) = cap q"
    and cap_pop: "cap (snd (pop q)) = cap q"
    and len_cap: "invar q \<Longrightarrow> length (list_of q) \<le> cap q"
begin

lemma invar_pushes: "invar q \<Longrightarrow> invar (fold (\<lambda>x q. snd (push x q)) xs q)"
  by (induction xs arbitrary: q) (auto simp: invar_push)

text \<open>Pushing a stream of elements keeps a prefix of it: the newest are dropped once the queue is
  full, never an element already stored.\<close>

lemma list_of_pushes:
  "invar q \<Longrightarrow> list_of (fold (\<lambda>x q. snd (push x q)) xs q)
     = list_of q @ take (cap q - length (list_of q)) xs"
proof (induction xs arbitrary: q)
  case (Cons x xs)
  show ?case
  proof (cases "length (list_of q) < cap q")
    case True
    with Cons show ?thesis
      by (simp add: invar_push push_room cap_push take_Cons' Suc_diff_Suc)
  next
    case False
    with Cons show ?thesis by (simp add: push_full)
  qed
qed simp

end

interpretation ring: bounded_queue push_back pop_front contents "\<lambda>q. BUFF_SZ q" cq_inv
proof unfold_locales
  fix q :: "'a circular_queue" and x
  assume inv: "cq_inv q"
  then show "\<not> length (contents q) < BUFF_SZ q \<Longrightarrow> push_back x q = (False, q)"
    by (simp add: push_back_def is_full_def cq_inv_def)
  show "length (contents q) < BUFF_SZ q \<Longrightarrow>
      fst (push_back x q) \<and> contents (snd (push_back x q)) = contents q @ [x]"
    using inv by (auto simp: contents_push_back is_full_def) (simp add: push_back_def is_full_def)
  show "contents q \<noteq> [] \<Longrightarrow> fst (pop_front q) \<and> contents (snd (pop_front q)) = tl (contents q)"
    using inv by (simp add: contents_Nil_iff contents_pop_front) (simp add: pop_front_def)
  show "contents q = [] \<Longrightarrow> pop_front q = (False, q)"
    by (simp add: contents_Nil_iff pop_front_def)
  show "length (contents q) \<le> BUFF_SZ q" using inv by (simp add: cq_inv_def)
qed (simp_all add: cq_inv_ops)

section \<open>Listeners built on the queue\<close>

text \<open>\<^verbatim>\<open>recv_queue::handle_recv\<close> stores what it receives; the result of
  \<^verbatim>\<open>push_back\<close> is ignored.\<close>

definition recv_queue_handle_recv :: "'a \<Rightarrow> 'a circular_queue \<Rightarrow> 'a circular_queue" where
  "recv_queue_handle_recv x q = snd (push_back x q)"

text \<open>A queue behind a filter \<open>rcv\<close> on what arrives.\<close>

fun fill_with :: "('f \<Rightarrow> 'a option result) \<Rightarrow> 'f list \<Rightarrow> 'a circular_queue \<Rightarrow> 'a circular_queue result" where
  "fill_with rcv [] q = Inr q"
| "fill_with rcv (f # fs) q =
     bind_r (rcv f) (\<lambda>r. fill_with rcv fs (case r of None \<Rightarrow> q | Some h \<Rightarrow> recv_queue_handle_recv h q))"

definition received_by :: "('f \<Rightarrow> 'a option result) \<Rightarrow> 'f list \<Rightarrow> 'a list" where
  "received_by rcv fs = concat (map (\<lambda>f. case rcv f of Inr (Some h) \<Rightarrow> [h] | _ \<Rightarrow> []) fs)"

definition accepts_all :: "('f \<Rightarrow> 'a option result) \<Rightarrow> 'f list \<Rightarrow> bool" where
  "accepts_all rcv fs \<longleftrightarrow> list_all (\<lambda>f. case rcv f of Inl _ \<Rightarrow> False | Inr _ \<Rightarrow> True) fs"

lemma received_by_simps [simp]:
  "received_by rcv [] = []"
  "received_by rcv (f # fs) = (case rcv f of Inr (Some h) \<Rightarrow> h # received_by rcv fs | _ \<Rightarrow> received_by rcv fs)"
  "received_by rcv (as @ bs) = received_by rcv as @ received_by rcv bs"
  by (auto simp: received_by_def split: sum.split option.split)

lemma accepts_all_simps [simp]:
  "accepts_all rcv []" "accepts_all rcv (f # fs) \<longleftrightarrow> (\<exists>r. rcv f = Inr r) \<and> accepts_all rcv fs"
  "accepts_all rcv (as @ bs) \<longleftrightarrow> accepts_all rcv as \<and> accepts_all rcv bs"
  by (auto simp: accepts_all_def split: sum.splits)

lemma fill_with_spec:
  "accepts_all rcv fs \<Longrightarrow> cq_inv q \<Longrightarrow>
   \<exists>q'. fill_with rcv fs q = Inr q' \<and> cq_inv q' \<and> BUFF_SZ q' = BUFF_SZ q
     \<and> contents q' = contents q @ take (BUFF_SZ q - count q) (received_by rcv fs)"
proof (induction fs arbitrary: q)
  case (Cons f fs)
  then obtain r where r: "rcv f = Inr r" by auto
  show ?case
  proof (cases r)
    case None
    then show ?thesis using Cons r by simp
  next
    case (Some h)
    let ?q = "recv_queue_handle_recv h q"
    have inv: "cq_inv ?q" "BUFF_SZ ?q = BUFF_SZ q" using Cons.prems by (simp_all add: recv_queue_handle_recv_def cq_inv_ops)
    have c: "contents ?q = contents q @ take (BUFF_SZ q - count q) [h]"
      using ring.list_of_pushes [OF Cons.prems(2), of "[h]"] by (simp add: recv_queue_handle_recv_def)
    then have n: "count ?q = count q + length (take (BUFF_SZ q - count q) [h])" by (metis length_append length_contents)
    from Cons.IH [OF _ inv(1)] Cons.prems(1) obtain q' where q': "fill_with rcv fs ?q = Inr q'" "cq_inv q'"
      "BUFF_SZ q' = BUFF_SZ q" "contents q' = contents ?q @ take (BUFF_SZ q - count ?q) (received_by rcv fs)" using inv(2) by auto
    then have "contents q' = contents q @ take (BUFF_SZ q - count q) (h # received_by rcv fs)"
      using c n by (cases "count q < BUFF_SZ q") (auto simp: take_Cons')
    then show ?thesis using q' r Some by simp
  qed
qed simp

lemma front_cases:
  assumes "cq_inv q"
  obtains (empty) "front [q] = None" "contents q = []"
  | (some) x xs where "front [q] = Some x" "contents q = x # xs" "contents (snd (pop_front q)) = xs"
      "cq_inv (snd (pop_front q))" "BUFF_SZ (snd (pop_front q)) = BUFF_SZ q"
proof (cases "is_empty q")
  case True
  then show ?thesis using that(1) by (simp add: contents_Nil_iff)
next
  case False
  then have "contents q \<noteq> []" by (simp add: contents_Nil_iff)
  then obtain x xs where c: "contents q = x # xs" by (cases "contents q") auto
  then show ?thesis
    using that(2) False front_hd [OF assms False] contents_pop_front [OF assms False] cq_inv_ops [OF assms] by simp
qed

text \<open>
  \<^verbatim>\<open>async_recv_listener\<close>: a producer calls \<^verbatim>\<open>handle_recv\<close>, a worker thread takes
  the oldest element and forwards it to the current listener, if there is one.  Every body holds
  the queue's mutex from its first queue access to its end, so each is one atomic step; the worker
  step is enabled when \<^verbatim>\<open>wake_condition\<close> holds and the stop flag is down.
  \<open>forwarded\<close> logs the calls of the listeners' \<^verbatim>\<open>handle_recv\<close>.
\<close>

record ('a, 'l) async_recv_listener =
  queue :: "'a circular_queue"
  listener :: "'l option"
  stop_flag :: bool
  forwarded :: "('l \<times> 'a) list"

definition async_init :: "'a list \<Rightarrow> ('a, 'l) async_recv_listener" where
  "async_init init = \<lparr>queue = empty_queue init, listener = None, stop_flag = False, forwarded = []\<rparr>"

definition async_handle_recv ::
    "'a \<Rightarrow> ('a, 'l) async_recv_listener \<Rightarrow> ('a, 'l) async_recv_listener" where
  "async_handle_recv x s = (if is_full (queue s) then s else s\<lparr>queue := snd (push_back x (queue s))\<rparr>)"

definition async_worker :: "('a, 'l) async_recv_listener \<Rightarrow> ('a, 'l) async_recv_listener" where
  "async_worker s =
     (if stop_flag s \<or> is_empty (queue s) then s
      else case front [queue s] of
             None \<Rightarrow> s
           | Some data \<Rightarrow>
               (let s' = s\<lparr>queue := snd (pop_front (queue s))\<rparr>
                in case listener s of None \<Rightarrow> s'
                   | Some l \<Rightarrow> s'\<lparr>forwarded := forwarded s @ [(l, data)]\<rparr>))"

definition async_set_recv_listener ::
    "'l option \<Rightarrow> ('a, 'l) async_recv_listener \<Rightarrow> ('a, 'l) async_recv_listener" where
  "async_set_recv_listener l s = (case l of None \<Rightarrow> s | Some _ \<Rightarrow> s\<lparr>listener := l\<rparr>)"

definition async_remove_listener ::
    "('a, 'l) async_recv_listener \<Rightarrow> ('a, 'l) async_recv_listener" where
  "async_remove_listener s = s\<lparr>listener := None\<rparr>"

definition async_stop :: "('a, 'l) async_recv_listener \<Rightarrow> ('a, 'l) async_recv_listener" where
  "async_stop s = s\<lparr>stop_flag := True\<rparr>"

text \<open>Threads interleave these steps freely.  The ghost lists record what was accepted into the
  queue and what the worker has taken out of it, with the listener that was set then.  When the worker makes a step is
  left open: \<^verbatim>\<open>handle_recv\<close> notifies it without holding \<^verbatim>\<open>awake_mtx\<close>, so that a
  notification may fall between its test and its wait, and it then sleeps until the next element arrives.\<close>

inductive async_run ::
    "('a, 'l) async_recv_listener \<Rightarrow> 'a list \<Rightarrow> ('l option \<times> 'a) list \<Rightarrow> bool" where
  init: "init \<noteq> [] \<Longrightarrow> async_run (async_init init) [] []"
| recv: "async_run s acc taken \<Longrightarrow>
    async_run (async_handle_recv x s) (if is_full (queue s) then acc else acc @ [x]) taken"
| work: "async_run s acc taken \<Longrightarrow> \<not> stop_flag s \<Longrightarrow> front [queue s] = Some x \<Longrightarrow>
    async_run (async_worker s) acc (taken @ [(listener s, x)])"
| set: "async_run s acc taken \<Longrightarrow> async_run (async_set_recv_listener l s) acc taken"
| remove: "async_run s acc taken \<Longrightarrow> async_run (async_remove_listener s) acc taken"
| stop: "async_run s acc taken \<Longrightarrow> async_run (async_stop s) acc taken"

text \<open>The calls that hand what was taken to a listener.\<close>

definition handed :: "('l option \<times> 'a) list \<Rightarrow> ('l \<times> 'a) list" where
  "handed taken = concat (map (\<lambda>(l, x). case l of None \<Rightarrow> [] | Some l \<Rightarrow> [(l, x)]) taken)"

definition async_inv :: "('a, 'l) async_recv_listener \<Rightarrow> 'a list \<Rightarrow> ('l option \<times> 'a) list \<Rightarrow> bool" where
  "async_inv s acc taken \<longleftrightarrow>
     cq_inv (queue s) \<and> acc = map snd taken @ contents (queue s) \<and> forwarded s = handed taken"

lemma handed_simps [simp]:
  "handed [] = []" "handed (as @ bs) = handed as @ handed bs"
  "handed [(l, x)] = (case l of None \<Rightarrow> [] | Some l \<Rightarrow> [(l, x)])"
  by (simp_all add: handed_def)

lemma subseq_handed: "subseq (map snd (handed taken)) (map snd taken)"
  by (induction taken) (auto simp: handed_def split: option.splits)

lemma front_singleton: "front [q] = Some x \<longleftrightarrow> \<not> is_empty q \<and> x = buff q ! base_in q"
  by auto

lemma async_worker_queue:
  "\<not> stop_flag s \<Longrightarrow> front [queue s] = Some x \<Longrightarrow>
   queue (async_worker s) = snd (pop_front (queue s))
   \<and> forwarded (async_worker s) = forwarded s @ (case listener s of None \<Rightarrow> [] | Some l \<Rightarrow> [(l, x)])"
  by (auto simp: async_worker_def Let_def split: option.splits if_splits)

lemma async_run_inv: "async_run s acc taken \<Longrightarrow> async_inv s acc taken"
proof (induction rule: async_run.induct)
  case (init init)
  then show ?case by (simp add: async_inv_def async_init_def empty_queue_def cq_inv_def contents_def)
next
  case (recv s acc taken x)
  then show ?case
    by (simp add: async_inv_def async_handle_recv_def contents_push_back cq_inv_ops)
next
  case (work s acc taken x)
  then have x: "contents (queue s) = x # contents (snd (pop_front (queue s)))"
    by (metis async_inv_def contents_Nil_iff contents_pop_front front_hd front_singleton list.collapse)
  with x work async_worker_queue [OF work(2,3)] show ?case
    by (simp add: async_inv_def cq_inv_ops)
qed (auto simp: async_inv_def async_set_recv_listener_def async_remove_listener_def async_stop_def
      split: option.splits)

section \<open>Properties\<close>

text \<open>C24: The ring buffer implements a bounded double-ended queue: on every queue whose indexes
  are in range, each operation acts on the contents as the corresponding list operation; pushing returns
  false and changes nothing when the queue is full and returns true otherwise, popping does the same when it is
  empty; the indexes stay in range.\<close>

theorem circular_queue_refines_deque:
  assumes "cq_inv q"
  shows "push_back x q = (if length (contents q) = BUFF_SZ q then (False, q) else (True, snd (push_back x q)))
    \<and> push_front x q = (if length (contents q) = BUFF_SZ q then (False, q) else (True, snd (push_front x q)))
    \<and> pop_front q = (if contents q = [] then (False, q) else (True, snd (pop_front q)))
    \<and> pop_back q = (if contents q = [] then (False, q) else (True, snd (pop_back q)))
    \<and> contents (snd (push_back x q)) = (if length (contents q) = BUFF_SZ q then contents q else contents q @ [x])
    \<and> contents (snd (push_front x q)) = (if length (contents q) = BUFF_SZ q then contents q else x # contents q)
    \<and> contents (snd (pop_front q)) = tl (contents q)
    \<and> contents (snd (pop_back q)) = butlast (contents q)
    \<and> contents (clear q) = []
    \<and> front [q] = (if contents q = [] then None else Some (hd (contents q)))
    \<and> rear [q] = (if contents q = [] then None else Some (last (contents q)))
    \<and> (\<forall>q' \<in> {snd (push_back x q), snd (push_front x q), snd (pop_front q), snd (pop_back q), clear q}. cq_inv q')"
proof -
  have full: "is_full q \<Longrightarrow> push_back x q = (False, q) \<and> push_front x q = (False, q)"
    by (simp add: push_back_def push_front_def)
  have empty: "is_empty q \<Longrightarrow> pop_front q = (False, q) \<and> pop_back q = (False, q)"
    by (simp add: pop_front_def pop_back_def)
  have "push_back x q = (\<not> is_full q, snd (push_back x q)) \<and> push_front x q = (\<not> is_full q, snd (push_front x q))
      \<and> pop_front q = (\<not> is_empty q, snd (pop_front q)) \<and> pop_back q = (\<not> is_empty q, snd (pop_back q))"
    by (simp add: push_back_def push_front_def pop_front_def pop_back_def Let_def)
  moreover have "buff q \<noteq> []" using assms by (auto simp: cq_inv_def)
  ultimately show ?thesis
    using assms full empty contents_push_back [OF assms, of x] contents_push_front [OF assms, of x]
      contents_pop_front [OF assms] contents_pop_back [of q] front_hd [OF assms] rear_last [OF assms]
      cq_inv_ops [OF assms] contents_Nil_iff [of q] is_empty_def [of q]
    by (cases "is_full q"; cases "is_empty q") (simp_all add: is_full_def)
qed

theorem circular_queue_refines_deque_witness:
  "cq_inv \<lparr>buff = [7, 8, 9 :: nat], base_in = 2, count = 2\<rparr>
   \<and> contents (snd (push_back 5 \<lparr>buff = [7, 8, 9 :: nat], base_in = 2, count = 2\<rparr>)) = [9, 7, 5]"
proof -
  let ?q = "\<lparr>buff = [7, 8, 9 :: nat], base_in = 2, count = 2\<rparr>"
  have inv: "cq_inv ?q" by (simp add: cq_inv_def)
  have "contents ?q = [9, 7]" by code_simp
  with inv circular_queue_refines_deque [OF inv, of 5] show ?thesis by simp
qed

text \<open>A \<^verbatim>\<open>recv_queue\<close> that receives a stream of messages holds, behind what it already
  held, the longest prefix of the stream that fits: messages that arrive at a full queue are
  dropped, a stored message is never overwritten or reordered.\<close>

theorem recv_queue_keeps_prefix:
  assumes "cq_inv q"
  shows "contents (fold recv_queue_handle_recv xs q)
           = contents q @ take (BUFF_SZ q - length (contents q)) xs"
  using ring.list_of_pushes [OF assms, of xs] by (simp add: recv_queue_handle_recv_def [abs_def])

theorem recv_queue_keeps_prefix_witness:
  "cq_inv (empty_queue [0, 0 :: nat])
   \<and> contents (fold recv_queue_handle_recv [1, 2, 3] (empty_queue [0, 0 :: nat])) = [1, 2]"
proof -
  have inv: "cq_inv (empty_queue [0, 0 :: nat])" by (simp add: cq_inv_def empty_queue_def)
  show ?thesis
    using inv recv_queue_keeps_prefix [OF inv, of "[1, 2, 3]"] by (simp add: empty_queue_def contents_def)
qed

text \<open>C29: In every interleaving of producers, the worker, listener changes and the stop of an
  \<^verbatim>\<open>async_recv_listener\<close>, the elements accepted into the queue are those the worker took, in
  order, followed by those still queued; and the calls of listeners are exactly one for each element taken while a
  listener was set, in order, of that listener with that element: elements taken while none is set are lost.\<close>

theorem async_fifo:
  assumes "async_run s acc taken"
  shows "acc = map snd taken @ contents (queue s)
    \<and> forwarded s = concat (map (\<lambda>(l, x). case l of None \<Rightarrow> [] | Some l \<Rightarrow> [(l, x)]) taken)"
  using async_run_inv [OF assms] by (simp add: async_inv_def handed_def)

theorem async_fifo_witness:
  "forwarded (async_worker (async_set_recv_listener (Some CHR ''l'') (async_handle_recv 3 (async_init [0, 0 :: nat])))) = [(CHR ''l'', 3)]"
proof -
  let ?s = "async_set_recv_listener (Some CHR ''l'') (async_handle_recv 3 (async_init [0, 0 :: nat]))"
  have "async_run ?s [3] []"
    using async_run.set [OF async_run.recv [OF async_run.init [of "[0, 0 :: nat]"], of 3]]
    by (simp add: async_init_def empty_queue_def is_full_def)
  moreover have "\<not> stop_flag ?s" "front [queue ?s] = Some 3" "listener ?s = Some CHR ''l''"
    by (simp_all add: async_set_recv_listener_def async_handle_recv_def async_init_def empty_queue_def is_full_def
        is_empty_def push_back_def)
  ultimately have "async_run (async_worker ?s) [3] [(Some CHR ''l'', 3)]"
    using async_run.work [of ?s "[3]" "[]" 3] by simp
  from async_fifo [OF this] show ?thesis by simp
qed

end
