(* ===== verification/Trie.thy ===== *)
theory Trie
  imports Prelude
begin

text \<open>
  The generic trie of \<^verbatim>\<open>src/utils/trie.h\<close>: a node has a mark, a fixed array of
  \<^verbatim>\<open>RANGE\<close> child pointers, the number of children and a key.
  \<^verbatim>\<open>ASSIGN_INDEX\<close> maps a character to an array index; an index outside the array is undefined
  behaviour and is the fault \<open>Undefined\<close> here.  The trie is shown to be a dictionary keyed by
  the non-empty words whose characters have an index in range (locale \<open>dictionary\<close>).
  \<^verbatim>\<open>remove_word\<close> calls \<^verbatim>\<open>count_children\<close>, which no class of the repository
  declares, so it cannot be instantiated and has no model.
\<close>

datatype 'k trie_node =
  Node (marked: bool) (children: "'k trie_node option list") (child_count: nat) (key: 'k)

section \<open>Operations\<close>

definition new_node :: "nat \<Rightarrow> 'k \<Rightarrow> 'k trie_node" where
  "new_node RANGE k = Node False (replicate RANGE None) 0 k"

definition get_child :: "('c \<Rightarrow> nat) \<Rightarrow> 'k trie_node \<Rightarrow> 'c \<Rightarrow> 'k trie_node option result" where
  "get_child assign t c =
     (if assign c < length (children t) then Inr (children t ! assign c) else Inl Undefined)"

text \<open>\<^verbatim>\<open>create_child\<close> returns the child; the parent now points to it.\<close>

definition create_child ::
    "('c \<Rightarrow> nat) \<Rightarrow> 'k \<Rightarrow> 'k trie_node \<Rightarrow> 'c \<Rightarrow> ('k trie_node \<times> 'k trie_node) result" where
  "create_child assign dk t c =
     (let i = assign c; R = length (children t) in
      if \<not> i < R then Inl Undefined
      else case children t ! i of
             Some child \<Rightarrow> Inr (t, child)
           | None \<Rightarrow> let child = new_node R dk
                     in Inr (Node (marked t) ((children t)[i := Some child]) (child_count t + 1) (key t), child))"

definition remove_child :: "('c \<Rightarrow> nat) \<Rightarrow> 'k trie_node \<Rightarrow> 'c \<Rightarrow> 'k trie_node result" where
  "remove_child assign t c =
     (let i = assign c in
      if \<not> i < length (children t) then Inl Undefined
      else case children t ! i of
             None \<Rightarrow> Inr t
           | Some _ \<Rightarrow> Inr (Node (marked t) ((children t)[i := None]) (child_count t - 1) (key t)))"

text \<open>\<^verbatim>\<open>remove_all_children\<close>, the destructor's body: the children it deletes, which are
  those before the first null pointer.\<close>

fun remove_all_children :: "'k trie_node option list \<Rightarrow> 'k trie_node list" where
  "remove_all_children [] = []"
| "remove_all_children (None # cs) = []"
| "remove_all_children (Some child # cs) = child # remove_all_children cs"

fun search :: "('c \<Rightarrow> nat) \<Rightarrow> 'k trie_node \<Rightarrow> 'c list \<Rightarrow> 'k trie_node option result" where
  "search assign curr_node [] = Inr (Some curr_node)"
| "search assign curr_node (c # str) =
     bind_r (get_child assign curr_node c)
       (\<lambda>child. case child of None \<Rightarrow> Inr None | Some n \<Rightarrow> search assign n str)"

text \<open>
  \<^verbatim>\<open>add_word\<close> returns a pointer to the node of the word; \<open>f\<close> is what the caller then does to
  that node.  On the empty word the pointer is null, and every caller dereferences it.
\<close>

fun add_word_loop ::
    "('c \<Rightarrow> nat) \<Rightarrow> 'k \<Rightarrow> 'k trie_node \<Rightarrow> 'c list \<Rightarrow> ('k trie_node \<Rightarrow> 'k trie_node) \<Rightarrow> 'k trie_node result" where
  "add_word_loop assign dk curr_node [] f =
     Inr (f (Node True (children curr_node) (child_count curr_node) (key curr_node)))"
| "add_word_loop assign dk curr_node (c # str) f =
     bind_r (create_child assign dk curr_node c)
       (\<lambda>(curr', child). bind_r (add_word_loop assign dk child str f)
          (\<lambda>child'. Inr (Node (marked curr') ((children curr')[assign c := Some child'])
                          (child_count curr') (key curr'))))"

definition add_word ::
    "('c \<Rightarrow> nat) \<Rightarrow> 'k \<Rightarrow> 'k trie_node \<Rightarrow> 'c list \<Rightarrow> ('k trie_node \<Rightarrow> 'k trie_node) \<Rightarrow> 'k trie_node result" where
  "add_word assign dk t str f = (if str = [] then Inl Null_deref else add_word_loop assign dk t str f)"

definition contains_word :: "('c \<Rightarrow> nat) \<Rightarrow> 'k trie_node \<Rightarrow> 'c list \<Rightarrow> bool result" where
  "contains_word assign t str =
     bind_r (search assign t str) (\<lambda>n. Inr (case n of None \<Rightarrow> False | Some n \<Rightarrow> marked n))"

definition is_prefix :: "('c \<Rightarrow> nat) \<Rightarrow> 'k trie_node \<Rightarrow> 'c list \<Rightarrow> bool result" where
  "is_prefix assign t str = bind_r (search assign t str) (\<lambda>n. Inr (n \<noteq> None))"

fun contains_prefix :: "('c \<Rightarrow> nat) \<Rightarrow> 'k trie_node \<Rightarrow> 'c list \<Rightarrow> bool result" where
  "contains_prefix assign curr_node [] = Inr False"
| "contains_prefix assign curr_node (c # str) =
     bind_r (get_child assign curr_node c)
       (\<lambda>child. case child of None \<Rightarrow> Inr False
          | Some n \<Rightarrow> if marked n then Inr True else contains_prefix assign n str)"

text \<open>What a client reads: the key of the word's node when that node is marked.\<close>

definition word_key :: "('c \<Rightarrow> nat) \<Rightarrow> 'k trie_node \<Rightarrow> 'c list \<Rightarrow> 'k option result" where
  "word_key assign t str =
     bind_r (search assign t str)
       (\<lambda>n. Inr (case n of None \<Rightarrow> None | Some n \<Rightarrow> if marked n then Some (key n) else None))"

definition set_key :: "'k \<Rightarrow> 'k trie_node \<Rightarrow> 'k trie_node" where
  "set_key k t = Node (marked t) (children t) (child_count t) k"

section \<open>Well-formed tries\<close>

primrec no_children :: "'k trie_node option list \<Rightarrow> nat" where
  "no_children [] = 0"
| "no_children (c # cs) = (case c of None \<Rightarrow> 0 | Some _ \<Rightarrow> 1) + no_children cs"

fun wf_trie :: "nat \<Rightarrow> 'k trie_node \<Rightarrow> bool" where
  "wf_trie R (Node m ch cnt k) \<longleftrightarrow>
     length ch = R \<and> cnt = no_children ch \<and>
     list_all (\<lambda>c. case c of None \<Rightarrow> True | Some t \<Rightarrow> wf_trie R t) ch"

lemma wf_trie_iff:
  "wf_trie R t \<longleftrightarrow> length (children t) = R \<and> child_count t = no_children (children t)
     \<and> (\<forall>i < R. \<forall>c. children t ! i = Some c \<longrightarrow> wf_trie R c)"
  by (cases t) (auto simp: list_all_length split: option.splits)

lemma no_children_replicate [simp]: "no_children (replicate n None) = 0"
  by (induction n) auto

lemma wf_new_node [simp]: "wf_trie R (new_node R k)"
  by (simp add: new_node_def list_all_length)

lemma no_children_update_Some:
  "i < length ch \<Longrightarrow> no_children (ch[i := Some t]) = no_children ch + (if ch ! i = None then 1 else 0)"
proof (induction ch arbitrary: i)
  case (Cons c ch)
  then show ?case by (cases i) (auto split: option.splits)
qed simp

lemma no_children_pos: "i < length ch \<Longrightarrow> ch ! i \<noteq> None \<Longrightarrow> 0 < no_children ch"
proof (induction ch arbitrary: i)
  case (Cons c ch)
  then show ?case by (cases i) (auto split: option.splits)
qed simp

lemma no_children_update_None:
  "i < length ch \<Longrightarrow> no_children (ch[i := None]) = no_children ch - (if ch ! i = None then 0 else 1)"
proof (induction ch arbitrary: i)
  case (Cons c ch)
  then show ?case
    by (cases i) (auto split: option.splits dest: no_children_pos)
qed simp

lemma create_child_ok:
  assumes "wf_trie R t" and "assign c < R"
  obtains t' child where "create_child assign dk t c = Inr (t', child)"
    and "wf_trie R t'" and "wf_trie R child" and "marked t' = marked t" and "key t' = key t"
    and "children t' = (children t)[assign c := Some child]"
    and "child = (case children t ! assign c of None \<Rightarrow> new_node R dk | Some n \<Rightarrow> n)"
proof (cases "children t ! assign c")
  case None
  then show ?thesis
    using assms
    by (intro that [of "Node (marked t) ((children t)[assign c := Some (new_node R dk)]) (child_count t + 1) (key t)"])
      (auto simp: create_child_def Let_def wf_trie_iff [of R t] no_children_update_Some nth_list_update list_all_length
        split: option.splits)
next
  case (Some n)
  then have "(children t)[assign c := Some n] = children t" by (metis list_update_id)
  with Some show ?thesis
    using assms by (intro that [of t n]) (auto simp: create_child_def Let_def wf_trie_iff [of R t])
qed

lemma wf_update_child:
  assumes "wf_trie R t" and "i < R" and "children t ! i \<noteq> None" and "wf_trie R n"
  shows "wf_trie R (Node (marked t) ((children t)[i := Some n]) (child_count t) (key t))"
  using assms
  by (auto simp: wf_trie_iff [of R t] no_children_update_Some nth_list_update list_all_length split: option.splits)

text \<open>Words whose characters have an index inside the array.\<close>

definition in_range :: "('c \<Rightarrow> nat) \<Rightarrow> nat \<Rightarrow> 'c list \<Rightarrow> bool" where
  "in_range assign R str \<longleftrightarrow> list_all (\<lambda>c. assign c < R) str"

lemma in_range_Cons [simp]: "in_range assign R (c # str) \<longleftrightarrow> assign c < R \<and> in_range assign R str"
  by (simp add: in_range_def)

lemma in_range_Nil [simp]: "in_range assign R []"
  by (simp add: in_range_def)

lemma add_word_loop_ok:
  assumes "wf_trie R t" and "in_range assign R str" and "\<And>n. wf_trie R n \<Longrightarrow> wf_trie R (f n)"
  shows "\<exists>t'. add_word_loop assign dk t str f = Inr t' \<and> wf_trie R t'"
  using assms(1,2)
proof (induction str arbitrary: t)
  case Nil
  then show ?case using assms(3) by (simp add: wf_trie_iff [of R t] list_all_length split: option.splits)
next
  case (Cons c str)
  then obtain t1 child where t1: "create_child assign dk t c = Inr (t1, child)"
    and wf: "wf_trie R t1" "wf_trie R child"
    and ch: "children t1 = (children t)[assign c := Some child]"
    using create_child_ok [of R t assign c dk] by (metis in_range_Cons)
  from Cons wf obtain n where n: "add_word_loop assign dk child str f = Inr n" "wf_trie R n"
    by auto
  have "children t1 ! assign c \<noteq> None"
    using Cons.prems ch by (simp add: wf_trie_iff [of R t])
  then show ?case
    using t1 n wf_update_child [OF wf(1) _ _ n(2), of "assign c"] Cons.prems by simp
qed

lemma search_new_node:
  "in_range assign R str \<Longrightarrow> search assign (new_node R k) str = Inr (if str = [] then Some (new_node R k) else None)"
  by (cases str) (auto simp: new_node_def get_child_def)

lemma word_key_new_node [simp]:
  "in_range assign R str \<Longrightarrow> word_key assign (new_node R k) str = Inr None"
  by (simp add: word_key_def search_new_node) (simp add: new_node_def)

lemma word_key_Cons:
  "assign c < length (children t) \<Longrightarrow> word_key assign t (c # str)
     = (case children t ! assign c of None \<Rightarrow> Inr None | Some n \<Rightarrow> word_key assign n str)"
  by (auto simp: word_key_def get_child_def split: option.splits)

lemma word_key_Nil: "word_key assign t [] = Inr (if marked t then Some (key t) else None)"
  by (simp add: word_key_def)

text \<open>The effect of adding one word on every lookup.\<close>

lemma word_key_add_word_loop:
  assumes "wf_trie R t" and "in_range assign R str" and "in_range assign R str'" and "inj_on assign {c. assign c < R}"
    and "add_word_loop assign dk t str (set_key k) = Inr t'"
  shows "word_key assign t' str' = (if str' = str then Inr (Some k) else word_key assign t str')"
  using assms
proof (induction str arbitrary: t t' str')
  case Nil
  then have t': "t' = Node True (children t) (child_count t) k" by (simp add: set_key_def)
  show ?case
  proof (cases str')
    case (Cons c s)
    with Nil t' show ?thesis by (simp add: word_key_Cons wf_trie_iff [of R t])
  qed (simp add: t' word_key_Nil)
next
  case (Cons c str)
  then have c: "assign c < R" and lenR: "length (children t) = R"
    by (auto simp: wf_trie_iff [of R t])
  from Cons.prems c obtain t1 child where t1: "create_child assign dk t c = Inr (t1, child)"
    and wf: "wf_trie R t1" "wf_trie R child"
    and same: "marked t1 = marked t" "key t1 = key t"
    and ch: "children t1 = (children t)[assign c := Some child]"
    and child: "child = (case children t ! assign c of None \<Rightarrow> new_node R dk | Some n \<Rightarrow> n)"
    using create_child_ok [of R t assign c dk] by metis
  from Cons.prems t1 obtain n where n: "add_word_loop assign dk child str (set_key k) = Inr n"
    and t': "t' = Node (marked t) ((children t)[assign c := Some n]) (child_count t1) (key t)"
    by (auto simp: bind_r_eq_Inr same ch)
  have len': "length (children t') = R" using t' lenR by simp
  show ?case
  proof (cases str')
    case Nil
    with t' show ?thesis by (simp add: word_key_Nil)
  next
    case str': (Cons c' s)
    with Cons.prems have c': "assign c' < R" and s: "in_range assign R s" by auto
    show ?thesis
    proof (cases "c' = c")
      case True
      have IH: "word_key assign n s = (if s = str then Inr (Some k) else word_key assign child s)"
        using Cons.IH [OF wf(2) _ s Cons.prems(4) n] Cons.prems by simp
      have "word_key assign t (c # s) = (case children t ! assign c of None \<Rightarrow> Inr None | Some n \<Rightarrow> word_key assign n s)"
        using c lenR by (simp add: word_key_Cons)
      also have "\<dots> = word_key assign child s"
        using s by (simp add: child split: option.splits)
      finally show ?thesis using True str' IH c len' lenR t' by (simp add: word_key_Cons)
    next
      case False
      then have "assign c' \<noteq> assign c" using Cons.prems(4) c c' by (auto dest: inj_onD)
      with False str' c c' len' lenR t' show ?thesis by (simp add: word_key_Cons)
    qed
  qed
qed

section \<open>The contract of a dictionary\<close>

locale dictionary =
  fixes insert_key :: "'c list \<Rightarrow> 'k \<Rightarrow> 'd \<Rightarrow> 'd result"
    and lookup_key :: "'d \<Rightarrow> 'c list \<Rightarrow> 'k option result"
    and invar :: "'d \<Rightarrow> bool"
    and valid :: "'c list \<Rightarrow> bool"
  assumes insert_ok: "invar d \<Longrightarrow> valid w \<Longrightarrow> \<exists>d'. insert_key w k d = Inr d' \<and> invar d'"
    and lookup_insert: "invar d \<Longrightarrow> valid w \<Longrightarrow> valid w' \<Longrightarrow> insert_key w k d = Inr d' \<Longrightarrow>
          lookup_key d' w' = (if w' = w then Inr (Some k) else lookup_key d w')"
begin

fun insert_all :: "('c list \<times> 'k) list \<Rightarrow> 'd \<Rightarrow> 'd result" where
  "insert_all [] d = Inr d"
| "insert_all ((w, k) # rest) d = bind_r (insert_key w k d) (insert_all rest)"

text \<open>Loading a list of entries: the last entry of a word wins, other words keep their old value.\<close>

lemma lookup_insert_all:
  assumes "invar d" and "list_all (\<lambda>(w, _). valid w) entries" and "valid w'"
  shows "\<exists>d'. insert_all entries d = Inr d' \<and> invar d'
    \<and> lookup_key d' w' = (case map_of (rev entries) w' of Some k \<Rightarrow> Inr (Some k) | None \<Rightarrow> lookup_key d w')"
  using assms(1,2)
proof (induction entries arbitrary: d)
  case (Cons e entries)
  obtain w k where e: "e = (w, k)" by (cases e)
  with Cons.prems have w: "valid w" by simp
  with Cons.prems obtain d1 where d1: "insert_key w k d = Inr d1" "invar d1"
    using insert_ok by blast
  from Cons.IH [OF d1(2)] Cons.prems obtain d' where
    "insert_all entries d1 = Inr d'" "invar d'"
    "lookup_key d' w' = (case map_of (rev entries) w' of Some k \<Rightarrow> Inr (Some k) | None \<Rightarrow> lookup_key d1 w')"
    by auto
  then show ?case
    using e d1 lookup_insert [OF Cons.prems(1) w assms(3) d1(1)]
    by (auto simp: map_add_def split: option.splits)
qed simp

end

text \<open>The trie as a dictionary: the statement \<^verbatim>\<open>add_word(w)->key = k\<close> and the read of a
  marked node's key.\<close>

definition trie_insert :: "('c \<Rightarrow> nat) \<Rightarrow> 'k \<Rightarrow> 'c list \<Rightarrow> 'k \<Rightarrow> 'k trie_node \<Rightarrow> 'k trie_node result" where
  "trie_insert assign dk w k t = add_word assign dk t w (set_key k)"

lemma trie_dictionary:
  assumes "inj_on assign {c. assign c < R}"
  shows "dictionary (trie_insert assign dk) (word_key assign) (wf_trie R) (\<lambda>w. w \<noteq> [] \<and> in_range assign R w)"
proof
  have keep: "wf_trie R n \<Longrightarrow> wf_trie R (set_key k n)" for n :: "'b trie_node" and k
    by (cases n) (simp add: set_key_def)
  fix d :: "'b trie_node" and w k
  assume d: "wf_trie R d" and w: "w \<noteq> [] \<and> in_range assign R w"
  then show "\<exists>d'. trie_insert assign dk w k d = Inr d' \<and> wf_trie R d'"
    using add_word_loop_ok [of R d assign w "set_key k" dk] keep by (simp add: trie_insert_def add_word_def)
  fix w' d' assume "w' \<noteq> [] \<and> in_range assign R w'" "trie_insert assign dk w k d = Inr d'"
  then show "word_key assign d' w' = (if w' = w then Inr (Some k) else word_key assign d w')"
    using word_key_add_word_loop [OF d _ _ assms] w by (simp add: trie_insert_def add_word_def)
qed

section \<open>Properties\<close>

text \<open>The destructor's \<^verbatim>\<open>remove_all_children\<close> stops at the first null child pointer, so
  it deletes every child only when no null pointer precedes a child; any child behind a gap is
  leaked.\<close>

theorem remove_all_children_leaks:
  "remove_all_children ch = map the (takeWhile (\<lambda>c. c \<noteq> None) ch)
   \<and> (length (remove_all_children ch) = no_children ch
        \<longleftrightarrow> no_children (dropWhile (\<lambda>c. c \<noteq> None) ch) = 0)"
proof -
  have "remove_all_children ch = map the (takeWhile (\<lambda>c. c \<noteq> None) ch)"
    by (induction ch rule: remove_all_children.induct) auto
  moreover have "no_children ch = length (remove_all_children ch) + no_children (dropWhile (\<lambda>c. c \<noteq> None) ch)"
    by (induction ch rule: remove_all_children.induct) auto
  ultimately show ?thesis by simp
qed

end
