(* ===== verification/Text.thy ===== *)
theory Text
  imports Prelude
begin

text \<open>
  The C and C++ library routines on text that the address parsers and printers use
  (\<^verbatim>\<open>sscanf\<close> with \<^verbatim>\<open>%u\<close>, \<^verbatim>\<open>std::stoi\<close>,
  \<^verbatim>\<open>std::stoul\<close>, \<^verbatim>\<open>std::to_string\<close>, \<^verbatim>\<open>std::hex\<close>
  output), and \<^verbatim>\<open>split_str\<close> of \<^verbatim>\<open>lib/split_str.cpp\<close>.
\<close>

section \<open>Digits\<close>

definition dec_char :: "nat \<Rightarrow> char" where "dec_char d = char_of (48 + d)"

definition is_digit :: "char \<Rightarrow> bool" where
  "is_digit c \<longleftrightarrow> 48 \<le> (of_char c :: nat) \<and> (of_char c :: nat) \<le> 57"

definition digit_val :: "char \<Rightarrow> nat" where "digit_val c = of_char c - 48"

definition is_hex :: "char \<Rightarrow> bool" where
  "is_hex c \<longleftrightarrow> is_digit c \<or> (97 \<le> (of_char c :: nat) \<and> (of_char c :: nat) \<le> 102)
      \<or> (65 \<le> (of_char c :: nat) \<and> (of_char c :: nat) \<le> 70)"

definition hex_val :: "char \<Rightarrow> nat" where
  "hex_val c = (if is_digit c then of_char c - 48 else if 97 \<le> (of_char c :: nat) then of_char c - 87 else of_char c - 55)"

definition hex_char :: "nat \<Rightarrow> char" where
  "hex_char d = (if d < 10 then char_of (48 + d) else char_of (87 + d))"

text \<open>What \<^verbatim>\<open>std::endl\<close> writes.\<close>

definition endl :: string where "endl = [CHR 0x0A]"


text \<open>\<^verbatim>\<open>isspace\<close> in the C locale.\<close>

definition is_space :: "char \<Rightarrow> bool" where
  "is_space c \<longleftrightarrow> (of_char c :: nat) = 32 \<or> (9 \<le> (of_char c :: nat) \<and> (of_char c :: nat) \<le> 13)"

lemma of_char_char_of_small: "n < 256 \<Longrightarrow> (of_char (char_of n) :: nat) = n"
  by simp

lemma dec_char_digit [simp]: "d < 10 \<Longrightarrow> is_digit (dec_char d)" "d < 10 \<Longrightarrow> digit_val (dec_char d) = d"
  by (simp_all add: is_digit_def digit_val_def dec_char_def)

lemma hex_char_digit [simp]: "d < 16 \<Longrightarrow> is_hex (hex_char d)" "d < 16 \<Longrightarrow> hex_val (hex_char d) = d"
  by (auto simp: is_hex_def hex_val_def hex_char_def is_digit_def)

lemma is_digit_not_space: "is_digit c \<Longrightarrow> \<not> is_space c"
  by (simp add: is_digit_def is_space_def)

lemma is_hex_not_space: "is_hex c \<Longrightarrow> \<not> is_space c"
  by (auto simp: is_hex_def is_digit_def is_space_def)

lemma digit_not_special:
  "is_digit c \<Longrightarrow> c \<noteq> CHR ''.'' \<and> c \<noteq> CHR ''-'' \<and> c \<noteq> CHR ''+'' \<and> c \<noteq> CHR ''/'' \<and> c \<noteq> CHR 0x00"
  by (auto simp: is_digit_def)

lemma hex_not_special:
  "is_hex c \<Longrightarrow> c \<noteq> CHR ''.'' \<and> c \<noteq> CHR ''-'' \<and> c \<noteq> CHR '':'' \<and> c \<noteq> CHR ''+'' \<and> c \<noteq> CHR '' ''"
  by (auto simp: is_hex_def is_digit_def)

section \<open>Numbers\<close>

text \<open>\<^verbatim>\<open>std::to_string\<close> of an unsigned value.\<close>

fun to_dec :: "nat \<Rightarrow> string" where
  "to_dec n = (if n < 10 then [dec_char n] else to_dec (n div 10) @ [dec_char (n mod 10)])"

declare to_dec.simps [simp del]

text \<open>Output of an \<^verbatim>\<open>int\<close> through \<^verbatim>\<open>std::hex\<close>: no leading zeros.\<close>

fun to_hex :: "nat \<Rightarrow> string" where
  "to_hex n = (if n < 16 then [hex_char n] else to_hex (n div 16) @ [hex_char (n mod 16)])"

declare to_hex.simps [simp del]

definition dec_value :: "string \<Rightarrow> nat" where
  "dec_value ds = fold (\<lambda>c n. 10 * n + digit_val c) ds 0"

definition hex_value :: "string \<Rightarrow> nat" where
  "hex_value ds = fold (\<lambda>c n. 16 * n + hex_val c) ds 0"

lemma to_dec_digits: "list_all is_digit (to_dec n) \<and> to_dec n \<noteq> []"
proof (induction n rule: to_dec.induct)
  case (1 n)
  then show ?case by (cases "n < 10") (simp_all add: to_dec.simps [of n])
qed

lemma dec_value_append: "dec_value (xs @ [c]) = 10 * dec_value xs + digit_val c"
  by (simp add: dec_value_def)

lemma dec_value_to_dec [simp]: "dec_value (to_dec n) = n"
proof (induction n rule: to_dec.induct)
  case (1 n)
  show ?case
  proof (cases "n < 10")
    case True
    then show ?thesis by (simp add: to_dec.simps [of n] dec_value_def)
  next
    case False
    with 1 show ?thesis by (simp add: to_dec.simps [of n] dec_value_append)
  qed
qed

text \<open>
  \<^verbatim>\<open>%u\<close>: white space, an optional sign, at least one decimal digit.  The value and the rest
  of the input, or \<open>None\<close> when the conversion fails.  (A value that does not fit
  \<^verbatim>\<open>unsigned int\<close> is undefined; the callers here only keep its low eight bits.)
\<close>

definition scan_u :: "string \<Rightarrow> (int \<times> string) option" where
  "scan_u s =
     (let s1 = dropWhile is_space s;
          neg = (s1 \<noteq> [] \<and> hd s1 = CHR ''-'');
          s2 = (if s1 \<noteq> [] \<and> (hd s1 = CHR ''-'' \<or> hd s1 = CHR ''+'') then tl s1 else s1);
          ds = takeWhile is_digit s2
      in if ds = [] then None
         else Some (if neg then - int (dec_value ds) else int (dec_value ds), dropWhile is_digit s2))"

definition scan_char :: "char \<Rightarrow> string \<Rightarrow> string option" where
  "scan_char c s = (case s of [] \<Rightarrow> None | x # xs \<Rightarrow> if x = c then Some xs else None)"

text \<open>\<^verbatim>\<open>std::stoi\<close>: \<open>None\<close> when it throws (no digits, or a value outside
  \<^verbatim>\<open>int\<close>).\<close>

definition stoi :: "string \<Rightarrow> int option" where
  "stoi s = (case scan_u s of None \<Rightarrow> None
     | Some (v, _) \<Rightarrow> if - (2 ^ 31) \<le> v \<and> v < 2 ^ 31 then Some v else None)"

text \<open>\<^verbatim>\<open>std::stoul(s, nullptr, 16)\<close> on the texts the parsers pass: optional white space and
  sign, an optional \<^verbatim>\<open>0x\<close>, hexadecimal digits.  \<open>None\<close> when there is no digit.\<close>

definition stoul16 :: "string \<Rightarrow> int option" where
  "stoul16 s =
     (let s1 = dropWhile is_space s;
          neg = (s1 \<noteq> [] \<and> hd s1 = CHR ''-'');
          s2 = (if s1 \<noteq> [] \<and> (hd s1 = CHR ''-'' \<or> hd s1 = CHR ''+'') then tl s1 else s1);
          s3 = (case s2 of z # x # h # _ \<Rightarrow> if z = CHR ''0'' \<and> (x = CHR ''x'' \<or> x = CHR ''X'') \<and> is_hex h
                                               then drop 2 s2 else s2
                | _ \<Rightarrow> s2);
          ds = takeWhile is_hex s3
      in if ds = [] then None
         else Some (if neg then - int (hex_value ds) else int (hex_value ds)))"

lemma scan_u_to_dec:
  assumes "rest = [] \<or> \<not> is_digit (hd rest)"
  shows "scan_u (to_dec n @ rest) = Some (int n, rest)"
proof -
  have ds: "list_all is_digit (to_dec n)" "to_dec n \<noteq> []" using to_dec_digits by auto
  then obtain c cs where c: "to_dec n = c # cs" "is_digit c" by (cases "to_dec n") auto
  have tw: "takeWhile is_digit (to_dec n @ rest) = to_dec n" "dropWhile is_digit (to_dec n @ rest) = rest"
    using ds assms by (auto simp: takeWhile_append dropWhile_append list_all_iff takeWhile_eq_Nil_iff
        dropWhile_eq_self_iff)
  have "dropWhile is_space (to_dec n @ rest) = to_dec n @ rest"
    using c is_digit_not_space by simp
  with c tw show ?thesis
    using digit_not_special [OF c(2)] dec_value_to_dec [of n] by (simp add: scan_u_def Let_def)
qed

section \<open>Splitting at a delimiter\<close>

text \<open>\<^verbatim>\<open>str.find(delimiter)\<close>: the first position where the delimiter starts.\<close>

fun find_sub :: "string \<Rightarrow> string \<Rightarrow> nat option" where
  "find_sub d s = (if take (length d) s = d then Some 0
     else case s of [] \<Rightarrow> None | _ # xs \<Rightarrow> map_option Suc (find_sub d xs))"

declare find_sub.simps [simp del]

lemma find_sub_Some:
  "find_sub d s = Some n \<Longrightarrow> n + length d \<le> length s \<and> take (length d) (drop n s) = d
     \<and> (\<forall>k < n. take (length d) (drop k s) \<noteq> d)"
proof (induction d s arbitrary: n rule: find_sub.induct)
  case (1 d s)
  show ?case
  proof (cases "take (length d) s = d")
    case True
    with 1(2) have "n = 0" by (simp add: find_sub.simps [of d s])
    moreover have "length d \<le> length s" using True by (metis length_take min.absorb_iff2 min.commute)
    ultimately show ?thesis using True by simp
  next
    case False
    with 1(2) obtain x xs m where s: "s = x # xs" "find_sub d xs = Some m" "n = Suc m"
      by (auto simp: find_sub.simps [of d s] split: list.splits if_splits)
    from 1(1) [OF False s(1,2)] s False show ?thesis
      by (auto simp: less_Suc_eq_0_disj)
  qed
qed

lemma find_sub_None: "find_sub d s = None \<Longrightarrow> take (length d) (drop k s) = d \<Longrightarrow> length s < k"
proof (induction d s arbitrary: k rule: find_sub.induct)
  case (1 d s)
  from 1(2) have no: "take (length d) s \<noteq> d" by (auto simp: find_sub.simps [of d s])
  show ?case
  proof (cases s)
    case Nil
    with no 1(3) show ?thesis by simp
  next
    case (Cons x xs)
    with 1(2) no have "find_sub d xs = None" by (simp add: find_sub.simps [of d "x # xs"])
    with 1(1) [OF no Cons this] 1(3) no Cons show ?thesis by (cases k) auto
  qed
qed

text \<open>
  \<^verbatim>\<open>split_str\<close>.  With an empty delimiter \<^verbatim>\<open>find\<close> always succeeds at 0 and the loop
  never ends, which is \<open>None\<close>; with any other it ends.
\<close>

function split_str_loop :: "string list \<Rightarrow> string \<Rightarrow> string \<Rightarrow> string list option" where
  "split_str_loop tokens str delimiter =
     (if delimiter = [] then None
      else case find_sub delimiter str of
             None \<Rightarrow> Some (tokens @ [str])
           | Some pos \<Rightarrow> split_str_loop (tokens @ [take pos str]) (drop (pos + length delimiter) str) delimiter)"
  by pat_completeness auto
termination
proof (relation "measure (\<lambda>(_, str, _). length str)")
  fix tokens str and delimiter :: string and pos
  assume "delimiter \<noteq> []" "find_sub delimiter str = Some pos"
  then show "((tokens @ [take pos str], drop (pos + length delimiter) str, delimiter), tokens, str, delimiter)
      \<in> measure (\<lambda>(_, str, _). length str)"
    using find_sub_Some [of delimiter str pos] by (cases delimiter) auto
qed simp

declare split_str_loop.simps [simp del]

definition split_str :: "string \<Rightarrow> string \<Rightarrow> string list option" where
  "split_str str delimiter = split_str_loop [] str delimiter"

fun join_with :: "string \<Rightarrow> string list \<Rightarrow> string" where
  "join_with d [] = []"
| "join_with d [x] = x"
| "join_with d (x # xs) = x @ d @ join_with d xs"

lemma join_with_snoc: "xs \<noteq> [] \<Longrightarrow> join_with d (xs @ [y]) = join_with d xs @ d @ y"
  by (induction d xs rule: join_with.induct) auto

lemma join_with_snoc2: "join_with d (xs @ [y]) = (if xs = [] then y else join_with d xs @ d @ y)"
  by (simp add: join_with_snoc)

lemma split_str_loop_ok:
  assumes "delimiter \<noteq> []"
  shows "\<exists>res. split_str_loop tokens str delimiter = Some (tokens @ res) \<and> res \<noteq> []
    \<and> join_with delimiter res = str \<and> list_all (\<lambda>t. find_sub delimiter t = None) res"
  using assms
proof (induction tokens str delimiter rule: split_str_loop.induct)
  case (1 tokens str delimiter)
  show ?case
  proof (cases "find_sub delimiter str")
    case None
    with 1 show ?thesis by (simp add: split_str_loop.simps [of tokens str delimiter])
  next
    case (Some pos)
    note f = find_sub_Some [OF Some]
    from 1(1) [OF 1(2) Some 1(2)] obtain res where
      res: "split_str_loop (tokens @ [take pos str]) (drop (pos + length delimiter) str) delimiter
          = Some (tokens @ take pos str # res)" "res \<noteq> []"
        "join_with delimiter res = drop (pos + length delimiter) str"
        "list_all (\<lambda>t. find_sub delimiter t = None) res" by auto
    have "join_with delimiter (take pos str # res) = take pos str @ delimiter @ drop (pos + length delimiter) str"
      using res by (cases res) auto
    also have "\<dots> = take pos str @ take (length delimiter) (drop pos str) @ drop (length delimiter) (drop pos str)"
      using f by (simp add: add.commute)
    also have "\<dots> = str" by (simp only: append_take_drop_id)
    finally have join: "join_with delimiter (take pos str # res) = str" .
    have "find_sub delimiter (take pos str) = None"
    proof (rule ccontr)
      assume "find_sub delimiter (take pos str) \<noteq> None"
      then obtain m where m: "find_sub delimiter (take pos str) = Some m" by auto
      from find_sub_Some [OF m] f 1(2) have "m < pos" "take (length delimiter) (drop m str) = delimiter"
        by (cases delimiter; auto simp: drop_take min_def split: if_splits)+
      with f show False by blast
    qed
    with res join 1(2) Some show ?thesis
      by (intro exI [of _ "take pos str # res"]) (simp add: split_str_loop.simps [of tokens str delimiter])
  qed
qed

text \<open>Joined tokens are split again when no token contains the delimiter's second character.\<close>

lemma find_sub_absent: "b \<notin> set y \<Longrightarrow> find_sub (a # b # r) y = None"
proof (induction y)
  case (Cons c y)
  have "take (length (a # b # r)) (c # y) \<noteq> a # b # r"
    using Cons.prems by (cases y) auto
  with Cons show ?case by (simp add: find_sub.simps [of _ "c # y"])
qed (simp add: find_sub.simps)

lemma find_sub_first:
  assumes "a \<noteq> b" and "b \<notin> set x"
  shows "find_sub (a # b # r) (x @ (a # b # r) @ y) = Some (length x)"
  using assms(2)
proof (induction x)
  case (Cons c x)
  have "take (length (a # b # r)) ((c # x) @ (a # b # r) @ y) \<noteq> a # b # r"
    using Cons.prems assms(1) by (cases x) auto
  with Cons show ?case by (simp add: find_sub.simps [of _ "c # _"])
qed (simp add: find_sub.simps)

lemma split_str_loop_join:
  assumes "a \<noteq> b" and "toks \<noteq> []" and "\<forall>t \<in> set toks. b \<notin> set t"
  shows "split_str_loop acc (join_with (a # b # r) toks) (a # b # r) = Some (acc @ toks)"
  using assms(2,3)
proof (induction toks arbitrary: acc)
  case (Cons t toks)
  show ?case
  proof (cases toks)
    case Nil
    then show ?thesis
      using Cons.prems by (simp add: split_str_loop.simps [of acc t] find_sub_absent)
  next
    case (Cons u us)
    let ?d = "a # b # r"
    have j: "join_with ?d (t # toks) = t @ ?d @ join_with ?d toks" by (simp add: Cons)
    have "find_sub ?d (join_with ?d (t # toks)) = Some (length t)"
      unfolding j using assms(1) Cons.prems by (intro find_sub_first) simp_all
    then have "split_str_loop acc (join_with ?d (t # toks)) ?d
        = split_str_loop (acc @ [t]) (join_with ?d toks) ?d"
      by (subst split_str_loop.simps) (simp add: j)
    with Cons.IH [of "acc @ [t]"] Cons.prems Cons show ?thesis by simp
  qed
qed simp

lemma split_str_join:
  assumes "a \<noteq> b" and "toks \<noteq> []" and "\<forall>t \<in> set toks. b \<notin> set t"
  shows "split_str (join_with (a # b # r) toks) (a # b # r) = Some toks"
  using split_str_loop_join [OF assms, of "[]" r] by (simp add: split_str_def)

text \<open>\<^verbatim>\<open>split_str\<close> ends for every non-empty delimiter, its tokens joined by the
  delimiter give back the text, and no token contains the delimiter.\<close>

theorem split_str_correct:
  assumes "delimiter \<noteq> []"
  shows "\<exists>tokens. split_str str delimiter = Some tokens \<and> join_with delimiter tokens = str
     \<and> (\<forall>t \<in> set tokens. find_sub delimiter t = None)"
  using split_str_loop_ok [OF assms, of "[]" str] by (auto simp: split_str_def list_all_iff)

theorem split_str_correct_witness:
  "'' -> '' \<noteq> [] \<and> (\<exists>tokens. split_str ''0a -> 0b'' '' -> '' = Some tokens \<and> join_with '' -> '' tokens = ''0a -> 0b'')"
proof -
  have d: "'' -> '' \<noteq> []" by simp
  show ?thesis using split_str_correct [OF d, of "''0a -> 0b''"] by auto
qed

section \<open>Strings and byte vectors\<close>

text \<open>\<^verbatim>\<open>string((char*) data())\<close>: up to the first null byte, which must be there.\<close>

definition c_string :: "bytes \<Rightarrow> string result" where
  "c_string bs = (if 0 \<in> set bs then Inr (map (\<lambda>b. char_of (unat b)) (takeWhile (\<lambda>b. b \<noteq> 0) bs)) else Inl Overread)"

text \<open>\<^verbatim>\<open>vector<uint8_t>(s.data(), s.data() + s.size())\<close>.\<close>

definition string_bytes :: "string \<Rightarrow> bytes" where
  "string_bytes s = map (\<lambda>c. word_of_nat (of_char c)) s"

lemma c_string_append_nul:
  "0 \<notin> set bs \<Longrightarrow> c_string (bs @ [0]) = Inr (map (\<lambda>b. char_of (unat b)) bs)"
  by (simp add: c_string_def takeWhile_append)

lemma unat_byte_of_char [simp]: "unat (word_of_nat (of_char c) :: u8) = of_char c"
  using unat_of_nat [where ?'a = 8, of "of_char c"] by simp

lemma byte_of_char_eq_0 [simp]: "(word_of_nat (of_char c) :: u8) = 0 \<longleftrightarrow> c = CHR 0x00"
proof -
  have "(word_of_nat (of_char c) :: u8) = 0 \<longleftrightarrow> (of_char c :: nat) = of_char (CHR 0x00)"
    using unat_byte_of_char [of c] by (simp add: unat_eq_0 [symmetric])
  then show ?thesis by (simp only: of_char_eq_iff)
qed

end
