(* ===== verification/Ip4_Addr.thy ===== *)
theory Ip4_Addr
  imports Text
begin

text \<open>
  IPv4 addresses and subnet masks (\<^verbatim>\<open>src/protocols/ip4/ip4_addr.h\<close>,
  \<^verbatim>\<open>ip4_addr.cpp\<close>): comparison, the successor address, the text form, the wire form and
  subnet membership.  The C++ array \<^verbatim>\<open>uint8_t octets[4]\<close> is four bytes; an index outside
  it is a fault.  The lemmas show that the operators are a linear order and equality, that the
  successor is addition modulo \<open>2 ^ 32\<close>, that text and wire forms round-trip, and what subnet
  membership means on and off octet boundaries.
\<close>

section \<open>Octet arrays\<close>

text \<open>The comparison loops the address classes share.\<close>

fun octets_eq :: "bytes \<Rightarrow> bytes \<Rightarrow> bool" where
  "octets_eq (x # xs) (y # ys) = (if x \<noteq> y then False else octets_eq xs ys)"
| "octets_eq _ _ = True"

fun octets_less :: "bytes \<Rightarrow> bytes \<Rightarrow> bool" where
  "octets_less (x # xs) (y # ys) = (if x \<noteq> y then x < y else octets_less xs ys)"
| "octets_less _ _ = False"

lemma octets_eq_iff: "length xs = length ys \<Longrightarrow> octets_eq xs ys \<longleftrightarrow> xs = ys"
  by (induction xs ys rule: octets_eq.induct) auto

section \<open>Addresses\<close>

datatype ip4_addr = Ip4_addr u8 u8 u8 u8

fun octets :: "ip4_addr \<Rightarrow> bytes" where
  "octets (Ip4_addr a b c d) = [a, b, c, d]"

lemma length_octets [simp, codec_simps]: "length (octets a) = 4"
  by (cases a) simp

definition ip4_addr_eq :: "ip4_addr \<Rightarrow> ip4_addr \<Rightarrow> bool" where
  "ip4_addr_eq a b = octets_eq (octets a) (octets b)"

definition ip4_addr_neq :: "ip4_addr \<Rightarrow> ip4_addr \<Rightarrow> bool" where
  "ip4_addr_neq a b = (\<not> ip4_addr_eq b a)"

text \<open>\<^verbatim>\<open>operator<\<close> and \<^verbatim>\<open>operator<=\<close> become the order of the type.\<close>

definition ip4_addr_less :: "ip4_addr \<Rightarrow> ip4_addr \<Rightarrow> bool" where
  "ip4_addr_less a b = octets_less (octets a) (octets b)"

definition ip4_addr_le :: "ip4_addr \<Rightarrow> ip4_addr \<Rightarrow> bool" where
  "ip4_addr_le a b = (\<not> octets_less (octets b) (octets a))"

instantiation ip4_addr :: linorder
begin

definition less_ip4_addr :: "ip4_addr \<Rightarrow> ip4_addr \<Rightarrow> bool" where
  "a < b = ip4_addr_less a b"

definition less_eq_ip4_addr :: "ip4_addr \<Rightarrow> ip4_addr \<Rightarrow> bool" where
  "a \<le> b = ip4_addr_le a b"

instance
proof
  fix x y z :: ip4_addr
  obtain x0 x1 x2 x3 where x: "x = Ip4_addr x0 x1 x2 x3" by (cases x)
  obtain y0 y1 y2 y3 where y: "y = Ip4_addr y0 y1 y2 y3" by (cases y)
  obtain z0 z1 z2 z3 where z: "z = Ip4_addr z0 z1 z2 z3" by (cases z)
  show "(x < y) = (x \<le> y \<and> \<not> y \<le> x)"
    by (auto simp: x y less_ip4_addr_def ip4_addr_less_def less_eq_ip4_addr_def ip4_addr_le_def split: if_splits)
  show "x \<le> x" by (simp add: x less_eq_ip4_addr_def ip4_addr_le_def)
  show "x \<le> y \<Longrightarrow> y \<le> z \<Longrightarrow> x \<le> z"
    by (auto simp: x y z less_eq_ip4_addr_def ip4_addr_le_def split: if_splits)
  show "x \<le> y \<Longrightarrow> y \<le> x \<Longrightarrow> x = y"
    by (auto simp: x y less_eq_ip4_addr_def ip4_addr_le_def split: if_splits)
  show "x \<le> y \<or> y \<le> x"
    by (auto simp: x y less_eq_ip4_addr_def ip4_addr_le_def)
qed

end

definition ip4_addr_empty :: ip4_addr where "ip4_addr_empty = Ip4_addr 0 0 0 0"
definition ip4_addr_broadcast :: ip4_addr where "ip4_addr_broadcast = Ip4_addr 0xff 0xff 0xff 0xff"

lemma octets_inj [simp]: "octets a = octets b \<longleftrightarrow> a = b"
  by (cases a; cases b) auto

lemma ip4_addr_eq_iff [simp]: "ip4_addr_eq a b \<longleftrightarrow> a = b"
  by (simp add: ip4_addr_eq_def octets_eq_iff)

lemma ip4_addr_neq_iff [simp]: "ip4_addr_neq a b \<longleftrightarrow> a \<noteq> b"
  by (auto simp: ip4_addr_neq_def)

text \<open>\<^verbatim>\<open>generate_next_ip\<close>: from the last octet on, full octets become 0, the first octet that
  is not full is incremented, the rest is copied.\<close>

fun next_octets :: "bytes \<Rightarrow> bytes" where
  "next_octets [] = []"
| "next_octets (x # xs) = (if x = 0xff then 0 # next_octets xs else (x + 1) # xs)"

definition of_octets :: "bytes \<Rightarrow> ip4_addr" where
  "of_octets xs = Ip4_addr (xs ! 0) (xs ! 1) (xs ! 2) (xs ! 3)"

definition generate_next_ip :: "ip4_addr \<Rightarrow> ip4_addr" where
  "generate_next_ip a = of_octets (rev (next_octets (rev (octets a))))"

text \<open>The address as a 32-bit number, first octet most significant.\<close>

fun ip4_value :: "ip4_addr \<Rightarrow> u32" where
  "ip4_value (Ip4_addr a b c d) = join32 d c b a"

section \<open>Text form\<close>

fun scan_dotted :: "nat \<Rightarrow> string \<Rightarrow> int list option" where
  "scan_dotted 0 s = Some []"
| "scan_dotted (Suc n) s =
     (case scan_u s of None \<Rightarrow> None
      | Some (v, rest) \<Rightarrow>
          if n = 0 then Some [v]
          else case scan_char CHR ''.'' rest of None \<Rightarrow> None
               | Some rest' \<Rightarrow> map_option (Cons v) (scan_dotted n rest'))"

text \<open>The number does not fit \<^verbatim>\<open>unsigned int\<close>: undefined; otherwise its low eight bits are
  stored.\<close>

definition str_to_ip4_addr :: "string \<Rightarrow> ip4_addr option result" where
  "str_to_ip4_addr str =
     (case scan_dotted 4 (takeWhile (\<lambda>c. c \<noteq> CHR 0x00) str) of
        None \<Rightarrow> Inr None
      | Some vs \<Rightarrow> if list_all (\<lambda>v. \<bar>v\<bar> < 2 ^ 32) vs
                    then Inr (Some (of_octets (map word_of_int vs))) else Inl Undefined)"

fun ip4_addr_to_str :: "ip4_addr \<Rightarrow> string" where
  "ip4_addr_to_str (Ip4_addr a b c d) =
     to_dec (unat a) @ ''.'' @ to_dec (unat b) @ ''.'' @ to_dec (unat c) @ ''.'' @ to_dec (unat d)"

section \<open>Wire form\<close>

definition write_ip4_addr :: "ip4_addr \<Rightarrow> bytes" where
  "write_ip4_addr a = octets a"

fun extract_ip4_addr :: "bytes \<Rightarrow> (ip4_addr \<times> bytes) result" where
  "extract_ip4_addr (a # b # c # d # p) = Inr (Ip4_addr a b c d, p)"
| "extract_ip4_addr _ = Inl Overread"

lemma extract_write_ip4_addr [simp, codec_simps]:
  "extract_ip4_addr (write_ip4_addr a @ p) = Inr (a, p)"
  by (cases a) (simp add: write_ip4_addr_def)

lemma length_write_ip4_addr [simp, codec_simps]: "length (write_ip4_addr a) = 4"
  by (simp add: write_ip4_addr_def)

lemma extract_ip4_addr_if [load_ifs]: "extract_ip4_addr p =
    (if 4 \<le> length p then Inr (Ip4_addr (p ! 0) (p ! 1) (p ! 2) (p ! 3), drop 4 p) else Inl Overread)"
  by (induction p rule: extract_ip4_addr.induct) auto

lemma reads_ip4_addr [reads_intros]: "reads extract_ip4_addr 4"
  by (simp add: reads_def extract_ip4_addr_if)

lemma extract_ip4_addr_length: "extract_ip4_addr p = Inr (a, q) \<Longrightarrow> length p = length q + 4"
  by (induction p rule: extract_ip4_addr.induct) auto

lemma extract_ip4_addr_fault: "extract_ip4_addr p = Inl e \<longleftrightarrow> e = Overread \<and> length p < 4"
  by (induction p rule: extract_ip4_addr.induct) auto

section \<open>Subnets\<close>

record ip4_subnet_mask =
  base_addr :: ip4_addr
  no_mask_bits :: int

definition str_to_ip4_subnet_mask :: "string \<Rightarrow> ip4_subnet_mask option result" where
  "str_to_ip4_subnet_mask str =
     (if CHR ''/'' \<notin> set str then Inr None
      else let slash = length (takeWhile (\<lambda>c. c \<noteq> CHR ''/'') str) in
        bind_r (str_to_ip4_addr (take slash str)) (\<lambda>res.
          case res of None \<Rightarrow> Inr None
          | Some ip \<Rightarrow>
              (case stoi (drop (slash + 1) str) of None \<Rightarrow> Inr None
               | Some mbits \<Rightarrow> if \<not> (0 \<le> mbits \<and> mbits \<le> 32) then Inr None
                              else Inr (Some \<lparr>base_addr = ip, no_mask_bits = mbits\<rparr>))))"

definition ip4_subnet_mask_to_str :: "ip4_subnet_mask \<Rightarrow> string" where
  "ip4_subnet_mask_to_str m =
     ip4_addr_to_str (base_addr m) @ ''/'' @
     (if no_mask_bits m < 0 then ''-'' @ to_dec (nat (- no_mask_bits m)) else to_dec (nat (no_mask_bits m)))"

text \<open>The low-bits mask \<^verbatim>\<open>(1 << bits) - 1\<close>.\<close>

definition low_bits :: "nat \<Rightarrow> u8" where "low_bits bits = mask bits"

definition smallest_ip_addr_in_subnet :: "ip4_subnet_mask \<Rightarrow> ip4_addr result" where
  "smallest_ip_addr_in_subnet subnet =
     (if no_mask_bits subnet < 0 then Inl Undefined
      else let index = nat (no_mask_bits subnet) div 8; bits = nat (no_mask_bits subnet) mod 8;
               xs = octets (base_addr subnet)
           in if \<not> index < 4 then Inl Overwrite
              else Inr (of_octets (take index xs @ [xs ! index AND low_bits bits] @ replicate (3 - index) 0)))"

definition is_inside_subnet :: "ip4_subnet_mask \<Rightarrow> ip4_addr \<Rightarrow> bool result" where
  "is_inside_subnet subnet ip =
     (if no_mask_bits subnet < 0 then Inl Undefined
      else let index = nat (no_mask_bits subnet) div 8; bits = nat (no_mask_bits subnet) mod 8;
               xs = octets (base_addr subnet); ys = octets ip
           in if \<not> index < 4 then Inl Overread
              else let inside_mask = list_all (\<lambda>i. xs ! i = ys ! i) [0..<index]
                   in Inr (if xs ! index AND low_bits bits \<noteq> ys ! index AND low_bits bits then False else inside_mask))"

text \<open>What a CIDR block contains: the addresses that share the first \<open>n\<close> bits.\<close>

definition cidr_block :: "ip4_subnet_mask \<Rightarrow> ip4_addr \<Rightarrow> bool" where
  "cidr_block subnet ip \<longleftrightarrow>
     drop_bit (32 - nat (no_mask_bits subnet)) (ip4_value (base_addr subnet))
     = drop_bit (32 - nat (no_mask_bits subnet)) (ip4_value ip)"

section \<open>Lemmas\<close>

lemma join32_sum:
  "join32 a b c d = ucast a + push_bit 8 (ucast b) + push_bit 16 (ucast c) + push_bit 24 (ucast d)"
proof -
  let ?a = "ucast a :: u32" and ?b = "push_bit 8 (ucast b) :: u32"
    and ?c = "push_bit 16 (ucast c) :: u32" and ?d = "push_bit 24 (ucast d) :: u32"
  have 1: "?a + ?b = ?a OR ?b"
    by (rule disjunctive_add) (auto simp: bit_simps dest: bit_imp_le_length)
  have 2: "(?a OR ?b) + ?c = (?a OR ?b) OR ?c"
    by (rule disjunctive_add) (auto simp: bit_simps dest: bit_imp_le_length)
  have 3: "((?a OR ?b) OR ?c) + ?d = ((?a OR ?b) OR ?c) OR ?d"
    by (rule disjunctive_add) (auto simp: bit_simps dest: bit_imp_le_length)
  show ?thesis unfolding 1 2 3 join32_def by (simp only: or.assoc)
qed

lemma ucast_succ:
  assumes "x \<noteq> (0xff :: u8)"
  shows "(ucast (x + 1) :: u32) = ucast x + 1"
proof -
  have "unat x < 256" by (rule unat_u8_less)
  moreover have "unat x \<noteq> 255" using assms by (simp add: word_unat_eq_iff)
  ultimately have "unat x + 1 < 256" by linarith
  then show ?thesis
    by (simp add: word_unat_eq_iff unat_word_ariths unsigned_ucast_eq take_bit_nat_eq_self)
qed

lemma join32_carry:
  "d \<noteq> 0xff \<Longrightarrow> join32 (d + 1) c b a = join32 d c b a + 1"
  "c \<noteq> 0xff \<Longrightarrow> join32 0 (c + 1) b a = join32 0xff c b a + 1"
  "b \<noteq> 0xff \<Longrightarrow> join32 0 0 (b + 1) a = join32 0xff 0xff b a + 1"
  "a \<noteq> 0xff \<Longrightarrow> join32 0 0 0 (a + 1) = join32 0xff 0xff 0xff a + 1"
  "join32 0 0 0 0 = join32 0xff 0xff 0xff 0xff + 1"
  by (simp_all add: join32_sum ucast_succ push_bit_add)

lemma scan_dotted_step:
  "n \<noteq> 0 \<Longrightarrow> scan_dotted (Suc n) (to_dec k @ CHR ''.'' # rest) = map_option (Cons (int k)) (scan_dotted n rest)"
  "scan_dotted (Suc 0) (to_dec k) = Some [int k]"
  using scan_u_to_dec [of "CHR ''.'' # rest" k] scan_u_to_dec [of "[]" k]
  by (simp_all add: scan_char_def is_digit_def)

lemma to_dec_no_nul: "takeWhile (\<lambda>c. c \<noteq> CHR 0x00) (to_dec n) = to_dec n"
  using to_dec_digits [of n] digit_not_special by (auto simp: takeWhile_eq_all_conv list_all_iff)

lemma ip4_addr_to_str_no_nul: "takeWhile (\<lambda>c. c \<noteq> CHR 0x00) (ip4_addr_to_str a) = ip4_addr_to_str a"
proof -
  have "c \<noteq> CHR 0x00" if "c \<in> set (to_dec n)" for c n
    using that to_dec_digits [of n] digit_not_special by (auto simp: list_all_iff)
  then show ?thesis by (cases a) (auto simp: takeWhile_eq_all_conv)
qed

lemma is_inside_subnet_aligned:
  assumes "no_mask_bits m = int (8 * k)" and "k < 4"
  shows "is_inside_subnet m ip = Inr (take k (octets (base_addr m)) = take k (octets ip))"
proof -
  have bits: "nat (8 * int k) = 8 * k" by linarith
  have "list_all (\<lambda>i. xs ! i = ys ! i) [0..<k] \<longleftrightarrow> take k xs = take k ys"
    if "length xs = 4" "length ys = 4" for xs ys :: bytes
    using that assms(2) by (auto simp: list_all_iff list_eq_iff_nth_eq)
  then show ?thesis
    using assms by (simp add: is_inside_subnet_def Let_def bits low_bits_def)
qed

lemma horner256_mod:
  assumes "a < 256" and "b < 256" and "c < 256" and "d < (256 :: nat)"
  shows "(((a + b * 256 mod 4294967296) mod 4294967296 + c * 65536 mod 4294967296) mod 4294967296
      + d * 16777216) mod 4294967296 = a + 256 * b + 65536 * c + 16777216 * d"
  using assms by simp

lemma unat_join32: "unat (join32 a b c d) = unat a + 256 * unat b + 65536 * unat c + 16777216 * unat d"
proof -
  have "take_bit 32 (unat x) = unat x" for x :: u8
    using unat_u8_less [of x] by (intro take_bit_nat_eq_self) (erule less_le_trans, simp)
  then show ?thesis
    using horner256_mod [of "unat a" "unat b" "unat c" "unat d"]
    by (simp add: join32_sum unat_word_ariths unsigned_ucast_eq push_bit_eq_mult)
qed

lemma ip4_less_value: "a < b \<longleftrightarrow> ip4_value a < ip4_value b"
proof -
  obtain x0 x1 x2 x3 where a: "a = Ip4_addr x0 x1 x2 x3" by (cases a)
  obtain y0 y1 y2 y3 where b: "b = Ip4_addr y0 y1 y2 y3" by (cases b)
  have "unat x0 < 256" "unat x1 < 256" "unat x2 < 256" "unat x3 < 256"
    "unat y0 < 256" "unat y1 < 256" "unat y2 < 256" "unat y3 < 256" by simp_all
  then have "ip4_value a < ip4_value b \<longleftrightarrow>
      (unat x0 < unat y0 \<or> unat x0 = unat y0 \<and>
       (unat x1 < unat y1 \<or> unat x1 = unat y1 \<and>
        (unat x2 < unat y2 \<or> unat x2 = unat y2 \<and> unat x3 < unat y3)))"
    unfolding a b ip4_value.simps word_less_nat_alt unat_join32 by linarith
  then show ?thesis
    by (auto simp: a b less_ip4_addr_def ip4_addr_less_def word_less_nat_alt word_unat_eq_iff)
qed

lemma drop_bit_join32:
  "drop_bit 8 (join32 d c b a) = join32 c b a 0" "drop_bit 16 (join32 d c b a) = join32 b a 0 0"
  "drop_bit 24 (join32 d c b a) = join32 a 0 0 0" "drop_bit 32 (join32 d c b a) = 0"
  by (rule bit_word_eqI; auto simp: join32_def bit_simps dest: bit_imp_le_length)+

lemma join32_inject [simp]: "join32 a b c d = join32 a' b' c' d' \<longleftrightarrow> a = a' \<and> b = b' \<and> c = c' \<and> d = d'"
  by (metis join32_sel)

lemma is_inside_subnet_cidr:
  assumes "no_mask_bits m \<in> {0, 8, 16, 24}"
  shows "is_inside_subnet m ip = Inr (cidr_block m ip)"
proof -
  obtain x0 x1 x2 x3 where x: "base_addr m = Ip4_addr x0 x1 x2 x3" by (cases "base_addr m")
  obtain y0 y1 y2 y3 where y: "ip = Ip4_addr y0 y1 y2 y3" by (cases ip)
  from assms consider "no_mask_bits m = int (8 * 0)" | "no_mask_bits m = int (8 * 1)"
    | "no_mask_bits m = int (8 * 2)" | "no_mask_bits m = int (8 * 3)" by auto
  then show ?thesis
    by cases (auto simp: is_inside_subnet_aligned cidr_block_def x y drop_bit_join32)
qed

lemma str_to_ip4_addr_print:
  "str_to_ip4_addr (ip4_addr_to_str a) = Inr (Some a)"
proof -
  obtain x0 x1 x2 x3 where a: "a = Ip4_addr x0 x1 x2 x3" by (cases a)
  have small: "\<bar>int (unat x)\<bar> < 2 ^ 32" for x :: u8
  proof -
    have "int (unat x) < 256" using unat_u8_less [of x] by linarith
    moreover have "(256 :: int) < 2 ^ 32" by simp
    ultimately show ?thesis by linarith
  qed
  have "scan_dotted 4 (ip4_addr_to_str a) = Some (map (\<lambda>x. int (unat x)) [x0, x1, x2, x3])"
    by (simp add: a numeral_eq_Suc scan_dotted_step del: scan_dotted.simps)
  then have "str_to_ip4_addr (ip4_addr_to_str a) = Inr (Some (of_octets [x0, x1, x2, x3]))"
    using small unfolding str_to_ip4_addr_def ip4_addr_to_str_no_nul by simp
  then show ?thesis by (simp add: a of_octets_def)
qed

lemma generate_next_ip_succ: "ip4_value (generate_next_ip a) = ip4_value a + 1"
proof -
  obtain x0 x1 x2 x3 where a: "a = Ip4_addr x0 x1 x2 x3" by (cases a)
  show ?thesis
  proof (cases "x3 = 0xff")
    case x3: True
    show ?thesis
    proof (cases "x2 = 0xff")
      case x2: True
      then show ?thesis
        using x3
        by (cases "x1 = 0xff"; cases "x0 = 0xff") (simp_all add: a generate_next_ip_def of_octets_def join32_carry(3,4) join32_carry(5) [symmetric])
    qed (use x3 in \<open>simp add: a generate_next_ip_def of_octets_def join32_carry\<close>)
  qed (simp add: a generate_next_ip_def of_octets_def join32_carry)
qed

section \<open>Properties\<close>

text \<open>\<^verbatim>\<open>generate_next_ip\<close> is the successor on addresses read as 32-bit big-endian
  numbers, wrapping from 255.255.255.255 to 0.0.0.0, and the address order of
  \<^verbatim>\<open>operator<\<close> is the order of these numbers.\<close>

theorem generate_next_ip_value:
  "ip4_value (generate_next_ip a) = ip4_value a + 1 \<and> (a < b \<longleftrightarrow> ip4_value a < ip4_value b)"
  by (simp add: generate_next_ip_succ ip4_less_value)

text \<open>Printing an address and parsing the text gives the address back, for every address.\<close>

theorem ip4_addr_text_roundtrip:
  "str_to_ip4_addr (ip4_addr_to_str a) = Inr (Some a)"
  by (rule str_to_ip4_addr_print)

text \<open>On octet boundaries (\<open>/0\<close>, \<open>/8\<close>, \<open>/16\<close>, \<open>/24\<close>)
  \<^verbatim>\<open>is_inside_subnet\<close> decides membership in the CIDR block, without a fault.\<close>

theorem is_inside_subnet_octet_boundary:
  assumes "no_mask_bits m \<in> {0, 8, 16, 24}"
  shows "is_inside_subnet m ip = Inr (cidr_block m ip)"
  using assms by (rule is_inside_subnet_cidr)

theorem is_inside_subnet_octet_boundary_witness:
  "no_mask_bits \<lparr>base_addr = Ip4_addr 192 168 0 0, no_mask_bits = 16\<rparr> \<in> {0, 8, 16, 24}
   \<and> is_inside_subnet \<lparr>base_addr = Ip4_addr 192 168 0 0, no_mask_bits = 16\<rparr> (Ip4_addr 192 168 7 9)
     = Inr (cidr_block \<lparr>base_addr = Ip4_addr 192 168 0 0, no_mask_bits = 16\<rparr> (Ip4_addr 192 168 7 9))"
proof -
  have h: "no_mask_bits \<lparr>base_addr = Ip4_addr 192 168 0 0, no_mask_bits = 16\<rparr> \<in> {0, 8, 16, 24}" by simp
  show ?thesis using h is_inside_subnet_octet_boundary [OF h] by blast
qed

text \<open>Off octet boundaries the mask \<^verbatim>\<open>(1 << bits) - 1\<close> keeps the low bits of the split
  octet instead of the high ones: 172.17.0.1 is refused as a member of 172.16.0.0/12 although it is
  one, 172.32.0.1 is accepted although it is not; and \<open>/32\<close> reads the array out of bounds.\<close>

theorem is_inside_subnet_low_bits:
  "cidr_block \<lparr>base_addr = Ip4_addr 172 16 0 0, no_mask_bits = 12\<rparr> (Ip4_addr 172 17 0 1)
   \<and> is_inside_subnet \<lparr>base_addr = Ip4_addr 172 16 0 0, no_mask_bits = 12\<rparr> (Ip4_addr 172 17 0 1) = Inr False
   \<and> \<not> cidr_block \<lparr>base_addr = Ip4_addr 172 16 0 0, no_mask_bits = 12\<rparr> (Ip4_addr 172 32 0 1)
   \<and> is_inside_subnet \<lparr>base_addr = Ip4_addr 172 16 0 0, no_mask_bits = 12\<rparr> (Ip4_addr 172 32 0 1) = Inr True
   \<and> is_inside_subnet \<lparr>base_addr = Ip4_addr 172 16 0 1, no_mask_bits = 32\<rparr> (Ip4_addr 172 16 0 1) = Inl Overread"
  by code_simp

end
