(* ===== verification/Routing.thy ===== *)
theory Routing
  imports Prelude
begin

text \<open>
  The routing-table template (\<^verbatim>\<open>src/abstract/routing/routing_table.h\<close>): the rules, the
  default gateway and \<^verbatim>\<open>find_route\<close>.  The search over the rules is the same loop in the
  two concrete tables (\<^verbatim>\<open>ip4_routing_table\<close>, \<^verbatim>\<open>ptp_local_conn_routing_table\<close>);
  the locale \<open>longest_prefix_routing\<close> states that loop as a contract over the membership test and
  the prefix length, and shows once that it returns the route of the first rule among those with the longest
  matching prefix.
\<close>

text \<open>\<^verbatim>\<open>routing_table\<close>: a route is a \<^verbatim>\<open>shared_ptr\<close> and may be null.\<close>

record ('m, 'r) routing_table =
  rules :: "('m \<times> 'r option) list"
  default_gateway :: "'r option"

definition empty_table :: "('m, 'r) routing_table" where
  "empty_table = \<lparr>rules = [], default_gateway = None\<rparr>"

definition add_routing_rule :: "'m \<Rightarrow> 'r option \<Rightarrow> ('m, 'r) routing_table \<Rightarrow> ('m, 'r) routing_table" where
  "add_routing_rule m r t = t\<lparr>rules := rules t @ [(m, r)]\<rparr>"

definition set_default_gateway :: "'r option \<Rightarrow> ('m, 'r) routing_table \<Rightarrow> ('m, 'r) routing_table" where
  "set_default_gateway r t = t\<lparr>default_gateway := r\<rparr>"

definition find_route ::
  "(('m \<times> 'r option) list \<Rightarrow> 'a \<Rightarrow> 'r option result) \<Rightarrow> ('m, 'r) routing_table \<Rightarrow> 'a \<Rightarrow> 'r option result" where
  "find_route impl_find_route t addr =
     bind_r (impl_find_route (rules t) addr) (\<lambda>route.
       if route \<noteq> None then Inr route else Inr (default_gateway t))"

text \<open>The specification: among the matching rules, the first of maximal prefix length.\<close>

definition longest_match :: "('m \<Rightarrow> int) \<Rightarrow> ('m \<times> 'r option) list \<Rightarrow> 'r option \<Rightarrow> bool" where
  "longest_match len ms r \<longleftrightarrow>
     (if ms = [] then r = None
      else \<exists>xs m ys. ms = xs @ (m, r) # ys \<and> (\<forall>x \<in> set xs. len (fst x) < len m) \<and> (\<forall>y \<in> set ys. len (fst y) \<le> len m))"

lemma longest_matchI:
  assumes "ms = xs @ (m, r) # ys" and "\<And>x. x \<in> set xs \<Longrightarrow> len (fst x) < len m"
    and "\<And>y. y \<in> set ys \<Longrightarrow> len (fst y) \<le> len m"
  shows "longest_match len ms r"
proof -
  have "\<exists>xs m ys. ms = xs @ (m, r) # ys \<and> (\<forall>x \<in> set xs. len (fst x) < len m) \<and> (\<forall>y \<in> set ys. len (fst y) \<le> len m)"
    using assms by (intro exI [of _ xs] exI [of _ m] exI [of _ ys]) blast
  then show ?thesis by (auto simp: longest_match_def)
qed

lemma append_Cons_cases:
  "xs @ a # ys = xs' @ b # ys' \<Longrightarrow>
   (xs = xs' \<and> a = b) \<or> (\<exists>us. xs = xs' @ b # us) \<or> (\<exists>us. xs' = xs @ a # us)"
  by (auto simp: append_eq_append_conv2 Cons_eq_append_conv append_eq_Cons_conv)

lemma longest_match_unique: "longest_match len ms r \<Longrightarrow> longest_match len ms r' \<Longrightarrow> r = r'"
proof (cases "ms = []")
  case False
  assume "longest_match len ms r" "longest_match len ms r'"
  with False obtain xs m ys where
    1: "ms = xs @ (m, r) # ys" "\<forall>x \<in> set xs. len (fst x) < len m" "\<forall>y \<in> set ys. len (fst y) \<le> len m"
    unfolding longest_match_def by metis
  from \<open>longest_match len ms r'\<close> False obtain xs' m' ys' where
    2: "ms = xs' @ (m', r') # ys'" "\<forall>x \<in> set xs'. len (fst x) < len m'" "\<forall>y \<in> set ys'. len (fst y) \<le> len m'"
    unfolding longest_match_def by metis
  from 1(1) 2(1) have "xs @ (m, r) # ys = xs' @ (m', r') # ys'" by simp
  from append_Cons_cases [OF this] consider "xs = xs'" "m = m'" "r = r'"
    | us where "xs = xs' @ (m', r') # us" | us where "xs' = xs @ (m, r) # us"
    by auto
  then show ?thesis
  proof cases
    case (2 us)
    with 1 \<open>ms = xs' @ (m', r') # ys'\<close> have "len m' < len m" "(m, r) \<in> set ys'" by auto
    with \<open>\<forall>y \<in> set ys'. len (fst y) \<le> len m'\<close> show ?thesis by force
  next
    case (3 us)
    with 2 1(1) have "len m < len m'" "(m', r') \<in> set ys" by auto
    with 1(3) show ?thesis by force
  qed simp
qed (simp add: longest_match_def)

text \<open>One round of the loop, on the pair of \<^verbatim>\<open>closest_subnet\<close> and \<^verbatim>\<open>closest_route\<close>.\<close>

definition closer :: "('m \<Rightarrow> int) \<Rightarrow> 'm \<times> 'r option \<Rightarrow> 'm option \<times> 'r option \<Rightarrow> 'm option \<times> 'r option" where
  "closer len rule best =
     (case fst best of None \<Rightarrow> (Some (fst rule), snd rule)
      | Some c \<Rightarrow> if len (fst rule) > len c then (Some (fst rule), snd rule) else best)"

lemma fold_closer:
  assumes "fold (closer len) ms (None, None) = (c, r)"
  shows "longest_match len ms r \<and> (ms = [] \<longleftrightarrow> c = None) \<and>
    (\<forall>m. c = Some m \<longrightarrow> (\<exists>xs ys. ms = xs @ (m, r) # ys \<and> (\<forall>x \<in> set xs. len (fst x) < len m) \<and> (\<forall>y \<in> set ys. len (fst y) \<le> len m)))"
  using assms
proof (induction ms arbitrary: c r rule: rev_induct)
  case Nil
  then show ?case by (simp add: longest_match_def)
next
  case (snoc x ms)
  obtain c0 r0 where st: "fold (closer len) ms (None, None) = (c0, r0)" by force
  obtain m1 r1 where x: "x = (m1, r1)" by force
  note IH = snoc.IH [OF st]
  have cr: "(c, r) = closer len x (c0, r0)" using snoc.prems st by simp
  have split: "\<exists>m xs ys. c = Some m \<and> ms @ [x] = xs @ (m, r) # ys \<and> (\<forall>x \<in> set xs. len (fst x) < len m)
      \<and> (\<forall>y \<in> set ys. len (fst y) \<le> len m)"
  proof (cases c0)
    case None
    with IH cr x have "ms @ [x] = [] @ (m1, r) # []" "c = Some m1" by (auto simp: closer_def)
    then show ?thesis by (metis empty_iff list.set(1))
  next
    case (Some m)
    with IH obtain xs ys where ms: "ms = xs @ (m, r0) # ys" "\<forall>x \<in> set xs. len (fst x) < len m"
      "\<forall>y \<in> set ys. len (fst y) \<le> len m" by blast
    show ?thesis
    proof (cases "len m1 > len m")
      case True
      with ms have "\<forall>x \<in> set ms. len (fst x) < len m1" by force
      moreover from True Some cr x have "c = Some m1" "r = r1" by (auto simp: closer_def)
      ultimately show ?thesis using x by (intro exI [of _ m1] exI [of _ ms] exI [of _ "[]"]) simp
    next
      case False
      with Some cr x have "c = Some m" "r = r0" by (auto simp: closer_def)
      moreover have "ms @ [x] = xs @ (m, r0) # (ys @ [x])" using ms by simp
      moreover have "\<forall>y \<in> set (ys @ [x]). len (fst y) \<le> len m" using ms False x by auto
      ultimately show ?thesis
        using ms(2) by (intro exI [of _ m] exI [of _ xs] exI [of _ "ys @ [x]"]) simp
    qed
  qed
  then obtain m xs ys where *: "c = Some m" "ms @ [x] = xs @ (m, r) # ys"
    "\<forall>x \<in> set xs. len (fst x) < len m" "\<forall>y \<in> set ys. len (fst y) \<le> len m" by blast
  then have "longest_match len (ms @ [x]) r" by (intro longest_matchI) auto
  with * show ?case by (metis Nil_is_append_conv not_Cons_self2 option.distinct(1) option.inject)
qed

locale longest_prefix_routing =
  fixes inside :: "'m \<Rightarrow> 'a \<Rightarrow> bool result"
    and len :: "'m \<Rightarrow> int"
    and loop :: "('m \<times> 'r option) list \<Rightarrow> 'a \<Rightarrow> 'm option \<times> 'r option \<Rightarrow> 'r option result"
  assumes loop_Nil: "loop [] addr best = Inr (snd best)"
    and loop_Cons: "loop (rule # rs) addr best =
      bind_r (inside (fst rule) addr) (\<lambda>b. loop rs addr (if b then closer len rule best else best))"
begin

text \<open>The rules that match, when no membership test faults.\<close>

lemma loop_fold:
  assumes "\<forall>x \<in> set rs. \<exists>b. inside (fst x) addr = Inr b"
  shows "loop rs addr best = Inr (snd (fold (closer len) (filter (\<lambda>x. inside (fst x) addr = Inr True) rs) best))"
  using assms
proof (induction rs arbitrary: best)
  case (Cons x rs)
  then obtain b where b: "inside (fst x) addr = Inr b" by auto
  from Cons have "loop rs addr best = Inr (snd (fold (closer len) (filter (\<lambda>x. inside (fst x) addr = Inr True) rs) best))"
    for best by simp
  then show ?case by (cases b) (simp_all add: loop_Cons b)
qed (simp add: loop_Nil)

lemma loop_longest_match:
  assumes "\<forall>x \<in> set rs. \<exists>b. inside (fst x) addr = Inr b"
  shows "\<exists>r. loop rs addr (None, None) = Inr r
    \<and> longest_match len (filter (\<lambda>x. inside (fst x) addr = Inr True) rs) r"
proof -
  obtain c r where f: "fold (closer len) (filter (\<lambda>x. inside (fst x) addr = Inr True) rs) (None, None) = (c, r)"
    by force
  show ?thesis using fold_closer [OF f] loop_fold [OF assms, of "(None, None)"] f by simp
qed

text \<open>The first rule whose membership test faults makes the search fault.\<close>

lemma loop_fault:
  "loop rs addr best = Inl e \<Longrightarrow> \<exists>x \<in> set rs. inside (fst x) addr = Inl e"
proof (induction rs arbitrary: best)
  case (Cons x rs)
  from Cons.prems consider "inside (fst x) addr = Inl e"
    | b where "loop rs addr (if b then closer len x best else best) = Inl e"
    by (auto simp: loop_Cons bind_r_eq_Inl)
  then show ?case using Cons.IH by cases auto
qed (simp add: loop_Nil)

lemma find_route_correct:
  assumes "\<forall>x \<in> set (rules t). \<exists>b. inside (fst x) addr = Inr b"
  shows "\<exists>r. longest_match len (filter (\<lambda>x. inside (fst x) addr = Inr True) (rules t)) r
    \<and> find_route (\<lambda>rs a. loop rs a (None, None)) t addr
      = Inr (if r \<noteq> None then r else default_gateway t)"
proof -
  from loop_longest_match [OF assms] obtain r where
    r: "loop (rules t) addr (None, None) = Inr r"
       "longest_match len (filter (\<lambda>x. inside (fst x) addr = Inr True) (rules t)) r" by blast
  then show ?thesis by (intro exI [of _ r]) (simp add: find_route_def)
qed

end

end
