(* ===== verification/Mac_Addr.thy ===== *)
theory Mac_Addr
  imports Text Ip4_Addr
begin

text \<open>
  MAC addresses (\<^verbatim>\<open>src/protocols/ether2/mac_addr.h\<close>, \<^verbatim>\<open>mac_addr.cpp\<close>):
  comparison, the text form and the wire form.  The parser's \<^verbatim>\<open>std::regex\<close> is the predicate
  \<open>mac_shape\<close>; the \<^verbatim>\<open>std::stringstream\<close> is the rest of the text together with its
  end-of-file flag, since extraction from an exhausted stream leaves the target string unchanged.
\<close>

datatype mac_addr = Mac_addr u8 u8 u8 u8 u8 u8

fun mac_octets :: "mac_addr \<Rightarrow> bytes" where
  "mac_octets (Mac_addr a b c d e f) = [a, b, c, d, e, f]"

definition mac_addr_eq :: "mac_addr \<Rightarrow> mac_addr \<Rightarrow> bool" where
  "mac_addr_eq a b = octets_eq (mac_octets a) (mac_octets b)"

definition mac_addr_neq :: "mac_addr \<Rightarrow> mac_addr \<Rightarrow> bool" where
  "mac_addr_neq a b = (\<not> mac_addr_eq b a)"

lemma length_mac_octets [simp, codec_simps]: "length (mac_octets a) = 6"
  by (cases a) simp

lemma mac_octets_inj [simp]: "mac_octets a = mac_octets b \<longleftrightarrow> a = b"
  by (cases a; cases b) auto

lemma mac_addr_eq_iff [simp]: "mac_addr_eq a b \<longleftrightarrow> a = b"
  by (simp add: mac_addr_eq_def octets_eq_iff)

lemma mac_addr_neq_iff [simp]: "mac_addr_neq a b \<longleftrightarrow> a \<noteq> b"
  by (auto simp: mac_addr_neq_def)

text \<open>The comparison loop is a strict linear order on byte arrays of one length.\<close>

lemma octets_less_irrefl: "\<not> octets_less xs xs"
  by (induction xs) auto

lemma octets_less_trans:
  "octets_less xs ys \<Longrightarrow> octets_less ys zs \<Longrightarrow> length xs = length ys \<Longrightarrow> length ys = length zs \<Longrightarrow> octets_less xs zs"
proof (induction xs ys arbitrary: zs rule: octets_less.induct)
  case (1 x xs y ys)
  then obtain z zs' where "zs = z # zs'" by (cases zs) auto
  with 1 show ?case by (auto split: if_splits)
qed auto

lemma octets_less_linear: "length xs = length ys \<Longrightarrow> octets_less xs ys \<or> xs = ys \<or> octets_less ys xs"
  by (induction xs ys rule: octets_less.induct) auto

definition mac_addr_less :: "mac_addr \<Rightarrow> mac_addr \<Rightarrow> bool" where
  "mac_addr_less a b = octets_less (mac_octets a) (mac_octets b)"

definition mac_addr_le :: "mac_addr \<Rightarrow> mac_addr \<Rightarrow> bool" where
  "mac_addr_le a b = (\<not> octets_less (mac_octets b) (mac_octets a))"

instantiation mac_addr :: linorder
begin

definition less_mac_addr :: "mac_addr \<Rightarrow> mac_addr \<Rightarrow> bool" where
  "a < b = mac_addr_less a b"

definition less_eq_mac_addr :: "mac_addr \<Rightarrow> mac_addr \<Rightarrow> bool" where
  "a \<le> b = mac_addr_le a b"

instance
proof
  fix x y z :: mac_addr
  note lin = octets_less_linear [of "mac_octets x" "mac_octets y"] octets_less_linear [of "mac_octets y" "mac_octets z"]
  note trans = octets_less_trans [of "mac_octets x" "mac_octets y" "mac_octets x"]
    octets_less_trans [of "mac_octets z" "mac_octets x" "mac_octets y"]
    octets_less_trans [of "mac_octets y" "mac_octets z" "mac_octets x"]
  show "(x < y) = (x \<le> y \<and> \<not> y \<le> x)"
    using trans(1) octets_less_irrefl by (auto simp: less_mac_addr_def mac_addr_less_def less_eq_mac_addr_def mac_addr_le_def)
  show "x \<le> x" by (simp add: less_eq_mac_addr_def mac_addr_le_def octets_less_irrefl)
  show "x \<le> y \<Longrightarrow> y \<le> z \<Longrightarrow> x \<le> z"
    using lin trans by (auto simp: less_eq_mac_addr_def mac_addr_le_def)
  show "x \<le> y \<Longrightarrow> y \<le> x \<Longrightarrow> x = y"
    using lin(1) by (auto simp: less_eq_mac_addr_def mac_addr_le_def)
  show "x \<le> y \<or> y \<le> x"
    using trans(1) octets_less_irrefl by (auto simp: less_eq_mac_addr_def mac_addr_le_def)
qed

end

definition mac_addr_broadcast :: mac_addr where
  "mac_addr_broadcast = Mac_addr 0xff 0xff 0xff 0xff 0xff 0xff"

definition mac_addr_empty :: mac_addr where
  "mac_addr_empty = Mac_addr 0 0 0 0 0 0"

section \<open>Text form\<close>

text \<open>\<^verbatim>\<open>^([0-9A-Fa-f]{2}[:-]){5}([0-9A-Fa-f]{2})$\<close>, as a number of leading pairs with delimiter.\<close>

fun mac_shape :: "nat \<Rightarrow> string \<Rightarrow> bool" where
  "mac_shape 0 s = (length s = 2 \<and> list_all is_hex s)"
| "mac_shape (Suc n) (a # b # d # s) =
     (is_hex a \<and> is_hex b \<and> (d = CHR '':'' \<or> d = CHR ''-'') \<and> mac_shape n s)"
| "mac_shape (Suc n) _ = False"

type_synonym stream = "string \<times> bool"

text \<open>\<^verbatim>\<open>std::getline(ss, target, delimiter)\<close> and \<^verbatim>\<open>ss >> target\<close>.\<close>

definition getline :: "char \<Rightarrow> stream \<Rightarrow> string \<Rightarrow> stream \<times> string" where
  "getline d ss old =
     (if snd ss then (ss, old)
      else if d \<in> set (fst ss) then ((tl (dropWhile (\<lambda>c. c \<noteq> d) (fst ss)), False), takeWhile (\<lambda>c. c \<noteq> d) (fst ss))
      else (([], True), fst ss))"

definition read_word :: "stream \<Rightarrow> string \<Rightarrow> stream \<times> string" where
  "read_word ss old =
     (let r = dropWhile is_space (fst ss); w = takeWhile (\<lambda>c. \<not> is_space c) r
      in if snd ss then (ss, old) else if r = [] then (([], True), old)
         else ((drop (length w) r, drop (length w) r = []), w))"

fun mac_fields :: "nat \<Rightarrow> char \<Rightarrow> stream \<Rightarrow> string \<Rightarrow> bytes result" where
  "mac_fields 0 d ss byteStr = Inr []"
| "mac_fields (Suc n) d ss byteStr =
     (let (ss', byteStr') = (if n \<noteq> 0 then getline d ss byteStr else read_word ss byteStr)
      in case stoul16 byteStr' of None \<Rightarrow> Inl Thrown
         | Some v \<Rightarrow> bind_r (mac_fields n d ss' byteStr') (\<lambda>r. Inr (word_of_int v # r)))"

definition mac_of_octets :: "bytes \<Rightarrow> mac_addr" where
  "mac_of_octets xs = Mac_addr (xs ! 0) (xs ! 1) (xs ! 2) (xs ! 3) (xs ! 4) (xs ! 5)"

definition str_to_mac_addr :: "string \<Rightarrow> mac_addr option result" where
  "str_to_mac_addr str =
     (if \<not> mac_shape 5 str then Inr None
      else bind_r (mac_fields 6 (if CHR '':'' \<in> set str then CHR '':'' else CHR ''-'') (str, False) [])
             (\<lambda>xs. Inr (Some (mac_of_octets xs))))"

text \<open>\<^verbatim>\<open>%02x\<close>\<close>

definition hex2 :: "u8 \<Rightarrow> string" where
  "hex2 x = [hex_char (unat x div 16), hex_char (unat x mod 16)]"

fun mac_addr_to_str :: "mac_addr \<Rightarrow> string" where
  "mac_addr_to_str (Mac_addr a b c d e f) =
     hex2 a @ '':'' @ hex2 b @ '':'' @ hex2 c @ '':'' @ hex2 d @ '':'' @ hex2 e @ '':'' @ hex2 f"

section \<open>Wire form\<close>

definition write_mac_addr :: "mac_addr \<Rightarrow> bytes" where
  "write_mac_addr a = mac_octets a"

fun extract_mac_addr :: "bytes \<Rightarrow> (mac_addr \<times> bytes) result" where
  "extract_mac_addr (a # b # c # d # e # f # p) = Inr (Mac_addr a b c d e f, p)"
| "extract_mac_addr _ = Inl Overread"

lemma extract_write_mac_addr [simp, codec_simps]:
  "extract_mac_addr (write_mac_addr a @ p) = Inr (a, p)"
  by (cases a) (simp add: write_mac_addr_def)

lemma length_write_mac_addr [simp, codec_simps]: "length (write_mac_addr a) = 6"
  by (simp add: write_mac_addr_def)

lemma extract_mac_addr_if [load_ifs]: "extract_mac_addr p =
    (if 6 \<le> length p then Inr (Mac_addr (p ! 0) (p ! 1) (p ! 2) (p ! 3) (p ! 4) (p ! 5), drop 6 p)
     else Inl Overread)"
  by (induction p rule: extract_mac_addr.induct) auto

lemma reads_mac_addr [reads_intros]: "reads extract_mac_addr 6"
  by (simp add: reads_def extract_mac_addr_if)

lemma extract_mac_addr_length: "extract_mac_addr p = Inr (a, q) \<Longrightarrow> length p = length q + 6"
  by (induction p rule: extract_mac_addr.induct) auto

lemma extract_mac_addr_fault: "extract_mac_addr p = Inl e \<longleftrightarrow> e = Overread \<and> length p < 6"
  by (induction p rule: extract_mac_addr.induct) auto

section \<open>Parsing a text with one kind of delimiter\<close>

definition hex_pair :: "string \<Rightarrow> bool" where
  "hex_pair s \<longleftrightarrow> length s = 2 \<and> list_all is_hex s"

lemma hex_pair_no_delim: "hex_pair s \<Longrightarrow> CHR '':'' \<notin> set s \<and> CHR ''-'' \<notin> set s"
  using hex_not_special by (fastforce simp: hex_pair_def list_all_iff)

lemma stoul16_pair:
  assumes "hex_pair s"
  shows "stoul16 s = Some (int (hex_value s))"
proof -
  from assms obtain a b where s: "s = [a, b]" "is_hex a" "is_hex b"
    by (auto simp: hex_pair_def length_Suc_conv numeral_2_eq_2)
  with hex_not_special [OF s(2)] is_hex_not_space [OF s(2)] show ?thesis
    by (simp add: stoul16_def)
qed

lemma mac_shape_join:
  assumes "list_all hex_pair ps" and "length ps = Suc n" and "sep \<in> {CHR '':'', CHR ''-''}"
  shows "mac_shape n (join_with [sep] ps)"
  using assms
proof (induction n arbitrary: ps)
  case 0
  then show ?case by (auto simp: length_Suc_conv hex_pair_def)
next
  case (Suc n)
  then obtain p q ps' where ps: "ps = p # q # ps'" "hex_pair p" by (auto simp: length_Suc_conv)
  then obtain a b where "p = [a, b]" "is_hex a" "is_hex b"
    by (auto simp: hex_pair_def length_Suc_conv numeral_2_eq_2)
  with Suc ps show ?case by auto
qed

lemma getline_pair:
  "hex_pair p \<Longrightarrow> sep \<in> {CHR '':'', CHR ''-''} \<Longrightarrow> getline sep (p @ sep # rest, False) old = ((rest, False), p)"
  using hex_pair_no_delim [of p]
  by (auto simp: getline_def takeWhile_append dropWhile_append takeWhile_eq_all_conv)

lemma read_word_pair: "hex_pair p \<Longrightarrow> read_word (p, False) old = (([], True), p)"
  using is_hex_not_space by (auto simp: hex_pair_def length_Suc_conv numeral_2_eq_2 read_word_def Let_def)

lemma mac_fields_join:
  assumes "list_all hex_pair ps" and "length ps = n" and "n \<noteq> 0" and "sep \<in> {CHR '':'', CHR ''-''}"
  shows "mac_fields n sep (join_with [sep] ps, False) old = Inr (map (\<lambda>p. word_of_int (int (hex_value p))) ps)"
  using assms
proof (induction n arbitrary: ps old)
  case (Suc n)
  then obtain p ps' where ps: "ps = p # ps'" "hex_pair p" "list_all hex_pair ps'" "length ps' = n"
    by (cases ps) auto
  show ?case
  proof (cases "n = 0")
    case True
    with ps show ?thesis by (simp add: read_word_pair stoul16_pair)
  next
    case False
    with ps obtain q qs where "ps' = q # qs" by (cases ps') auto
    then have "join_with [sep] ps = p @ sep # join_with [sep] ps'" using ps by simp
    with False ps Suc show ?thesis by (simp add: getline_pair stoul16_pair)
  qed
qed simp

lemma set_join_pairs:
  "list_all hex_pair ps \<Longrightarrow> CHR '':'' \<in> set (join_with [sep] ps) \<longleftrightarrow> sep = CHR '':'' \<and> 2 \<le> length ps"
proof (induction "[sep]" ps rule: join_with.induct)
  case (3 x v va)
  then show ?case using hex_pair_no_delim [of x] by (auto simp: Suc_le_eq)
qed (auto dest: hex_pair_no_delim)

lemma str_to_mac_addr_uniform:
  assumes "list_all hex_pair ps" and "length ps = 6" and "sep \<in> {CHR '':'', CHR ''-''}"
  shows "str_to_mac_addr (join_with [sep] ps) = Inr (Some (mac_of_octets (map (\<lambda>p. word_of_int (int (hex_value p))) ps)))"
proof -
  have "mac_shape 5 (join_with [sep] ps)" using mac_shape_join [of ps 5 sep] assms by simp
  moreover have "(if CHR '':'' \<in> set (join_with [sep] ps) then CHR '':'' else CHR ''-'') = sep"
    using set_join_pairs [OF assms(1), of sep] assms by auto
  ultimately show ?thesis
    using mac_fields_join [OF assms(1,2) _ assms(3)] by (simp add: str_to_mac_addr_def)
qed

lemma hex2_pair [simp]: "hex_pair (hex2 x)"
  using unat_u8_less [of x] by (auto simp: hex_pair_def hex2_def less_mult_imp_div_less)

lemma hex2_value [simp]: "word_of_nat (hex_value (hex2 x)) = x"
proof -
  have "unat x div 16 < 16" using unat_u8_less [of x] by (simp add: less_mult_imp_div_less)
  then have "hex_value (hex2 x) = unat x" by (simp add: hex_value_def hex2_def)
  then show ?thesis by simp
qed

section \<open>Properties\<close>

lemma str_to_mac_addr_print:
  "str_to_mac_addr (mac_addr_to_str a) = Inr (Some a)"
proof (cases a)
  case (Mac_addr u v w x y z)
  let ?ps = "map hex2 [u, v, w, x, y, z]"
  have "mac_addr_to_str a = join_with [CHR '':''] ?ps" by (simp add: Mac_addr)
  moreover have "str_to_mac_addr (join_with [CHR '':''] ?ps) = Inr (Some a)"
    by (subst str_to_mac_addr_uniform) (auto simp: Mac_addr mac_of_octets_def)
  ultimately show ?thesis by simp
qed

text \<open>Printing a MAC address and parsing the text gives the address back, for every address.\<close>

theorem mac_addr_text_roundtrip:
  "str_to_mac_addr (mac_addr_to_str a) = Inr (Some a)"
  by (rule str_to_mac_addr_print)

text \<open>A text with both delimiters passes the regular expression, and is parsed to another address:
  the fields are cut at colons only, and a stream that is exhausted early repeats the last field.\<close>

theorem mac_addr_mixed_delimiters:
  "mac_shape 5 ''00-11:22:33:44:55'' \<and>
   str_to_mac_addr ''00-11:22:33:44:55'' = Inr (Some (Mac_addr 0 0x22 0x33 0x44 0x55 0x55))"
  by code_simp

end
