(* ===== verification/Ether2.thy ===== *)
theory Ether2
  imports Mac_Addr
begin

text \<open>
  Ethernet II (\<^verbatim>\<open>src/protocols/ether2\<close>): the EtherType names, the frame header and its wire
  form, the CRC-32 of the frame, sending, the filter of \<^verbatim>\<open>connect_recv\<close>, and the headers the two
  kinds of \<^verbatim>\<open>net_access\<close> put in front of what is sent through them.  The enumeration
  \<^verbatim>\<open>ethertype : uint16_t\<close> holds any 16-bit value, so it is a word with two named values.  The
  lemmas show that the header codec meets the contract \<open>wire_codec\<close>, that the receiver meets
  \<open>framed_protocol\<close>, and that the table-driven CRC is the bitwise one.
\<close>

section \<open>EtherType\<close>

type_synonym ethertype = u16

definition ethertype_ip4 :: ethertype where "ethertype_ip4 = 0x0800"
definition ethertype_arp :: ethertype where "ethertype_arp = 0x0806"

definition ethertype_to_str :: "ethertype \<Rightarrow> string option" where
  "ethertype_to_str prot =
     (if prot = ethertype_arp then Some ''arp'' else if prot = ethertype_ip4 then Some ''ip4'' else None)"

definition str_to_ethertype :: "string \<Rightarrow> ethertype option" where
  "str_to_ethertype str =
     (if str = ''arp'' then Some ethertype_arp else if str = ''ip4'' then Some ethertype_ip4 else None)"

lemma ethertype_names: "ethertype_to_str prot = Some s \<longleftrightarrow> str_to_ethertype s = Some prot"
  by (auto simp: ethertype_to_str_def str_to_ethertype_def ethertype_ip4_def ethertype_arp_def)

section \<open>Header\<close>

record ethernet2_header =
  eth_src_addr :: mac_addr
  eth_dest_addr :: mac_addr
  eth_prot :: ethertype

definition sizeof_ethernet2_header :: nat where "sizeof_ethernet2_header = 14"

definition write_ethernet2_header :: "ethernet2_header \<Rightarrow> bytes" where
  "write_ethernet2_header src =
     write_mac_addr (eth_dest_addr src) @ write_mac_addr (eth_src_addr src) @ store16 (htons (eth_prot src))"

definition extract_ethernet2_header :: "bytes \<Rightarrow> (ethernet2_header \<times> nat) result" where
  "extract_ethernet2_header src =
     bind_r (extract_mac_addr src) (\<lambda>(dst, p).
     bind_r (extract_mac_addr p) (\<lambda>(sa, q).
     bind_r (load16 q) (\<lambda>(t, _).
     Inr (\<lparr>eth_src_addr = sa, eth_dest_addr = dst, eth_prot = ntohs t\<rparr>, sizeof_ethernet2_header))))"

lemma length_write_ethernet2_header [simp]: "length (write_ethernet2_header h) = sizeof_ethernet2_header"
  by (simp add: write_ethernet2_header_def sizeof_ethernet2_header_def)

section \<open>CRC\<close>

definition POLY :: u32 where "POLY = 0xEDB88320"

definition crc_step :: "u32 \<Rightarrow> u32" where
  "crc_step crc = (if crc AND 1 \<noteq> 0 then POLY XOR drop_bit 1 crc else drop_bit 1 crc)"

definition crc32_entry :: "u32 \<Rightarrow> u32" where
  "crc32_entry i = (crc_step ^^ 8) i"

definition crc32_table :: "u32 list" where
  "crc32_table = map (\<lambda>i. crc32_entry (word_of_nat i)) [0..<256]"

definition crc_byte :: "u8 \<Rightarrow> u32 \<Rightarrow> u32" where
  "crc_byte b crc = (let index = (ucast ((crc XOR ucast b) AND 0xFF) :: u8)
                     in drop_bit 8 crc XOR crc32_table ! unat index)"

definition ethernet_calc_crc :: "bytes \<Rightarrow> u32" where
  "ethernet_calc_crc data = NOT (fold crc_byte data 0xFFFFFFFF)"

text \<open>The definition of CRC-32: one bit at a time, no table.\<close>

definition crc32_reference :: "bytes \<Rightarrow> u32" where
  "crc32_reference data = NOT (fold (\<lambda>b crc. (crc_step ^^ 8) (crc XOR ucast b)) data 0xFFFFFFFF)"

section \<open>Sending\<close>

definition ethernet2_send :: "'s option \<Rightarrow> ethernet2_header \<Rightarrow> bytes \<Rightarrow> ('s \<times> bytes) list result" where
  "ethernet2_send ether2_surface header data =
     send_frame ether2_surface (frame_buff sizeof_ethernet2_header (write_ethernet2_header header) data)"

text \<open>The headers of \<^verbatim>\<open>net_access_broadcast\<close> and \<^verbatim>\<open>net_access_single\<close>: the access's own
  address is its \<^verbatim>\<open>dest_addr\<close>, the peer's its \<^verbatim>\<open>src_addr\<close>, as seen in received frames.\<close>

definition ethernet2_broadcast_header :: "mac_addr option \<Rightarrow> ethertype option \<Rightarrow> ethernet2_header" where
  "ethernet2_broadcast_header dst pr =
     \<lparr>eth_src_addr = (case dst of Some a \<Rightarrow> a | None \<Rightarrow> mac_addr_empty), eth_dest_addr = mac_addr_broadcast,
      eth_prot = (case pr of Some t \<Rightarrow> t | None \<Rightarrow> 0)\<rparr>"

definition ethernet2_single_header :: "mac_addr \<Rightarrow> mac_addr option \<Rightarrow> ethertype option \<Rightarrow> ethernet2_header" where
  "ethernet2_single_header sa dst pr =
     \<lparr>eth_src_addr = (case dst of Some a \<Rightarrow> a | None \<Rightarrow> mac_addr_empty), eth_dest_addr = sa,
      eth_prot = (case pr of Some t \<Rightarrow> t | None \<Rightarrow> 0)\<rparr>"

section \<open>Receiving\<close>

record ethernet2_conditions =
  cond_src :: "mac_addr option"
  cond_dest :: "mac_addr option"
  cond_type :: "ethertype option"

text \<open>\<^verbatim>\<open>my_recv::handle_recv\<close> of \<^verbatim>\<open>connect_recv\<close>: what the listener is given, if anything.\<close>

definition ethernet2_recv :: "ethernet2_conditions \<Rightarrow> bytes \<Rightarrow> (ethernet2_header \<times> bytes) option result" where
  "ethernet2_recv c data =
     bind_r (extract_ethernet2_header data) (\<lambda>(eth_header, _).
       let encap_data = drop sizeof_ethernet2_header data in
       if \<not> opt_sel mac_addr_neq (cond_src c) (eth_src_addr eth_header) then Inr None
       else if \<not> opt_sel mac_addr_neq (cond_dest c) (eth_dest_addr eth_header) then Inr None
       else if \<not> opt_sel (\<noteq>) (cond_type c) (eth_prot eth_header) then Inr None
       else Inr (Some (eth_header, encap_data)))"

definition ethernet2_sel :: "ethernet2_conditions \<Rightarrow> ethernet2_header \<Rightarrow> bool" where
  "ethernet2_sel c h \<longleftrightarrow> opt_sel (\<noteq>) (cond_src c) (eth_src_addr h) \<and> opt_sel (\<noteq>) (cond_dest c) (eth_dest_addr h)
     \<and> opt_sel (\<noteq>) (cond_type c) (eth_prot h)"

lemma opt_sel_mac: "opt_sel mac_addr_neq = opt_sel (\<noteq>)"
  by (intro ext) (simp add: opt_sel_def split: option.split)

interpretation ethernet2: framed_protocol
  "\<lambda>h. Inr (write_ethernet2_header h)" extract_ethernet2_header "\<lambda>_. True" ethernet2_sel ethernet2_recv
proof unfold_locales
  fix h bs p
  assume "Inr (write_ethernet2_header h) = (Inr bs :: bytes result)"
  then show "extract_ethernet2_header (bs @ p) = Inr (h, length bs)"
    by (auto simp: extract_ethernet2_header_def write_ethernet2_header_def sizeof_ethernet2_header_def)
next
  fix c d
  show "ethernet2_recv c d = bind_r (extract_ethernet2_header d)
      (\<lambda>(h, n). Inr (if ethernet2_sel c h then Some (h, drop n d) else None))"
    unfolding ethernet2_recv_def
    by (rule bind_r_cong) (auto simp: extract_ethernet2_header_def bind_r_eq_Inr opt_sel_mac
        ethernet2_sel_def Let_def split: prod.splits)
qed simp

lemma extract_ethernet2_header_fault:
  "extract_ethernet2_header d = Inl e \<longleftrightarrow> e = Overread \<and> length d < sizeof_ethernet2_header"
  by (auto simp: extract_ethernet2_header_def sizeof_ethernet2_header_def load_ifs)

section \<open>The table-driven CRC\<close>

lemma crc_step_alt: "crc_step c = drop_bit 1 c XOR (if bit c 0 then POLY else 0)"
  by (simp add: crc_step_def and_one_eq odd_iff_mod_2_eq_one [symmetric] bit_0 xor.commute)

lemma crc_step_xor: "crc_step (a XOR b) = crc_step a XOR crc_step b"
  unfolding crc_step_alt bit_xor_iff drop_bit_xor
  by (cases "bit a 0"; cases "bit b 0") (simp_all add: ac_simps)

lemma crc_steps_xor: "(crc_step ^^ n) (a XOR b) = (crc_step ^^ n) a XOR (crc_step ^^ n) b"
  by (induction n) (simp_all add: crc_step_xor)

lemma crc_steps_shift: "(crc_step ^^ n) (push_bit n a) = drop_bit n (push_bit n a)"
proof (induction n arbitrary: a)
  case (Suc n)
  have "push_bit (Suc n) a = push_bit n (push_bit 1 a)" by (simp add: push_bit_push_bit)
  then have "(crc_step ^^ Suc n) (push_bit (Suc n) a) = crc_step (drop_bit n (push_bit (Suc n) a))"
    by (simp add: Suc.IH)
  moreover have "\<not> bit (drop_bit n (push_bit (Suc n) a)) 0"
    by (simp add: bit_drop_bit_eq bit_push_bit_iff bit_0)
  ultimately show ?case
    by (simp only: crc_step_alt [of "drop_bit n _"] if_False xor.right_neutral drop_bit_drop_bit) simp
qed simp

lemma crc_entry: "(crc_step ^^ 8) x = drop_bit 8 x XOR crc32_entry (x AND 0xFF)"
proof -
  let ?hi = "push_bit 8 (drop_bit 8 x)"
  have x: "x = ?hi XOR (x AND 0xFF)"
    unfolding and_FF by (rule bit_word_eqI) (auto simp: bit_simps)
  have "drop_bit 8 ?hi = drop_bit 8 x"
    by (rule bit_word_eqI) (auto simp: bit_simps dest: bit_imp_le_length)
  then have "(crc_step ^^ 8) ?hi = drop_bit 8 x" by (simp add: crc_steps_shift)
  then show ?thesis
    by (subst x) (simp add: crc_steps_xor crc32_entry_def)
qed

lemma crc32_table_nth: "crc32_table ! unat (i :: u8) = crc32_entry (ucast i)"
  using unat_u8_less [of i] by (simp add: crc32_table_def)

lemma crc_byte_reference: "crc_byte b crc = (crc_step ^^ 8) (crc XOR ucast b)"
proof -
  let ?x = "crc XOR (ucast b :: u32)"
  have "ucast (ucast (?x AND 0xFF) :: u8) = ?x AND 0xFF"
    unfolding and_FF by (rule bit_word_eqI) (auto simp: bit_simps)
  moreover have "drop_bit 8 ?x = drop_bit 8 crc"
    by (rule bit_word_eqI) (auto simp: bit_simps dest: bit_imp_le_length)
  ultimately show ?thesis
    by (simp add: crc_byte_def Let_def crc32_table_nth crc_entry [of ?x])
qed

section \<open>Properties\<close>

text \<open>C39: The table-driven \<^verbatim>\<open>ethernet_calc_crc\<close> computes the bitwise CRC-32, for every input.\<close>

theorem ethernet_calc_crc_correct:
  "ethernet_calc_crc data = crc32_reference data"
  unfolding ethernet_calc_crc_def crc32_reference_def by (simp add: crc_byte_reference [abs_def])

text \<open>A frame sent through an Ethernet access and received by \<^verbatim>\<open>connect_recv\<close> under any
  conditions is delivered with its header and data exactly when the header meets the conditions.\<close>

theorem ethernet2_send_recv:
  "\<exists>frame. ethernet2_send (Some s) h d = Inr [(s, frame)]
     \<and> ethernet2_recv c frame = Inr (if ethernet2_sel c h then Some (h, d) else None)"
  using ethernet2.rcv_frame [of h "write_ethernet2_header h" c d] by (simp add: ethernet2_send_def)

end
