(* ===== verification/Checksum.thy ===== *)
theory Checksum
  imports Prelude
begin

text \<open>
  The Internet checksum (\<^verbatim>\<open>src/protocols/ip4/internet_checksum.cpp\<close>), which the IPv4 and the
  ICMP senders write into their headers.  The accumulator is a 32-bit word and wraps; the lemmas show that
  it does not on any buffer of up to 131074 bytes, and that there a buffer which carries its own checksum has
  checksum 0, the test a receiver makes.
\<close>

fun checksum_loop :: "u32 \<Rightarrow> bytes \<Rightarrow> u32" where
  "checksum_loop acc (a # b # buf) = checksum_loop (acc + ucast (join16 a b)) buf"
| "checksum_loop acc [a] = acc + ucast a"
| "checksum_loop acc [] = acc"

definition internet_checksum :: "bytes \<Rightarrow> u16" where
  "internet_checksum buf =
     (let acc = checksum_loop 0 buf;
          acc = drop_bit 16 acc + (acc AND 0xFFFF);
          acc = acc + drop_bit 16 acc
      in ucast (NOT acc))"

section \<open>The sum as a natural number\<close>

fun sum16 :: "bytes \<Rightarrow> nat" where
  "sum16 (a # b # buf) = unat (join16 a b) + sum16 buf"
| "sum16 [a] = unat a"
| "sum16 [] = 0"

lemma unat_not16: "unat (NOT (w :: u16)) = 65535 - unat w"
proof -
  have "uint (NOT w) = (- uint w - 1) mod 65536"
    by (simp add: unsigned_not_eq take_bit_eq_mod not_int_def)
  also have "\<dots> = (65535 - uint w) mod 65536"
    using mod_add_self2 [of "- uint w - 1" 65536] by simp
  also have "\<dots> = 65535 - uint w"
  proof (rule mod_pos_pos_trivial)
    show "0 \<le> 65535 - uint w" using uint_bounded [of w] by simp
    show "65535 - uint w < 65536" using uint_ge_0 [of w] by linarith
  qed
  finally have "int (unat (NOT w)) = 65535 - int (unat w)" by simp
  then show ?thesis by linarith
qed

lemma checksum_loop_nat: "checksum_loop acc buf = acc + word_of_nat (sum16 buf)"
  by (induction acc buf rule: checksum_loop.induct) (simp_all add: ac_simps)

lemma sum16_bound: "sum16 buf \<le> 65535 * ((length buf + 1) div 2)"
proof (induction buf rule: sum16.induct)
  case (1 a b buf)
  have "(length (a # b # buf) + 1) div 2 = Suc ((length buf + 1) div 2)" by simp
  then show ?case using 1 unat_u16_less [of "join16 a b"] by simp
next
  case (2 a)
  have "unat a \<le> 65535" using unat_u8_less [of a] by linarith
  then show ?case by simp
qed simp

lemma sum16_append: "even (length xs) \<Longrightarrow> sum16 (xs @ ys) = sum16 xs + sum16 ys"
  by (induction xs rule: sum16.induct) simp_all

lemma sum16_store16 [simp]: "sum16 (store16 w @ ys) = unat w + sum16 ys"
  by (simp add: store16_def)

text \<open>Folding the carries twice.\<close>

definition fold16 :: "nat \<Rightarrow> nat" where
  "fold16 s = (let s1 = s div 65536 + s mod 65536 in (s1 + s1 div 65536) mod 65536)"

lemma fold16_mod: "s < 4294967296 \<Longrightarrow> fold16 s = (if s = 0 then 0 else (s - 1) mod 65535 + 1)"
proof -
  assume "s < 4294967296"
  then have hi: "s div 65536 < 65536" by (simp add: less_mult_imp_div_less)
  let ?s1 = "s div 65536 + s mod 65536"
  have s: "s = 65535 * (s div 65536) + ?s1" using div_mult_mod_eq [of s 65536] by linarith
  have lo: "s mod 65536 < 65536" by simp
  have fold: "fold16 s = (if ?s1 < 65536 then ?s1 else ?s1 - 65535)"
  proof (cases "?s1 < 65536")
    case False
    then have d: "?s1 div 65536 = 1" using hi lo by (intro div_nat_eqI) auto
    have "?s1 + 1 < 2 * 65536" using hi lo by linarith
    then have "(?s1 + 1) mod 65536 = ?s1 + 1 - 65536" using False by (simp add: mod_nat_eqI)
    with d False show ?thesis unfolding fold16_def Let_def by simp
  qed (simp add: fold16_def)
  show ?thesis
  proof (cases "s = 0")
    case False
    then have pos: "0 < ?s1" using s by (cases "?s1 = 0") auto
    have "s - 1 = 65535 * (s div 65536) + (?s1 - 1)" using s pos by linarith
    then have "(s - 1) mod 65535 = (65535 * (s div 65536) + (?s1 - 1)) mod 65535" by (rule arg_cong)
    also have "\<dots> = (?s1 - 1) mod 65535" by simp
    also have "\<dots> = (if ?s1 < 65536 then ?s1 - 1 else ?s1 - 1 - 65535)"
    proof (cases "?s1 < 65536")
      case False
      then have "?s1 - 1 = 65535 + (?s1 - 65536)" "?s1 - 65536 < 65535" using hi lo by linarith+
      then have "(?s1 - 1) mod 65535 = ?s1 - 65536" by (metis mod_add_self1 mod_less)
      then show ?thesis using False by simp
    qed (use pos in simp)
    finally have m: "(s - 1) mod 65535 = (if ?s1 < 65536 then ?s1 - 1 else ?s1 - 1 - 65535)" .
    have "(if t < 65536 then t else t - 65535) = (if t < 65536 then t - 1 else t - 1 - 65535) + 1"
      if "0 < t" for t :: nat using that by auto
    from this [OF pos] m fold False show ?thesis by simp
  qed (simp add: fold16_def)
qed

lemma internet_checksum_nat:
  assumes "sum16 buf < 4294967296"
  shows "unat (internet_checksum buf) = 65535 - fold16 (sum16 buf)"
proof -
  define acc where "acc = checksum_loop 0 buf"
  define s1 where "s1 = sum16 buf div 65536 + sum16 buf mod 65536"
  have acc: "unat acc = sum16 buf"
    using assms unfolding acc_def checksum_loop_nat by (simp add: unsigned_of_nat take_bit_nat_eq_self)
  have and16: "x AND 0xFFFF = take_bit 16 (x :: u32)" for x
    by (simp add: take_bit_eq_mask mask_eq_exp_minus_1)
  have hi: "sum16 buf div 65536 < 65536" using assms by (simp add: less_mult_imp_div_less)
  have lo: "sum16 buf mod 65536 < 65536" by simp
  have acc1: "unat (drop_bit 16 acc + (acc AND 0xFFFF)) = s1"
    using hi lo by (simp add: and16 unat_word_ariths unsigned_drop_bit_eq unsigned_take_bit_eq acc
        drop_bit_nat_def take_bit_nat_def s1_def take_bit_eq_mod drop_bit_eq_div)
  define acc2 where "acc2 = drop_bit 16 acc + (acc AND 0xFFFF)"
  have s1: "s1 < 131072" using hi lo unfolding s1_def by linarith
  have acc2: "unat (acc2 + drop_bit 16 acc2) = s1 + s1 div 65536"
    using acc1 [folded acc2_def] s1 by (simp add: unat_word_ariths unsigned_drop_bit_eq
        take_bit_eq_mod drop_bit_eq_div)
  have "internet_checksum buf = ucast (NOT (acc2 + drop_bit 16 acc2))"
    by (simp add: internet_checksum_def Let_def acc_def acc2_def)
  also have "\<dots> = NOT (ucast (acc2 + drop_bit 16 acc2) :: u16)"
    by (rule bit_word_eqI) (simp add: bit_simps)
  finally have "unat (internet_checksum buf) = 65535 - (s1 + s1 div 65536) mod 65536"
    by (simp add: unat_not16 unsigned_ucast_eq acc2 take_bit_eq_mod)
  then show ?thesis by (simp add: fold16_def s1_def Let_def)
qed

text \<open>A buffer that carries its own checksum at an even offset verifies.\<close>

lemma checksum_verifies:
  assumes "even (length pre)" and "length pre + 2 + length rest \<le> 131074"
    and ck: "ck = internet_checksum (pre @ store16 0 @ rest)"
  shows "internet_checksum (pre @ store16 ck @ rest) = 0"
proof -
  let ?s = "sum16 pre + sum16 rest"
  have bound: "sum16 (pre @ store16 w @ rest) < 4294967296" for w
  proof -
    have "(length (pre @ store16 w @ rest) + 1) div 2 \<le> 65537" using assms(2) by simp
    then have "65535 * ((length (pre @ store16 w @ rest) + 1) div 2) \<le> 65535 * 65537"
      by (rule mult_le_mono2)
    with sum16_bound [of "pre @ store16 w @ rest"] show ?thesis by linarith
  qed
  have s: "sum16 (pre @ store16 w @ rest) = ?s + unat w" for w
    using assms(1) by (simp add: sum16_append)
  from bound [of 0] s [of 0] have small: "?s < 4294967296" by simp
  have ck_nat: "unat ck = 65535 - fold16 ?s"
    using internet_checksum_nat [OF bound [of 0]] by (simp add: ck s)
  have "fold16 (?s + unat ck) = 65535"
  proof (cases "?s = 0")
    case True
    then show ?thesis by (simp add: ck_nat fold16_def)
  next
    case False
    let ?r = "(?s - 1) mod 65535"
    have r: "fold16 ?s = ?r + 1" using False fold16_mod [OF small] by simp
    have le: "?r + 1 \<le> 65535" by (simp add: Suc_leI)
    have "?s + unat ck - 1 = 65535 * ((?s - 1) div 65535) + 65534"
      using False le r ck_nat div_mult_mod_eq [of "?s - 1" 65535] by linarith
    then have "(?s + unat ck - 1) mod 65535 = 65534" by simp
    moreover have "?s + unat ck \<noteq> 0" using False by linarith
    moreover have "?s + unat ck < 4294967296" using bound [of ck] s [of ck] by simp
    ultimately show ?thesis using fold16_mod [of "?s + unat ck"] by simp
  qed
  then have "unat (internet_checksum (pre @ store16 ck @ rest)) = 0"
    using internet_checksum_nat [OF bound [of ck]] s [of ck] by simp
  then show ?thesis by (simp add: unat_eq_0)
qed

end
