(* ===== verification/Arp.thy ===== *)
theory Arp
  imports Ether2
begin

text \<open>
  ARP (\<^verbatim>\<open>src/protocols/arp\<close>): the header with its four addresses of variable size, its wire
  form, sending and the filter of \<^verbatim>\<open>connect_recv\<close>.  The writer aborts when an address does not
  have the size the header announces; \<^verbatim>\<open>send\<close> writes into a buffer of
  \<^verbatim>\<open>sizeof(arp_header)\<close> bytes, the size of the C++ object and not of the wire form, and sends
  the whole buffer.  The lemmas show that the codec meets \<open>wire_codec\<close>, that a sent packet is received
  as the header it was made from, and where the fixed buffer overflows.
\<close>

type_synonym arp_op = u16

definition arp_op_request :: arp_op where "arp_op_request = 1"
definition arp_op_reply :: arp_op where "arp_op_reply = 2"

record arp_header =
  hard_type :: u16
  prot_type :: ethertype
  hard_addr_sz :: u8
  prot_addr_sz :: u8
  op :: arp_op
  sender_hard_addr :: bytes
  sender_prot_addr :: bytes
  target_hard_addr :: bytes
  target_prot_addr :: bytes

definition calc_sz :: "arp_header \<Rightarrow> nat" where
  "calc_sz h = 2 + 2 + 1 + 1 + 2 + unat (hard_addr_sz h) + unat (prot_addr_sz h)
     + unat (hard_addr_sz h) + unat (prot_addr_sz h)"

text \<open>On the 64-bit ABI: eight bytes of scalars and four \<^verbatim>\<open>std::vector\<close>s of three pointers.\<close>

definition sizeof_arp_header :: nat where "sizeof_arp_header = 104"

text \<open>\<^verbatim>\<open>memcpy\<close> of an address, guarded by its announced size.\<close>

definition write_sized :: "bytes \<Rightarrow> u8 \<Rightarrow> bytes result" where
  "write_sized addr sz = (if length addr \<noteq> unat sz then Inl Aborted else Inr addr)"

definition write_arp_header :: "arp_header \<Rightarrow> bytes result" where
  "write_arp_header src =
     bind_r (write_sized (sender_hard_addr src) (hard_addr_sz src)) (\<lambda>sh.
     bind_r (write_sized (sender_prot_addr src) (prot_addr_sz src)) (\<lambda>sp.
     bind_r (write_sized (target_hard_addr src) (hard_addr_sz src)) (\<lambda>th.
     bind_r (write_sized (target_prot_addr src) (prot_addr_sz src)) (\<lambda>tp.
     Inr (store16 (htons (hard_type src)) @ store16 (htons (prot_type src))
          @ [hard_addr_sz src, prot_addr_sz src] @ store16 (htons (op src)) @ sh @ sp @ th @ tp)))))"

definition extract_arp_header :: "bytes \<Rightarrow> (arp_header \<times> nat) result" where
  "extract_arp_header src =
     bind_r (load16 src) (\<lambda>(ht, p1).
     bind_r (load16 p1) (\<lambda>(pt, p2).
     bind_r (load8 p2) (\<lambda>(hs, p3).
     bind_r (load8 p3) (\<lambda>(ps, p4).
     bind_r (load16 p4) (\<lambda>(ope, p5).
     bind_r (load_bytes (unat hs) p5) (\<lambda>(sh, p6).
     bind_r (load_bytes (unat ps) p6) (\<lambda>(sp, p7).
     bind_r (load_bytes (unat hs) p7) (\<lambda>(th, p8).
     bind_r (load_bytes (unat ps) p8) (\<lambda>(tp, p9).
     Inr (\<lparr>hard_type = ntohs ht, prot_type = ntohs pt, hard_addr_sz = hs, prot_addr_sz = ps,
           op = ntohs ope, sender_hard_addr = sh, sender_prot_addr = sp,
           target_hard_addr = th, target_prot_addr = tp\<rparr>, length src - length p9))))))))))"

definition arp_send :: "'s option \<Rightarrow> arp_header \<Rightarrow> ('s \<times> bytes) list result" where
  "arp_send net_access header =
     bind_r (write_arp_header header) (\<lambda>bs.
     bind_r (store_at 0 bs (replicate sizeof_arp_header 0)) (\<lambda>buff.
       case net_access of None \<Rightarrow> Inl Null_deref | Some s \<Rightarrow> Inr [(s, buff)]))"

definition arp_recv :: "arp_op option \<Rightarrow> bytes \<Rightarrow> arp_header option result" where
  "arp_recv ope data =
     bind_r (extract_arp_header data) (\<lambda>(header, _).
       if \<not> opt_sel (\<noteq>) ope (op header) then Inr None else Inr (Some header))"

section \<open>The codec contract\<close>

definition arp_wf :: "arp_header \<Rightarrow> bool" where
  "arp_wf h \<longleftrightarrow> length (sender_hard_addr h) = unat (hard_addr_sz h)
     \<and> length (sender_prot_addr h) = unat (prot_addr_sz h)
     \<and> length (target_hard_addr h) = unat (hard_addr_sz h)
     \<and> length (target_prot_addr h) = unat (prot_addr_sz h)"

interpretation arp: wire_codec write_arp_header extract_arp_header arp_wf
proof unfold_locales
  fix h assume "arp_wf h"
  then show "\<exists>bs. write_arp_header h = Inr bs"
    by (simp add: write_arp_header_def write_sized_def arp_wf_def)
next
  fix h bs p assume "arp_wf h" "write_arp_header h = Inr bs"
  then show "extract_arp_header (bs @ p) = Inr (h, length bs)"
    by (auto simp: write_arp_header_def write_sized_def extract_arp_header_def arp_wf_def)
qed

lemma write_arp_header_aborts: "\<not> arp_wf h \<longleftrightarrow> write_arp_header h = Inl Aborted"
  by (auto simp: write_arp_header_def write_sized_def arp_wf_def)

lemma length_write_arp_header: "write_arp_header h = Inr bs \<Longrightarrow> length bs = calc_sz h"
  by (auto simp: write_arp_header_def write_sized_def calc_sz_def bind_r_eq_Inr split: if_splits)

lemma arp_frame:
  assumes "arp_wf h" and "calc_sz h \<le> sizeof_arp_header"
  shows "\<exists>bs. write_arp_header h = Inr bs
    \<and> arp_send (Some s) h = Inr [(s, bs @ replicate (sizeof_arp_header - calc_sz h) 0)]"
proof -
  obtain bs where bs: "write_arp_header h = Inr bs" using arp.wr_total [OF assms(1)] by blast
  with assms(2) length_write_arp_header [OF bs] show ?thesis
    by (auto simp: arp_send_def store_at_def)
qed

section \<open>Properties\<close>

text \<open>An ARP packet whose addresses have their announced sizes and fit the send buffer is sent
  as one frame, and \<^verbatim>\<open>connect_recv\<close> delivers exactly the header it was made from, when the
  operation matches.\<close>

theorem arp_send_recv:
  assumes "arp_wf h" and "calc_sz h \<le> sizeof_arp_header"
  shows "\<exists>frame. arp_send (Some s) h = Inr [(s, frame)]
    \<and> arp_recv ope frame = Inr (if ope = None \<or> ope = Some (op h) then Some h else None)"
proof -
  from arp_frame [OF assms, of s] obtain bs where
    bs: "write_arp_header h = Inr bs" "arp_send (Some s) h = Inr [(s, bs @ replicate (sizeof_arp_header - calc_sz h) 0)]"
    by blast
  let ?frame = "bs @ replicate (sizeof_arp_header - calc_sz h) 0"
  have "arp_recv ope ?frame = Inr (if ope = None \<or> ope = Some (op h) then Some h else None)"
    unfolding arp_recv_def arp.ex_wr [OF assms(1) bs(1)] by (cases ope) auto
  with bs(2) show ?thesis by blast
qed

theorem arp_send_recv_witness:
  "\<exists>frame. arp_send (Some ()) \<lparr>hard_type = 1, prot_type = ethertype_ip4, hard_addr_sz = 1, prot_addr_sz = 1,
      op = arp_op_reply, sender_hard_addr = [7], sender_prot_addr = [8], target_hard_addr = [9],
      target_prot_addr = [10]\<rparr> = Inr [((), frame)]
    \<and> arp_recv (Some arp_op_request) frame = Inr None"
  using arp_send_recv [of "\<lparr>hard_type = 1, prot_type = ethertype_ip4, hard_addr_sz = 1, prot_addr_sz = 1,
      op = arp_op_reply, sender_hard_addr = [7], sender_prot_addr = [8], target_hard_addr = [9],
      target_prot_addr = [10]\<rparr>" "()" "Some arp_op_request"]
  by (simp add: arp_wf_def calc_sz_def sizeof_arp_header_def arp_op_reply_def arp_op_request_def)

text \<open>Sending a well-formed ARP header whose wire form is larger than the C++ object writes past
  the send buffer, as with two 16-byte protocol addresses and two 48-byte hardware addresses.\<close>

theorem arp_send_overflow:
  "arp_send (Some ()) \<lparr>hard_type = 1, prot_type = ethertype_ip4, hard_addr_sz = 48, prot_addr_sz = 16,
      op = arp_op_request, sender_hard_addr = replicate 48 0, sender_prot_addr = replicate 16 0,
      target_hard_addr = replicate 48 0, target_prot_addr = replicate 16 0\<rparr> = Inl Overwrite"
  by (simp add: arp_send_def write_arp_header_def write_sized_def store_at_def sizeof_arp_header_def)

end
