(* ===== verification/Ip4.thy ===== *)
theory Ip4
  imports Ip4_Addr Routing Checksum
begin

text \<open>
  IPv4 (\<^verbatim>\<open>src/protocols/ip4\<close>): the packet header with its bit fields
  and its wire form, sending to a surface and through a routing table, the filter of
  \<^verbatim>\<open>connect_recv\<close>, and the headers of the two kinds of \<^verbatim>\<open>net_access\<close>.  Bit fields of width
  \<open>n\<close> are \<open>n\<close>-bit words, so an assignment truncates as in C++.  The lemmas show that the checksum
  of a sent header verifies, that the codec meets its contract for headers without flags (the reader
  loses the flags), and that the routing table is a longest-prefix table.
\<close>

section \<open>Header\<close>

type_synonym ip_prot = u8

definition ip_prot_icmp :: ip_prot where "ip_prot_icmp = 1"
definition ip_prot_tcp :: ip_prot where "ip_prot_tcp = 6"
definition ip_prot_udp :: ip_prot where "ip_prot_udp = 17"

lemmas ip_prot_defs = ip_prot_icmp_def ip_prot_tcp_def ip_prot_udp_def

definition ip_prot_to_str :: "ip_prot \<Rightarrow> string option" where
  "ip_prot_to_str pr =
     (if pr = ip_prot_icmp then Some ''icmp'' else if pr = ip_prot_udp then Some ''udp''
      else if pr = ip_prot_tcp then Some ''tcp'' else None)"

definition str_to_ip_prot :: "string \<Rightarrow> ip_prot option" where
  "str_to_ip_prot str =
     (if str = ''icmp'' then Some ip_prot_icmp else if str = ''udp'' then Some ip_prot_udp
      else if str = ''tcp'' then Some ip_prot_tcp else None)"

lemma ip_prot_names: "ip_prot_to_str pr = Some s \<longleftrightarrow> str_to_ip_prot s = Some pr"
  by (auto simp: ip_prot_to_str_def str_to_ip_prot_def ip_prot_defs)

record ip4_header =
  version :: "4 word"
  header_len :: "4 word"
  type_of_service :: u8
  total_len :: u16
  ip_id :: u16
  flags :: "3 word"
  frag_off :: "13 word"
  ttl :: u8
  ip_prot :: ip_prot
  ip_checksum :: u16
  ip_src_addr :: ip4_addr
  ip_dest_addr :: ip4_addr

definition sizeof_ip4_header :: nat where "sizeof_ip4_header = 20"

definition write_ip4_header :: "ip4_header \<Rightarrow> bytes" where
  "write_ip4_header src =
     [push_bit 4 (ucast (version src)) + ucast (header_len src), type_of_service src]
     @ store16 (htons (total_len src)) @ store16 (htons (ip_id src))
     @ store16 (htons (push_bit 13 (ucast (flags src)) + ucast (frag_off src)))
     @ [ttl src, ip_prot src] @ store16 (ip_checksum src)
     @ write_ip4_addr (ip_src_addr src) @ write_ip4_addr (ip_dest_addr src)"

definition extract_ip4_header :: "bytes \<Rightarrow> (ip4_header \<times> nat) result" where
  "extract_ip4_header src =
     bind_r (load8 src) (\<lambda>(b0, p1).
     bind_r (load8 p1) (\<lambda>(tos, p2).
     bind_r (load16 p2) (\<lambda>(len, p3).
     bind_r (load16 p3) (\<lambda>(i, p4).
     bind_r (load16 p4) (\<lambda>(fr, p5).
     bind_r (load8 p5) (\<lambda>(tl', p6).
     bind_r (load8 p6) (\<lambda>(pr, p7).
     bind_r (load16 p7) (\<lambda>(ck, p8).
     bind_r (extract_ip4_addr p8) (\<lambda>(sa, p9).
     bind_r (extract_ip4_addr p9) (\<lambda>(da, _).
     Inr (\<lparr>version = ucast (drop_bit 4 (b0 AND 0xF0)), header_len = ucast (b0 AND 0xF),
           type_of_service = tos, total_len = ntohs len, ip_id = ntohs i,
           flags = ucast (ntohs fr AND 0xE000), frag_off = ucast (ntohs fr AND 0x1FFF),
           ttl = tl', ip_prot = pr, ip_checksum = ck, ip_src_addr = sa, ip_dest_addr = da\<rparr>,
          sizeof_ip4_header)))))))))))"

lemma length_write_ip4_header [simp]: "length (write_ip4_header h) = sizeof_ip4_header"
  by (simp add: write_ip4_header_def sizeof_ip4_header_def)

section \<open>Sending\<close>

text \<open>The header is written with a zero checksum, its checksum is computed, and it is written again.\<close>

definition ip4_send :: "'s option \<Rightarrow> ip4_header \<Rightarrow> bytes \<Rightarrow> ('s \<times> bytes) list result" where
  "ip4_send ip4_surface header data =
     send_frame ip4_surface
       (let buff = replicate (sizeof_ip4_header + length data) 0;
            tmp_header = header\<lparr>ip_checksum := 0\<rparr>
        in bind_r (store_at 0 (write_ip4_header tmp_header) buff) (\<lambda>buff.
           let tmp_header = tmp_header\<lparr>ip_checksum := internet_checksum (take sizeof_ip4_header buff)\<rparr>
           in bind_r (store_at 0 (write_ip4_header tmp_header) buff) (store_at sizeof_ip4_header data)))"

text \<open>The header a sent packet carries.\<close>

definition checksummed :: "ip4_header \<Rightarrow> ip4_header" where
  "checksummed h = h\<lparr>ip_checksum := internet_checksum (write_ip4_header (h\<lparr>ip_checksum := 0\<rparr>))\<rparr>"

definition ip4_broadcast_header :: "ip4_addr option \<Rightarrow> ip_prot option \<Rightarrow> nat \<Rightarrow> ip4_header" where
  "ip4_broadcast_header dst pr data_size =
     \<lparr>version = 4, header_len = 5, type_of_service = 0,
      total_len = word_of_nat (sizeof_ip4_header + data_size), ip_id = 1234, flags = 0, frag_off = 0, ttl = 255,
      ip_prot = (case pr of Some v \<Rightarrow> v | None \<Rightarrow> 0), ip_checksum = 0,
      ip_src_addr = (case dst of Some a \<Rightarrow> a | None \<Rightarrow> ip4_addr_empty), ip_dest_addr = ip4_addr_broadcast\<rparr>"

definition ip4_single_header :: "ip4_addr \<Rightarrow> ip4_addr option \<Rightarrow> ip_prot option \<Rightarrow> nat \<Rightarrow> ip4_header" where
  "ip4_single_header sa dst pr data_size =
     \<lparr>version = 4, header_len = 5, type_of_service = 0,
      total_len = word_of_nat (sizeof_ip4_header + data_size), ip_id = 1234, flags = 0, frag_off = 0, ttl = 255,
      ip_prot = (case pr of Some v \<Rightarrow> v | None \<Rightarrow> 0), ip_checksum = 0,
      ip_src_addr = (case dst of Some a \<Rightarrow> a | None \<Rightarrow> ip4_addr_empty), ip_dest_addr = sa\<rparr>"

section \<open>Routing\<close>

fun ip4_find_loop ::
  "(ip4_subnet_mask \<times> 'r option) list \<Rightarrow> ip4_addr \<Rightarrow> ip4_subnet_mask option \<times> 'r option \<Rightarrow> 'r option result" where
  "ip4_find_loop [] addr best = Inr (snd best)"
| "ip4_find_loop ((subnet, route) # rs) addr best =
     bind_r (is_inside_subnet subnet addr) (\<lambda>inside.
       if inside then
         (case fst best of
            None \<Rightarrow> ip4_find_loop rs addr (Some subnet, route)
          | Some closest_subnet \<Rightarrow>
              if no_mask_bits subnet > no_mask_bits closest_subnet
              then ip4_find_loop rs addr (Some subnet, route)
              else ip4_find_loop rs addr best)
       else ip4_find_loop rs addr best)"

definition ip4_impl_find_route :: "(ip4_subnet_mask \<times> 'r option) list \<Rightarrow> ip4_addr \<Rightarrow> 'r option result" where
  "ip4_impl_find_route rs addr = ip4_find_loop rs addr (None, None)"

type_synonym 'r ip4_routing_table = "(ip4_subnet_mask, 'r) routing_table"

definition ip4_find_route :: "'r ip4_routing_table \<Rightarrow> ip4_addr \<Rightarrow> 'r option result" where
  "ip4_find_route t addr = find_route ip4_impl_find_route t addr"

text \<open>\<^verbatim>\<open>my_send\<close> of \<^verbatim>\<open>create_send_access_from_routing_table\<close>: \<open>False\<close> is
  \<^verbatim>\<open>err_t::ERR\<close>.\<close>

definition ip4_route_send_data :: "'r ip4_routing_table \<Rightarrow> bytes \<Rightarrow> (bool \<times> ('r \<times> bytes) list) result" where
  "ip4_route_send_data t data =
     bind_r (extract_ip4_header data) (\<lambda>(header, _).
     bind_r (ip4_find_route t (ip_dest_addr header)) (\<lambda>route.
       case route of None \<Rightarrow> Inr (False, []) | Some r \<Rightarrow> Inr (True, [(r, data)])))"

definition ip4_send_by_table :: "'r ip4_routing_table \<Rightarrow> ip4_header \<Rightarrow> bytes \<Rightarrow> ('r \<times> bytes) list result" where
  "ip4_send_by_table t header data =
     bind_r (ip4_find_route t (ip_dest_addr header)) (\<lambda>route. ip4_send route header data)"

interpretation ip4_table: longest_prefix_routing is_inside_subnet no_mask_bits ip4_find_loop
proof unfold_locales
  fix rule :: "ip4_subnet_mask \<times> 'r option" and rs addr best
  show "ip4_find_loop (rule # rs) addr best = bind_r (is_inside_subnet (fst rule) addr)
      (\<lambda>b. ip4_find_loop rs addr (if b then closer no_mask_bits rule best else best))"
    by (cases rule) (auto intro!: bind_r_cong simp: closer_def split: option.splits)
qed simp

section \<open>Receiving\<close>

record ip4_conditions =
  ip_cond_src :: "ip4_addr option"
  ip_cond_dest :: "ip4_addr option"
  ip_cond_prot :: "ip_prot option"

definition ip4_recv :: "ip4_conditions \<Rightarrow> bytes \<Rightarrow> (ip4_header \<times> bytes) option result" where
  "ip4_recv c data =
     bind_r (extract_ip4_header data) (\<lambda>(ip_header, _).
       let encap_data = drop sizeof_ip4_header data in
       if \<not> opt_sel ip4_addr_neq (ip_cond_src c) (ip_src_addr ip_header) then Inr None
       else if \<not> opt_sel ip4_addr_neq (ip_cond_dest c) (ip_dest_addr ip_header) then Inr None
       else if \<not> opt_sel (\<noteq>) (ip_cond_prot c) (ip_prot ip_header) then Inr None
       else Inr (Some (ip_header, encap_data)))"

definition ip4_sel :: "ip4_conditions \<Rightarrow> ip4_header \<Rightarrow> bool" where
  "ip4_sel c h \<longleftrightarrow> opt_sel (\<noteq>) (ip_cond_src c) (ip_src_addr h) \<and> opt_sel (\<noteq>) (ip_cond_dest c) (ip_dest_addr h)
     \<and> opt_sel (\<noteq>) (ip_cond_prot c) (ip_prot h)"

lemma opt_sel_ip4: "opt_sel ip4_addr_neq = opt_sel (\<noteq>)"
  by (intro ext) (simp add: opt_sel_def split: option.split)

lemma nibbles:
  fixes v l :: "4 word"
  defines "b \<equiv> push_bit 4 (ucast v) + ucast l :: u8"
  shows "ucast (drop_bit 4 (b AND 0xF0)) = v" and "ucast (b AND 0xF) = l"
proof -
  have b: "b = push_bit 4 (ucast v) OR ucast l" unfolding b_def
    by (rule disjunctive_add) (auto simp: bit_simps dest: bit_imp_le_length)
  have m: "(0xF :: u8) = mask 4" "(0xF0 :: u8) = push_bit 4 (mask 4)"
    by (simp_all add: mask_eq_exp_minus_1 push_bit_eq_mult)
  show "ucast (drop_bit 4 (b AND 0xF0)) = v" "ucast (b AND 0xF) = l"
    unfolding b m by (rule bit_word_eqI; auto simp: bit_simps dest: bit_imp_le_length)+
qed

lemma frag_field:
  fixes f :: "3 word" and o' :: "13 word"
  defines "w \<equiv> push_bit 13 (ucast f) + ucast o' :: u16"
  shows "ucast (w AND 0x1FFF) = o'" and "(ucast (w AND 0xE000) :: 3 word) = 0"
proof -
  have w: "w = push_bit 13 (ucast f) OR ucast o'" unfolding w_def
    by (rule disjunctive_add) (auto simp: bit_simps dest: bit_imp_le_length)
  have m: "(0x1FFF :: u16) = mask 13" "(0xE000 :: u16) = push_bit 13 (mask 3)"
    by (simp_all add: mask_eq_exp_minus_1 push_bit_eq_mult)
  show "ucast (w AND 0x1FFF) = o'" "(ucast (w AND 0xE000) :: 3 word) = 0"
    unfolding w m by (rule bit_word_eqI; auto simp: bit_simps dest: bit_imp_le_length)+
qed

text \<open>Whatever was written, the reader gets it back with the flags cleared.\<close>

lemma extract_write_ip4_header [simp]:
  "extract_ip4_header (write_ip4_header h @ p) = Inr (h\<lparr>flags := 0\<rparr>, sizeof_ip4_header)"
  using nibbles [of "version h" "header_len h"]
  by (simp add: extract_ip4_header_def write_ip4_header_def frag_field)

interpretation ip4: framed_protocol
  "\<lambda>h. Inr (write_ip4_header h)" extract_ip4_header "\<lambda>h. flags h = 0" ip4_sel ip4_recv
proof unfold_locales
  fix h bs p
  assume "flags h = 0" "Inr (write_ip4_header h) = (Inr bs :: bytes result)"
  then show "extract_ip4_header (bs @ p) = Inr (h, length bs)" by auto
next
  fix c d
  show "ip4_recv c d = bind_r (extract_ip4_header d)
      (\<lambda>(h, n). Inr (if ip4_sel c h then Some (h, drop n d) else None))"
    unfolding ip4_recv_def
    by (rule bind_r_cong) (auto simp: extract_ip4_header_def bind_r_eq_Inr opt_sel_ip4
        ip4_sel_def Let_def split: prod.splits)
qed simp

lemma extract_ip4_header_fault:
  "extract_ip4_header d = Inl e \<longleftrightarrow> e = Overread \<and> length d < sizeof_ip4_header"
proof -
  have "parses extract_ip4_header (1 + (1 + (2 + (2 + (2 + (1 + (1 + (2 + (4 + (4 + 0))))))))))"
    unfolding extract_ip4_header_def [abs_def] by (intro reads_intros)
  from parses_fault [OF this] show ?thesis by (simp add: sizeof_ip4_header_def)
qed

section \<open>What is sent\<close>

lemma write_ip4_header_split:
  "write_ip4_header (h\<lparr>ip_checksum := ck\<rparr>) =
     take 10 (write_ip4_header h) @ store16 ck @ drop 12 (write_ip4_header h)"
  by (simp add: write_ip4_header_def store16_def)

lemma checksum_write_checksummed: "internet_checksum (write_ip4_header (checksummed h)) = 0"
proof -
  let ?w = "write_ip4_header h" and ?ck = "internet_checksum (write_ip4_header (h\<lparr>ip_checksum := 0\<rparr>))"
  have "internet_checksum (take 10 ?w @ store16 ?ck @ drop 12 ?w) = 0"
    by (rule checksum_verifies) (simp_all add: sizeof_ip4_header_def write_ip4_header_split [where h = h and ck = 0])
  then show ?thesis by (simp add: checksummed_def write_ip4_header_split [where h = h and ck = ?ck])
qed

lemma ip4_send_frame: "ip4_send (Some s) h d = Inr [(s, write_ip4_header (checksummed h) @ d)]"
  by (simp add: ip4_send_def store_at_def checksummed_def)

lemma checksummed_sel [simp]:
  "flags (checksummed h) = flags h" "ip4_sel c (checksummed h) = ip4_sel c h"
  "ip_dest_addr (checksummed h) = ip_dest_addr h"
  by (simp_all add: checksummed_def ip4_sel_def)

section \<open>Properties\<close>

text \<open>C21: Every packet \<^verbatim>\<open>ip4_protocol::send\<close> emits carries a header whose Internet checksum
  verifies, followed by the data; a receiver that accepts the header is given the header as it was sent
  and exactly the data.\<close>

theorem ip4_send_recv:
  assumes "flags h = 0"
  shows "\<exists>frame. ip4_send (Some s) h d = Inr [(s, frame)]
     \<and> internet_checksum (take sizeof_ip4_header frame) = 0
     \<and> ip4_recv c frame = Inr (if ip4_sel c h then Some (checksummed h, d) else None)"
proof -
  have "ip4_recv c (write_ip4_header (checksummed h) @ d)
      = Inr (if ip4_sel c (checksummed h) then Some (checksummed h, d) else None)"
    using assms by (intro ip4.rcv_frame) simp_all
  then show ?thesis by (simp add: ip4_send_frame checksum_write_checksummed)
qed

theorem ip4_send_recv_witness:
  "\<exists>frame. ip4_send (Some ()) (ip4_single_header (Ip4_addr 10 0 0 2) None None 1) [7] = Inr [((), frame)]
     \<and> internet_checksum (take 20 frame) = 0
     \<and> ip4_recv \<lparr>ip_cond_src = None, ip_cond_dest = Some (Ip4_addr 10 0 0 3), ip_cond_prot = None\<rparr> frame = Inr None"
proof -
  let ?h = "ip4_single_header (Ip4_addr 10 0 0 2) None None 1"
    and ?c = "\<lparr>ip_cond_src = None, ip_cond_dest = Some (Ip4_addr 10 0 0 3), ip_cond_prot = None\<rparr>"
  have "flags ?h = 0" "\<not> ip4_sel ?c ?h" by (simp_all add: ip4_single_header_def ip4_sel_def)
  then show ?thesis using ip4_send_recv [of ?h "()" "[7]" ?c] by (simp add: sizeof_ip4_header_def)
qed

text \<open>The header reader inverts the writer except for the three flag bits, which it loses: they are
  masked in place and not shifted down before they are stored in the 3-bit field.\<close>

theorem ip4_header_flags_lost:
  "extract_ip4_header (write_ip4_header h @ p) = Inr (h\<lparr>flags := 0\<rparr>, sizeof_ip4_header)"
  by (rule extract_write_ip4_header)

text \<open>C27: A routing table whose subnets end on octet boundaries finds, for every address, the route of
  the first rule among those with the longest CIDR prefix that contains the address, and the default gateway
  when no rule matches or the matching rule has no route.\<close>

theorem ip4_find_route_longest_prefix:
  assumes "\<forall>x \<in> set (rules t). no_mask_bits (fst x) \<in> {0, 8, 16, 24}"
  shows "\<exists>r. longest_match no_mask_bits (filter (\<lambda>x. cidr_block (fst x) addr) (rules t)) r
    \<and> ip4_find_route t addr = Inr (if r \<noteq> None then r else default_gateway t)"
proof -
  have inside: "is_inside_subnet (fst x) addr = Inr (cidr_block (fst x) addr)" if "x \<in> set (rules t)" for x
    using that assms is_inside_subnet_cidr by blast
  then have "filter (\<lambda>x. is_inside_subnet (fst x) addr = Inr True) (rules t)
      = filter (\<lambda>x. cidr_block (fst x) addr) (rules t)"
    by (intro filter_cong) auto
  with ip4_table.find_route_correct [of t addr] inside show ?thesis
    by (auto simp: ip4_find_route_def ip4_impl_find_route_def [abs_def])
qed

theorem ip4_find_route_longest_prefix_witness:
  "ip4_find_route \<lparr>rules = [(\<lparr>base_addr = Ip4_addr 10 0 0 0, no_mask_bits = 8\<rparr>, Some CHR ''a''),
      (\<lparr>base_addr = Ip4_addr 10 1 0 0, no_mask_bits = 16\<rparr>, Some CHR ''b'')], default_gateway = None\<rparr> (Ip4_addr 10 1 2 3)
    = Inr (Some CHR ''b'')"
proof -
  let ?t = "\<lparr>rules = [(\<lparr>base_addr = Ip4_addr 10 0 0 0, no_mask_bits = 8\<rparr>, Some CHR ''a''),
      (\<lparr>base_addr = Ip4_addr 10 1 0 0, no_mask_bits = 16\<rparr>, Some CHR ''b'')], default_gateway = None\<rparr>"
  obtain r where r: "longest_match no_mask_bits (filter (\<lambda>x. cidr_block (fst x) (Ip4_addr 10 1 2 3)) (rules ?t)) r"
    "ip4_find_route ?t (Ip4_addr 10 1 2 3) = Inr (if r \<noteq> None then r else default_gateway ?t)"
    using ip4_find_route_longest_prefix [of ?t "Ip4_addr 10 1 2 3"] by auto
  have "longest_match no_mask_bits (filter (\<lambda>x. cidr_block (fst x) (Ip4_addr 10 1 2 3)) (rules ?t)) (Some CHR ''b'')"
  proof -
    have "filter (\<lambda>x. cidr_block (fst x) (Ip4_addr 10 1 2 3)) (rules ?t) = rules ?t" by code_simp
    moreover have "longest_match no_mask_bits (rules ?t) (Some CHR ''b'')"
      by (rule longest_matchI [of _ "[(\<lparr>base_addr = Ip4_addr 10 0 0 0, no_mask_bits = 8\<rparr>, Some CHR ''a'')]"
          "\<lparr>base_addr = Ip4_addr 10 1 0 0, no_mask_bits = 16\<rparr>" _ "[]"]) simp_all
    ultimately show ?thesis by simp
  qed
  from longest_match_unique [OF r(1) this] r(2) show ?thesis by simp
qed

end
