(* ===== verification/Udp.thy ===== *)
theory Udp
  imports Prelude
begin

text \<open>
  UDP (\<^verbatim>\<open>src/protocols/udp\<close>): header codec, sending (which fills in the length and leaves the
  checksum 0), the filter of \<^verbatim>\<open>connect_recv\<close> and the header of \<^verbatim>\<open>net_access_single\<close>.
  The codec and the receiver meet the contract \<open>framed_protocol\<close>.
\<close>

type_synonym udp_port = u16

record udp_header =
  udp_src_port :: udp_port
  udp_dest_port :: udp_port
  udp_len :: u16
  udp_checksum :: u16

definition sizeof_udp_header :: nat where "sizeof_udp_header = 8"

definition write_udp_header :: "udp_header \<Rightarrow> bytes" where
  "write_udp_header src = store16 (htons (udp_src_port src)) @ store16 (htons (udp_dest_port src))
     @ store16 (htons (udp_len src)) @ store16 (htons (udp_checksum src))"

definition extract_udp_header :: "bytes \<Rightarrow> (udp_header \<times> nat) result" where
  "extract_udp_header src =
     bind_r (load16 src) (\<lambda>(sp, p1).
     bind_r (load16 p1) (\<lambda>(dp, p2).
     bind_r (load16 p2) (\<lambda>(l, p3).
     bind_r (load16 p3) (\<lambda>(ck, _).
     Inr (\<lparr>udp_src_port = ntohs sp, udp_dest_port = ntohs dp, udp_len = ntohs l, udp_checksum = ntohs ck\<rparr>,
          sizeof_udp_header)))))"

lemma length_write_udp_header [simp]: "length (write_udp_header h) = sizeof_udp_header"
  by (simp add: write_udp_header_def sizeof_udp_header_def)

text \<open>The header that goes out: the caller's length and checksum are overwritten.\<close>

definition udp_filled :: "udp_header \<Rightarrow> nat \<Rightarrow> udp_header" where
  "udp_filled header data_size =
     header\<lparr>udp_len := word_of_nat (sizeof_udp_header + data_size), udp_checksum := 0\<rparr>"

definition udp_send :: "'s option \<Rightarrow> udp_header \<Rightarrow> bytes \<Rightarrow> ('s \<times> bytes) list result" where
  "udp_send udp_surface header data =
     send_frame udp_surface
       (frame_buff sizeof_udp_header (write_udp_header (udp_filled header (length data))) data)"

text \<open>\<^verbatim>\<open>my_send\<close> of \<^verbatim>\<open>net_access_single\<close> leaves \<^verbatim>\<open>len\<close> and
  \<^verbatim>\<open>checksum\<close> uninitialised; \<^verbatim>\<open>send\<close> overwrites both, so they are 0 here.\<close>

definition udp_single_header :: "udp_port option \<Rightarrow> udp_port \<Rightarrow> udp_header" where
  "udp_single_header sp dp =
     \<lparr>udp_src_port = dp, udp_dest_port = (case sp of Some v \<Rightarrow> v | None \<Rightarrow> 0), udp_len = 0, udp_checksum = 0\<rparr>"

record udp_conditions =
  udp_cond_src :: "udp_port option"
  udp_cond_dest :: "udp_port option"

definition udp_recv :: "udp_conditions \<Rightarrow> bytes \<Rightarrow> (udp_header \<times> bytes) option result" where
  "udp_recv c data =
     bind_r (extract_udp_header data) (\<lambda>(header, _).
       let encap_data = drop sizeof_udp_header data in
       if \<not> opt_sel (\<noteq>) (udp_cond_src c) (udp_src_port header) then Inr None
       else if \<not> opt_sel (\<noteq>) (udp_cond_dest c) (udp_dest_port header) then Inr None
       else Inr (Some (header, encap_data)))"

definition udp_sel :: "udp_conditions \<Rightarrow> udp_header \<Rightarrow> bool" where
  "udp_sel c h \<longleftrightarrow> opt_sel (\<noteq>) (udp_cond_src c) (udp_src_port h) \<and> opt_sel (\<noteq>) (udp_cond_dest c) (udp_dest_port h)"

interpretation udp: framed_protocol
  "\<lambda>h. Inr (write_udp_header h)" extract_udp_header "\<lambda>_. True" udp_sel udp_recv
proof unfold_locales
  fix h bs p
  assume "Inr (write_udp_header h) = (Inr bs :: bytes result)"
  then show "extract_udp_header (bs @ p) = Inr (h, length bs)"
    by (auto simp: extract_udp_header_def write_udp_header_def sizeof_udp_header_def)
next
  fix c d
  show "udp_recv c d = bind_r (extract_udp_header d)
      (\<lambda>(h, n). Inr (if udp_sel c h then Some (h, drop n d) else None))"
    unfolding udp_recv_def
    by (rule bind_r_cong) (auto simp: extract_udp_header_def bind_r_eq_Inr udp_sel_def Let_def split: prod.splits)
qed simp

lemma extract_udp_header_fault:
  "extract_udp_header d = Inl e \<longleftrightarrow> e = Overread \<and> length d < sizeof_udp_header"
proof -
  have "parses extract_udp_header (2 + (2 + (2 + (2 + 0))))"
    unfolding extract_udp_header_def [abs_def] by (intro reads_intros)
  from parses_fault [OF this] show ?thesis by (simp add: sizeof_udp_header_def)
qed

lemma udp_send_frame: "udp_send (Some s) h d = Inr [(s, write_udp_header (udp_filled h (length d)) @ d)]"
  by (simp add: udp_send_def)

lemma udp_filled_sel [simp]: "udp_sel c (udp_filled h n) = udp_sel c h"
  by (simp add: udp_filled_def udp_sel_def)

text \<open>A datagram sent by \<^verbatim>\<open>udp_protocol::send\<close> is delivered, with its data and with the
  length field filled in, exactly when its ports meet the receiver's conditions; a datagram shorter than a
  header makes the receiver read past the buffer.\<close>

theorem udp_send_recv:
  "(\<exists>frame. udp_send (Some s) h d = Inr [(s, frame)]
     \<and> udp_recv c frame = Inr (if udp_sel c h then Some (udp_filled h (length d), d) else None))
   \<and> (udp_recv c d = Inl e \<longleftrightarrow> e = Overread \<and> length d < sizeof_udp_header)"
  using udp.rcv_frame [of "udp_filled h (length d)" "write_udp_header (udp_filled h (length d))" c d]
  by (simp add: udp_send_frame udp.rcv_fault_iff extract_udp_header_fault)

end
