(* ===== verification/Icmp.thy ===== *)
theory Icmp
  imports Checksum
begin

text \<open>
  ICMP (\<^verbatim>\<open>src/protocols/icmp\<close>): header codec, sending with the checksum over header and data,
  and the filter of \<^verbatim>\<open>connect_recv\<close>, which hands the listener the whole packet and not the part
  behind the header.  The union \<^verbatim>\<open>content\<close> is its 32-bit value \<^verbatim>\<open>raw\<close> with
  accessors for the echo view (little-endian: \<^verbatim>\<open>id\<close> is the low half).
\<close>

type_synonym icmp_type = u8

definition icmp_echoreply :: icmp_type where "icmp_echoreply = 0"
definition icmp_dest_unreachable :: icmp_type where "icmp_dest_unreachable = 3"
definition icmp_redirect :: icmp_type where "icmp_redirect = 5"
definition icmp_echo :: icmp_type where "icmp_echo = 8"
definition icmp_time_exceeded :: icmp_type where "icmp_time_exceeded = 11"

record icmp_header =
  icmp_type :: icmp_type
  icmp_code :: u8
  icmp_checksum :: u16
  icmp_raw :: u32

text \<open>The echo view of the union.\<close>

definition echo_content :: "u16 \<Rightarrow> u16 \<Rightarrow> u32" where
  "echo_content eid sequence = ucast eid OR push_bit 16 (ucast sequence)"

definition echo_id :: "u32 \<Rightarrow> u16" where "echo_id raw = ucast raw"

definition echo_sequence :: "u32 \<Rightarrow> u16" where "echo_sequence raw = ucast (drop_bit 16 raw)"

lemma echo_content_sel [simp]:
  "echo_id (echo_content i q) = i" "echo_sequence (echo_content i q) = q"
  unfolding echo_id_def echo_sequence_def echo_content_def
  by (rule bit_word_eqI; auto simp: bit_simps dest: bit_imp_le_length)+

definition sizeof_icmp_header :: nat where "sizeof_icmp_header = 8"

definition write_icmp_header :: "icmp_header \<Rightarrow> bytes" where
  "write_icmp_header src =
     [icmp_type src, icmp_code src] @ store16 (icmp_checksum src) @ store32 (htonl (icmp_raw src))"

definition extract_icmp_header :: "bytes \<Rightarrow> (icmp_header \<times> nat) result" where
  "extract_icmp_header src =
     bind_r (load8 src) (\<lambda>(t, p1).
     bind_r (load8 p1) (\<lambda>(c, p2).
     bind_r (load16 p2) (\<lambda>(ck, p3).
     bind_r (load32 p3) (\<lambda>(r, _).
     Inr (\<lparr>icmp_type = t, icmp_code = c, icmp_checksum = ck, icmp_raw = ntohl r\<rparr>, sizeof_icmp_header)))))"

lemma length_write_icmp_header [simp]: "length (write_icmp_header h) = sizeof_icmp_header"
  by (simp add: write_icmp_header_def sizeof_icmp_header_def)

text \<open>Header with checksum 0, data, checksum over the whole buffer, header again.\<close>

definition icmp_send :: "'s option \<Rightarrow> icmp_header \<Rightarrow> bytes \<Rightarrow> ('s \<times> bytes) list result" where
  "icmp_send icmp_surface header data =
     send_frame icmp_surface
       (let buff = replicate (sizeof_icmp_header + length data) 0;
            tmp_header = header\<lparr>icmp_checksum := 0\<rparr>
        in bind_r (store_at 0 (write_icmp_header tmp_header) buff) (\<lambda>buff.
           bind_r (store_at sizeof_icmp_header data buff) (\<lambda>buff.
           let tmp_header = tmp_header\<lparr>icmp_checksum := internet_checksum buff\<rparr>
           in store_at 0 (write_icmp_header tmp_header) buff)))"

definition icmp_checksummed :: "icmp_header \<Rightarrow> bytes \<Rightarrow> icmp_header" where
  "icmp_checksummed h d = h\<lparr>icmp_checksum := internet_checksum (write_icmp_header (h\<lparr>icmp_checksum := 0\<rparr>) @ d)\<rparr>"

definition icmp_recv :: "icmp_type option \<Rightarrow> bytes \<Rightarrow> (icmp_header \<times> bytes) option result" where
  "icmp_recv t data =
     bind_r (extract_icmp_header data) (\<lambda>(header, _).
       if \<not> opt_sel (\<noteq>) t (icmp_type header) then Inr None else Inr (Some (header, data)))"

interpretation icmp: wire_codec "\<lambda>h. Inr (write_icmp_header h)" extract_icmp_header "\<lambda>_. True"
proof unfold_locales
  fix h bs p
  assume "Inr (write_icmp_header h) = (Inr bs :: bytes result)"
  then show "extract_icmp_header (bs @ p) = Inr (h, length bs)"
    by (auto simp: extract_icmp_header_def write_icmp_header_def sizeof_icmp_header_def)
qed simp

lemma icmp_send_frame: "icmp_send (Some s) h d = Inr [(s, write_icmp_header (icmp_checksummed h d) @ d)]"
  by (simp add: icmp_send_def store_at_def icmp_checksummed_def)

lemma icmp_checksum_verifies:
  assumes "length d \<le> 131066"
  shows "internet_checksum (write_icmp_header (icmp_checksummed h d) @ d) = 0"
proof -
  let ?pre = "[icmp_type h, icmp_code h]" and ?rest = "store32 (htonl (icmp_raw h)) @ d"
  have split: "write_icmp_header (h\<lparr>icmp_checksum := ck\<rparr>) @ d = ?pre @ store16 ck @ ?rest" for ck
    by (simp add: write_icmp_header_def)
  show ?thesis
    unfolding icmp_checksummed_def split by (rule checksum_verifies [OF _ _ refl]) (use assms in simp_all)
qed

text \<open>Every ICMP message \<^verbatim>\<open>icmp_protocol::send\<close> emits with up to 131066 bytes of data has an
  Internet checksum that verifies over the whole message, and a receiver for its type is handed its header.
  The data the receiver is handed is the whole message, header included.\<close>

theorem icmp_send_recv:
  assumes "length d \<le> 131066"
  shows "\<exists>frame h'. icmp_send (Some s) h d = Inr [(s, frame)] \<and> internet_checksum frame = 0
    \<and> icmp_recv (Some (icmp_type h)) frame = Inr (Some (h', frame)) \<and> drop sizeof_icmp_header frame = d
    \<and> h' = icmp_checksummed h d"
proof -
  have t: "icmp_type (icmp_checksummed h d) = icmp_type h" by (simp add: icmp_checksummed_def)
  have "extract_icmp_header (write_icmp_header (icmp_checksummed h d) @ d)
      = Inr (icmp_checksummed h d, sizeof_icmp_header)"
    using icmp.ex_wr [of "icmp_checksummed h d" "write_icmp_header (icmp_checksummed h d)" d] by simp
  then show ?thesis
    using icmp_checksum_verifies [OF assms, of h] t by (simp add: icmp_send_frame icmp_recv_def)
qed

theorem icmp_send_recv_witness:
  "\<exists>frame h'. icmp_send (Some ()) \<lparr>icmp_type = icmp_echo, icmp_code = 0, icmp_checksum = 0, icmp_raw = 1\<rparr> [1, 2, 3]
       = Inr [((), frame)] \<and> internet_checksum frame = 0
     \<and> icmp_recv (Some icmp_echo) frame = Inr (Some (h', frame)) \<and> drop sizeof_icmp_header frame = [1, 2, 3]"
  using icmp_send_recv [of "[1, 2, 3]" "()" "\<lparr>icmp_type = icmp_echo, icmp_code = 0, icmp_checksum = 0, icmp_raw = 1\<rparr>"]
  by auto

end
