(* ===== verification/Octet_Text.thy ===== *)
theory Octet_Text
  imports Text Var_Len
begin

text \<open>
  The variable-length addresses of the framework (\<^verbatim>\<open>emp_port\<close>, \<^verbatim>\<open>nsp_id\<close>,
  \<^verbatim>\<open>eap_addr\<close>, \<^verbatim>\<open>ptp_net_id\<close>, \<^verbatim>\<open>ptp_addr\<close>) are all a
  \<^verbatim>\<open>vector<uint8_t>\<close>, with the same comparison, the same printed form and the same wire form
  (the escaped byte string).  Their parsers are the same loop in two versions: one that never moves past the
  field it has read, and one that does.  This theory holds the code they share, the address theories their
  instances.
\<close>

section \<open>Comparison\<close>

definition vals_eq :: "bytes \<Rightarrow> bytes \<Rightarrow> bool" where
  "vals_eq xs ys = (if length xs \<noteq> length ys then False else list_all (\<lambda>i. xs ! i = ys ! i) [0..<length xs])"

definition vals_neq :: "bytes \<Rightarrow> bytes \<Rightarrow> bool" where
  "vals_neq xs ys = (\<not> vals_eq ys xs)"

lemma vals_eq_iff [simp]: "vals_eq xs ys \<longleftrightarrow> xs = ys"
  by (auto simp: vals_eq_def list_all_iff intro: nth_equalityI)

lemma vals_neq_iff [simp]: "vals_neq xs ys \<longleftrightarrow> xs \<noteq> ys"
  by (auto simp: vals_neq_def)

lemma opt_sel_vals: "opt_sel vals_neq = opt_sel (\<noteq>)"
  by (intro ext) (simp add: opt_sel_def split: option.split)

fun vals_less :: "bytes \<Rightarrow> bytes \<Rightarrow> bool" where
  "vals_less [] ys = (ys \<noteq> [])"
| "vals_less (x # xs) [] = False"
| "vals_less (x # xs) (y # ys) = (if x \<noteq> y then x < y else vals_less xs ys)"

lemma vals_less_irrefl: "\<not> vals_less xs xs"
  by (induction xs) auto

lemma vals_less_trans: "vals_less xs ys \<Longrightarrow> vals_less ys zs \<Longrightarrow> vals_less xs zs"
proof (induction xs ys arbitrary: zs rule: vals_less.induct)
  case (3 x xs y ys)
  then show ?case by (cases zs) (auto split: if_splits)
next
  case (1 ys)
  then show ?case by (cases zs; cases ys) auto
qed simp

lemma vals_less_linear: "vals_less xs ys \<or> xs = ys \<or> vals_less ys xs"
proof (induction xs ys rule: vals_less.induct)
  case (1 ys)
  then show ?case by (cases ys) auto
qed auto

section \<open>Subnets\<close>

text \<open>\<^verbatim>\<open>is_inside_subnet\<close>: a strictly longer address that starts with the prefix.\<close>

definition vals_inside_subnet :: "bytes \<Rightarrow> bytes \<Rightarrow> bool" where
  "vals_inside_subnet prefix addr =
     (if \<not> length prefix < length addr then False
      else list_all (\<lambda>i. prefix ! i = addr ! i) [0..<length prefix])"

lemma vals_inside_subnet_iff: "vals_inside_subnet prefix addr \<longleftrightarrow> (\<exists>x xs. addr = prefix @ x # xs)"
proof
  assume a: "vals_inside_subnet prefix addr"
  then have len: "length prefix < length addr" and eq: "\<forall>i < length prefix. prefix ! i = addr ! i"
    by (auto simp: vals_inside_subnet_def list_all_iff split: if_splits)
  then have "take (length prefix) addr = prefix" by (intro nth_equalityI) auto
  then have "addr = prefix @ drop (length prefix) addr" by (metis append_take_drop_id)
  moreover have "drop (length prefix) addr \<noteq> []" using len by simp
  ultimately show "\<exists>x xs. addr = prefix @ x # xs" by (metis neq_Nil_conv)
qed (auto simp: vals_inside_subnet_def list_all_iff nth_append)

section \<open>Text form\<close>

text \<open>Fields printed through \<^verbatim>\<open>std::hex\<close>, without leading zeros, separated by dots.\<close>

fun vals_to_str :: "bytes \<Rightarrow> string" where
  "vals_to_str [] = []"
| "vals_to_str [v] = to_hex (unat v)"
| "vals_to_str (v # vs) = to_hex (unat v) @ CHR ''.'' # vals_to_str vs"

text \<open>
  The parsing loop of \<^verbatim>\<open>str_to_emp_port\<close>, \<^verbatim>\<open>str_to_nsp_id\<close>,
  \<^verbatim>\<open>str_to_eap_addr\<close> and \<^verbatim>\<open>str_to_ptp_net_id\<close>: \<open>i\<close> is advanced past a dot, never
  past a field.  The outer option is termination (\<open>None\<close>: the loop goes on for ever, memory taken as
  unbounded), the inner one the C++ \<^verbatim>\<open>optional\<close>.  \<^verbatim>\<open>str[i]\<close> is read inside the loop, so
  \<open>i < size\<close>.
\<close>

partial_function (option) stuck_octets_loop :: "string \<Rightarrow> nat \<Rightarrow> bytes \<Rightarrow> bytes option option" where
  "stuck_octets_loop str i vals =
     (if i < length str then
        (if i \<noteq> 0 \<and> str ! i \<noteq> CHR ''.'' then Some None
         else let i' = (if i \<noteq> 0 then i + 1 else i) in
           if \<not> (i' + 2 \<le> length str) then Some None
           else (case stoul16 (take 2 (drop i' str)) of
                   None \<Rightarrow> Some None
                 | Some v \<Rightarrow> stuck_octets_loop str i' (vals @ [word_of_int v])))
      else Some (Some vals))"

definition str_to_vals_stuck :: "string \<Rightarrow> bytes option option" where
  "str_to_vals_stuck str = stuck_octets_loop str 0 []"

text \<open>The parsing loop of \<^verbatim>\<open>str_to_ptp_addr\<close>, which moves on by two characters.\<close>

function octets_loop :: "string \<Rightarrow> nat \<Rightarrow> bytes \<Rightarrow> bytes option" where
  "octets_loop str i vals =
     (if i < length str then
        (if i \<noteq> 0 \<and> str ! i \<noteq> CHR ''.'' then None
         else let i' = (if i \<noteq> 0 then i + 1 else i) in
           if \<not> (i' + 2 \<le> length str) then None
           else (case stoul16 (take 2 (drop i' str)) of
                   None \<Rightarrow> None
                 | Some v \<Rightarrow> octets_loop str (i' + 2) (vals @ [word_of_int v])))
      else Some vals)"
  by pat_completeness auto
termination by (relation "measure (\<lambda>(str, i, _). length str - i)") (auto split: if_splits)

declare octets_loop.simps [simp del]

definition str_to_vals :: "string \<Rightarrow> bytes option" where
  "str_to_vals str = octets_loop str 0 []"

lemma stuck_octets_loop_result:
  assumes "stuck_octets_loop str i vals = Some res"
  shows "i = 0 \<longrightarrow> res = (if str = [] then Some vals else None)"
proof (rule stuck_octets_loop.raw_induct
    [where P = "\<lambda>str i vals res. i = 0 \<longrightarrow> res = (if str = [] then Some vals else None)", OF _ assms])
  fix loop :: "string \<Rightarrow> nat \<Rightarrow> bytes \<Rightarrow> bytes option option" and str i vals res
  assume IH: "\<And>str i vals res. loop str i vals = Some res \<Longrightarrow> i = 0 \<longrightarrow> res = (if str = [] then Some vals else None)"
    and "(if i < length str then
        (if i \<noteq> 0 \<and> str ! i \<noteq> CHR ''.'' then Some None
         else let i' = (if i \<noteq> 0 then i + 1 else i) in
           if \<not> (i' + 2 \<le> length str) then Some None
           else (case stoul16 (take 2 (drop i' str)) of
                   None \<Rightarrow> Some None
                 | Some v \<Rightarrow> loop str i' (vals @ [word_of_int v])))
      else Some (Some vals)) = Some res"
  then show "i = 0 \<longrightarrow> res = (if str = [] then Some vals else None)"
    by (auto simp: Let_def split: if_splits option.splits dest: IH)
qed

text \<open>When the loop ends on a non-empty text, the first field was too short or not a number.\<close>

lemma stuck_octets_loop_ends:
  assumes "stuck_octets_loop str 0 vals = Some res" and "str \<noteq> []"
  shows "length str < 2 \<or> stoul16 (take 2 str) = None"
proof -
  have "i = 0 \<longrightarrow> str = [] \<or> length str < 2 \<or> stoul16 (take 2 str) = None"
    if "stuck_octets_loop str i vals = Some res" for str i vals res
  proof (rule stuck_octets_loop.raw_induct
      [where P = "\<lambda>str i vals res. i = 0 \<longrightarrow> str = [] \<or> length str < 2 \<or> stoul16 (take 2 str) = None", OF _ that])
    fix loop :: "string \<Rightarrow> nat \<Rightarrow> bytes \<Rightarrow> bytes option option" and str i vals res
    assume IH: "\<And>str i vals res. loop str i vals = Some res \<Longrightarrow>
        i = 0 \<longrightarrow> str = [] \<or> length str < 2 \<or> stoul16 (take 2 str) = None"
      and "(if i < length str then
        (if i \<noteq> 0 \<and> str ! i \<noteq> CHR ''.'' then Some None
         else let i' = (if i \<noteq> 0 then i + 1 else i) in
           if \<not> (i' + 2 \<le> length str) then Some None
           else (case stoul16 (take 2 (drop i' str)) of
                   None \<Rightarrow> Some None
                 | Some v \<Rightarrow> loop str i' (vals @ [word_of_int v])))
      else Some (Some vals)) = Some res"
    then show "i = 0 \<longrightarrow> str = [] \<or> length str < 2 \<or> stoul16 (take 2 str) = None"
      by (auto simp: Let_def split: if_splits option.splits dest: IH)
  qed
  from this [OF assms(1)] assms(2) show ?thesis by simp
qed

lemma stoul16_0a: "stoul16 ''0a'' = Some 10"
  by code_simp

text \<open>The stuck parser accepts the empty text only.\<close>

lemma str_to_vals_stuck_empty: "str_to_vals_stuck [] = Some (Some [])"
  by (simp add: str_to_vals_stuck_def stuck_octets_loop.simps)

lemma str_to_vals_stuck_result: "str_to_vals_stuck str = Some (Some vals) \<longleftrightarrow> str = [] \<and> vals = []"
  using stuck_octets_loop_result [of str 0 "[]" "Some vals"] str_to_vals_stuck_empty
  by (auto simp: str_to_vals_stuck_def split: if_splits)

section \<open>The working parser\<close>

lemma to_hex_two: "16 \<le> n \<Longrightarrow> n < 256 \<Longrightarrow> to_hex n = [hex_char (n div 16), hex_char (n mod 16)]"
  by (simp add: to_hex.simps [of n] to_hex.simps [of "n div 16"] less_mult_imp_div_less)

text \<open>Two characters per field: what the printer gives for an octet of at least 16.\<close>

lemma stoul16_two:
  assumes "16 \<le> n" and "n < 256"
  shows "stoul16 (to_hex n) = Some (int n)"
proof -
  let ?a = "hex_char (n div 16)" and ?b = "hex_char (n mod 16)"
  have d: "n div 16 < 16" using assms by (simp add: less_mult_imp_div_less)
  then have h: "is_hex ?a" "is_hex ?b" by simp_all
  have "hex_value [?a, ?b] = n" using d by (simp add: hex_value_def)
  then show ?thesis
    using h hex_not_special [OF h(1)] is_hex_not_space [OF h(1)] assms
    by (simp add: to_hex_two stoul16_def)
qed

definition big_octets :: "bytes \<Rightarrow> bool" where
  "big_octets vs \<longleftrightarrow> (\<forall>v \<in> set vs. 0x10 \<le> v)"

lemma octets_loop_end: "length str \<le> i \<Longrightarrow> octets_loop str i vals = Some vals"
  by (simp add: octets_loop.simps)

lemma octets_loop_print:
  assumes "big_octets vs" and "vs \<noteq> []"
  shows "octets_loop (pre @ (if pre = [] then [] else ''.'') @ vals_to_str vs) (length pre) vals = Some (vals @ vs)"
  using assms
proof (induction vs arbitrary: pre vals)
  case (Cons v vs)
  let ?n = "unat v"
  have n: "16 \<le> ?n" "?n < 256" using Cons.prems(1) by (simp_all add: big_octets_def word_le_nat_alt)
  define dot where "dot = (if pre = [] then [] else ''.'')"
  define rest where "rest = (if vs = [] then [] else CHR ''.'' # vals_to_str vs)"
  have str: "vals_to_str (v # vs) = to_hex ?n @ rest" by (cases vs) (simp_all add: rest_def)
  have two: "length (to_hex ?n) = 2" using n by (simp add: to_hex_two)
  have i: "(if length pre \<noteq> 0 then length pre + 1 else length pre) = length (pre @ dot)"
    by (simp add: dot_def)
  have step: "octets_loop (pre @ dot @ to_hex ?n @ rest) (length pre) vals
      = octets_loop (pre @ dot @ to_hex ?n @ rest) (length (pre @ dot @ to_hex ?n)) (vals @ [v])"
    unfolding octets_loop.simps [of _ "length pre"] i Let_def
    using n two by (auto simp: stoul16_two dot_def nth_append)
  show ?case
  proof (cases "vs = []")
    case True
    then have "octets_loop (pre @ dot @ to_hex ?n @ rest) (length (pre @ dot @ to_hex ?n)) (vals @ [v])
        = Some (vals @ [v])" by (intro octets_loop_end) (simp add: rest_def)
    with step str True show ?thesis by (simp add: dot_def)
  next
    case False
    define pre' where "pre' = pre @ dot @ to_hex ?n"
    have "pre' \<noteq> []" using two by (auto simp: pre'_def)
    moreover have "big_octets vs" using Cons.prems(1) by (simp add: big_octets_def)
    ultimately have "octets_loop (pre' @ rest) (length pre') (vals @ [v]) = Some (vals @ v # vs)"
      using False Cons.IH [of pre' "vals @ [v]"] by (simp add: rest_def)
    then show ?thesis using step str unfolding pre'_def dot_def by simp
  qed
qed simp

lemma str_to_vals_print: "big_octets vs \<Longrightarrow> str_to_vals (vals_to_str vs) = Some vs"
proof (cases "vs = []")
  case False
  then show "big_octets vs \<Longrightarrow> ?thesis"
    using octets_loop_print [of vs "[]" "[]"] by (simp add: str_to_vals_def)
qed (simp add: str_to_vals_def octets_loop.simps)

end
