(* ===== verification/Emp.thy ===== *)
theory Emp
  imports Octet_Text
begin

text \<open>
  EMP, the port layer over PTP (\<^verbatim>\<open>src/protocols/emp\<close>): ports of variable length, header codec,
  sending, the filter of \<^verbatim>\<open>connect_recv\<close> and the header of \<^verbatim>\<open>net_access_single\<close>.  The
  codec and the receiver meet the contract \<open>framed_protocol\<close>; the port parser accepts no text but the
  empty one.
\<close>

type_synonym emp_port = bytes

definition emp_port_eq :: "emp_port \<Rightarrow> emp_port \<Rightarrow> bool" where
  "emp_port_eq a b = vals_eq a b"

definition emp_port_neq :: "emp_port \<Rightarrow> emp_port \<Rightarrow> bool" where
  "emp_port_neq a b = (\<not> emp_port_eq b a)"

definition emp_port_empty :: emp_port where "emp_port_empty = [0]"

definition str_to_emp_port :: "string \<Rightarrow> emp_port option option" where
  "str_to_emp_port str = str_to_vals_stuck str"

definition emp_port_to_str :: "emp_port \<Rightarrow> string" where
  "emp_port_to_str p = vals_to_str p"

definition write_emp_port :: "emp_port \<Rightarrow> bytes" where
  "write_emp_port src = var_len_encode_bytes src"

definition extract_emp_port :: "bytes \<Rightarrow> (emp_port \<times> nat) result" where
  "extract_emp_port src = var_len_decode_bytes src"

record emp_header =
  emp_src_port :: emp_port
  emp_dest_port :: emp_port

definition write_emp_header :: "emp_header \<Rightarrow> bytes" where
  "write_emp_header src = write_emp_port (emp_src_port src) @ write_emp_port (emp_dest_port src)"

definition extract_emp_header :: "bytes \<Rightarrow> (emp_header \<times> nat) result" where
  "extract_emp_header src =
     bind_r (extract_emp_port src) (\<lambda>(s, n).
     bind_r (extract_emp_port (drop n src)) (\<lambda>(d, m).
     Inr (\<lparr>emp_src_port = s, emp_dest_port = d\<rparr>, n + m)))"

text \<open>\<^verbatim>\<open>send\<close> builds the packet in a local array of \<^verbatim>\<open>0x1000\<close> bytes.\<close>

definition emp_send :: "'s option \<Rightarrow> emp_header \<Rightarrow> bytes \<Rightarrow> ('s \<times> bytes) list result" where
  "emp_send emp_surface header data =
     send_frame emp_surface (fixed_frame 0x1000 (write_emp_header header) data)"

definition emp_single_header :: "emp_port option \<Rightarrow> emp_port \<Rightarrow> emp_header" where
  "emp_single_header sp dp =
     \<lparr>emp_src_port = dp, emp_dest_port = (case sp of Some v \<Rightarrow> v | None \<Rightarrow> emp_port_empty)\<rparr>"

record emp_conditions =
  emp_cond_src :: "emp_port option"
  emp_cond_dest :: "emp_port option"

definition emp_recv :: "emp_conditions \<Rightarrow> bytes \<Rightarrow> (emp_header \<times> bytes) option result" where
  "emp_recv c data =
     bind_r (extract_emp_header data) (\<lambda>(header, header_sz).
       let encap_data = drop header_sz data in
       if \<not> opt_sel emp_port_neq (emp_cond_src c) (emp_src_port header) then Inr None
       else if \<not> opt_sel emp_port_neq (emp_cond_dest c) (emp_dest_port header) then Inr None
       else Inr (Some (header, encap_data)))"

definition emp_sel :: "emp_conditions \<Rightarrow> emp_header \<Rightarrow> bool" where
  "emp_sel c h \<longleftrightarrow> opt_sel (\<noteq>) (emp_cond_src c) (emp_src_port h) \<and> opt_sel (\<noteq>) (emp_cond_dest c) (emp_dest_port h)"

lemma opt_sel_emp_port: "opt_sel emp_port_neq = opt_sel (\<noteq>)"
  by (intro ext) (auto simp: opt_sel_def emp_port_neq_def emp_port_eq_def split: option.split)

interpretation emp: framed_protocol
  "\<lambda>h. Inr (write_emp_header h)" extract_emp_header "\<lambda>_. True" emp_sel emp_recv
proof unfold_locales
  fix h bs p
  assume "Inr (write_emp_header h) = (Inr bs :: bytes result)"
  then show "extract_emp_header (bs @ p) = Inr (h, length bs)"
    by (auto simp: extract_emp_header_def write_emp_header_def write_emp_port_def extract_emp_port_def)
next
  fix c d
  show "emp_recv c d = bind_r (extract_emp_header d)
      (\<lambda>(h, n). Inr (if emp_sel c h then Some (h, drop n d) else None))"
    unfolding emp_recv_def
    by (rule bind_r_cong) (auto simp: opt_sel_emp_port emp_sel_def Let_def split: prod.splits)
qed simp

section \<open>Properties\<close>

text \<open>An EMP packet whose header and data fit the 4096-byte send array is delivered with its header
  and data exactly when its ports meet the receiver's conditions, and a larger one overflows the array.\<close>

theorem emp_send_recv:
  "if length (write_emp_header h) + length d \<le> 4096
   then \<exists>frame. emp_send (Some s) h d = Inr [(s, frame)]
      \<and> emp_recv c frame = Inr (if emp_sel c h then Some (h, d) else None)
   else emp_send (Some s) h d = Inl Overwrite"
  using emp.rcv_frame [of h "write_emp_header h" c d] by (simp add: emp_send_def fixed_frame_eq)

text \<open>\<^verbatim>\<open>str_to_emp_port\<close> returns a port for the empty text only: every other text is rejected,
  or the loop, which never moves past the field it has read, does not end, as on \<open>0a.0b\<close>.\<close>

theorem str_to_emp_port_never_parses:
  "(str_to_emp_port str = Some (Some p) \<longleftrightarrow> str = [] \<and> p = [])
   \<and> str_to_emp_port ''0a.0b'' = None"
proof -
  have "stuck_octets_loop ''0a.0b'' 0 [] \<noteq> Some res" for res
  proof
    assume "stuck_octets_loop ''0a.0b'' 0 [] = Some res"
    with stuck_octets_loop_ends [of "''0a.0b''" "[]" res] show False by (auto simp: stoul16_0a)
  qed
  then show ?thesis
    by (auto simp: str_to_emp_port_def str_to_vals_stuck_result str_to_vals_stuck_def [of "''0a.0b''"])
qed


end
