(* ===== verification/Nsp.thy ===== *)
theory Nsp
  imports Octet_Text
begin

text \<open>
  NSP, the session layer (\<^verbatim>\<open>src/protocols/nsp\<close>): identifiers of variable length, header codec,
  sending, the filter of \<^verbatim>\<open>connect_recv\<close> and the header of \<^verbatim>\<open>net_access_single\<close>.  The
  codec and the receiver meet the contract \<open>framed_protocol\<close>.
\<close>

type_synonym nsp_id = bytes

definition nsp_id_eq :: "nsp_id \<Rightarrow> nsp_id \<Rightarrow> bool" where
  "nsp_id_eq a b = vals_eq a b"

definition nsp_id_neq :: "nsp_id \<Rightarrow> nsp_id \<Rightarrow> bool" where
  "nsp_id_neq a b = (\<not> nsp_id_eq b a)"

definition str_to_nsp_id :: "string \<Rightarrow> nsp_id option option" where
  "str_to_nsp_id str = str_to_vals_stuck str"

definition nsp_id_to_str :: "nsp_id \<Rightarrow> string" where
  "nsp_id_to_str p = vals_to_str p"

definition write_nsp_id :: "nsp_id \<Rightarrow> bytes" where
  "write_nsp_id src = var_len_encode_bytes src"

definition extract_nsp_id :: "bytes \<Rightarrow> (nsp_id \<times> nat) result" where
  "extract_nsp_id src = var_len_decode_bytes src"

record nsp_header =
  nsp_src_id :: nsp_id
  nsp_dest_id :: nsp_id

definition write_nsp_header :: "nsp_header \<Rightarrow> bytes" where
  "write_nsp_header src = write_nsp_id (nsp_src_id src) @ write_nsp_id (nsp_dest_id src)"

definition extract_nsp_header :: "bytes \<Rightarrow> (nsp_header \<times> nat) result" where
  "extract_nsp_header src =
     bind_r (extract_nsp_id src) (\<lambda>(s, n).
     bind_r (extract_nsp_id (drop n src)) (\<lambda>(d, m).
     Inr (\<lparr>nsp_src_id = s, nsp_dest_id = d\<rparr>, n + m)))"

text \<open>\<^verbatim>\<open>send\<close> builds the packet in a local array of \<^verbatim>\<open>0x1000\<close> bytes.\<close>

definition nsp_send :: "'s option \<Rightarrow> nsp_header \<Rightarrow> bytes \<Rightarrow> ('s \<times> bytes) list result" where
  "nsp_send nsp_surface header data =
     send_frame nsp_surface (fixed_frame 0x1000 (write_nsp_header header) data)"

definition nsp_single_header :: "nsp_id \<Rightarrow> nsp_id \<Rightarrow> nsp_header" where
  "nsp_single_header si di = \<lparr>nsp_src_id = di, nsp_dest_id = si\<rparr>"

record nsp_conditions =
  nsp_cond_src :: "nsp_id option"
  nsp_cond_dest :: "nsp_id option"

definition nsp_recv :: "nsp_conditions \<Rightarrow> bytes \<Rightarrow> (nsp_header \<times> bytes) option result" where
  "nsp_recv c data =
     bind_r (extract_nsp_header data) (\<lambda>(header, header_sz).
       let encap_data = drop header_sz data in
       if \<not> opt_sel nsp_id_neq (nsp_cond_src c) (nsp_src_id header) then Inr None
       else if \<not> opt_sel nsp_id_neq (nsp_cond_dest c) (nsp_dest_id header) then Inr None
       else Inr (Some (header, encap_data)))"

definition nsp_sel :: "nsp_conditions \<Rightarrow> nsp_header \<Rightarrow> bool" where
  "nsp_sel c h \<longleftrightarrow> opt_sel (\<noteq>) (nsp_cond_src c) (nsp_src_id h) \<and> opt_sel (\<noteq>) (nsp_cond_dest c) (nsp_dest_id h)"

lemma opt_sel_nsp_id: "opt_sel nsp_id_neq = opt_sel (\<noteq>)"
  by (intro ext) (auto simp: opt_sel_def nsp_id_neq_def nsp_id_eq_def split: option.split)

interpretation nsp: framed_protocol
  "\<lambda>h. Inr (write_nsp_header h)" extract_nsp_header "\<lambda>_. True" nsp_sel nsp_recv
proof unfold_locales
  fix h bs p
  assume "Inr (write_nsp_header h) = (Inr bs :: bytes result)"
  then show "extract_nsp_header (bs @ p) = Inr (h, length bs)"
    by (auto simp: extract_nsp_header_def write_nsp_header_def write_nsp_id_def extract_nsp_id_def)
next
  fix c d
  show "nsp_recv c d = bind_r (extract_nsp_header d)
      (\<lambda>(h, n). Inr (if nsp_sel c h then Some (h, drop n d) else None))"
    unfolding nsp_recv_def
    by (rule bind_r_cong) (auto simp: opt_sel_nsp_id nsp_sel_def Let_def split: prod.splits)
qed simp

section \<open>Properties\<close>

text \<open>Two NSP accesses with mirrored identifiers form a session: what one sends the other delivers
  unchanged, and an access with any other pair of identifiers drops it.\<close>

theorem nsp_session:
  assumes "length (write_nsp_header (nsp_single_header a b)) + length d \<le> 4096"
  shows "\<exists>frame. nsp_send (Some s) (nsp_single_header a b) d = Inr [(s, frame)]
    \<and> (\<forall>x y. nsp_recv \<lparr>nsp_cond_src = Some x, nsp_cond_dest = Some y\<rparr> frame
          = Inr (if x = b \<and> y = a then Some (nsp_single_header a b, d) else None))"
proof -
  let ?h = "nsp_single_header a b"
  have "nsp_sel \<lparr>nsp_cond_src = Some x, nsp_cond_dest = Some y\<rparr> ?h \<longleftrightarrow> x = b \<and> y = a" for x y
    by (auto simp: nsp_sel_def nsp_single_header_def)
  then show ?thesis
    using assms nsp.rcv_frame [of ?h "write_nsp_header ?h" _ d] by (simp add: nsp_send_def fixed_frame_eq)
qed

theorem nsp_session_witness:
  "length (write_nsp_header (nsp_single_header [1] [2])) + length [7 :: u8] \<le> 4096
   \<and> (\<exists>frame. nsp_send (Some ()) (nsp_single_header [1] [2]) [7] = Inr [((), frame)]
      \<and> nsp_recv \<lparr>nsp_cond_src = Some [2], nsp_cond_dest = Some [1]\<rparr> frame
          = Inr (Some (nsp_single_header [1] [2], [7])))"
proof -
  have fits: "length (write_nsp_header (nsp_single_header [1] [2])) + length [7 :: u8] \<le> 4096" by code_simp
  from nsp_session [OF fits, of "()"] fits show ?thesis by auto
qed


end
