(* ===== verification/Eap.thy ===== *)
theory Eap
  imports Octet_Text
begin

text \<open>
  EAP (\<^verbatim>\<open>src/protocols/eap\<close>), the predecessor of PTP: addresses of variable length with their order
  and subnets, the header with its jump counter, sending, the filter of \<^verbatim>\<open>connect_recv\<close> and the
  headers of the two kinds of \<^verbatim>\<open>net_access\<close>.  The codec and the receiver meet the contract
  \<open>framed_protocol\<close>.
\<close>

section \<open>Addresses\<close>

datatype eap_addr = Eap_addr (eap_octets: bytes)

definition eap_addr_eq :: "eap_addr \<Rightarrow> eap_addr \<Rightarrow> bool" where
  "eap_addr_eq a b = vals_eq (eap_octets a) (eap_octets b)"

definition eap_addr_neq :: "eap_addr \<Rightarrow> eap_addr \<Rightarrow> bool" where
  "eap_addr_neq a b = (\<not> eap_addr_eq b a)"

lemma eap_addr_eq_iff [simp]: "eap_addr_eq a b \<longleftrightarrow> a = b"
  by (cases a; cases b) (simp add: eap_addr_eq_def)

definition eap_addr_less :: "eap_addr \<Rightarrow> eap_addr \<Rightarrow> bool" where
  "eap_addr_less a b = vals_less (eap_octets a) (eap_octets b)"

definition eap_addr_le :: "eap_addr \<Rightarrow> eap_addr \<Rightarrow> bool" where
  "eap_addr_le a b = (\<not> vals_less (eap_octets b) (eap_octets a))"

instantiation eap_addr :: linorder
begin

definition less_eap_addr :: "eap_addr \<Rightarrow> eap_addr \<Rightarrow> bool" where
  "a < b = eap_addr_less a b"

definition less_eq_eap_addr :: "eap_addr \<Rightarrow> eap_addr \<Rightarrow> bool" where
  "a \<le> b = eap_addr_le a b"

instance
proof
  fix x y z :: eap_addr
  note defs = less_eap_addr_def eap_addr_less_def less_eq_eap_addr_def eap_addr_le_def
  show "(x < y) = (x \<le> y \<and> \<not> y \<le> x)"
    using vals_less_trans vals_less_irrefl by (auto simp: defs)
  show "x \<le> x" by (simp add: defs vals_less_irrefl)
  show "x \<le> y \<Longrightarrow> y \<le> z \<Longrightarrow> x \<le> z"
    using vals_less_linear [of "eap_octets x" "eap_octets y"] vals_less_trans by (auto simp: defs)
  show "x \<le> y \<Longrightarrow> y \<le> x \<Longrightarrow> x = y"
    using vals_less_linear [of "eap_octets x" "eap_octets y"] by (auto simp: defs intro: eap_addr.expand)
  show "x \<le> y \<or> y \<le> x"
    using vals_less_trans vals_less_irrefl by (auto simp: defs)
qed

end

definition eap_addr_empty :: eap_addr where "eap_addr_empty = Eap_addr [0]"
definition eap_addr_broadcast :: eap_addr where "eap_addr_broadcast = Eap_addr [0xff]"

definition str_to_eap_addr :: "string \<Rightarrow> eap_addr option option" where
  "str_to_eap_addr str = map_option (map_option Eap_addr) (str_to_vals_stuck str)"

definition eap_addr_to_str :: "eap_addr \<Rightarrow> string" where
  "eap_addr_to_str a = vals_to_str (eap_octets a)"

definition write_eap_addr :: "eap_addr \<Rightarrow> bytes" where
  "write_eap_addr src = var_len_encode_bytes (eap_octets src)"

definition extract_eap_addr :: "bytes \<Rightarrow> (eap_addr \<times> nat) result" where
  "extract_eap_addr src = bind_r (var_len_decode_bytes src) (\<lambda>(vs, n). Inr (Eap_addr vs, n))"

record eap_subnet_mask =
  eap_prefix :: eap_addr

definition str_to_eap_subnet_mask :: "string \<Rightarrow> eap_subnet_mask option option result" where
  "str_to_eap_subnet_mask str =
     (if str = [] then Inl Undefined
      else if last str \<noteq> CHR ''/'' then Inr (Some None)
      else (case str_to_eap_addr (butlast str) of
              None \<Rightarrow> Inr None
            | Some None \<Rightarrow> Inr (Some None)
            | Some (Some addr) \<Rightarrow> Inr (Some (Some \<lparr>eap_prefix = addr\<rparr>))))"

definition eap_subnet_mask_to_str :: "eap_subnet_mask \<Rightarrow> string" where
  "eap_subnet_mask_to_str subnet = eap_addr_to_str (eap_prefix subnet) @ ''/''"

definition eap_smallest_addr_in_subnet :: "eap_subnet_mask \<Rightarrow> eap_addr" where
  "eap_smallest_addr_in_subnet subnet = Eap_addr (eap_octets (eap_prefix subnet) @ [0])"

definition eap_is_inside_subnet :: "eap_subnet_mask \<Rightarrow> eap_addr \<Rightarrow> bool" where
  "eap_is_inside_subnet subnet addr = vals_inside_subnet (eap_octets (eap_prefix subnet)) (eap_octets addr)"

section \<open>Header\<close>

type_synonym eap_prot = u8

definition eap_prot_to_str :: "eap_prot \<Rightarrow> string option" where
  "eap_prot_to_str pr = (if pr = 1 then Some ''icmp'' else if pr = 17 then Some ''udp''
     else if pr = 6 then Some ''tcp'' else None)"

definition str_to_eap_prot :: "string \<Rightarrow> eap_prot option" where
  "str_to_eap_prot str = (if str = ''icmp'' then Some 1 else if str = ''udp'' then Some 17
     else if str = ''tcp'' then Some 6 else None)"

record eap_header =
  eap_src_addr :: eap_addr
  eap_dest_addr :: eap_addr
  eap_no_jumps :: u8
  eap_prot :: eap_prot

definition write_eap_header :: "eap_header \<Rightarrow> bytes" where
  "write_eap_header src = write_eap_addr (eap_src_addr src) @ write_eap_addr (eap_dest_addr src)
     @ [eap_no_jumps src, eap_prot src]"

definition extract_eap_header :: "bytes \<Rightarrow> (eap_header \<times> nat) result" where
  "extract_eap_header src =
     bind_r (extract_eap_addr src) (\<lambda>(s, n).
     bind_r (extract_eap_addr (drop n src)) (\<lambda>(d, m).
     bind_r (load8 (drop (n + m) src)) (\<lambda>(j, cur).
     bind_r (load8 cur) (\<lambda>(pr, _).
     Inr (\<lparr>eap_src_addr = s, eap_dest_addr = d, eap_no_jumps = j, eap_prot = pr\<rparr>, n + m + 2)))))"

definition eap_send :: "'s option \<Rightarrow> eap_header \<Rightarrow> bytes \<Rightarrow> ('s \<times> bytes) list result" where
  "eap_send eap_surface header data =
     send_frame eap_surface (fixed_frame 0x1000 (write_eap_header header) data)"

definition eap_broadcast_header :: "eap_addr option \<Rightarrow> eap_prot option \<Rightarrow> eap_header" where
  "eap_broadcast_header dst pr =
     \<lparr>eap_src_addr = (case dst of Some a \<Rightarrow> a | None \<Rightarrow> eap_addr_empty), eap_dest_addr = eap_addr_broadcast,
      eap_no_jumps = 0, eap_prot = (case pr of Some v \<Rightarrow> v | None \<Rightarrow> 0)\<rparr>"

definition eap_single_header :: "eap_addr \<Rightarrow> eap_addr option \<Rightarrow> eap_prot option \<Rightarrow> eap_header" where
  "eap_single_header sa dst pr =
     \<lparr>eap_src_addr = (case dst of Some a \<Rightarrow> a | None \<Rightarrow> eap_addr_empty), eap_dest_addr = sa,
      eap_no_jumps = 0, eap_prot = (case pr of Some v \<Rightarrow> v | None \<Rightarrow> 0)\<rparr>"

record eap_conditions =
  eap_cond_src :: "eap_addr option"
  eap_cond_dest :: "eap_addr option"
  eap_cond_prot :: "eap_prot option"

definition eap_recv :: "eap_conditions \<Rightarrow> bytes \<Rightarrow> (eap_header \<times> bytes) option result" where
  "eap_recv c data =
     bind_r (extract_eap_header data) (\<lambda>(header, header_sz).
       let encap_data = drop header_sz data in
       if \<not> opt_sel eap_addr_neq (eap_cond_src c) (eap_src_addr header) then Inr None
       else if \<not> opt_sel eap_addr_neq (eap_cond_dest c) (eap_dest_addr header) then Inr None
       else if \<not> opt_sel (\<noteq>) (eap_cond_prot c) (eap_prot header) then Inr None
       else Inr (Some (header, encap_data)))"

definition eap_sel :: "eap_conditions \<Rightarrow> eap_header \<Rightarrow> bool" where
  "eap_sel c h \<longleftrightarrow> opt_sel (\<noteq>) (eap_cond_src c) (eap_src_addr h) \<and> opt_sel (\<noteq>) (eap_cond_dest c) (eap_dest_addr h)
     \<and> opt_sel (\<noteq>) (eap_cond_prot c) (eap_prot h)"

lemma opt_sel_eap: "opt_sel eap_addr_neq = opt_sel (\<noteq>)"
  by (intro ext) (auto simp: opt_sel_def eap_addr_neq_def split: option.split)

interpretation eap: framed_protocol
  "\<lambda>h. Inr (write_eap_header h)" extract_eap_header "\<lambda>_. True" eap_sel eap_recv
proof unfold_locales
  fix h bs p
  assume "Inr (write_eap_header h) = (Inr bs :: bytes result)"
  then show "extract_eap_header (bs @ p) = Inr (h, length bs)"
    by (auto simp: extract_eap_header_def write_eap_header_def write_eap_addr_def extract_eap_addr_def)
next
  fix c d
  show "eap_recv c d = bind_r (extract_eap_header d)
      (\<lambda>(h, n). Inr (if eap_sel c h then Some (h, drop n d) else None))"
    unfolding eap_recv_def
    by (rule bind_r_cong) (auto simp: opt_sel_eap eap_sel_def Let_def split: prod.splits)
qed simp

text \<open>An EAP packet that fits the send array is delivered with its header and data exactly when it meets
  the receiver's conditions, and a larger one overflows the array.\<close>

theorem eap_send_recv:
  "if length (write_eap_header h) + length d \<le> 4096
   then \<exists>frame. eap_send (Some s) h d = Inr [(s, frame)]
      \<and> eap_recv c frame = Inr (if eap_sel c h then Some (h, d) else None)
   else eap_send (Some s) h d = Inl Overwrite"
  using eap.rcv_frame [of h "write_eap_header h" c d] by (simp add: eap_send_def fixed_frame_eq)

end
