(* ===== verification/Ptp_Addr.thy ===== *)
theory Ptp_Addr
  imports Octet_Text Routing
begin

text \<open>
  Addresses, network identifiers and subnets of PTP (\<^verbatim>\<open>src/protocols/ptp/local_conn/ptp_addr.cpp\<close>,
  \<^verbatim>\<open>net_switch/ptp_net_id.cpp\<close>) and the routing table over them
  (\<^verbatim>\<open>local_conn/ptp_local_conn_routing_table.h\<close>).  The lemmas show that the address order is a
  linear order, that subnet membership is being a strict extension of the prefix, and that the table routes
  by longest prefix.
\<close>

section \<open>Addresses\<close>

datatype ptp_addr = Ptp_addr (ptp_octets: bytes)

definition ptp_addr_eq :: "ptp_addr \<Rightarrow> ptp_addr \<Rightarrow> bool" where
  "ptp_addr_eq a b = vals_eq (ptp_octets a) (ptp_octets b)"

definition ptp_addr_neq :: "ptp_addr \<Rightarrow> ptp_addr \<Rightarrow> bool" where
  "ptp_addr_neq a b = (\<not> ptp_addr_eq b a)"

lemma ptp_addr_eq_iff [simp]: "ptp_addr_eq a b \<longleftrightarrow> a = b"
  by (cases a; cases b) (simp add: ptp_addr_eq_def)

definition ptp_addr_less :: "ptp_addr \<Rightarrow> ptp_addr \<Rightarrow> bool" where
  "ptp_addr_less a b = vals_less (ptp_octets a) (ptp_octets b)"

definition ptp_addr_le :: "ptp_addr \<Rightarrow> ptp_addr \<Rightarrow> bool" where
  "ptp_addr_le a b = (\<not> vals_less (ptp_octets b) (ptp_octets a))"

instantiation ptp_addr :: linorder
begin

definition less_ptp_addr :: "ptp_addr \<Rightarrow> ptp_addr \<Rightarrow> bool" where
  "a < b = ptp_addr_less a b"

definition less_eq_ptp_addr :: "ptp_addr \<Rightarrow> ptp_addr \<Rightarrow> bool" where
  "a \<le> b = ptp_addr_le a b"

instance
proof
  fix x y z :: ptp_addr
  note defs = less_ptp_addr_def ptp_addr_less_def less_eq_ptp_addr_def ptp_addr_le_def
  show "(x < y) = (x \<le> y \<and> \<not> y \<le> x)"
    using vals_less_trans vals_less_irrefl by (auto simp: defs)
  show "x \<le> x" by (simp add: defs vals_less_irrefl)
  show "x \<le> y \<Longrightarrow> y \<le> z \<Longrightarrow> x \<le> z"
    using vals_less_linear [of "ptp_octets x" "ptp_octets y"] vals_less_trans by (auto simp: defs)
  show "x \<le> y \<Longrightarrow> y \<le> x \<Longrightarrow> x = y"
    using vals_less_linear [of "ptp_octets x" "ptp_octets y"] by (auto simp: defs intro: ptp_addr.expand)
  show "x \<le> y \<or> y \<le> x"
    using vals_less_trans vals_less_irrefl by (auto simp: defs)
qed

end

definition ptp_addr_empty :: ptp_addr where "ptp_addr_empty = Ptp_addr [0]"
definition ptp_addr_broadcast :: ptp_addr where "ptp_addr_broadcast = Ptp_addr [0xff]"

definition str_to_ptp_addr :: "string \<Rightarrow> ptp_addr option" where
  "str_to_ptp_addr str = map_option Ptp_addr (str_to_vals str)"

definition ptp_addr_to_str :: "ptp_addr \<Rightarrow> string" where
  "ptp_addr_to_str a = vals_to_str (ptp_octets a)"

definition write_ptp_addr :: "ptp_addr \<Rightarrow> bytes" where
  "write_ptp_addr src = var_len_encode_bytes (ptp_octets src)"

definition extract_ptp_addr :: "bytes \<Rightarrow> (ptp_addr \<times> nat) result" where
  "extract_ptp_addr src = bind_r (var_len_decode_bytes src) (\<lambda>(vs, n). Inr (Ptp_addr vs, n))"

interpretation ptp_addr: wire_codec "\<lambda>a. Inr (write_ptp_addr a)" extract_ptp_addr "\<lambda>_. True"
  by unfold_locales (auto simp: write_ptp_addr_def extract_ptp_addr_def)

section \<open>Subnets\<close>

record ptp_subnet_mask =
  prefix :: ptp_addr

text \<open>\<^verbatim>\<open>str.back()\<close> on an empty string is undefined.\<close>

definition str_to_ptp_subnet_mask :: "string \<Rightarrow> ptp_subnet_mask option result" where
  "str_to_ptp_subnet_mask str =
     (if str = [] then Inl Undefined
      else if last str \<noteq> CHR ''/'' then Inr None
      else (case str_to_ptp_addr (butlast str) of
              Some addr \<Rightarrow> Inr (Some \<lparr>prefix = addr\<rparr>)
            | None \<Rightarrow> Inr None))"

definition ptp_subnet_mask_to_str :: "ptp_subnet_mask \<Rightarrow> string" where
  "ptp_subnet_mask_to_str subnet = ptp_addr_to_str (prefix subnet) @ ''/''"

definition ptp_smallest_addr_in_subnet :: "ptp_subnet_mask \<Rightarrow> ptp_addr" where
  "ptp_smallest_addr_in_subnet subnet = Ptp_addr (ptp_octets (prefix subnet) @ [0])"

definition ptp_is_inside_subnet :: "ptp_subnet_mask \<Rightarrow> ptp_addr \<Rightarrow> bool" where
  "ptp_is_inside_subnet subnet addr = vals_inside_subnet (ptp_octets (prefix subnet)) (ptp_octets addr)"

section \<open>Network identifiers\<close>

type_synonym ptp_net_id = bytes

definition ptp_net_id_eq :: "ptp_net_id \<Rightarrow> ptp_net_id \<Rightarrow> bool" where
  "ptp_net_id_eq a b = vals_eq a b"

definition ptp_net_id_neq :: "ptp_net_id \<Rightarrow> ptp_net_id \<Rightarrow> bool" where
  "ptp_net_id_neq a b = (\<not> ptp_net_id_eq b a)"

definition str_to_ptp_net_id :: "string \<Rightarrow> ptp_net_id option option" where
  "str_to_ptp_net_id str = str_to_vals_stuck str"

definition ptp_net_id_to_str :: "ptp_net_id \<Rightarrow> string" where
  "ptp_net_id_to_str i = vals_to_str i"

definition write_ptp_net_id :: "ptp_net_id \<Rightarrow> bytes" where
  "write_ptp_net_id src = var_len_encode_bytes src"

definition extract_ptp_net_id :: "bytes \<Rightarrow> (ptp_net_id \<times> nat) result" where
  "extract_ptp_net_id src = var_len_decode_bytes src"

section \<open>The routing table\<close>

fun ptp_find_loop ::
  "(ptp_subnet_mask \<times> 'r option) list \<Rightarrow> ptp_addr \<Rightarrow> ptp_subnet_mask option \<times> 'r option \<Rightarrow> 'r option result" where
  "ptp_find_loop [] addr best = Inr (snd best)"
| "ptp_find_loop ((subnet, route) # rs) addr best =
     (if ptp_is_inside_subnet subnet addr then
        (case fst best of
           None \<Rightarrow> ptp_find_loop rs addr (Some subnet, route)
         | Some closest_subnet \<Rightarrow>
             if length (ptp_octets (prefix subnet)) > length (ptp_octets (prefix closest_subnet))
             then ptp_find_loop rs addr (Some subnet, route)
             else ptp_find_loop rs addr best)
      else ptp_find_loop rs addr best)"

definition ptp_impl_find_route :: "(ptp_subnet_mask \<times> 'r option) list \<Rightarrow> ptp_addr \<Rightarrow> 'r option result" where
  "ptp_impl_find_route rs addr = ptp_find_loop rs addr (None, None)"

type_synonym 'r ptp_routing_table = "(ptp_subnet_mask, 'r) routing_table"

definition ptp_find_route :: "'r ptp_routing_table \<Rightarrow> ptp_addr \<Rightarrow> 'r option result" where
  "ptp_find_route t addr = find_route ptp_impl_find_route t addr"

definition prefix_len :: "ptp_subnet_mask \<Rightarrow> int" where
  "prefix_len m = int (length (ptp_octets (prefix m)))"

interpretation ptp_table: longest_prefix_routing
  "\<lambda>m a. Inr (ptp_is_inside_subnet m a)" prefix_len ptp_find_loop
proof unfold_locales
  fix rule :: "ptp_subnet_mask \<times> 'r option" and rs addr best
  show "ptp_find_loop (rule # rs) addr best = bind_r (Inr (ptp_is_inside_subnet (fst rule) addr))
      (\<lambda>b. ptp_find_loop rs addr (if b then closer prefix_len rule best else best))"
    by (cases rule) (auto simp: closer_def prefix_len_def split: option.splits)
qed simp

section \<open>Properties\<close>

text \<open>The PTP routing table never faults and finds the route of the first rule among those with the
  longest prefix that the address strictly extends, and the default gateway when there is none.\<close>

theorem ptp_find_route_longest_prefix:
  "\<exists>r. longest_match prefix_len
        (filter (\<lambda>x. \<exists>y ys. ptp_octets addr = ptp_octets (prefix (fst x)) @ y # ys) (rules t)) r
    \<and> ptp_find_route t addr = Inr (if r \<noteq> None then r else default_gateway t)"
  using ptp_table.find_route_correct [of t addr]
  by (simp add: ptp_find_route_def ptp_impl_find_route_def [abs_def] ptp_is_inside_subnet_def vals_inside_subnet_iff)

text \<open>Printing an address and parsing the text gives it back when every octet is at least 16; smaller
  octets are printed with one digit, which the parser, that reads two characters per octet, rejects or misreads.\<close>

theorem ptp_addr_text_roundtrip:
  "(big_octets (ptp_octets a) \<longrightarrow> str_to_ptp_addr (ptp_addr_to_str a) = Some a)
   \<and> str_to_ptp_addr (ptp_addr_to_str (Ptp_addr [10, 11])) = None"
proof -
  have "str_to_ptp_addr (ptp_addr_to_str (Ptp_addr [10, 11])) = None" by code_simp
  then show ?thesis by (cases a) (simp add: str_to_ptp_addr_def ptp_addr_to_str_def str_to_vals_print)
qed

theorem ptp_addr_text_roundtrip_witness:
  "big_octets [0x10, 0xff] \<and> str_to_ptp_addr (ptp_addr_to_str (Ptp_addr [0x10, 0xff])) = Some (Ptp_addr [0x10, 0xff])"
proof -
  have "big_octets [0x10, 0xff]" by (simp add: big_octets_def)
  then show ?thesis using ptp_addr_text_roundtrip [of "Ptp_addr [0x10, 0xff]"] by simp
qed

end
