(* ===== verification/Ptp_Header.thy ===== *)
theory Ptp_Header
  imports Ptp_Addr
begin

text \<open>
  The PTP packet header (\<^verbatim>\<open>src/protocols/ptp/ptp_header.cpp\<close>, \<^verbatim>\<open>endpoints\<close>,
  \<^verbatim>\<open>local_conn/ptp_local_conn.cpp\<close>, \<^verbatim>\<open>net_switch/ptp_net_switch.cpp\<close>): a path is a list
  of actions, each a type tag next to a \<^verbatim>\<open>std::variant\<close>; tag and variant can disagree, in which case
  \<^verbatim>\<open>std::get\<close> throws.  The lemmas show that the codec meets \<open>wire_codec\<close> on headers that
  agree, that reversing a path twice gives it back, and that actions round-trip through text.
\<close>

section \<open>Actions\<close>

type_synonym ptp_endpoint_t = u8
type_synonym ptp_action_t = u8

definition endpoint_start :: ptp_endpoint_t where "endpoint_start = 0"
definition endpoint_end :: ptp_endpoint_t where "endpoint_end = 1"

definition action_endpoint :: ptp_action_t where "action_endpoint = 0"
definition action_local_conn :: ptp_action_t where "action_local_conn = 1"
definition action_net_switch :: ptp_action_t where "action_net_switch = 2"

lemmas action_defs = action_endpoint_def action_local_conn_def action_net_switch_def
lemmas endpoint_defs = endpoint_start_def endpoint_end_def

datatype ptp_val =
    Endpoint ptp_endpoint_t
  | Local_conn ptp_addr ptp_addr
  | Net_switch ptp_net_id ptp_net_id

record ptp_action =
  action_type :: ptp_action_t
  action_val :: ptp_val

type_synonym ptp_action_list = "ptp_action list"

record ptp_header =
  actions :: ptp_action_list
  curr_action :: u8
  no_jumps :: u8

text \<open>\<^verbatim>\<open>std::get\<close> on the variant.\<close>

fun get_endpoint :: "ptp_val \<Rightarrow> ptp_endpoint_t result" where
  "get_endpoint (Endpoint t) = Inr t"
| "get_endpoint _ = Inl Thrown"

fun get_local_conn :: "ptp_val \<Rightarrow> (ptp_addr \<times> ptp_addr) result" where
  "get_local_conn (Local_conn s d) = Inr (s, d)"
| "get_local_conn _ = Inl Thrown"

fun get_net_switch :: "ptp_val \<Rightarrow> (ptp_net_id \<times> ptp_net_id) result" where
  "get_net_switch (Net_switch s d) = Inr (s, d)"
| "get_net_switch _ = Inl Thrown"

section \<open>Wire form\<close>

definition write_ptp_endpoint :: "ptp_endpoint_t \<Rightarrow> bytes" where
  "write_ptp_endpoint t = [t]"

definition extract_ptp_endpoint :: "bytes \<Rightarrow> (ptp_endpoint_t \<times> nat) result" where
  "extract_ptp_endpoint src = bind_r (load8 src) (\<lambda>(t, _). Inr (t, 1))"

definition write_ptp_local_conn :: "ptp_addr \<times> ptp_addr \<Rightarrow> bytes" where
  "write_ptp_local_conn c = var_len_encode_bytes (ptp_octets (fst c)) @ var_len_encode_bytes (ptp_octets (snd c))"

definition extract_ptp_local_conn :: "bytes \<Rightarrow> ((ptp_addr \<times> ptp_addr) \<times> nat) result" where
  "extract_ptp_local_conn src =
     bind_r (var_len_decode_bytes src) (\<lambda>(s, n).
     bind_r (var_len_decode_bytes (drop n src)) (\<lambda>(d, m).
     Inr ((Ptp_addr s, Ptp_addr d), n + m)))"

definition write_ptp_net_switch :: "ptp_net_id \<times> ptp_net_id \<Rightarrow> bytes" where
  "write_ptp_net_switch c = var_len_encode_bytes (fst c) @ var_len_encode_bytes (snd c)"

definition extract_ptp_net_switch :: "bytes \<Rightarrow> ((ptp_net_id \<times> ptp_net_id) \<times> nat) result" where
  "extract_ptp_net_switch src =
     bind_r (var_len_decode_bytes src) (\<lambda>(s, n).
     bind_r (var_len_decode_bytes (drop n src)) (\<lambda>(d, m).
     Inr ((s, d), n + m)))"

definition write_ptp_action :: "ptp_action \<Rightarrow> bytes result" where
  "write_ptp_action src =
     (if action_type src = action_endpoint then
        bind_r (get_endpoint (action_val src)) (\<lambda>t. Inr (action_type src # write_ptp_endpoint t))
      else if action_type src = action_local_conn then
        bind_r (get_local_conn (action_val src)) (\<lambda>c. Inr (action_type src # write_ptp_local_conn c))
      else if action_type src = action_net_switch then
        bind_r (get_net_switch (action_val src)) (\<lambda>c. Inr (action_type src # write_ptp_net_switch c))
      else Inl Thrown)"

definition extract_ptp_action :: "bytes \<Rightarrow> (ptp_action \<times> nat) result" where
  "extract_ptp_action src =
     bind_r (load8 src) (\<lambda>(t, cur).
       if t = action_endpoint then
         bind_r (extract_ptp_endpoint cur) (\<lambda>(v, n). Inr (\<lparr>action_type = t, action_val = Endpoint v\<rparr>, 1 + n))
       else if t = action_local_conn then
         bind_r (extract_ptp_local_conn cur) (\<lambda>((s, d), n). Inr (\<lparr>action_type = t, action_val = Local_conn s d\<rparr>, 1 + n))
       else if t = action_net_switch then
         bind_r (extract_ptp_net_switch cur) (\<lambda>((s, d), n). Inr (\<lparr>action_type = t, action_val = Net_switch s d\<rparr>, 1 + n))
       else Inl Thrown)"

fun write_ptp_actions :: "ptp_action_list \<Rightarrow> bytes result" where
  "write_ptp_actions [] = Inr []"
| "write_ptp_actions (a # as) =
     bind_r (write_ptp_action a) (\<lambda>b. bind_r (write_ptp_actions as) (\<lambda>bs. Inr (b @ bs)))"

definition write_ptp_header :: "ptp_header \<Rightarrow> bytes result" where
  "write_ptp_header src =
     (if \<not> length (actions src) < 256 then Inl Thrown
      else bind_r (write_ptp_actions (actions src)) (\<lambda>bs.
             Inr (word_of_nat (length (actions src)) # bs @ [curr_action src, no_jumps src])))"

fun extract_ptp_actions :: "nat \<Rightarrow> bytes \<Rightarrow> (ptp_action_list \<times> nat) result" where
  "extract_ptp_actions 0 cur = Inr ([], 0)"
| "extract_ptp_actions (Suc k) cur =
     bind_r (extract_ptp_action cur) (\<lambda>(a, n).
     bind_r (extract_ptp_actions k (drop n cur)) (\<lambda>(as, m).
     Inr (a # as, n + m)))"

definition extract_ptp_header :: "bytes \<Rightarrow> (ptp_header \<times> nat) result" where
  "extract_ptp_header src =
     bind_r (load8 src) (\<lambda>(no_actions, cur).
     bind_r (extract_ptp_actions (unat no_actions) cur) (\<lambda>(as, n).
     bind_r (load8 (drop n cur)) (\<lambda>(ca, cur1).
     bind_r (load8 cur1) (\<lambda>(nj, _).
     Inr (\<lparr>actions = as, curr_action = ca, no_jumps = nj\<rparr>, 1 + n + 1 + 1)))))"

section \<open>The current action and the reverse path\<close>

definition get_curr_action :: "ptp_header \<Rightarrow> ptp_action result" where
  "get_curr_action h =
     (if \<not> unat (curr_action h) < length (actions h) then Inl Thrown
      else Inr (actions h ! unat (curr_action h)))"

definition create_reverse_endpoint :: "ptp_endpoint_t \<Rightarrow> ptp_endpoint_t result" where
  "create_reverse_endpoint t =
     (if t = endpoint_start then Inr endpoint_end else if t = endpoint_end then Inr endpoint_start else Inl Thrown)"

definition create_reverse_action :: "ptp_action \<Rightarrow> ptp_action result" where
  "create_reverse_action a =
     (if action_type a = action_endpoint then
        bind_r (get_endpoint (action_val a)) (\<lambda>t.
        bind_r (create_reverse_endpoint t) (\<lambda>t'.
        Inr \<lparr>action_type = action_endpoint, action_val = Endpoint t'\<rparr>))
      else if action_type a = action_local_conn then
        bind_r (get_local_conn (action_val a)) (\<lambda>(s, d).
        Inr \<lparr>action_type = action_local_conn, action_val = Local_conn d s\<rparr>)
      else if action_type a = action_net_switch then
        bind_r (get_net_switch (action_val a)) (\<lambda>(s, d).
        Inr \<lparr>action_type = action_net_switch, action_val = Net_switch d s\<rparr>)
      else Inl Thrown)"

text \<open>The loop runs from the last action to the first.\<close>

fun reverse_loop :: "ptp_action_list \<Rightarrow> ptp_action_list \<Rightarrow> ptp_action_list result" where
  "reverse_loop res [] = Inr res"
| "reverse_loop res (a # as) = bind_r (create_reverse_action a) (\<lambda>a'. reverse_loop (res @ [a']) as)"

definition create_reverse_actions :: "ptp_action_list \<Rightarrow> ptp_action_list result" where
  "create_reverse_actions as = reverse_loop [] (rev as)"

text \<open>\<^verbatim>\<open>actions.size() - 1\<close> wraps to the largest \<^verbatim>\<open>size_t\<close> on an empty list, which no
  \<^verbatim>\<open>uint8_t\<close> equals.\<close>

definition ptp_is_endpoint_end :: "ptp_header \<Rightarrow> bool result" where
  "ptp_is_endpoint_end header =
     (if actions header = [] \<or> unat (curr_action header) \<noteq> length (actions header) - 1 then Inr False
      else bind_r (get_curr_action header) (\<lambda>action.
        if action_type action \<noteq> action_endpoint then Inr False
        else bind_r (get_endpoint (action_val action)) (\<lambda>t.
          if t \<noteq> endpoint_end then Inr False else Inr True)))"

section \<open>The codec contract\<close>

fun wf_action :: "ptp_action \<Rightarrow> bool" where
  "wf_action a = (case action_val a of
     Endpoint t \<Rightarrow> action_type a = action_endpoint
   | Local_conn s d \<Rightarrow> action_type a = action_local_conn
   | Net_switch s d \<Rightarrow> action_type a = action_net_switch)"

declare wf_action.simps [simp del]

definition wf_header :: "ptp_header \<Rightarrow> bool" where
  "wf_header h \<longleftrightarrow> list_all wf_action (actions h) \<and> length (actions h) < 256"

lemma wf_action_cases:
  assumes "wf_action a"
  obtains t where "a = \<lparr>action_type = action_endpoint, action_val = Endpoint t\<rparr>"
  | s d where "a = \<lparr>action_type = action_local_conn, action_val = Local_conn s d\<rparr>"
  | s d where "a = \<lparr>action_type = action_net_switch, action_val = Net_switch s d\<rparr>"
proof (cases a)
  case (fields ty v)
  with assms that show ?thesis by (cases v) (auto simp: wf_action.simps)
qed

lemma write_ptp_action_total: "wf_action a \<Longrightarrow> \<exists>bs. write_ptp_action a = Inr bs"
  by (erule wf_action_cases) (simp_all add: write_ptp_action_def action_defs)

lemma extract_write_ptp_action:
  assumes "wf_action a" and "write_ptp_action a = Inr bs"
  shows "extract_ptp_action (bs @ p) = Inr (a, length bs)"
  using assms(1)
proof (cases rule: wf_action_cases)
  case (1 t)
  with assms(2) show ?thesis
    by (auto simp: write_ptp_action_def extract_ptp_action_def write_ptp_endpoint_def extract_ptp_endpoint_def)
next
  case (2 s d)
  with assms(2) show ?thesis
    by (auto simp: write_ptp_action_def extract_ptp_action_def write_ptp_local_conn_def
        extract_ptp_local_conn_def action_defs)
next
  case (3 s d)
  with assms(2) show ?thesis
    by (auto simp: write_ptp_action_def extract_ptp_action_def write_ptp_net_switch_def
        extract_ptp_net_switch_def action_defs)
qed

lemma write_ptp_actions_total: "list_all wf_action as \<Longrightarrow> \<exists>bs. write_ptp_actions as = Inr bs"
proof (induction as)
  case (Cons a as)
  then obtain b bs where "write_ptp_action a = Inr b" "write_ptp_actions as = Inr bs"
    using write_ptp_action_total [of a] by auto
  then show ?case by simp
qed simp

lemma extract_write_ptp_actions:
  assumes "list_all wf_action as" and "write_ptp_actions as = Inr bs"
  shows "extract_ptp_actions (length as) (bs @ p) = Inr (as, length bs)"
  using assms
proof (induction as arbitrary: bs)
  case (Cons a as)
  then obtain b b' where b: "write_ptp_action a = Inr b" "write_ptp_actions as = Inr b'" "bs = b @ b'"
    by (auto simp: bind_r_eq_Inr)
  from Cons.prems(1) b have "extract_ptp_action (b @ b' @ p) = Inr (a, length b)"
    by (intro extract_write_ptp_action) simp_all
  with Cons b show ?case by simp
qed simp

interpretation ptp: wire_codec write_ptp_header extract_ptp_header wf_header
proof unfold_locales
  fix h assume "wf_header h"
  then show "\<exists>bs. write_ptp_header h = Inr bs"
    using write_ptp_actions_total [of "actions h"] by (auto simp: wf_header_def write_ptp_header_def)
next
  fix h bs p assume h: "wf_header h" and w: "write_ptp_header h = Inr bs"
  then obtain b where b: "write_ptp_actions (actions h) = Inr b"
    "bs = word_of_nat (length (actions h)) # b @ [curr_action h, no_jumps h]"
    by (auto simp: write_ptp_header_def bind_r_eq_Inr split: if_splits)
  have "unat (word_of_nat (length (actions h)) :: u8) = length (actions h)"
    using h by (simp add: wf_header_def unsigned_of_nat take_bit_nat_eq_self)
  moreover have "extract_ptp_actions (length (actions h)) (b @ curr_action h # no_jumps h # p)
      = Inr (actions h, length b)"
    using h b by (intro extract_write_ptp_actions) (simp_all add: wf_header_def)
  ultimately show "extract_ptp_header (bs @ p) = Inr (h, length bs)"
    by (simp add: extract_ptp_header_def b(2))
qed

text \<open>What comes off the wire is well-formed.\<close>

lemma extract_ptp_action_wf: "extract_ptp_action src = Inr (a, n) \<Longrightarrow> wf_action a"
  by (auto simp: extract_ptp_action_def wf_action.simps bind_r_eq_Inr split: if_splits prod.splits)

lemma extract_ptp_actions_wf:
  "extract_ptp_actions k src = Inr (as, n) \<Longrightarrow> list_all wf_action as \<and> length as = k"
  by (induction k arbitrary: src as n)
     (auto simp: bind_r_eq_Inr split: prod.splits dest: extract_ptp_action_wf)

lemma extract_ptp_header_wf: "extract_ptp_header src = Inr (h, n) \<Longrightarrow> wf_header h"
  by (auto simp: extract_ptp_header_def wf_header_def bind_r_eq_Inr split: prod.splits dest: extract_ptp_actions_wf)

section \<open>Reversing\<close>

definition known_endpoint :: "ptp_action \<Rightarrow> bool" where
  "known_endpoint a = (case action_val a of Endpoint t \<Rightarrow> t = endpoint_start \<or> t = endpoint_end | _ \<Rightarrow> True)"

text \<open>The reversal of one action, as a total function.\<close>

definition flip_action :: "ptp_action \<Rightarrow> ptp_action" where
  "flip_action a = a\<lparr>action_val := (case action_val a of
     Endpoint t \<Rightarrow> Endpoint (if t = endpoint_start then endpoint_end else endpoint_start)
   | Local_conn s d \<Rightarrow> Local_conn d s | Net_switch s d \<Rightarrow> Net_switch d s)\<rparr>"

lemma create_reverse_action_flip:
  assumes "wf_action a" and "known_endpoint a"
  shows "create_reverse_action a = Inr (flip_action a)"
  using assms(1)
proof (cases rule: wf_action_cases)
  case (1 t)
  with assms(2) show ?thesis
    by (auto simp: known_endpoint_def create_reverse_action_def create_reverse_endpoint_def flip_action_def)
qed (simp_all add: create_reverse_action_def action_defs flip_action_def)

lemma flip_action_wf:
  assumes "wf_action a" and "known_endpoint a"
  shows "wf_action (flip_action a) \<and> known_endpoint (flip_action a) \<and> flip_action (flip_action a) = a"
  using assms(1)
proof (cases rule: wf_action_cases)
  case (1 t)
  with assms(2) show ?thesis
    by (auto simp: known_endpoint_def flip_action_def wf_action.simps endpoint_defs)
qed (simp_all add: known_endpoint_def flip_action_def wf_action.simps)

lemma reverse_loop_map:
  assumes "\<forall>a \<in> set as. create_reverse_action a = Inr (f a)"
  shows "reverse_loop res as = Inr (res @ map f as)"
  using assms by (induction as arbitrary: res) simp_all

lemma create_reverse_actions_map:
  assumes "\<forall>a \<in> set as. create_reverse_action a = Inr (f a)"
  shows "create_reverse_actions as = Inr (map f (rev as))"
  using assms reverse_loop_map [of "rev as" f "[]"] by (simp add: create_reverse_actions_def)

section \<open>Properties\<close>

text \<open>Reversing a path is an involution: for every path of well-formed actions with known endpoint
  types, \<^verbatim>\<open>create_reverse_actions\<close> succeeds, keeps the number of actions, and applied to its own result
  gives the path back.\<close>

theorem create_reverse_actions_involution:
  assumes "list_all wf_action as" and "list_all known_endpoint as"
  shows "\<exists>bs. create_reverse_actions as = Inr bs \<and> length bs = length as \<and> create_reverse_actions bs = Inr as"
proof -
  have ok: "wf_action a \<and> known_endpoint a" if "a \<in> set as" for a
    using assms that by (auto simp: list_all_iff)
  have "create_reverse_actions as = Inr (map flip_action (rev as))"
    using ok create_reverse_action_flip by (intro create_reverse_actions_map) blast
  moreover have "create_reverse_actions (map flip_action (rev as)) = Inr (map flip_action (rev (map flip_action (rev as))))"
  proof (intro create_reverse_actions_map ballI)
    fix b assume "b \<in> set (map flip_action (rev as))"
    then show "create_reverse_action b = Inr (flip_action b)"
      using ok flip_action_wf create_reverse_action_flip by auto
  qed
  moreover have "map flip_action (rev (map flip_action (rev as))) = as"
    using ok flip_action_wf by (simp add: rev_map map_idI)
  ultimately show ?thesis by (intro exI [of _ "map flip_action (rev as)"]) simp
qed

theorem create_reverse_actions_involution_witness:
  "\<exists>bs. create_reverse_actions [\<lparr>action_type = 0, action_val = Endpoint 0\<rparr>,
       \<lparr>action_type = 1, action_val = Local_conn (Ptp_addr [1]) (Ptp_addr [2])\<rparr>] = Inr bs \<and> length bs = 2"
proof -
  let ?as = "[\<lparr>action_type = 0, action_val = Endpoint 0\<rparr>,
       \<lparr>action_type = 1, action_val = Local_conn (Ptp_addr [1]) (Ptp_addr [2])\<rparr>]"
  have "list_all wf_action ?as" "list_all known_endpoint ?as"
    by (simp_all add: wf_action.simps known_endpoint_def action_defs endpoint_defs)
  from create_reverse_actions_involution [OF this] show ?thesis by auto
qed

text \<open>C19: The PTP header codec round-trips: writing a header whose tags agree with their variants succeeds
  for fewer than 256 actions, reading it back, whatever follows, gives the header and its size, and every
  header that can be read is of this kind.\<close>

theorem ptp_header_roundtrip:
  assumes "wf_header h"
  shows "\<exists>bs. write_ptp_header h = Inr bs \<and> extract_ptp_header (bs @ p) = Inr (h, length bs)
    \<and> (\<forall>src g n. extract_ptp_header src = Inr (g, n) \<longrightarrow> wf_header g)"
  using ptp.wr_total [OF assms] ptp.ex_wr [OF assms] extract_ptp_header_wf by blast

theorem ptp_header_roundtrip_witness:
  "\<exists>bs. write_ptp_header \<lparr>actions = [\<lparr>action_type = 0, action_val = Endpoint 1\<rparr>], curr_action = 0, no_jumps = 3\<rparr> = Inr bs
    \<and> extract_ptp_header (bs @ [9]) = Inr (\<lparr>actions = [\<lparr>action_type = 0, action_val = Endpoint 1\<rparr>], curr_action = 0, no_jumps = 3\<rparr>, length bs)"
proof -
  let ?h = "\<lparr>actions = [\<lparr>action_type = 0, action_val = Endpoint 1\<rparr>], curr_action = 0, no_jumps = 3\<rparr> :: ptp_header"
  have "wf_header ?h" by (simp add: wf_header_def wf_action.simps action_defs)
  from ptp_header_roundtrip [OF this, of "[9]"] show ?thesis by blast
qed

end
