(* ===== verification/Ptp_Text.thy ===== *)
theory Ptp_Text
  imports Ptp_Header
begin

text \<open>
  The text form of PTP paths (\<^verbatim>\<open>ptp_action_to_str\<close>, \<^verbatim>\<open>str_to_ptp_action\<close> and the
  list versions in \<^verbatim>\<open>src/protocols/ptp/ptp_header.cpp\<close>, and the three action kinds below it), in
  which the command-line tools take a path.  The parsers return an option of an option: the outer one is
  termination (the network-identifier parser may not end), the inner one the C++ \<^verbatim>\<open>optional\<close>.
\<close>

definition ptp_endpoint_to_str :: "ptp_endpoint_t \<Rightarrow> string option" where
  "ptp_endpoint_to_str t =
     (if t = endpoint_start then Some ''start'' else if t = endpoint_end then Some ''end'' else None)"

definition str_to_ptp_endpoint :: "string \<Rightarrow> ptp_endpoint_t option" where
  "str_to_ptp_endpoint str =
     (if str = ''start'' then Some endpoint_start else if str = ''end'' then Some endpoint_end else None)"

definition ptp_local_conn_to_str :: "ptp_addr \<times> ptp_addr \<Rightarrow> string" where
  "ptp_local_conn_to_str c = ptp_addr_to_str (fst c) @ '' -> '' @ ptp_addr_to_str (snd c)"

definition str_to_ptp_local_conn :: "string \<Rightarrow> (ptp_addr \<times> ptp_addr) option option" where
  "str_to_ptp_local_conn str =
     (case split_str str '' -> '' of
        None \<Rightarrow> None
      | Some addrs \<Rightarrow>
          if length addrs \<noteq> 2 then Some None
          else (case str_to_ptp_addr (addrs ! 0) of
                  None \<Rightarrow> Some None
                | Some s \<Rightarrow> (case str_to_ptp_addr (addrs ! 1) of
                                None \<Rightarrow> Some None
                              | Some d \<Rightarrow> Some (Some (s, d)))))"

definition ptp_net_switch_to_str :: "ptp_net_id \<times> ptp_net_id \<Rightarrow> string" where
  "ptp_net_switch_to_str c = ptp_net_id_to_str (fst c) @ '' -> '' @ ptp_net_id_to_str (snd c)"

definition str_to_ptp_net_switch :: "string \<Rightarrow> (ptp_net_id \<times> ptp_net_id) option option" where
  "str_to_ptp_net_switch str =
     (case split_str str '' -> '' of
        None \<Rightarrow> None
      | Some addrs \<Rightarrow>
          if length addrs \<noteq> 2 then Some None
          else (case str_to_ptp_net_id (addrs ! 0) of
                  None \<Rightarrow> None
                | Some None \<Rightarrow> Some None
                | Some (Some s) \<Rightarrow> (case str_to_ptp_net_id (addrs ! 1) of
                                None \<Rightarrow> None
                              | Some None \<Rightarrow> Some None
                              | Some (Some d) \<Rightarrow> Some (Some (s, d)))))"

definition ptp_action_to_str :: "ptp_action \<Rightarrow> string option result" where
  "ptp_action_to_str action =
     (if action_type action = action_endpoint then
        bind_r (get_endpoint (action_val action)) (\<lambda>t.
          case ptp_endpoint_to_str t of None \<Rightarrow> Inr None | Some tmp \<Rightarrow> Inr (Some (''endpoint '' @ tmp)))
      else if action_type action = action_local_conn then
        bind_r (get_local_conn (action_val action)) (\<lambda>c. Inr (Some (''conn '' @ ptp_local_conn_to_str c)))
      else if action_type action = action_net_switch then
        bind_r (get_net_switch (action_val action)) (\<lambda>c. Inr (Some (''switch '' @ ptp_net_switch_to_str c)))
      else Inr None)"

text \<open>\<^verbatim>\<open>str.rfind(p, 0) != npos\<close>: the text starts with \<open>p\<close>.\<close>

definition starts_with :: "string \<Rightarrow> string \<Rightarrow> bool" where
  "starts_with p str = (take (length p) str = p)"

definition str_to_ptp_action :: "string \<Rightarrow> ptp_action option option" where
  "str_to_ptp_action str =
     (if starts_with ''endpoint '' str then
        (case str_to_ptp_endpoint (drop 9 str) of
           None \<Rightarrow> Some None
         | Some t \<Rightarrow> Some (Some \<lparr>action_type = action_endpoint, action_val = Endpoint t\<rparr>))
      else if starts_with ''conn '' str then
        (case str_to_ptp_local_conn (drop 5 str) of
           None \<Rightarrow> None
         | Some None \<Rightarrow> Some None
         | Some (Some (s, d)) \<Rightarrow> Some (Some \<lparr>action_type = action_local_conn, action_val = Local_conn s d\<rparr>))
      else if starts_with ''switch '' str then
        (case str_to_ptp_net_switch (drop 7 str) of
           None \<Rightarrow> None
         | Some None \<Rightarrow> Some None
         | Some (Some (s, d)) \<Rightarrow> Some (Some \<lparr>action_type = action_net_switch, action_val = Net_switch s d\<rparr>))
      else Some None)"

fun action_list_str_loop :: "string \<Rightarrow> nat \<Rightarrow> ptp_action_list \<Rightarrow> string option result" where
  "action_list_str_loop res i [] = Inr (Some res)"
| "action_list_str_loop res i (a # as) =
     bind_r (ptp_action_to_str a) (\<lambda>tmp.
       case tmp of None \<Rightarrow> Inr None
       | Some t \<Rightarrow> action_list_str_loop ((if i > 0 then res @ '' ; '' else res) @ t) (i + 1) as)"

definition ptp_action_list_to_str :: "ptp_action_list \<Rightarrow> string option result" where
  "ptp_action_list_to_str list = action_list_str_loop [] 0 list"

fun parse_actions :: "ptp_action_list \<Rightarrow> string list \<Rightarrow> ptp_action_list option option" where
  "parse_actions list [] = Some (Some list)"
| "parse_actions list (action_str # strs) =
     (case str_to_ptp_action action_str of
        None \<Rightarrow> None
      | Some None \<Rightarrow> Some None
      | Some (Some a) \<Rightarrow> parse_actions (list @ [a]) strs)"

definition str_to_ptp_action_list :: "string \<Rightarrow> ptp_action_list option option" where
  "str_to_ptp_action_list str =
     (case split_str str '' ; '' of None \<Rightarrow> None | Some strs \<Rightarrow> parse_actions [] strs)"

section \<open>Round trips\<close>

lemma to_hex_chars: "list_all is_hex (to_hex n)"
proof (induction n rule: to_hex.induct)
  case (1 n)
  then show ?case by (cases "n < 16") (simp_all add: to_hex.simps [of n])
qed

lemma vals_to_str_chars: "c \<in> set (vals_to_str vs) \<Longrightarrow> is_hex c \<or> c = CHR ''.''"
  by (induction vs rule: vals_to_str.induct) (use to_hex_chars in \<open>auto simp: list_all_iff\<close>)

lemma vals_to_str_avoids: "CHR ''-'' \<notin> set (vals_to_str vs)" "CHR '';'' \<notin> set (vals_to_str vs)"
  using vals_to_str_chars [of "CHR ''-''" vs] vals_to_str_chars [of "CHR '';''" vs]
  by (auto simp: is_hex_def is_digit_def)

text \<open>The actions that survive: known endpoints, and connections between addresses without small octets.\<close>

fun printable :: "ptp_action \<Rightarrow> bool" where
  "printable a = (wf_action a \<and> known_endpoint a \<and>
     (case action_val a of Endpoint t \<Rightarrow> True
      | Local_conn s d \<Rightarrow> big_octets (ptp_octets s) \<and> big_octets (ptp_octets d)
      | Net_switch s d \<Rightarrow> False))"

lemma str_to_ptp_local_conn_print:
  assumes "big_octets (ptp_octets s)" and "big_octets (ptp_octets d)"
  shows "str_to_ptp_local_conn (ptp_local_conn_to_str (s, d)) = Some (Some (s, d))"
proof -
  have "split_str (join_with '' -> '' [ptp_addr_to_str s, ptp_addr_to_str d]) '' -> ''
      = Some [ptp_addr_to_str s, ptp_addr_to_str d]"
    by (rule split_str_join) (auto simp: ptp_addr_to_str_def vals_to_str_avoids)
  then have "split_str (ptp_local_conn_to_str (s, d)) '' -> '' = Some [ptp_addr_to_str s, ptp_addr_to_str d]"
    by (simp add: ptp_local_conn_to_str_def)
  moreover have "str_to_ptp_addr (ptp_addr_to_str s) = Some s" "str_to_ptp_addr (ptp_addr_to_str d) = Some d"
    using assms by (cases s; cases d; simp add: str_to_ptp_addr_def ptp_addr_to_str_def str_to_vals_print)+
  ultimately show ?thesis by (simp add: str_to_ptp_local_conn_def)
qed

lemma ptp_action_text:
  assumes "printable a"
  shows "\<exists>str. ptp_action_to_str a = Inr (Some str) \<and> str_to_ptp_action str = Some (Some a) \<and> CHR '';'' \<notin> set str"
proof -
  from assms have wf: "wf_action a" by simp
  then show ?thesis
  proof (cases rule: wf_action_cases)
    case (1 t)
    with assms show ?thesis
      by (auto simp: known_endpoint_def ptp_action_to_str_def ptp_endpoint_to_str_def str_to_ptp_action_def
          str_to_ptp_endpoint_def starts_with_def endpoint_defs)
  next
    case (2 s d)
    let ?str = "ptp_local_conn_to_str (s, d)"
    have "str_to_ptp_local_conn ?str = Some (Some (s, d))"
      using assms 2 by (intro str_to_ptp_local_conn_print) simp_all
    moreover have "CHR '';'' \<notin> set ?str"
      by (simp add: ptp_local_conn_to_str_def ptp_addr_to_str_def vals_to_str_avoids)
    ultimately show ?thesis
      using 2 by (simp add: ptp_action_to_str_def str_to_ptp_action_def starts_with_def action_defs)
  next
    case (3 s d)
    with assms show ?thesis by simp
  qed
qed

lemma parse_actions_append:
  assumes "list_all2 (\<lambda>str a. str_to_ptp_action str = Some (Some a)) strs as"
  shows "parse_actions list strs = Some (Some (list @ as))"
  using assms by (induction strs as arbitrary: list rule: list_all2_induct) simp_all

lemma action_list_str_loop_join:
  assumes "list_all2 (\<lambda>str a. ptp_action_to_str a = Inr (Some str)) strs as"
  shows "action_list_str_loop res i as
    = Inr (Some (res @ (if as = [] then [] else (if i > 0 then '' ; '' else []) @ join_with '' ; '' strs)))"
  using assms
proof (induction strs as arbitrary: res i rule: list_all2_induct)
  case (Cons str strs a as)
  have "action_list_str_loop res i (a # as)
      = action_list_str_loop ((if i > 0 then res @ '' ; '' else res) @ str) (i + 1) as"
    using Cons.hyps by simp
  also have "\<dots> = Inr (Some (((if i > 0 then res @ '' ; '' else res) @ str)
      @ (if as = [] then [] else '' ; '' @ join_with '' ; '' strs)))"
    by (subst Cons.IH) simp
  finally show ?case using Cons.hyps by (cases strs; cases as) simp_all
qed simp

lemma ptp_action_list_print:
  assumes "list_all printable as" and "as \<noteq> []"
  shows "\<exists>str. ptp_action_list_to_str as = Inr (Some str) \<and> str_to_ptp_action_list str = Some (Some as)"
proof -
  have "\<exists>strs. list_all2 (\<lambda>str a. ptp_action_to_str a = Inr (Some str) \<and> str_to_ptp_action str = Some (Some a)
      \<and> CHR '';'' \<notin> set str) strs as"
    using assms(1) by (induction as) (auto simp: list_all2_Cons2 simp del: printable.simps dest!: ptp_action_text)
  then obtain strs where strs: "list_all2 (\<lambda>str a. ptp_action_to_str a = Inr (Some str)
      \<and> str_to_ptp_action str = Some (Some a) \<and> CHR '';'' \<notin> set str) strs as" ..
  then have print: "list_all2 (\<lambda>str a. ptp_action_to_str a = Inr (Some str)) strs as"
    and parse: "list_all2 (\<lambda>str a. str_to_ptp_action str = Some (Some a)) strs as"
    by (auto elim!: list_all2_mono)
  from strs have no: "\<forall>t \<in> set strs. CHR '';'' \<notin> set t"
    by (auto simp: list_all2_conv_all_nth in_set_conv_nth)
  have "strs \<noteq> []" using print assms(2) by auto
  then have "split_str (join_with '' ; '' strs) '' ; '' = Some strs"
    using no by (intro split_str_join) simp_all
  then show ?thesis
    using action_list_str_loop_join [OF print, of "[]" 0] parse_actions_append [OF parse, of "[]"] assms(2)
    by (simp add: ptp_action_list_to_str_def str_to_ptp_action_list_def)
qed

text \<open>A non-empty path of known endpoints and of local connections between addresses without small
  octets can be printed, and parsing what is printed gives the path back.\<close>

theorem ptp_action_list_text_roundtrip:
  assumes "list_all printable as" and "as \<noteq> []"
  shows "\<exists>str. ptp_action_list_to_str as = Inr (Some str) \<and> str_to_ptp_action_list str = Some (Some as)"
  using assms by (rule ptp_action_list_print)

theorem ptp_action_list_text_roundtrip_witness:
  "\<exists>str. ptp_action_list_to_str [\<lparr>action_type = 0, action_val = Endpoint 0\<rparr>,
      \<lparr>action_type = 1, action_val = Local_conn (Ptp_addr [0x11]) (Ptp_addr [0x12, 0xab])\<rparr>] = Inr (Some str)
    \<and> str_to_ptp_action_list str = Some (Some [\<lparr>action_type = 0, action_val = Endpoint 0\<rparr>,
      \<lparr>action_type = 1, action_val = Local_conn (Ptp_addr [0x11]) (Ptp_addr [0x12, 0xab])\<rparr>])"
proof -
  let ?as = "[\<lparr>action_type = 0, action_val = Endpoint 0\<rparr>,
      \<lparr>action_type = 1, action_val = Local_conn (Ptp_addr [0x11]) (Ptp_addr [0x12, 0xab])\<rparr>] :: ptp_action list"
  have "list_all printable ?as"
    by (simp add: wf_action.simps known_endpoint_def big_octets_def action_defs endpoint_defs)
  from ptp_action_list_text_roundtrip [OF this] show ?thesis by simp
qed

end
