(* ===== verification/Ptp.thy ===== *)
theory Ptp
  imports Ptp_Text
begin

text \<open>
  The PTP protocol (\<^verbatim>\<open>src/protocols/ptp/ptp_protocol.cpp\<close>, \<^verbatim>\<open>ptp_protocol.h\<close>):
  building and sending packets, sending through the routing table, the filters of \<^verbatim>\<open>connect_recv\<close>
  and \<^verbatim>\<open>connect_recv_with_original\<close>, the header of \<^verbatim>\<open>net_access_single\<close>, the reply
  path of the generator, and the \<^verbatim>\<open>node\<close>, which executes the actions of a packet that are its own.
  \<^verbatim>\<open>node::handle_packet\<close> calls itself with the action index incremented as a
  \<^verbatim>\<open>uint8_t\<close>, so on more than 255 actions it may not end; it is a partial function, and the lemmas show
  that it ends on every packet that can be received, and what it then does.
\<close>

section \<open>Sending\<close>

definition ptp_write_packet :: "ptp_header \<Rightarrow> bytes \<Rightarrow> bytes result" where
  "ptp_write_packet header data =
     bind_r (write_ptp_header header) (\<lambda>hb. fixed_frame 0x10000 hb data)"

definition ptp_send :: "'s option \<Rightarrow> ptp_header \<Rightarrow> bytes \<Rightarrow> ('s \<times> bytes) list result" where
  "ptp_send ptp_send_surface header data = send_frame ptp_send_surface (ptp_write_packet header data)"

text \<open>\<^verbatim>\<open>my_send\<close> of \<^verbatim>\<open>create_send_access_from_routing_table\<close>: \<open>False\<close> is
  \<^verbatim>\<open>err_t::ERR\<close>.\<close>

definition ptp_route_send_data :: "'r ptp_routing_table \<Rightarrow> bytes \<Rightarrow> (bool \<times> ('r \<times> bytes) list) result" where
  "ptp_route_send_data t data =
     bind_r (extract_ptp_header data) (\<lambda>(header, _).
     bind_r (get_curr_action header) (\<lambda>action.
       if action_type action \<noteq> action_local_conn then Inr (False, [])
       else bind_r (get_local_conn (action_val action)) (\<lambda>(_, dst).
         bind_r (ptp_find_route t dst) (\<lambda>route.
           case route of None \<Rightarrow> Inr (False, []) | Some r \<Rightarrow> Inr (True, [(r, data)])))))"

text \<open>\<^verbatim>\<open>my_send\<close> of \<^verbatim>\<open>net_access_single\<close>: the first action is skipped before sending.\<close>

definition ptp_single_header :: "ptp_action_list \<Rightarrow> ptp_header" where
  "ptp_single_header list = \<lparr>actions = list, curr_action = 0 + 1, no_jumps = 0 + 1\<rparr>"

section \<open>Receiving\<close>

definition ptp_recv :: "(ptp_header \<Rightarrow> bool result) \<Rightarrow> bytes \<Rightarrow> (ptp_header \<times> bytes) option result" where
  "ptp_recv cond data =
     bind_r (extract_ptp_header data) (\<lambda>(header, header_sz).
     bind_r (cond header) (\<lambda>matched.
       if \<not> matched then Inr None else Inr (Some (header, drop header_sz data))))"

definition ptp_recv_with_original ::
  "(ptp_header \<Rightarrow> bool result) \<Rightarrow> bytes \<Rightarrow> (bytes \<times> ptp_header \<times> bytes) option result" where
  "ptp_recv_with_original cond data =
     bind_r (extract_ptp_header data) (\<lambda>(header, header_sz).
     bind_r (cond header) (\<lambda>matched.
       if \<not> matched then Inr None else Inr (Some (data, header, drop header_sz data))))"

text \<open>\<^verbatim>\<open>my_net_access_generator_listener::handle_recv\<close>: the path of the access it creates for a
  received packet.\<close>

definition ptp_reply_path :: "ptp_header \<Rightarrow> ptp_action_list result" where
  "ptp_reply_path header = create_reverse_actions (actions header)"

section \<open>The node\<close>

record 'l ptp_node =
  my_addr :: ptp_addr
  recv_endpoint_end :: "'l option"

partial_function (option) handle_packet ::
  "'l ptp_node \<Rightarrow> ptp_header \<Rightarrow> bytes \<Rightarrow> ('l \<times> bytes) list result option" where
  "handle_packet node header data =
     (case get_curr_action header of
        Inl e \<Rightarrow> Some (Inl e)
      | Inr action \<Rightarrow>
          if action_type action = action_endpoint then
            (case get_endpoint (action_val action) of
               Inl e \<Rightarrow> Some (Inl e)
             | Inr t \<Rightarrow>
                 if t = endpoint_start then
                   handle_packet node (header\<lparr>curr_action := curr_action header + 1\<rparr>) data
                 else if t = endpoint_end then
                   (case recv_endpoint_end node of
                      None \<Rightarrow> Some (Inr [])
                    | Some l \<Rightarrow> Some (bind_r (ptp_write_packet header data) (\<lambda>buff. Inr [(l, buff)])))
                 else Some (Inr []))
          else if action_type action = action_local_conn then
            (case get_local_conn (action_val action) of
               Inl e \<Rightarrow> Some (Inl e)
             | Inr (_, dst) \<Rightarrow>
                 if ptp_addr_eq dst (my_addr node) then
                   handle_packet node (header\<lparr>curr_action := curr_action header + 1\<rparr>) data
                 else Some (Inr []))
          else if action_type action = action_net_switch then
            (case get_net_switch (action_val action) of Inl e \<Rightarrow> Some (Inl e) | Inr _ \<Rightarrow> Some (Inr []))
          else Some (Inr []))"

text \<open>\<^verbatim>\<open>node\<close>'s listener, connected by \<^verbatim>\<open>connect_recv_with_original\<close> under a condition
  that is always true.\<close>

definition node_handle_recv :: "'l ptp_node \<Rightarrow> bytes \<Rightarrow> ('l \<times> bytes) list result option" where
  "node_handle_recv node data =
     (case ptp_recv_with_original (\<lambda>_. Inr True) data of
        Inl e \<Rightarrow> Some (Inl e)
      | Inr None \<Rightarrow> Some (Inr [])
      | Inr (Some (_, header, encap)) \<Rightarrow>
          handle_packet node (header\<lparr>no_jumps := no_jumps header + 1\<rparr>) encap)"

section \<open>What a node does with a packet\<close>

text \<open>An action a node passes over: a starting endpoint, or a connection that ends at the node.\<close>

fun own_action :: "ptp_addr \<Rightarrow> ptp_action \<Rightarrow> bool" where
  "own_action addr a = (case action_val a of
     Endpoint t \<Rightarrow> t = endpoint_start | Local_conn s d \<Rightarrow> d = addr | Net_switch s d \<Rightarrow> False)"

declare own_action.simps [simp del]

definition is_end :: "ptp_action \<Rightarrow> bool" where
  "is_end a = (action_val a = Endpoint endpoint_end)"

text \<open>The specification: pass over the node's own actions; deliver at an end of the path, stop at any other
  action, throw when the path runs out.\<close>

definition node_spec :: "'l ptp_node \<Rightarrow> ptp_header \<Rightarrow> bytes \<Rightarrow> ('l \<times> bytes) list result" where
  "node_spec node h data =
     (let rest = drop (unat (curr_action h)) (actions h);
          skipped = length (takeWhile (own_action (my_addr node)) rest)
      in case drop skipped rest of
           [] \<Rightarrow> Inl Thrown
         | a # _ \<Rightarrow>
             if is_end a then
               (case recv_endpoint_end node of
                  None \<Rightarrow> Inr []
                | Some l \<Rightarrow>
                    bind_r (ptp_write_packet (h\<lparr>curr_action := curr_action h + word_of_nat skipped\<rparr>) data)
                      (\<lambda>buff. Inr [(l, buff)]))
             else Inr [])"

lemma unat_Suc_u8: "unat (c :: u8) < 255 \<Longrightarrow> unat (c + 1) = Suc (unat c)"
  by (simp add: unat_word_ariths)

lemma node_spec_step:
  assumes "unat (curr_action h) < length (actions h)" and "length (actions h) < 256"
    and "own_action (my_addr node) (actions h ! unat (curr_action h))"
  shows "node_spec node (h\<lparr>curr_action := curr_action h + 1\<rparr>) data = node_spec node h data"
proof -
  let ?c = "unat (curr_action h)"
  have c: "unat (curr_action h + 1) = Suc ?c" using assms by (intro unat_Suc_u8) linarith
  have d: "drop ?c (actions h) = actions h ! ?c # drop (Suc ?c) (actions h)"
    using assms(1) by (rule Cons_nth_drop_Suc [symmetric])
  let ?h' = "h\<lparr>curr_action := curr_action h + 1\<rparr>"
  have r: "drop (unat (curr_action ?h')) (actions ?h') = drop (Suc ?c) (actions h)" by (simp add: c)
  show ?thesis
    unfolding node_spec_def Let_def r d using assms(3) by (simp add: add.assoc split: list.split option.split)
qed

lemma handle_packet_spec:
  assumes "wf_header h"
  shows "handle_packet node h data = Some (node_spec node h data)"
  using assms
proof (induction "length (actions h) - unat (curr_action h)" arbitrary: h rule: less_induct)
  case less
  let ?c = "unat (curr_action h)" and ?h' = "h\<lparr>curr_action := curr_action h + 1\<rparr>"
  from less.prems have len: "length (actions h) < 256" and wf: "list_all wf_action (actions h)"
    by (simp_all add: wf_header_def)
  show ?case
  proof (cases "?c < length (actions h)")
    case False
    then have "drop ?c (actions h) = []" by simp
    with False show ?thesis
      by (simp add: handle_packet.simps [of node h] get_curr_action_def node_spec_def)
  next
    case True
    let ?a = "actions h ! ?c"
    have d: "drop ?c (actions h) = ?a # drop (Suc ?c) (actions h)"
      using True by (rule Cons_nth_drop_Suc [symmetric])
    have cur: "get_curr_action h = Inr ?a" using True by (simp add: get_curr_action_def)
    have c: "unat (curr_action h + 1) = Suc ?c" using True len by (intro unat_Suc_u8) linarith
    have IH: "handle_packet node ?h' data = Some (node_spec node ?h' data)"
      using less.prems True c by (intro less.hyps) (simp_all add: wf_header_def)
    have step: "own_action (my_addr node) ?a \<Longrightarrow> node_spec node ?h' data = node_spec node h data"
      by (rule node_spec_step [OF True len])
    have "wf_action ?a" using wf True by (auto simp: list_all_length)
    then show ?thesis
    proof (cases rule: wf_action_cases)
      case (1 t)
      then show ?thesis using IH step d cur
        by (auto simp: handle_packet.simps [of node h] own_action.simps node_spec_def is_end_def
            endpoint_defs Let_def split: option.splits)
    next
      case (2 s dst)
      then show ?thesis using IH step d cur
        by (auto simp: handle_packet.simps [of node h] own_action.simps node_spec_def is_end_def
            action_defs Let_def)
    next
      case (3 s dst)
      then show ?thesis using d cur
        by (simp add: handle_packet.simps [of node h] own_action.simps node_spec_def is_end_def action_defs)
    qed
  qed
qed

lemma node_handle_recv_spec:
  "node_handle_recv node data = Some
     (case extract_ptp_header data of
        Inl e \<Rightarrow> Inl e
      | Inr (h, n) \<Rightarrow> node_spec node (h\<lparr>no_jumps := no_jumps h + 1\<rparr>) (drop n data))"
proof (cases "extract_ptp_header data")
  case (Inr hn)
  then obtain h n where h: "extract_ptp_header data = Inr (h, n)" by (cases hn) auto
  then have "wf_header (h\<lparr>no_jumps := no_jumps h + 1\<rparr>)"
    using extract_ptp_header_wf [OF h] by (simp add: wf_header_def)
  with h show ?thesis by (simp add: node_handle_recv_def ptp_recv_with_original_def handle_packet_spec)
qed (simp add: node_handle_recv_def ptp_recv_with_original_def)

section \<open>Properties\<close>

text \<open>C3: On every byte string a node can receive, its handler returns: it faults exactly when the header
  cannot be read, and otherwise passes over the actions that are its own, delivers the packet with the index
  of the end it found when it finds one, drops it at any other action, and throws when the path runs out.\<close>

theorem ptp_node_correct:
  "node_handle_recv node data = Some
     (case extract_ptp_header data of
        Inl e \<Rightarrow> Inl e
      | Inr (h, n) \<Rightarrow> node_spec node (h\<lparr>no_jumps := no_jumps h + 1\<rparr>) (drop n data))"
  by (rule node_handle_recv_spec)

text \<open>The path between two nodes of one network.\<close>

definition direct_path :: "ptp_addr \<Rightarrow> ptp_addr \<Rightarrow> ptp_action_list" where
  "direct_path a b = [\<lparr>action_type = action_endpoint, action_val = Endpoint endpoint_start\<rparr>,
     \<lparr>action_type = action_local_conn, action_val = Local_conn a b\<rparr>,
     \<lparr>action_type = action_endpoint, action_val = Endpoint endpoint_end\<rparr>]"

definition direct_size :: "ptp_addr \<Rightarrow> ptp_addr \<Rightarrow> nat" where
  "direct_size a b = 8 + length (write_ptp_addr a) + length (write_ptp_addr b)"

lemma direct_path_wf: "wf_header \<lparr>actions = direct_path a b, curr_action = c, no_jumps = j\<rparr>"
  by (simp add: wf_header_def direct_path_def wf_action.simps)

lemma direct_path_written:
  "\<exists>hb. write_ptp_header \<lparr>actions = direct_path a b, curr_action = c, no_jumps = j\<rparr> = Inr hb \<and> length hb = direct_size a b"
  by (simp add: write_ptp_header_def direct_path_def write_ptp_action_def write_ptp_endpoint_def
      write_ptp_local_conn_def write_ptp_addr_def direct_size_def action_defs)

lemma direct_packet:
  assumes "direct_size a b + length d \<le> 65536"
  shows "\<exists>f. ptp_write_packet \<lparr>actions = direct_path a b, curr_action = c, no_jumps = j\<rparr> d = Inr f
    \<and> extract_ptp_header f = Inr (\<lparr>actions = direct_path a b, curr_action = c, no_jumps = j\<rparr>, direct_size a b)
    \<and> drop (direct_size a b) f = d"
proof -
  let ?h = "\<lparr>actions = direct_path a b, curr_action = c, no_jumps = j\<rparr>"
  obtain hb where hb: "write_ptp_header ?h = Inr hb" "length hb = direct_size a b"
    using direct_path_written [of a b c j] by blast
  have "extract_ptp_header (hb @ d) = Inr (?h, direct_size a b)"
    using ptp.ex_wr [OF direct_path_wf hb(1)] hb(2) by simp
  with hb assms show ?thesis by (simp add: ptp_write_packet_def fixed_frame_eq)
qed

lemma path_delivers:
  assumes "direct_size a b + length d \<le> 65536"
  shows "\<exists>frame packet header.
      ptp_send (Some s) (ptp_single_header (direct_path a b)) d = Inr [(s, frame)]
    \<and> node_handle_recv \<lparr>my_addr = b, recv_endpoint_end = Some l\<rparr> frame = Some (Inr [(l, packet)])
    \<and> (x \<noteq> b \<longrightarrow> node_handle_recv \<lparr>my_addr = x, recv_endpoint_end = Some l\<rparr> frame = Some (Inr []))
    \<and> ptp_recv ptp_is_endpoint_end packet = Inr (Some (header, d))
    \<and> ptp_reply_path header = Inr (direct_path b a)"
proof -
  let ?h = "\<lambda>c j. \<lparr>actions = direct_path a b, curr_action = c, no_jumps = j\<rparr>"
  obtain f where f: "ptp_write_packet (?h 1 1) d = Inr f" "extract_ptp_header f = Inr (?h 1 1, direct_size a b)"
    "drop (direct_size a b) f = d" using direct_packet [OF assms, of 1 1] by blast
  obtain g where g: "ptp_write_packet (?h 2 2) d = Inr g" "extract_ptp_header g = Inr (?h 2 2, direct_size a b)"
    "drop (direct_size a b) g = d" using direct_packet [OF assms, of 2 2] by blast
  have sent: "ptp_send (Some s) (ptp_single_header (direct_path a b)) d = Inr [(s, f)]"
    using f(1) by (simp add: ptp_send_def ptp_single_header_def)
  have node: "node_handle_recv nd f = Some (node_spec nd (?h 1 2) d)" for nd :: "'b ptp_node"
    using f direct_path_wf [of a b 1 2]
    by (simp add: node_handle_recv_def ptp_recv_with_original_def handle_packet_spec)
  have "node_spec \<lparr>my_addr = b, recv_endpoint_end = Some l\<rparr> (?h 1 2) d = Inr [(l, g)]"
    using g(1) by (simp add: node_spec_def direct_path_def own_action.simps is_end_def endpoint_defs)
  moreover have "node_spec \<lparr>my_addr = x, recv_endpoint_end = Some l\<rparr> (?h 1 2) d = Inr []" if "x \<noteq> b"
    using that by (simp add: node_spec_def direct_path_def own_action.simps is_end_def)
  moreover have "ptp_recv ptp_is_endpoint_end g = Inr (Some (?h 2 2, d))"
    using g by (simp add: ptp_recv_def ptp_is_endpoint_end_def get_curr_action_def direct_path_def)
  moreover have "ptp_reply_path (?h 2 2) = Inr (direct_path b a)"
    by (simp add: ptp_reply_path_def create_reverse_actions_def direct_path_def create_reverse_action_def
        create_reverse_endpoint_def action_defs endpoint_defs)
  ultimately show ?thesis
    using sent node by (intro exI [of _ f] exI [of _ g] exI [of _ "?h 2 2"]) simp
qed

text \<open>Any path from a start to an end over connections and network switches.\<close>

definition is_hop :: "ptp_action \<Rightarrow> bool" where
  "is_hop a \<longleftrightarrow> wf_action a \<and> (case action_val a of Endpoint t \<Rightarrow> False | _ \<Rightarrow> True)"

definition path_over :: "ptp_action_list \<Rightarrow> ptp_action_list" where
  "path_over hops = \<lparr>action_type = action_endpoint, action_val = Endpoint endpoint_start\<rparr>
     # hops @ [\<lparr>action_type = action_endpoint, action_val = Endpoint endpoint_end\<rparr>]"

definition hop :: "ptp_addr \<Rightarrow> ptp_addr \<Rightarrow> ptp_action" where
  "hop a b = \<lparr>action_type = action_local_conn, action_val = Local_conn a b\<rparr>"

lemma hop_simps: "is_hop (hop a b)" "own_action x (hop a b) = (b = x)" "flip_action (hop a b) = hop b a" "direct_path a b = path_over [hop a b]"
  by (simp_all add: is_hop_def hop_def wf_action.simps own_action.simps flip_action_def direct_path_def path_over_def)

lemma path_over_wf:
  "list_all is_hop hops \<Longrightarrow> length hops < 254 \<Longrightarrow> wf_header \<lparr>actions = path_over hops, curr_action = c, no_jumps = j\<rparr>"
  by (auto simp: wf_header_def path_over_def wf_action.simps is_hop_def list_all_iff)

lemma write_ptp_header_length:
  "write_ptp_header \<lparr>actions = as, curr_action = c, no_jumps = j\<rparr> = Inr hb \<Longrightarrow>
     \<exists>hb'. write_ptp_header \<lparr>actions = as, curr_action = c', no_jumps = j'\<rparr> = Inr hb' \<and> length hb' = length hb"
  by (auto simp: write_ptp_header_def bind_r_eq_Inr split: if_splits)

lemma path_packet:
  assumes "list_all is_hop hops" "length hops < 254" and "write_ptp_header (ptp_single_header (path_over hops)) = Inr hb"
    and "length hb + length d \<le> 65536"
  shows "\<exists>f. ptp_write_packet \<lparr>actions = path_over hops, curr_action = c, no_jumps = j\<rparr> d = Inr f
    \<and> extract_ptp_header f = Inr (\<lparr>actions = path_over hops, curr_action = c, no_jumps = j\<rparr>, length hb) \<and> drop (length hb) f = d"
proof -
  let ?h = "\<lparr>actions = path_over hops, curr_action = c, no_jumps = j\<rparr>"
  obtain hb' where hb: "write_ptp_header ?h = Inr hb'" "length hb' = length hb"
    using write_ptp_header_length assms(3) unfolding ptp_single_header_def by blast
  have "extract_ptp_header (hb' @ d) = Inr (?h, length hb)"
    using ptp.ex_wr [OF path_over_wf [OF assms(1,2)] hb(1)] hb(2) by simp
  with hb assms(4) show ?thesis by (simp add: ptp_write_packet_def fixed_frame_eq)
qed

lemma node_spec_path:
  assumes "list_all is_hop hops" "length hops < 254"
  shows "node_spec node \<lparr>actions = path_over hops, curr_action = 1, no_jumps = j\<rparr> d
    = (if list_all (own_action (my_addr node)) hops
       then (case recv_endpoint_end node of None \<Rightarrow> Inr []
         | Some l \<Rightarrow> bind_r (ptp_write_packet \<lparr>actions = path_over hops, curr_action = word_of_nat (Suc (length hops)), no_jumps = j\<rparr> d)
             (\<lambda>buff. Inr [(l, buff)]))
       else Inr [])"
proof (cases "list_all (own_action (my_addr node)) hops")
  case True
  then have "takeWhile (own_action (my_addr node)) (hops @ [\<lparr>action_type = action_endpoint, action_val = Endpoint endpoint_end\<rparr>]) = hops"
    by (simp add: takeWhile_append list_all_iff own_action.simps endpoint_defs)
  with True show ?thesis by (simp add: node_spec_def path_over_def is_end_def Let_def split: option.split)
next
  case False
  let ?q = "own_action (my_addr node)"
  have "\<exists>a as. dropWhile ?q hops = a # as \<and> a \<in> set hops"
    using False by (metis dropWhile_eq_Nil_conv list.set_intros(1) list_all_iff neq_Nil_conv set_dropWhileD)
  then obtain a as where a: "dropWhile ?q hops = a # as" "a \<in> set hops" by blast
  have "takeWhile ?q (hops @ es) = takeWhile ?q hops" for es
    using False by (auto simp: list_all_iff intro: takeWhile_append1)
  moreover have "drop (length (takeWhile ?q hops)) (hops @ es) = a # as @ es" for es
    using a(1) length_takeWhile_le [of ?q hops] by (simp add: dropWhile_eq_drop)
  moreover have "\<not> is_end a" using assms(1) a(2) by (auto simp: list_all_iff is_hop_def is_end_def)
  ultimately show ?thesis using False by (simp add: node_spec_def path_over_def)
qed

lemma path_over_reversed:
  assumes "list_all is_hop hops"
  shows "create_reverse_actions (path_over hops) = Inr (path_over (map flip_action (rev hops)))"
proof -
  have "create_reverse_action a = Inr (flip_action a)" if "a \<in> set (path_over hops)" for a
    using that assms by (intro create_reverse_action_flip)
      (auto simp: path_over_def wf_action.simps known_endpoint_def is_hop_def list_all_iff split: ptp_val.splits)
  then have "create_reverse_actions (path_over hops) = Inr (map flip_action (rev (path_over hops)))"
    by (intro create_reverse_actions_map) blast
  then show ?thesis by (simp add: path_over_def flip_action_def endpoint_defs)
qed

text \<open>C1: Sending along any path of up to 253 connections and network switches between a start and an end, when header
  and data fit the packet buffer: a node takes the packet exactly when all the connections of the path are local ones
  that end at it, and then hands to its endpoint listener a packet that the endpoint filter accepts with exactly this
  data, and for which the generator computes the reversed path; any other node drops it, so a packet that would have to
  be passed on by a node, over a connection of another node or over a switch, is delivered nowhere.\<close>

theorem ptp_end_to_end:
  assumes "list_all is_hop hops" "length hops < 254"
    and "write_ptp_header (ptp_single_header (path_over hops)) = Inr hb" and "length hb + length d \<le> 65536"
  shows "\<exists>frame packet header. ptp_send (Some s) (ptp_single_header (path_over hops)) d = Inr [(s, frame)]
    \<and> (\<forall>x l. node_handle_recv \<lparr>my_addr = x, recv_endpoint_end = Some l\<rparr> frame
          = Some (Inr (if list_all (own_action x) hops then [(l, packet)] else [])))
    \<and> ptp_recv ptp_is_endpoint_end packet = Inr (Some (header, d))
    \<and> ptp_reply_path header = Inr (path_over (map flip_action (rev hops)))"
proof -
  let ?h = "\<lambda>c j. \<lparr>actions = path_over hops, curr_action = c, no_jumps = j\<rparr>" and ?n = "word_of_nat (Suc (length hops)) :: u8"
  obtain f where f: "ptp_write_packet (?h 1 1) d = Inr f" "extract_ptp_header f = Inr (?h 1 1, length hb)" "drop (length hb) f = d"
    using path_packet [OF assms, of 1 1] by blast
  obtain g where g: "ptp_write_packet (?h ?n 2) d = Inr g" "extract_ptp_header g = Inr (?h ?n 2, length hb)" "drop (length hb) g = d"
    using path_packet [OF assms, of ?n 2] by blast
  have n: "unat ?n = Suc (length hops)" using assms(2) by (simp add: unsigned_of_nat take_bit_nat_eq_self del: of_nat_Suc)
  have sent: "ptp_send (Some s) (ptp_single_header (path_over hops)) d = Inr [(s, f)]"
    using f(1) by (simp add: ptp_send_def ptp_single_header_def)
  have node: "node_handle_recv nd f = Some (node_spec nd (?h 1 2) d)" for nd
    using f by (simp add: node_handle_recv_spec)
  have recv: "ptp_recv ptp_is_endpoint_end g = Inr (Some (?h ?n 2, d))"
    using g n by (simp add: ptp_recv_def ptp_is_endpoint_end_def get_curr_action_def path_over_def nth_append del: of_nat_Suc)
  have reply: "ptp_reply_path (?h ?n 2) = Inr (path_over (map flip_action (rev hops)))"
    using path_over_reversed [OF assms(1)] by (simp add: ptp_reply_path_def)
  have handled: "\<forall>x l. node_handle_recv \<lparr>my_addr = x, recv_endpoint_end = Some l\<rparr> f
      = Some (Inr (if list_all (own_action x) hops then [(l, g)] else []))"
    by (simp add: node node_spec_path [OF assms(1,2)] g(1) del: of_nat_Suc)
  show ?thesis using sent handled recv reply by blast
qed

text \<open>One hop, and a hop after it.\<close>

theorem ptp_end_to_end_witness:
  "(\<exists>frame packet header.
      ptp_send (Some ()) (ptp_single_header (path_over [hop (Ptp_addr [1]) (Ptp_addr [2])])) [7] = Inr [((), frame)]
    \<and> node_handle_recv \<lparr>my_addr = Ptp_addr [2], recv_endpoint_end = Some ()\<rparr> frame = Some (Inr [((), packet)])
    \<and> node_handle_recv \<lparr>my_addr = Ptp_addr [3], recv_endpoint_end = Some ()\<rparr> frame = Some (Inr [])
    \<and> ptp_recv ptp_is_endpoint_end packet = Inr (Some (header, [7]))
    \<and> ptp_reply_path header = Inr (path_over [hop (Ptp_addr [2]) (Ptp_addr [1])]))
   \<and> (\<exists>frame. ptp_send (Some ()) (ptp_single_header (path_over [hop (Ptp_addr [1]) (Ptp_addr [2]), hop (Ptp_addr [2]) (Ptp_addr [3])])) [7] = Inr [((), frame)]
    \<and> (\<forall>x. node_handle_recv \<lparr>my_addr = x, recv_endpoint_end = Some ()\<rparr> frame = Some (Inr [])))"
proof -
  let ?p = "[hop (Ptp_addr [1]) (Ptp_addr [2])]" and ?q = "[hop (Ptp_addr [1]) (Ptp_addr [2]), hop (Ptp_addr [2]) (Ptp_addr [3])]"
  have hops: "list_all is_hop ?p" "length ?p < 254" "list_all is_hop ?q" "length ?q < 254" by (simp_all add: hop_simps)
  have "write_ptp_header (ptp_single_header (path_over ?p)) = Inr [3, 0,0, 1, 1,0,1, 2,0,1, 0,1, 1, 1]"
    by code_simp
  then obtain frame packet header where p: "ptp_send (Some ()) (ptp_single_header (path_over ?p)) [7] = Inr [((), frame)]"
    "\<forall>x l. node_handle_recv \<lparr>my_addr = x, recv_endpoint_end = Some (l :: unit)\<rparr> frame = Some (Inr (if list_all (own_action x) ?p then [(l, packet)] else []))"
    "ptp_recv ptp_is_endpoint_end packet = Inr (Some (header, [7]))"
    "ptp_reply_path header = Inr (path_over (map flip_action (rev ?p)))"
    using ptp_end_to_end [OF hops(1,2), of _ "[7]" "()"] by fastforce
  have at: "list_all (own_action x) ?p \<longleftrightarrow> x = Ptp_addr [2]" for x by (auto simp: hop_simps)
  have "node_handle_recv \<lparr>my_addr = Ptp_addr [2], recv_endpoint_end = Some ()\<rparr> frame = Some (Inr [((), packet)])"
    "node_handle_recv \<lparr>my_addr = Ptp_addr [3], recv_endpoint_end = Some ()\<rparr> frame = Some (Inr [])"
    using p(2) [THEN spec, THEN spec, of "Ptp_addr [2]" "()"] p(2) [THEN spec, THEN spec, of "Ptp_addr [3]" "()"]
    unfolding at by simp_all
  with p(1,3,4) have one: "\<exists>frame packet header.
      ptp_send (Some ()) (ptp_single_header (path_over ?p)) [7] = Inr [((), frame)]
    \<and> node_handle_recv \<lparr>my_addr = Ptp_addr [2], recv_endpoint_end = Some ()\<rparr> frame = Some (Inr [((), packet)])
    \<and> node_handle_recv \<lparr>my_addr = Ptp_addr [3], recv_endpoint_end = Some ()\<rparr> frame = Some (Inr [])
    \<and> ptp_recv ptp_is_endpoint_end packet = Inr (Some (header, [7]))
    \<and> ptp_reply_path header = Inr (path_over [hop (Ptp_addr [2]) (Ptp_addr [1])])"
    by (auto simp: hop_simps)
  have "write_ptp_header (ptp_single_header (path_over ?q)) = Inr [4, 0,0, 1, 1,0,1, 2,0,1, 1, 2,0,1, 3,0,1, 0,1, 1, 1]" by code_simp
  from ptp_end_to_end [OF hops(3,4) this, of "[7]" "()"] obtain frame packet where
    q: "ptp_send (Some ()) (ptp_single_header (path_over ?q)) [7] = Inr [((), frame)]"
    "\<forall>x l. node_handle_recv \<lparr>my_addr = x, recv_endpoint_end = Some (l :: unit)\<rparr> frame = Some (Inr (if list_all (own_action x) ?q then [(l, packet)] else []))"
    by fastforce
  have none: "list_all (own_action x) ?q = False" for x by (auto simp: hop_simps)
  have two: "\<exists>frame. ptp_send (Some ()) (ptp_single_header (path_over ?q)) [7] = Inr [((), frame)]
    \<and> (\<forall>x. node_handle_recv \<lparr>my_addr = x, recv_endpoint_end = Some ()\<rparr> frame = Some (Inr []))"
    using q unfolding none if_False by blast
  show ?thesis using one two by (rule conjI)
qed

end
