(* ===== verification/Dns_Name.thy ===== *)
theory Dns_Name
  imports Prelude
begin

text \<open>
  Domain names (\<^verbatim>\<open>encode_dns_name\<close>, \<^verbatim>\<open>decode_dns_name\<close> and
  \<^verbatim>\<open>extract_encoded_name\<close> of \<^verbatim>\<open>src/protocols/dns/dns.cpp\<close>).  A name in normal form is a byte
  vector of dot-separated labels with a trailing null byte.  Reading an encoded name from a packet follows
  compression jumps to any offset and may never end; the reader is a partial function, on the packet and a
  position in it.  The lemmas show that encoding, extracting and decoding a well-formed name gives it
  back, and that a pointer to itself makes the reader loop for ever.
\<close>

section \<open>Encoding and decoding\<close>

definition DOT :: u8 where "DOT = 0x2E"

text \<open>The loop of \<^verbatim>\<open>encode_dns_name\<close>: \<open>label\<close> is the window \<^verbatim>\<open>data[last..curr)\<close>, the
  list is what \<^verbatim>\<open>curr\<close> points at.  The window is emitted at a dot and at the last byte, whatever that is.\<close>

fun encode_loop :: "bytes \<Rightarrow> bytes \<Rightarrow> bytes" where
  "encode_loop label [] = []"
| "encode_loop label (b # p) =
     (if b = DOT \<or> p = [] then (word_of_nat (length label) # label) @ encode_loop [] p
      else encode_loop (label @ [b]) p)"

definition encode_dns_name :: "bytes \<Rightarrow> bytes" where
  "encode_dns_name data = encode_loop [] data @ [0]"

function decode_loop :: "bytes \<Rightarrow> bytes \<Rightarrow> bytes result" where
  "decode_loop res [] = Inr res"
| "decode_loop res (len # p) =
     (if len = 0 then Inr (res @ [0])
      else let res' = (if res \<noteq> [] then res @ [DOT] else res)
           in if length p < unat len then Inl Overread
              else decode_loop (res' @ take (unat len) p) (drop (unat len) p))"
  by pat_completeness auto
termination by (relation "measure (\<lambda>(_, p). length p)") auto

definition decode_dns_name :: "bytes \<Rightarrow> bytes result" where
  "decode_dns_name name = decode_loop [] name"

section \<open>Extracting from a packet\<close>

definition JUMP_MASK :: u8 where "JUMP_MASK = 0xC0"

partial_function (option) extract_name_loop ::
  "bytes \<Rightarrow> nat \<Rightarrow> bool \<Rightarrow> nat \<Rightarrow> bytes \<Rightarrow> (bytes \<times> nat) result option" where
  "extract_name_loop pkt pos jumped cnt dest =
     (if \<not> pos < length pkt then Some (Inl Overread)
      else if pkt ! pos = 0 then Some (Inr (dest @ [0], if jumped then cnt + 2 else cnt + 1))
      else if pkt ! pos AND JUMP_MASK = JUMP_MASK then
        (if \<not> pos + 1 < length pkt then Some (Inl Overread)
         else extract_name_loop pkt (unat (pkt ! pos XOR JUMP_MASK) * 256 + unat (pkt ! (pos + 1))) True cnt dest)
      else extract_name_loop pkt (pos + 1) jumped (if jumped then cnt else cnt + 1) (dest @ [pkt ! pos]))"

text \<open>The bytes of the encoded name and the number of bytes it takes in place.\<close>

definition extract_encoded_name :: "bytes \<Rightarrow> nat \<Rightarrow> (bytes \<times> nat) result option" where
  "extract_encoded_name pkt pos = extract_name_loop pkt pos False 0 []"

text \<open>Extraction followed by decoding, as every reader of a name does.\<close>

definition extract_name :: "bytes \<Rightarrow> nat \<Rightarrow> (bytes \<times> nat) result option" where
  "extract_name pkt pos =
     bind_ro (extract_encoded_name pkt pos) (\<lambda>(enc, cnt).
     bind_ro (Some (decode_dns_name enc)) (\<lambda>name. Some (Inr (name, cnt))))"

section \<open>Well-formed names\<close>

fun dot_join :: "bytes list \<Rightarrow> bytes" where
  "dot_join [] = []"
| "dot_join [l] = l"
| "dot_join (l # ls) = l @ DOT # dot_join ls"

definition label_ok :: "bytes \<Rightarrow> bool" where
  "label_ok l \<longleftrightarrow> l \<noteq> [] \<and> length l < 64 \<and> (\<forall>b \<in> set l. b \<noteq> 0 \<and> b \<noteq> DOT \<and> b < 0xC0)"

definition name_ok :: "bytes \<Rightarrow> bool" where
  "name_ok n \<longleftrightarrow> (\<exists>ls. ls \<noteq> [] \<and> list_all label_ok ls \<and> n = dot_join ls @ [0])"

definition counted :: "bytes \<Rightarrow> bytes" where
  "counted l = word_of_nat (length l) # l"

lemma encode_loop_label:
  assumes "DOT \<notin> set l" and "b = DOT \<or> p = []"
  shows "encode_loop pre (l @ b # p) = (word_of_nat (length (pre @ l)) # pre @ l) @ encode_loop [] p"
  using assms(1)
proof (induction l arbitrary: pre)
  case (Cons c l)
  from Cons.IH [of "pre @ [c]"] Cons.prems show ?case by auto
qed (use assms(2) in auto)

lemma label_ok_no_dot: "label_ok l \<Longrightarrow> DOT \<notin> set l"
  by (auto simp: label_ok_def)

lemma encode_loop_join:
  assumes "list_all label_ok ls" and "ls \<noteq> []"
  shows "encode_loop [] (dot_join ls @ [0]) = concat (map counted ls)"
  using assms
proof (induction ls rule: dot_join.induct)
  case (2 l)
  then show ?case
    using encode_loop_label [of l 0 "[]" "[]"] by (simp add: counted_def label_ok_no_dot)
next
  case (3 l l' ls)
  then show ?case
    using encode_loop_label [of l DOT "dot_join (l' # ls) @ [0]" "[]"] by (simp add: counted_def label_ok_no_dot)
qed simp

lemma encode_name:
  "list_all label_ok ls \<Longrightarrow> ls \<noteq> [] \<Longrightarrow> encode_dns_name (dot_join ls @ [0]) = concat (map counted ls) @ [0]"
  by (simp add: encode_dns_name_def encode_loop_join)

lemma unat_small_u8: "n < 256 \<Longrightarrow> unat (word_of_nat n :: u8) = n"
  by (simp add: unsigned_of_nat take_bit_nat_eq_self)

lemma dot_join_snoc: "ls \<noteq> [] \<Longrightarrow> dot_join (ls @ [l]) = dot_join ls @ DOT # l"
  by (induction ls rule: dot_join.induct) auto

lemma dot_join_nonempty: "list_all label_ok ls \<Longrightarrow> ls \<noteq> [] \<Longrightarrow> dot_join ls \<noteq> []"
  by (induction ls rule: dot_join.induct) (auto simp: label_ok_def)

lemma label_len_word: "label_ok l \<Longrightarrow> word_of_nat (length l) \<noteq> (0 :: u8)"
proof
  assume l: "label_ok l" "word_of_nat (length l) = (0 :: u8)"
  then have "unat (word_of_nat (length l) :: u8) = 0" by simp
  with l(1) show False by (simp add: label_ok_def unat_small_u8)
qed

lemma decode_loop_counted:
  assumes "list_all label_ok (done @ ls)" and "done @ ls \<noteq> []"
  shows "decode_loop (dot_join done) (concat (map counted ls) @ [0]) = Inr (dot_join (done @ ls) @ [0])"
  using assms
proof (induction ls arbitrary: "done")
  case (Cons l ls)
  have l: "label_ok l" using Cons.prems by simp
  then have len: "unat (word_of_nat (length l) :: u8) = length l" by (simp add: label_ok_def unat_small_u8)
  have j: "(if dot_join done \<noteq> [] then dot_join done @ [DOT] else dot_join done) @ l = dot_join (done @ [l])"
  proof (cases "done = []")
    case False
    then show ?thesis using Cons.prems dot_join_nonempty [of "done"] by (simp add: dot_join_snoc)
  qed simp
  have "decode_loop (dot_join done) (concat (map counted (l # ls)) @ [0])
      = decode_loop (dot_join (done @ [l])) (concat (map counted ls) @ [0])"
    using label_len_word [OF l] by (simp add: counted_def len Let_def flip: j)
  with Cons.IH [of "done @ [l]"] Cons.prems show ?case by simp
qed simp

lemma decode_name:
  "list_all label_ok ls \<Longrightarrow> ls \<noteq> [] \<Longrightarrow> decode_dns_name (concat (map counted ls) @ [0]) = Inr (dot_join ls @ [0])"
  using decode_loop_counted [of "[]" ls] by (simp add: decode_dns_name_def)

text \<open>Reading bytes that are neither null nor jumps.\<close>

definition plain_byte :: "u8 \<Rightarrow> bool" where
  "plain_byte b \<longleftrightarrow> b \<noteq> 0 \<and> b < 0xC0"

lemma plain_byte_no_jump: "plain_byte b \<Longrightarrow> b AND JUMP_MASK \<noteq> JUMP_MASK"
proof
  assume b: "plain_byte b" and j: "b AND JUMP_MASK = JUMP_MASK"
  have "b AND JUMP_MASK \<le> b" by (rule word_and_le2)
  with b j show False by (auto simp: plain_byte_def JUMP_MASK_def)
qed

lemma extract_name_loop_plain:
  assumes "\<forall>b \<in> set bs. plain_byte b"
  shows "extract_name_loop (pre @ bs @ 0 # post) (length pre) False cnt dest
    = Some (Inr (dest @ bs @ [0], cnt + length bs + 1))"
  using assms
proof (induction bs arbitrary: pre cnt dest)
  case Nil
  then show ?case by (simp add: extract_name_loop.simps)
next
  case (Cons b bs)
  have "extract_name_loop (pre @ (b # bs) @ 0 # post) (length pre) False cnt dest
      = extract_name_loop ((pre @ [b]) @ bs @ 0 # post) (length (pre @ [b])) False (cnt + 1) (dest @ [b])"
    using Cons.prems plain_byte_no_jump [of b]
    by (subst extract_name_loop.simps) (simp add: nth_append plain_byte_def)
  with Cons.IH [of "pre @ [b]" "cnt + 1" "dest @ [b]"] Cons.prems show ?case by simp
qed

lemma counted_plain: "label_ok l \<Longrightarrow> b \<in> set (counted l) \<Longrightarrow> plain_byte b"
proof -
  assume l: "label_ok l" and b: "b \<in> set (counted l)"
  have "word_of_nat (length l) < (0xC0 :: u8)"
    using l by (simp add: word_less_nat_alt label_ok_def unat_small_u8)
  with l b label_len_word [OF l] show ?thesis
    by (auto simp: counted_def plain_byte_def label_ok_def)
qed

lemma extract_name_encoded:
  assumes "name_ok n"
  shows "extract_name (pre @ encode_dns_name n @ post) (length pre) = Some (Inr (n, length (encode_dns_name n)))"
proof -
  from assms obtain ls where ls: "ls \<noteq> []" "list_all label_ok ls" "n = dot_join ls @ [0]"
    by (auto simp: name_ok_def)
  let ?bs = "concat (map counted ls)"
  have "\<forall>b \<in> set ?bs. plain_byte b" using ls(2) counted_plain by (auto simp: list_all_iff)
  from extract_name_loop_plain [OF this, of pre post 0 "[]"] ls show ?thesis
    by (simp add: extract_name_def extract_encoded_name_def encode_name decode_name)
qed

section \<open>Properties\<close>

text \<open>C11: A domain name of non-empty labels of up to 63 bytes round-trips through a packet: encoded at any
  place and read back there, it gives the name and the size of its encoding, and no jump is needed.\<close>

theorem dns_name_roundtrip:
  assumes "name_ok n"
  shows "extract_name (pre @ encode_dns_name n @ post) (length pre) = Some (Inr (n, length (encode_dns_name n)))"
  using assms by (rule extract_name_encoded)

theorem dns_name_roundtrip_witness:
  "name_ok [0x61, 0x2E, 0x62, 0] \<and>
   extract_name ([9] @ encode_dns_name [0x61, 0x2E, 0x62, 0] @ [7]) 1 = Some (Inr ([0x61, 0x2E, 0x62, 0], 5))"
proof -
  have ok: "name_ok [0x61, 0x2E, 0x62, 0]"
    unfolding name_ok_def by (rule exI [of _ "[[0x61], [0x62]]"]) (simp add: label_ok_def DOT_def)
  have "length (encode_dns_name [0x61, 0x2E, 0x62, 0]) = 5" by (simp add: encode_dns_name_def DOT_def)
  with ok dns_name_roundtrip [OF ok, of "[9]" "[7]"] show ?thesis by simp
qed

text \<open>A name in a packet that consists of a compression pointer to its own position, as
  \<open>C0 0C\<close> at offset 12, is followed for ever.\<close>

theorem dns_name_self_pointer_loops:
  "extract_name (replicate 12 0 @ [0xC0, 0x0C]) 12 = None"
proof -
  let ?pkt = "replicate 12 0 @ [0xC0, 0x0C] :: bytes"
  have "False" if "extract_name_loop ?pkt 12 j c d = Some r" for j c d r
  proof -
    have "p = ?pkt \<and> pos = 12 \<longrightarrow> False" if "extract_name_loop p pos j c d = Some r" for p pos j c d r
    proof (rule extract_name_loop.raw_induct [where P = "\<lambda>p pos j c d r. p = ?pkt \<and> pos = 12 \<longrightarrow> False", OF _ that])
      fix loop :: "bytes \<Rightarrow> nat \<Rightarrow> bool \<Rightarrow> nat \<Rightarrow> bytes \<Rightarrow> (bytes \<times> nat) result option"
        and pkt pos jumped cnt dest r
      assume IH: "\<And>p pos j c d r. loop p pos j c d = Some r \<Longrightarrow> p = ?pkt \<and> pos = 12 \<longrightarrow> False"
        and "(if \<not> pos < length pkt then Some (Inl Overread)
          else if pkt ! pos = 0 then Some (Inr (dest @ [0], if jumped then cnt + 2 else cnt + 1))
          else if pkt ! pos AND JUMP_MASK = JUMP_MASK then
            (if \<not> pos + 1 < length pkt then Some (Inl Overread)
             else loop pkt (unat (pkt ! pos XOR JUMP_MASK) * 256 + unat (pkt ! (pos + 1))) True cnt dest)
          else loop pkt (pos + 1) jumped (if jumped then cnt else cnt + 1) (dest @ [pkt ! pos])) = Some r"
      then show "pkt = ?pkt \<and> pos = 12 \<longrightarrow> False"
        by (auto simp: JUMP_MASK_def nth_append dest: IH)
    qed
    with that show False by blast
  qed
  then have "extract_encoded_name ?pkt 12 = None"
    unfolding extract_encoded_name_def by (metis not_Some_eq)
  then show ?thesis by (simp add: extract_name_def)
qed

end
