(* ===== verification/Dns.thy ===== *)
theory Dns
  imports Dns_Name
begin

text \<open>
  DNS messages (\<^verbatim>\<open>src/protocols/dns/dns.cpp\<close>, \<^verbatim>\<open>dns.h\<close>): record types and classes,
  header, queries, resource records, MX and SOA data, whole messages, sending and the receiver of
  \<^verbatim>\<open>connect_recv\<close>.  The reserved bit \<^verbatim>\<open>z\<close> is neither written nor read and is left out.  Two
  terms of the flag bytes are written with a shift in the place of an \<^verbatim>\<open>or\<close>, and the 32-bit
  \<^verbatim>\<open>ttl\<close> goes through the 16-bit \<^verbatim>\<open>htons\<close>; the model has both as the code has them.  The
  lemmas show on which messages reading inverts writing.
\<close>

section \<open>Record types and classes\<close>

type_synonym dns_type = u16
type_synonym dns_class = u16

definition type_a :: dns_type where "type_a = 1"
definition type_ns :: dns_type where "type_ns = 2"
definition type_cname :: dns_type where "type_cname = 5"
definition type_soa :: dns_type where "type_soa = 6"
definition type_ptr :: dns_type where "type_ptr = 12"
definition type_mx :: dns_type where "type_mx = 15"
definition class_in :: dns_class where "class_in = 1"
definition class_ch :: dns_class where "class_ch = 3"

lemmas dns_type_defs = type_a_def type_ns_def type_cname_def type_soa_def type_ptr_def type_mx_def
lemmas dns_class_defs = class_in_def class_ch_def

definition dns_record_type_to_str :: "dns_type \<Rightarrow> string option" where
  "dns_record_type_to_str t =
     (if t = type_a then Some ''a'' else if t = type_mx then Some ''mx'' else if t = type_ptr then Some ''ptr''
      else if t = type_cname then Some ''cname'' else if t = type_ns then Some ''ns''
      else if t = type_soa then Some ''soa'' else None)"

definition str_to_dns_record_type :: "string \<Rightarrow> dns_type option" where
  "str_to_dns_record_type str =
     (if str = ''a'' then Some type_a else if str = ''mx'' then Some type_mx else if str = ''ptr'' then Some type_ptr
      else if str = ''cname'' then Some type_cname else if str = ''ns'' then Some type_ns
      else if str = ''soa'' then Some type_soa else None)"

definition dns_record_class_to_str :: "dns_class \<Rightarrow> string option" where
  "dns_record_class_to_str c = (if c = class_in then Some ''in'' else if c = class_ch then Some ''ch'' else None)"

definition str_to_dns_record_class :: "string \<Rightarrow> dns_class option" where
  "str_to_dns_record_class str = (if str = ''in'' then Some class_in else if str = ''ch'' then Some class_ch else None)"

lemma dns_names:
  "dns_record_type_to_str t = Some s \<longleftrightarrow> str_to_dns_record_type s = Some t"
  "dns_record_class_to_str c = Some s \<longleftrightarrow> str_to_dns_record_class s = Some c"
  by (auto simp: dns_record_type_to_str_def str_to_dns_record_type_def dns_record_class_to_str_def
      str_to_dns_record_class_def dns_type_defs dns_class_defs)

section \<open>Header\<close>

record dns_header =
  dns_id :: u16
  rd :: "1 word"
  tc :: "1 word"
  aa :: "1 word"
  opcode :: "4 word"
  qr :: "1 word"
  rcode :: "4 word"
  cd :: "1 word"
  ad :: "1 word"
  ra :: "1 word"
  query_count :: u16
  ans_count :: u16
  auth_count :: u16
  add_count :: u16

definition sizeof_dns_header :: nat where "sizeof_dns_header = 12"

text \<open>\<^verbatim>\<open>x << n\<close> in \<^verbatim>\<open>int\<close>: undefined for a count of 32 or more.\<close>

definition shl_int :: "u32 \<Rightarrow> nat \<Rightarrow> u32 result" where
  "shl_int x n = (if n < 32 then Inr (push_bit n x) else Inl Undefined)"

text \<open>The third term of each flag byte is \<^verbatim>\<open>(aa << 2) << (opcode << 3)\<close> and
  \<^verbatim>\<open>(ad << 5) << (ra << 7)\<close>, where the sum of the two flags was meant.\<close>

definition write_dns_header :: "dns_header \<Rightarrow> bytes result" where
  "write_dns_header source =
     bind_r (shl_int (push_bit 2 (ucast (aa source))) (unat (opcode source) * 8)) (\<lambda>t1.
     bind_r (shl_int (push_bit 5 (ucast (ad source))) (unat (ra source) * 128)) (\<lambda>t2.
     Inr (store16 (htons (dns_id source))
       @ [ucast (ucast (rd source) OR push_bit 1 (ucast (tc source)) OR t1 OR push_bit 7 (ucast (qr source))),
          ucast (ucast (rcode source) OR push_bit 4 (ucast (cd source)) OR t2)]
       @ store16 (htons (query_count source)) @ store16 (htons (ans_count source))
       @ store16 (htons (auth_count source)) @ store16 (htons (add_count source)))))"

text \<open>\<^verbatim>\<open>(b & (0b1 << k)) >> k\<close> and \<^verbatim>\<open>(b & (0b1111 << k)) >> k\<close>, stored in a bit field.\<close>

definition flag :: "nat \<Rightarrow> u8 \<Rightarrow> 1 word" where
  "flag k b = ucast (drop_bit k (b AND push_bit k 1))"

definition nibble :: "nat \<Rightarrow> u8 \<Rightarrow> 4 word" where
  "nibble k b = ucast (drop_bit k (b AND push_bit k 0xF))"

definition extract_dns_header :: "bytes \<Rightarrow> (dns_header \<times> nat) result" where
  "extract_dns_header src =
     bind_r (load16 src) (\<lambda>(i, p1).
     bind_r (load8 p1) (\<lambda>(f, p2).
     bind_r (load8 p2) (\<lambda>(g, p3).
     bind_r (load16 p3) (\<lambda>(q, p4).
     bind_r (load16 p4) (\<lambda>(an, p5).
     bind_r (load16 p5) (\<lambda>(au, p6).
     bind_r (load16 p6) (\<lambda>(ad', _).
     Inr (\<lparr>dns_id = ntohs i,
           rd = flag 0 f, tc = flag 1 f, aa = flag 2 f, opcode = nibble 3 f, qr = flag 7 f,
           rcode = nibble 0 g, cd = flag 4 g, ad = flag 5 g, ra = flag 7 g,
           query_count = ntohs q, ans_count = ntohs an, auth_count = ntohs au, add_count = ntohs ad'\<rparr>,
          sizeof_dns_header))))))))"

section \<open>Queries\<close>

record dns_query =
  q_name :: bytes
  q_type :: dns_type
  q_class :: dns_class

text \<open>The bytes of the string and the null byte that ends it.\<close>

definition make_dns_query :: "bytes \<Rightarrow> dns_type \<Rightarrow> dns_class \<Rightarrow> dns_query" where
  "make_dns_query name t c = \<lparr>q_name = name @ [0], q_type = t, q_class = c\<rparr>"

definition write_dns_query :: "dns_query \<Rightarrow> bytes" where
  "write_dns_query source =
     encode_dns_name (q_name source) @ store16 (htons (q_type source)) @ store16 (htons (q_class source))"

text \<open>Loads at a position of the packet, in the monad with termination.\<close>

definition get16 :: "bytes \<Rightarrow> nat \<Rightarrow> u16 result option" where
  "get16 pkt pos = Some (bind_r (load16 (drop pos pkt)) (\<lambda>(w, _). Inr w))"

definition get32 :: "bytes \<Rightarrow> nat \<Rightarrow> u32 result option" where
  "get32 pkt pos = Some (bind_r (load32 (drop pos pkt)) (\<lambda>(w, _). Inr w))"

definition get_bytes :: "nat \<Rightarrow> bytes \<Rightarrow> nat \<Rightarrow> bytes result option" where
  "get_bytes n pkt pos = Some (bind_r (load_bytes n (drop pos pkt)) (\<lambda>(w, _). Inr w))"

definition extract_dns_query :: "bytes \<Rightarrow> nat \<Rightarrow> (dns_query \<times> nat) result option" where
  "extract_dns_query pkt pos =
     bind_ro (extract_name pkt pos) (\<lambda>(name, cnt).
     bind_ro (get16 pkt (pos + cnt)) (\<lambda>t.
     bind_ro (get16 pkt (pos + (cnt + 2))) (\<lambda>c.
     Some (Inr (\<lparr>q_name = name, q_type = ntohs t, q_class = ntohs c\<rparr>, cnt + 2 + 2)))))"

section \<open>Resource records\<close>

record dns_answer =
  ans_name :: bytes
  ans_type :: dns_type
  ans_class :: dns_class
  ans_ttl :: u32
  data_len :: u16
  rdata :: bytes

text \<open>\<^verbatim>\<open>htons\<close> of a 32-bit value keeps its low half; the product is widened again when stored.\<close>

definition htons32 :: "u32 \<Rightarrow> u32" where
  "htons32 w = ucast (htons (ucast w))"

definition write_dns_answer :: "dns_answer \<Rightarrow> bytes result" where
  "write_dns_answer source =
     bind_r (load_bytes (unat (data_len source)) (rdata source)) (\<lambda>(d, _).
     Inr (encode_dns_name (ans_name source) @ store16 (htons (ans_type source)) @ store16 (htons (ans_class source))
       @ store32 (htons32 (ans_ttl source)) @ store16 (htons (data_len source)) @ d))"

definition extract_dns_answer :: "bytes \<Rightarrow> nat \<Rightarrow> (dns_answer \<times> nat) result option" where
  "extract_dns_answer pkt pos =
     bind_ro (extract_name pkt pos) (\<lambda>(name, cnt).
     bind_ro (get16 pkt (pos + cnt)) (\<lambda>t.
     bind_ro (get16 pkt (pos + (cnt + 2))) (\<lambda>c.
     bind_ro (get32 pkt (pos + (cnt + 4))) (\<lambda>tt.
     bind_ro (get16 pkt (pos + (cnt + 8))) (\<lambda>dl.
     bind_ro (get_bytes (unat (ntohs dl)) pkt (pos + (cnt + 10))) (\<lambda>d.
     Some (Inr (\<lparr>ans_name = name, ans_type = ntohs t, ans_class = ntohs c, ans_ttl = htons32 tt,
                 data_len = ntohs dl, rdata = d\<rparr>, cnt + 10 + unat (ntohs dl)))))))))"

section \<open>MX and SOA data\<close>

record mx_rdata =
  preference :: u16
  domain :: bytes

definition convert_to_rdata_mx :: "mx_rdata \<Rightarrow> bytes" where
  "convert_to_rdata_mx source = store16 (htons (preference source)) @ encode_dns_name (domain source)"

definition extract_mx_rdata :: "bytes \<Rightarrow> nat \<Rightarrow> (mx_rdata \<times> nat) result option" where
  "extract_mx_rdata pkt pos =
     bind_ro (get16 pkt pos) (\<lambda>pr.
     bind_ro (extract_name pkt (pos + 2)) (\<lambda>(name, cnt).
     Some (Inr (\<lparr>preference = ntohs pr, domain = name\<rparr>, 2 + cnt))))"

record soa_rdata =
  primary_server :: bytes
  admin_mail_server :: bytes
  serial_num :: u32
  refresh_interval :: u32
  retry_interval :: u32
  expire_limit :: u32
  max_ttl :: u32

text \<open>\<^verbatim>\<open>convert_to_rdata\<close> for a start of authority copies ranges of bytes between local variables: a
  range that begins in one variable and ends in another is undefined.\<close>

datatype soa_local = Local_serial_num | Local_refresh_interval | Local_retry_interval | Local_expire_limit | Local_max_ttl

definition local_range :: "soa_local \<Rightarrow> soa_local \<Rightarrow> u32 \<Rightarrow> bytes result" where
  "local_range from_var to_var w = (if from_var = to_var then Inr (store32 w) else Inl Undefined)"

definition convert_to_rdata_soa :: "soa_rdata \<Rightarrow> bytes result" where
  "convert_to_rdata_soa source =
     (let res = encode_dns_name (primary_server source) @ encode_dns_name (admin_mail_server source) in
      bind_r (local_range Local_serial_num Local_serial_num (htonl (serial_num source))) (\<lambda>tmp.
      let res = res @ tmp in
      bind_r (local_range Local_refresh_interval Local_serial_num (htonl (refresh_interval source))) (\<lambda>tmp.
      let res = res @ tmp in
      bind_r (local_range Local_retry_interval Local_serial_num (htonl (retry_interval source))) (\<lambda>tmp.
      let res = res @ tmp in
      bind_r (local_range Local_expire_limit Local_serial_num (htonl (expire_limit source))) (\<lambda>tmp.
      let res = res @ tmp in
      bind_r (local_range Local_max_ttl Local_serial_num (htonl (max_ttl source))) (\<lambda>tmp. Inr (res @ tmp)))))))"

definition extract_soa_rdata :: "bytes \<Rightarrow> nat \<Rightarrow> (soa_rdata \<times> nat) result option" where
  "extract_soa_rdata pkt pos =
     bind_ro (extract_name pkt pos) (\<lambda>(ps, n).
     bind_ro (extract_name pkt (pos + n)) (\<lambda>(ms, m).
     bind_ro (get32 pkt (pos + (n + m))) (\<lambda>s.
     bind_ro (get32 pkt (pos + (n + m + 4))) (\<lambda>rf.
     bind_ro (get32 pkt (pos + (n + m + 8))) (\<lambda>rt.
     bind_ro (get32 pkt (pos + (n + m + 12))) (\<lambda>ex.
     bind_ro (get32 pkt (pos + (n + m + 16))) (\<lambda>mt.
     Some (Inr (\<lparr>primary_server = ps, admin_mail_server = ms, serial_num = htons32 s,
       refresh_interval = htons32 rf, retry_interval = htons32 rt, expire_limit = htons32 ex,
       max_ttl = htons32 mt\<rparr>, n + m + 20)))))))))"

section \<open>Messages\<close>

record dns_message =
  msg_header :: dns_header
  queries :: "dns_query list"
  ans :: "dns_answer list"
  ans_auth :: "dns_answer list"
  ans_addit :: "dns_answer list"

fun write_answers :: "dns_answer list \<Rightarrow> bytes result" where
  "write_answers [] = Inr []"
| "write_answers (a # as) = bind_r (write_dns_answer a) (\<lambda>b. bind_r (write_answers as) (\<lambda>bs. Inr (b @ bs)))"

definition write_section :: "u16 \<Rightarrow> dns_answer list \<Rightarrow> bytes result" where
  "write_section cnt as = (if unat cnt \<noteq> length as then Inl Thrown else write_answers as)"

definition write_dns_message :: "dns_message \<Rightarrow> bytes result" where
  "write_dns_message src =
     bind_r (write_dns_header (msg_header src)) (\<lambda>h.
     bind_r (if unat (query_count (msg_header src)) \<noteq> length (queries src) then Inl Thrown
             else Inr (concat (map write_dns_query (queries src)))) (\<lambda>q.
     bind_r (write_section (ans_count (msg_header src)) (ans src)) (\<lambda>a1.
     bind_r (write_section (auth_count (msg_header src)) (ans_auth src)) (\<lambda>a2.
     bind_r (write_section (add_count (msg_header src)) (ans_addit src)) (\<lambda>a3.
     Inr (h @ q @ a1 @ a2 @ a3))))))"

text \<open>The loops that read \<open>k\<close> items one after the other.\<close>

fun extract_items ::
  "(bytes \<Rightarrow> nat \<Rightarrow> ('a \<times> nat) result option) \<Rightarrow> nat \<Rightarrow> bytes \<Rightarrow> nat \<Rightarrow> ('a list \<times> nat) result option" where
  "extract_items item 0 pkt pos = Some (Inr ([], pos))"
| "extract_items item (Suc k) pkt pos =
     bind_ro (item pkt pos) (\<lambda>(x, n).
     bind_ro (extract_items item k pkt (pos + n)) (\<lambda>(xs, pos').
     Some (Inr (x # xs, pos'))))"

definition extract_dns_message :: "bytes \<Rightarrow> (dns_message \<times> nat) result option" where
  "extract_dns_message pkt =
     bind_ro (Some (extract_dns_header pkt)) (\<lambda>(h, p0).
     bind_ro (extract_items extract_dns_query (unat (query_count h)) pkt p0) (\<lambda>(qs, p1).
     bind_ro (extract_items extract_dns_answer (unat (ans_count h)) pkt p1) (\<lambda>(a1, p2).
     bind_ro (extract_items extract_dns_answer (unat (auth_count h)) pkt p2) (\<lambda>(a2, p3).
     bind_ro (extract_items extract_dns_answer (unat (add_count h)) pkt p3) (\<lambda>(a3, p4).
     Some (Inr (\<lparr>msg_header = h, queries = qs, ans = a1, ans_auth = a2, ans_addit = a3\<rparr>, p4)))))))"

definition dns_send :: "'s option \<Rightarrow> dns_message \<Rightarrow> ('s \<times> bytes) list result" where
  "dns_send net_access msg =
     bind_r (write_dns_message msg) (\<lambda>bs.
     bind_r (store_at 0 bs (replicate 0x10000 0)) (\<lambda>buff.
       case net_access of None \<Rightarrow> Inl Null_deref | Some s \<Rightarrow> Inr [(s, take (length bs) buff)]))"

definition dns_recv :: "bytes \<Rightarrow> dns_message result option" where
  "dns_recv data = bind_ro (extract_dns_message data) (\<lambda>(msg, _). Some (Inr msg))"

section \<open>The header codec\<close>

lemma flag_bit:
  assumes "k < 8"
  shows "flag k b = of_bool (bit b k)"
proof -
  have "bit (flag k b) 0 \<longleftrightarrow> bit b k"
    unfolding flag_def bit_ucast_iff bit_drop_bit_eq o_apply bit_and_iff bit_push_bit_iff
    using assms by (auto simp: bit_0)
  then show ?thesis by (intro bit_word_eqI) (auto simp: bit_0)
qed

lemma nibble_bit: "k + n < 8 \<Longrightarrow> n < 4 \<Longrightarrow> bit (nibble k b) n \<longleftrightarrow> bit b (k + n)"
proof -
  have m: "(0xF :: u8) = mask 4" by (simp add: mask_eq_exp_minus_1)
  show "k + n < 8 \<Longrightarrow> n < 4 \<Longrightarrow> ?thesis" unfolding nibble_def m by (simp add: bit_simps)
qed

lemma bit1_word: "of_bool (bit (w :: 1 word) 0) = w"
  by (rule bit_word_eqI) (auto simp: bit_simps bit_0)

definition header_ok :: "dns_header \<Rightarrow> bool" where
  "header_ok h \<longleftrightarrow> opcode h = 0 \<and> ra h = 0"

definition flags1 :: "dns_header \<Rightarrow> u8" where
  "flags1 h = ucast (ucast (rd h) OR push_bit 1 (ucast (tc h)) OR push_bit 2 (ucast (aa h)) OR push_bit 7 (ucast (qr h)) :: u32)"

definition flags2 :: "dns_header \<Rightarrow> u8" where
  "flags2 h = ucast (ucast (rcode h) OR push_bit 4 (ucast (cd h)) OR push_bit 5 (ucast (ad h)) :: u32)"

definition header_bytes :: "dns_header \<Rightarrow> bytes" where
  "header_bytes h = store16 (htons (dns_id h)) @ [flags1 h, flags2 h] @ store16 (htons (query_count h))
     @ store16 (htons (ans_count h)) @ store16 (htons (auth_count h)) @ store16 (htons (add_count h))"

lemma bit_w1: "bit (w :: 1 word) n \<longleftrightarrow> n = 0 \<and> bit w 0"
  by (metis bit_imp_le_length len_num1 less_one)

lemma flags1_fields:
  "flag 0 (flags1 h) = rd h" "flag 1 (flags1 h) = tc h" "flag 2 (flags1 h) = aa h"
  "flag 7 (flags1 h) = qr h" "nibble 3 (flags1 h) = 0"
proof -
  have b: "bit (flags1 h) n \<longleftrightarrow> n = 0 \<and> bit (rd h) 0 \<or> n = 1 \<and> bit (tc h) 0 \<or> n = 2 \<and> bit (aa h) 0 \<or> n = 7 \<and> bit (qr h) 0" for n
    unfolding flags1_def bit_ucast_iff bit_or_iff bit_push_bit_iff
      bit_w1 [of "rd h" n] bit_w1 [of "tc h" "n - 1"] bit_w1 [of "aa h" "n - 2"] bit_w1 [of "qr h" "n - 7"]
    by auto
  show "flag 0 (flags1 h) = rd h" "flag 1 (flags1 h) = tc h" "flag 2 (flags1 h) = aa h" "flag 7 (flags1 h) = qr h"
    by (simp_all add: flag_bit b bit1_word)
  show "nibble 3 (flags1 h) = 0"
    by (rule bit_word_eqI) (simp add: nibble_bit b)
qed

lemma flags2_fields:
  "nibble 0 (flags2 h) = rcode h" "flag 4 (flags2 h) = cd h" "flag 5 (flags2 h) = ad h" "flag 7 (flags2 h) = 0"
proof -
  have r: "bit (rcode h) n \<Longrightarrow> n < 4" for n using bit_imp_le_length [of "rcode h" n] by simp
  have b: "bit (flags2 h) n \<longleftrightarrow> n < 4 \<and> bit (rcode h) n \<or> n = 4 \<and> bit (cd h) 0 \<or> n = 5 \<and> bit (ad h) 0" for n
    unfolding flags2_def bit_ucast_iff bit_or_iff bit_push_bit_iff bit_w1 [of "cd h" "n - 4"] bit_w1 [of "ad h" "n - 5"]
    by (auto dest: r)
  show "flag 4 (flags2 h) = cd h" "flag 5 (flags2 h) = ad h" "flag 7 (flags2 h) = 0"
    by (simp_all add: flag_bit b bit1_word)
  show "nibble 0 (flags2 h) = rcode h"
    by (rule bit_word_eqI) (simp add: nibble_bit b)
qed

lemma write_header_ok: "header_ok h \<Longrightarrow> write_dns_header h = Inr (header_bytes h)"
  by (simp add: header_ok_def write_dns_header_def shl_int_def header_bytes_def flags1_def flags2_def)

lemma extract_header_bytes: "header_ok h \<Longrightarrow> extract_dns_header (header_bytes h @ p) = Inr (h, sizeof_dns_header)"
  by (simp add: header_ok_def extract_dns_header_def header_bytes_def flags1_fields [unfolded One_nat_def] flags2_fields)

interpretation dns_header: wire_codec write_dns_header extract_dns_header header_ok
  by unfold_locales (auto simp: write_header_ok extract_header_bytes, simp add: header_bytes_def sizeof_dns_header_def)

section \<open>Queries and records\<close>

lemma get16_shift: "get16 (xs @ ys) (length xs + n) = get16 ys n"
  by (simp add: get16_def)

lemma get32_shift: "get32 (xs @ ys) (length xs + n) = get32 ys n"
  by (simp add: get32_def)

lemma get_bytes_shift: "get_bytes k (xs @ ys) (length xs + n) = get_bytes k ys n"
  by (simp add: get_bytes_def)

lemmas get_shifts = get16_shift get32_shift get_bytes_shift

definition query_ok :: "dns_query \<Rightarrow> bool" where
  "query_ok q \<longleftrightarrow> name_ok (q_name q)"

lemma extract_write_query:
  assumes "query_ok q"
  shows "extract_dns_query (pre @ write_dns_query q @ post) (length pre) = Some (Inr (q, length (write_dns_query q)))"
proof -
  let ?e = "encode_dns_name (q_name q)" and ?t = "store16 (htons (q_type q))" and ?c = "store16 (htons (q_class q))"
  have name: "extract_name (pre @ ?e @ ?t @ ?c @ post) (length pre) = Some (Inr (q_name q, length ?e))"
    using assms by (intro extract_name_encoded) (simp add: query_ok_def)
  have t: "get16 (pre @ ?e @ ?t @ ?c @ post) (length pre + length ?e) = Some (Inr (htons (q_type q)))"
    unfolding get_shifts by (simp add: get16_def)
  have c: "get16 (pre @ ?e @ ?t @ ?c @ post) (length pre + (length ?e + 2)) = Some (Inr (htons (q_class q)))"
    unfolding get_shifts by (simp add: get16_def)
  show ?thesis
    using name t c by (simp add: extract_dns_query_def write_dns_query_def)
qed

definition answer_ok :: "dns_answer \<Rightarrow> bool" where
  "answer_ok a \<longleftrightarrow> name_ok (ans_name a) \<and> ans_ttl a < 65536 \<and> unat (data_len a) = length (rdata a)"

definition answer_bytes :: "dns_answer \<Rightarrow> bytes" where
  "answer_bytes a = encode_dns_name (ans_name a) @ store16 (htons (ans_type a)) @ store16 (htons (ans_class a))
     @ store32 (htons32 (ans_ttl a)) @ store16 (htons (data_len a)) @ rdata a"

lemma write_answer_ok: "answer_ok a \<Longrightarrow> write_dns_answer a = Inr (answer_bytes a)"
  by (simp add: answer_ok_def write_dns_answer_def load_bytes_def answer_bytes_def)

lemma htons32_twice: "w < 65536 \<Longrightarrow> htons32 (htons32 w) = w"
proof -
  assume "w < 65536"
  then have "unat w < 2 ^ 16" by (simp add: word_less_nat_alt)
  then have "ucast (ucast w :: u16) = w"
    by (simp add: word_unat_eq_iff unsigned_ucast_eq unsigned_take_bit_eq take_bit_nat_eq_self)
  moreover have "ucast (ucast (htons (ucast w)) :: u32) = htons (ucast w)"
    by (rule bit_word_eqI) (simp add: bit_simps)
  ultimately show ?thesis by (simp add: htons32_def)
qed

lemma extract_write_answer:
  assumes "answer_ok a"
  shows "extract_dns_answer (pre @ answer_bytes a @ post) (length pre) = Some (Inr (a, length (answer_bytes a)))"
proof -
  let ?e = "encode_dns_name (ans_name a)" and ?t = "store16 (htons (ans_type a))"
    and ?c = "store16 (htons (ans_class a))" and ?l = "store32 (htons32 (ans_ttl a))"
    and ?n = "store16 (htons (data_len a))" and ?d = "rdata a"
  let ?pkt = "pre @ ?e @ ?t @ ?c @ ?l @ ?n @ ?d @ post"
  have name: "extract_name ?pkt (length pre) = Some (Inr (ans_name a, length ?e))"
    using assms by (intro extract_name_encoded) (simp add: answer_ok_def)
  have t: "get16 ?pkt (length pre + length ?e) = Some (Inr (htons (ans_type a)))"
    unfolding get_shifts by (simp add: get16_def)
  have c: "get16 ?pkt (length pre + (length ?e + 2)) = Some (Inr (htons (ans_class a)))"
    unfolding get_shifts by (simp add: get16_def)
  have l: "get32 ?pkt (length pre + (length ?e + 4)) = Some (Inr (htons32 (ans_ttl a)))"
    unfolding get_shifts by (simp add: get32_def)
  have n: "get16 ?pkt (length pre + (length ?e + 8)) = Some (Inr (htons (data_len a)))"
    unfolding get_shifts by (simp add: get16_def)
  have d: "get_bytes (unat (data_len a)) ?pkt (length pre + (length ?e + 10)) = Some (Inr ?d)"
    unfolding get_shifts using assms by (simp add: get_bytes_def answer_ok_def)
  show ?thesis
    using name t c l n d assms
    by (simp add: extract_dns_answer_def answer_bytes_def htons32_twice answer_ok_def)
qed

lemma extract_items_concat:
  assumes "\<And>x pre post. x \<in> set xs \<Longrightarrow> item (pre @ wr x @ post) (length pre) = Some (Inr (x, length (wr x)))"
  shows "extract_items item (length xs) (pre @ concat (map wr xs) @ post) (length pre)
    = Some (Inr (xs, length pre + length (concat (map wr xs))))"
  using assms
proof (induction xs arbitrary: pre)
  case (Cons x xs)
  have "item (pre @ wr x @ concat (map wr xs) @ post) (length pre) = Some (Inr (x, length (wr x)))"
    by (rule Cons.prems) simp
  moreover have "extract_items item (length xs) ((pre @ wr x) @ concat (map wr xs) @ post) (length (pre @ wr x))
    = Some (Inr (xs, length (pre @ wr x) + length (concat (map wr xs))))"
    by (rule Cons.IH) (use Cons.prems in simp)
  ultimately show ?case by (simp add: add.assoc)
qed simp

lemma write_answers_ok: "list_all answer_ok as \<Longrightarrow> write_answers as = Inr (concat (map answer_bytes as))"
  by (induction as) (simp_all add: write_answer_ok)

section \<open>Messages\<close>

definition message_ok :: "dns_message \<Rightarrow> bool" where
  "message_ok m \<longleftrightarrow> header_ok (msg_header m)
     \<and> unat (query_count (msg_header m)) = length (queries m) \<and> list_all query_ok (queries m)
     \<and> unat (ans_count (msg_header m)) = length (ans m) \<and> list_all answer_ok (ans m)
     \<and> unat (auth_count (msg_header m)) = length (ans_auth m) \<and> list_all answer_ok (ans_auth m)
     \<and> unat (add_count (msg_header m)) = length (ans_addit m) \<and> list_all answer_ok (ans_addit m)"

definition message_bytes :: "dns_message \<Rightarrow> bytes" where
  "message_bytes m = header_bytes (msg_header m) @ concat (map write_dns_query (queries m))
     @ concat (map answer_bytes (ans m)) @ concat (map answer_bytes (ans_auth m))
     @ concat (map answer_bytes (ans_addit m))"

lemma write_message_ok: "message_ok m \<Longrightarrow> write_dns_message m = Inr (message_bytes m)"
  by (simp add: message_ok_def write_dns_message_def write_section_def write_header_ok write_answers_ok message_bytes_def)

lemma extract_message_bytes:
  assumes "message_ok m"
  shows "extract_dns_message (message_bytes m @ p) = Some (Inr (m, length (message_bytes m)))"
proof -
  let ?h = "header_bytes (msg_header m)" and ?q = "concat (map write_dns_query (queries m))"
    and ?a = "concat (map answer_bytes (ans m))" and ?u = "concat (map answer_bytes (ans_auth m))"
    and ?d = "concat (map answer_bytes (ans_addit m))"
  let ?pkt = "?h @ ?q @ ?a @ ?u @ ?d @ p"
  note ok = assms [unfolded message_ok_def]
  have len: "length ?h = sizeof_dns_header" by (simp add: header_bytes_def sizeof_dns_header_def)
  have h: "extract_dns_header ?pkt = Inr (msg_header m, length ?h)"
    using ok len by (simp add: extract_header_bytes)
  have q: "extract_items extract_dns_query (length (queries m)) ?pkt (length ?h)
      = Some (Inr (queries m, length ?h + length ?q))"
    using ok by (intro extract_items_concat extract_write_query) (auto simp: list_all_iff)
  have a: "extract_items extract_dns_answer (length (ans m)) ?pkt (length ?h + length ?q)
      = Some (Inr (ans m, length ?h + length ?q + length ?a))"
    using ok extract_items_concat [of "ans m" extract_dns_answer answer_bytes "?h @ ?q" "?u @ ?d @ p"]
    by (auto simp: list_all_iff extract_write_answer)
  have u: "extract_items extract_dns_answer (length (ans_auth m)) ?pkt (length ?h + length ?q + length ?a)
      = Some (Inr (ans_auth m, length ?h + length ?q + length ?a + length ?u))"
    using ok extract_items_concat [of "ans_auth m" extract_dns_answer answer_bytes "?h @ ?q @ ?a" "?d @ p"]
    by (auto simp: list_all_iff extract_write_answer add.assoc)
  have d: "extract_items extract_dns_answer (length (ans_addit m)) ?pkt (length ?h + length ?q + length ?a + length ?u)
      = Some (Inr (ans_addit m, length ?h + length ?q + length ?a + length ?u + length ?d))"
    using ok extract_items_concat [of "ans_addit m" extract_dns_answer answer_bytes "?h @ ?q @ ?a @ ?u" p]
    by (auto simp: list_all_iff extract_write_answer add.assoc)
  have pkt: "message_bytes m @ p = ?pkt" and size: "length (message_bytes m) = length ?h + length ?q + length ?a + length ?u + length ?d"
    by (simp_all add: message_bytes_def)
  show ?thesis
    unfolding extract_dns_message_def pkt size using ok
    by (simp add: h q a u d del: length_concat)
qed

section \<open>Properties\<close>

text \<open>C5: A DNS message whose section counts match, whose names are well-formed, whose TTLs fit 16 bits and
  whose header has opcode and recursion-available 0 round-trips: it is sent as one datagram when it fits the
  buffer, and the receiver is handed the same message.\<close>

theorem dns_message_roundtrip:
  assumes "message_ok m" and "length (message_bytes m) \<le> 65536"
  shows "\<exists>frame. dns_send (Some s) m = Inr [(s, frame)] \<and> dns_recv frame = Some (Inr m)"
proof -
  have "dns_send (Some s) m = Inr [(s, message_bytes m)]"
    using assms by (simp add: dns_send_def write_message_ok store_at_def)
  moreover have "dns_recv (message_bytes m) = Some (Inr m)"
    using extract_message_bytes [OF assms(1), of "[]"] by (simp add: dns_recv_def)
  ultimately show ?thesis by blast
qed

lemma sample_name: "name_ok [0x61, 0]"
  unfolding name_ok_def by (rule exI [of _ "[[0x61]]"]) (simp add: label_ok_def DOT_def)

definition sample_message :: dns_message where
  "sample_message = \<lparr>msg_header = \<lparr>dns_id = 7, rd = 1, tc = 0, aa = 0, opcode = 0, qr = 0, rcode = 0, cd = 0, ad = 0,
     ra = 0, query_count = 1, ans_count = 0, auth_count = 0, add_count = 0\<rparr>,
     queries = [make_dns_query [0x61] type_a class_in], ans = [], ans_auth = [], ans_addit = []\<rparr>"

theorem dns_message_roundtrip_witness:
  "\<exists>frame. dns_send (Some ()) sample_message = Inr [((), frame)] \<and> dns_recv frame = Some (Inr sample_message)"
proof -
  have "message_ok sample_message"
    using sample_name by (simp add: message_ok_def sample_message_def header_ok_def query_ok_def make_dns_query_def)
  moreover have "length (message_bytes sample_message) \<le> 65536"
    by (simp add: message_bytes_def sample_message_def header_bytes_def write_dns_query_def make_dns_query_def
        encode_dns_name_def)
  ultimately show ?thesis by (rule dns_message_roundtrip)
qed

text \<open>Writing a header with the recursion-available bit set, or with an opcode of 4 or more, shifts an
  \<^verbatim>\<open>int\<close> by 32 or more and is undefined; an opcode from 1 to 3 is lost.\<close>

theorem dns_header_shift_bug:
  "(ra h = 1 \<or> 4 \<le> unat (opcode h) \<longrightarrow> write_dns_header h = Inl Undefined)
   \<and> bind_r (write_dns_header (msg_header sample_message\<lparr>opcode := 2\<rparr>)) extract_dns_header
      = Inr (msg_header sample_message, 12)"
proof -
  have "bind_r (write_dns_header (msg_header sample_message\<lparr>opcode := 2\<rparr>)) extract_dns_header
      = Inr (msg_header sample_message, 12)" by code_simp
  moreover have "write_dns_header h = Inl Undefined" if "ra h = 1 \<or> 4 \<le> unat (opcode h)"
    using that by (auto simp: write_dns_header_def shl_int_def)
  ultimately show ?thesis by blast
qed

theorem dns_header_shift_bug_witness:
  "write_dns_header (msg_header sample_message\<lparr>ra := 1\<rparr>) = Inl Undefined"
  using dns_header_shift_bug [of "msg_header sample_message\<lparr>ra := 1\<rparr>"] by simp

text \<open>The TTL is not in network byte order: a record with TTL 3600 is sent with the four TTL bytes
  \<open>0E 10 00 00\<close>, and the TTL bytes \<open>00 00 0E 10\<close> of a standard record are read as 0.\<close>

theorem dns_ttl_byte_order:
  "write_dns_answer \<lparr>ans_name = [0x61, 0], ans_type = 1, ans_class = 1, ans_ttl = 3600, data_len = 0, rdata = []\<rparr>
      = Inr ([1, 0x61, 0, 0, 1, 0, 1] @ [0x0E, 0x10, 0, 0] @ [0, 0])
   \<and> (\<exists>a n. extract_dns_answer ([1, 0x61, 0, 0, 1, 0, 1] @ [0, 0, 0x0E, 0x10] @ [0, 0]) 0 = Some (Inr (a, n))
        \<and> ans_ttl a = 0)"
proof -
  have wr: "write_dns_answer \<lparr>ans_name = [0x61, 0], ans_type = 1, ans_class = 1, ans_ttl = 3600, data_len = 0, rdata = []\<rparr>
      = Inr ([1, 0x61, 0, 0, 1, 0, 1] @ [0x0E, 0x10, 0, 0] @ [0, 0])" by code_simp
  have name: "extract_name [1, 0x61, 0, 0, 1, 0, 1, 0, 0, 0x0E, 0x10, 0, 0] 0 = Some (Inr ([0x61, 0], 3))"
    using extract_name_encoded [of "[0x61, 0]" "[]" "[0, 1, 0, 1, 0, 0, 0x0E, 0x10, 0, 0]"] sample_name
    by (simp add: encode_dns_name_def DOT_def)
  have "get16 [1, 0x61, 0, 0, 1, 0, 1, 0, 0, 0x0E, 0x10, 0, 0] 3 = Some (Inr 0x100)"
    "get16 [1, 0x61, 0, 0, 1, 0, 1, 0, 0, 0x0E, 0x10, 0, 0] 5 = Some (Inr 0x100)"
    "get32 [1, 0x61, 0, 0, 1, 0, 1, 0, 0, 0x0E, 0x10, 0, 0] 7 = Some (Inr 0x100E0000)"
    "get16 [1, 0x61, 0, 0, 1, 0, 1, 0, 0, 0x0E, 0x10, 0, 0] 11 = Some (Inr 0)"
    "get_bytes 0 [1, 0x61, 0, 0, 1, 0, 1, 0, 0, 0x0E, 0x10, 0, 0] 13 = Some (Inr [])"
    by code_simp+
  moreover have "htons32 0x100E0000 = 0" "ntohs 0 = 0" by code_simp+
  ultimately have "\<exists>a n. extract_dns_answer ([1, 0x61, 0, 0, 1, 0, 1] @ [0, 0, 0x0E, 0x10] @ [0, 0]) 0 = Some (Inr (a, n))
        \<and> ans_ttl a = 0"
    by (simp add: extract_dns_answer_def name)
  with wr show ?thesis by blast
qed

end
