(* ===== verification/Dns_Database.thy ===== *)
theory Dns_Database
  imports Trie Ip4_Addr
begin

text \<open>
  The record database of the DNS server (\<^verbatim>\<open>src/protocols/dns/dns_database.cpp\<close>,
  \<^verbatim>\<open>dns_database.h\<close>): the readers of the two record files, and the two tries that map names to
  addresses and to mail servers, with the loading loop of \<^verbatim>\<open>dns_server.cpp\<close>.  The tries have 256
  children per node and index them by \<^verbatim>\<open>(size_t) val\<close> of a \<^verbatim>\<open>char\<close>; on the
  modelled host \<^verbatim>\<open>char\<close> is signed, so a character of 128 or more gets an index beyond the
  children.  The lemmas interpret the locale \<open>dictionary\<close> of the trie for both tries.
\<close>

section \<open>Record files\<close>

text \<open>\<^verbatim>\<open>input >> s\<close> on a stream with \<open>s\<close> left to read.\<close>

definition next_token :: "string \<Rightarrow> (string \<times> string) option" where
  "next_token s =
     (let r = dropWhile is_space s
      in if r = [] then None else Some (takeWhile (\<lambda>c. \<not> is_space c) r, dropWhile (\<lambda>c. \<not> is_space c) r))"

lemma next_token_shorter: "next_token s = Some (t, r) \<Longrightarrow> length r < length s"
proof -
  assume a: "next_token s = Some (t, r)"
  let ?r = "dropWhile is_space s"
  have ne: "?r \<noteq> []" and r: "r = dropWhile (\<lambda>c. \<not> is_space c) ?r"
    using a by (auto simp: next_token_def Let_def split: if_splits)
  have "\<not> is_space (hd ?r)" using ne by (rule hd_dropWhile)
  then have "r = dropWhile (\<lambda>c. \<not> is_space c) (tl ?r)"
    using ne r by (cases ?r) auto
  then have "length r \<le> length (tl ?r)" by (simp only: length_dropWhile_le)
  also have "\<dots> < length ?r" using ne by (cases ?r) auto
  also have "\<dots> \<le> length s" by (rule length_dropWhile_le)
  finally show ?thesis .
qed

text \<open>\<^verbatim>\<open>while (input >> name >> val)\<close>: the pairs it goes through.\<close>

function token_pairs :: "string \<Rightarrow> (string \<times> string) list" where
  "token_pairs s =
     (case next_token s of None \<Rightarrow> []
      | Some (name, r) \<Rightarrow>
          (case next_token r of None \<Rightarrow> [] | Some (v, r') \<Rightarrow> (name, v) # token_pairs r'))"
  by pat_completeness auto
termination
  by (relation "measure length") (auto dest!: next_token_shorter)

declare token_pairs.simps [simp del]

text \<open>The file is \<open>None\<close> when it cannot be opened.\<close>

fun keep_addresses :: "(string \<times> string) list \<Rightarrow> (string \<times> ip4_addr) list result" where
  "keep_addresses [] = Inr []"
| "keep_addresses ((name, ip_str) # rest) =
     bind_r (str_to_ip4_addr ip_str) (\<lambda>tmp.
       case tmp of None \<Rightarrow> keep_addresses rest
       | Some addr \<Rightarrow> bind_r (keep_addresses rest) (\<lambda>res. Inr ((name, addr) # res)))"

definition dns_parse_records_a :: "string option \<Rightarrow> (string \<times> ip4_addr) list result" where
  "dns_parse_records_a file = (case file of None \<Rightarrow> Inr [] | Some s \<Rightarrow> keep_addresses (token_pairs s))"

definition dns_parse_records_mx :: "string option \<Rightarrow> (string \<times> string) list" where
  "dns_parse_records_mx file = (case file of None \<Rightarrow> [] | Some s \<Rightarrow> token_pairs s)"

section \<open>The database\<close>

text \<open>\<^verbatim>\<open>(size_t) val\<close> of a signed \<^verbatim>\<open>char\<close>.\<close>

definition assign_index :: "char \<Rightarrow> nat" where
  "assign_index c = (if of_char c < (128::nat) then of_char c else 2 ^ 64 - (256 - of_char c))"

record dns_database =
  mappings_a :: "ip4_addr trie_node"
  mappings_mx :: "string trie_node"

text \<open>A new node's \<^verbatim>\<open>ip4_addr\<close> key is not initialised: its value \<open>u\<close> is an argument.\<close>

definition empty_database :: "ip4_addr \<Rightarrow> dns_database" where
  "empty_database u = \<lparr>mappings_a = new_node 256 u, mappings_mx = new_node 256 []\<rparr>"

definition add_record_a :: "ip4_addr \<Rightarrow> dns_database \<Rightarrow> string \<Rightarrow> ip4_addr \<Rightarrow> dns_database result" where
  "add_record_a u db name addr =
     bind_r (add_word assign_index u (mappings_a db) name (set_key addr)) (\<lambda>t. Inr (db\<lparr>mappings_a := t\<rparr>))"

definition search_record_a :: "dns_database \<Rightarrow> string \<Rightarrow> ip4_addr option result" where
  "search_record_a db name =
     bind_r (search assign_index (mappings_a db) name) (\<lambda>res.
       case res of None \<Rightarrow> Inr None | Some n \<Rightarrow> if \<not> marked n then Inr None else Inr (Some (key n)))"

definition add_record_mx :: "dns_database \<Rightarrow> string \<Rightarrow> string \<Rightarrow> dns_database result" where
  "add_record_mx db name res =
     bind_r (add_word assign_index [] (mappings_mx db) name (set_key res)) (\<lambda>t. Inr (db\<lparr>mappings_mx := t\<rparr>))"

definition search_record_mx :: "dns_database \<Rightarrow> string \<Rightarrow> string option result" where
  "search_record_mx db name =
     bind_r (search assign_index (mappings_mx db) name) (\<lambda>res.
       case res of None \<Rightarrow> Inr None | Some n \<Rightarrow> if \<not> marked n then Inr None else Inr (Some (key n)))"

text \<open>The loading loops of the server's \<^verbatim>\<open>main\<close>.\<close>

fun load_records_a :: "ip4_addr \<Rightarrow> dns_database \<Rightarrow> (string \<times> ip4_addr) list \<Rightarrow> dns_database result" where
  "load_records_a u db [] = Inr db"
| "load_records_a u db ((name, ip_addr) # rest) =
     bind_r (add_record_a u db name ip_addr) (\<lambda>db. load_records_a u db rest)"

fun load_records_mx :: "dns_database \<Rightarrow> (string \<times> string) list \<Rightarrow> dns_database result" where
  "load_records_mx db [] = Inr db"
| "load_records_mx db ((name, res) # rest) =
     bind_r (add_record_mx db name res) (\<lambda>db. load_records_mx db rest)"

section \<open>The databases as dictionaries\<close>

definition wf_database :: "dns_database \<Rightarrow> bool" where
  "wf_database db \<longleftrightarrow> wf_trie 256 (mappings_a db) \<and> wf_trie 256 (mappings_mx db)"

definition ascii_char :: "char \<Rightarrow> bool" where "ascii_char c \<longleftrightarrow> of_char c < (128::nat)"

definition ascii_name :: "string \<Rightarrow> bool" where "ascii_name w \<longleftrightarrow> w \<noteq> [] \<and> list_all ascii_char w"

lemma of_char_bound: "(of_char c :: nat) < 256"
  by simp

lemma assign_index_ascii: "ascii_char c \<Longrightarrow> assign_index c = of_char c"
  by (simp add: assign_index_def ascii_char_def)

lemma assign_index_bound: "assign_index c < 256 \<longleftrightarrow> ascii_char c"
proof (cases "ascii_char c")
  case True
  then show ?thesis by (simp add: assign_index_ascii)
next
  case False
  have "(2 ^ 64 - 256 :: nat) \<le> 2 ^ 64 - (256 - of_char c)" by (rule diff_le_mono2) simp
  with False show ?thesis by (simp add: assign_index_def ascii_char_def)
qed

lemma in_range_ascii: "in_range assign_index 256 w \<longleftrightarrow> list_all ascii_char w"
  by (simp add: in_range_def assign_index_bound)

lemma assign_index_inj: "inj_on assign_index {c. assign_index c < 256}"
  by (rule inj_onI) (simp add: assign_index_bound assign_index_ascii)

lemma search_record_word_key:
  "search_record_a db w = word_key assign_index (mappings_a db) w"
  "search_record_mx db w = word_key assign_index (mappings_mx db) w"
  by (auto simp: search_record_a_def search_record_mx_def word_key_def intro!: arg_cong [where f = "bind_r _"]
      split: option.splits)

lemma wf_empty_database [simp]: "wf_database (empty_database u)"
  by (simp add: wf_database_def empty_database_def)

definition insert_a :: "ip4_addr \<Rightarrow> string \<Rightarrow> ip4_addr \<Rightarrow> dns_database \<Rightarrow> dns_database result" where
  "insert_a u name addr db = add_record_a u db name addr"

definition insert_mx :: "string \<Rightarrow> string \<Rightarrow> dns_database \<Rightarrow> dns_database result" where
  "insert_mx name res db = add_record_mx db name res"

text \<open>The contract of a dictionary, for each of the two tries with its own key.\<close>

lemma dictionary_a: "dictionary (insert_a u) search_record_a wf_database ascii_name"
proof
  note law = dictionary.insert_ok [OF trie_dictionary [OF assign_index_inj]]
    dictionary.lookup_insert [OF trie_dictionary [OF assign_index_inj]]
  fix d w and k :: ip4_addr
  assume d: "wf_database d" and w: "ascii_name w"
  then have v: "wf_trie 256 (mappings_a d)" "w \<noteq> [] \<and> in_range assign_index 256 w"
    by (auto simp: wf_database_def ascii_name_def in_range_ascii)
  show "\<exists>d'. insert_a u w k d = Inr d' \<and> wf_database d'"
    using law(1) [OF v, of u k] d by (auto simp: insert_a_def add_record_a_def trie_insert_def wf_database_def)
  fix w' d'
  assume w': "ascii_name w'" and ins: "insert_a u w k d = Inr d'"
  then show "search_record_a d' w' = (if w' = w then Inr (Some k) else search_record_a d w')"
    using law(2) [OF v, of w' u k "mappings_a d'"]
    by (auto simp: insert_a_def add_record_a_def trie_insert_def result_simps search_record_word_key ascii_name_def in_range_ascii)
qed

lemma dictionary_mx: "dictionary insert_mx search_record_mx wf_database ascii_name"
proof
  note law = dictionary.insert_ok [OF trie_dictionary [OF assign_index_inj]]
    dictionary.lookup_insert [OF trie_dictionary [OF assign_index_inj]]
  fix d w and k :: string
  assume d: "wf_database d" and w: "ascii_name w"
  then have v: "wf_trie 256 (mappings_mx d)" "w \<noteq> [] \<and> in_range assign_index 256 w"
    by (auto simp: wf_database_def ascii_name_def in_range_ascii)
  show "\<exists>d'. insert_mx w k d = Inr d' \<and> wf_database d'"
    using law(1) [OF v, of "[]" k] d by (auto simp: insert_mx_def add_record_mx_def trie_insert_def wf_database_def)
  fix w' d'
  assume w': "ascii_name w'" and ins: "insert_mx w k d = Inr d'"
  then show "search_record_mx d' w' = (if w' = w then Inr (Some k) else search_record_mx d w')"
    using law(2) [OF v, of w' "[]" k "mappings_mx d'"]
    by (auto simp: insert_mx_def add_record_mx_def trie_insert_def result_simps search_record_word_key ascii_name_def in_range_ascii)
qed

interpretation records_a: dictionary "insert_a u" search_record_a wf_database ascii_name for u
  by (rule dictionary_a)

interpretation records_mx: dictionary insert_mx search_record_mx wf_database ascii_name
  by (rule dictionary_mx)

lemma load_records_a_insert_all: "load_records_a u db entries = records_a.insert_all u entries db"
  by (induction entries arbitrary: db) (auto simp: insert_a_def)

lemma load_records_mx_insert_all: "load_records_mx db entries = records_mx.insert_all entries db"
  by (induction entries arbitrary: db) (auto simp: insert_mx_def)

lemma search_empty:
  assumes "ascii_name w"
  shows "search_record_a (empty_database u) w = Inr None" "search_record_mx (empty_database u) w = Inr None"
  using assms by (simp_all add: search_record_word_key empty_database_def ascii_name_def in_range_ascii)

text \<open>What a loaded database answers.\<close>

lemma loaded_a:
  assumes "wf_database db" and "list_all (\<lambda>(w, _). ascii_name w) entries" and "ascii_name w"
  shows "\<exists>db'. load_records_a u db entries = Inr db' \<and> wf_database db' \<and> search_record_a db' w
    = (case map_of (rev entries) w of Some a \<Rightarrow> Inr (Some a) | None \<Rightarrow> search_record_a db w)"
  using records_a.lookup_insert_all [OF assms] by (simp add: load_records_a_insert_all)

lemma loaded_mx:
  assumes "wf_database db" and "list_all (\<lambda>(w, _). ascii_name w) entries" and "ascii_name w"
  shows "\<exists>db'. load_records_mx db entries = Inr db' \<and> wf_database db' \<and> search_record_mx db' w
    = (case map_of (rev entries) w of Some a \<Rightarrow> Inr (Some a) | None \<Rightarrow> search_record_mx db w)"
  using records_mx.lookup_insert_all [OF assms] by (simp add: load_records_mx_insert_all)

section \<open>Printed record files\<close>

definition token :: "string \<Rightarrow> bool" where
  "token s \<longleftrightarrow> s \<noteq> [] \<and> list_all (\<lambda>c. \<not> is_space c) s"

text \<open>One record per line.\<close>

definition record_line :: "string \<times> string \<Rightarrow> string" where
  "record_line r = fst r @ CHR '' '' # snd r @ [CHR 0x0A]"

definition records_file :: "(string \<times> string) list \<Rightarrow> string" where
  "records_file rs = concat (map record_line rs)"

lemma space_chars [simp]: "is_space (CHR '' '')" "is_space (CHR 0x0A)"
  by (simp_all add: is_space_def)

lemma next_token_spaces: "list_all is_space sp \<Longrightarrow> next_token (sp @ s) = next_token s"
  by (induction sp) (simp_all add: next_token_def)

lemma next_token_token:
  assumes "token t" and "is_space c"
  shows "next_token (t @ c # r) = Some (t, c # r)"
  using assms by (cases t) (auto simp: token_def next_token_def Let_def list_all_iff takeWhile_append dropWhile_append
      takeWhile_eq_all_conv dropWhile_eq_Nil_conv)

lemma token_pairs_records:
  assumes "list_all (\<lambda>(n, v). token n \<and> token v) rs" and "list_all is_space sp"
  shows "token_pairs (sp @ records_file rs) = rs"
  using assms
proof (induction rs arbitrary: sp)
  case Nil
  then have "next_token sp = None" using next_token_spaces [of sp "[]"] by (simp add: next_token_def)
  then show ?case by (simp add: records_file_def token_pairs.simps)
next
  case (Cons r rs)
  obtain n v where r: "r = (n, v)" by (cases r)
  with Cons.prems have n: "token n" and v: "token v" by auto
  have "next_token (sp @ records_file (r # rs)) = Some (n, CHR '' '' # v @ CHR 0x0A # records_file rs)"
    using next_token_token [OF n] Cons.prems(2) by (simp add: next_token_spaces records_file_def record_line_def r)
  moreover have "next_token (CHR '' '' # v @ CHR 0x0A # records_file rs) = Some (v, CHR 0x0A # records_file rs)"
    using next_token_spaces [of "'' ''"] next_token_token [OF v] by simp
  moreover have "token_pairs (CHR 0x0A # records_file rs) = rs"
    using Cons.IH [of "[CHR 0x0A]"] Cons.prems(1) by simp
  ultimately show ?case by (subst token_pairs.simps) (simp add: r)
qed

lemma ip4_text_token: "token (ip4_addr_to_str a)"
proof -
  have "\<not> is_space c" if "c \<in> set (to_dec n)" for c n
    using that to_dec_digits [of n] is_digit_not_space by (auto simp: list_all_iff)
  moreover have "\<not> is_space (CHR ''.'')" by (simp add: is_space_def)
  moreover have "ip4_addr_to_str a \<noteq> []" using to_dec_digits by (cases a) simp
  ultimately show ?thesis by (cases a) (auto simp: token_def list_all_iff)
qed

text \<open>The lines of a list of address records, and how the reader gives the records back.\<close>

definition a_lines :: "(string \<times> ip4_addr) list \<Rightarrow> (string \<times> string) list" where
  "a_lines entries = map (\<lambda>(n, a). (n, ip4_addr_to_str a)) entries"

lemma keep_addresses_lines: "keep_addresses (a_lines entries) = Inr entries"
  by (induction entries) (auto simp: a_lines_def str_to_ip4_addr_print)

lemma parse_records_a:
  assumes "list_all (\<lambda>(n, _). token n) entries"
  shows "dns_parse_records_a (Some (records_file (a_lines entries))) = Inr entries"
proof -
  have "list_all (\<lambda>(n, v). token n \<and> token v) (a_lines entries)"
    using assms ip4_text_token by (auto simp: list_all_iff a_lines_def)
  from token_pairs_records [OF this, of "[]"] show ?thesis
    by (simp add: dns_parse_records_a_def keep_addresses_lines)
qed

section \<open>Names outside ASCII\<close>

lemma no_child_slot: "wf_trie 256 t \<Longrightarrow> \<not> ascii_char c \<Longrightarrow> \<not> assign_index c < length (children t)"
  using assign_index_bound [of c] by (cases t) simp

lemma add_word_loop_out_of_range:
  assumes "wf_trie 256 t" and "\<not> list_all ascii_char w"
  shows "add_word_loop assign_index dk t w f = Inl Undefined"
  using assms
proof (induction w arbitrary: t)
  case (Cons c w)
  show ?case
  proof (cases "ascii_char c")
    case True
    from create_child_ok [OF Cons.prems(1), of assign_index c dk] True
    obtain t' child where "create_child assign_index dk t c = Inr (t', child)" "wf_trie 256 child"
      by (metis assign_index_bound)
    then show ?thesis using Cons.IH [of child] Cons.prems(2) True by simp
  next
    case False
    from no_child_slot [OF Cons.prems(1) this] show ?thesis by (simp add: create_child_def Let_def)
  qed
qed simp

lemma search_out_of_range:
  assumes "wf_trie 256 t" and "\<not> ascii_char c"
  shows "search assign_index t (c # w) = Inl Undefined"
  using no_child_slot [OF assms] by (simp add: get_child_def)

lemma search_total: "wf_trie 256 t \<Longrightarrow> list_all ascii_char w \<Longrightarrow> \<exists>n. search assign_index t w = Inr n"
proof (induction w arbitrary: t)
  case (Cons c w)
  obtain m ch n k where t: "t = Node m ch n k" by (cases t)
  have i: "assign_index c < length ch" using Cons.prems assign_index_bound [of c] by (simp add: t)
  show ?case
  proof (cases "ch ! assign_index c")
    case (Some child)
    then have "wf_trie 256 child" using Cons.prems(1) i by (auto simp: t list_all_length split: option.splits)
    with Cons Some i show ?thesis by (simp add: t get_child_def)
  qed (use i in \<open>simp add: t get_child_def\<close>)
qed simp

lemma search_record_total:
  assumes "wf_database db" and "list_all ascii_char w"
  shows "\<exists>r. search_record_a db w = Inr r" "\<exists>r. search_record_mx db w = Inr r"
  using search_total [of "mappings_a db" w] search_total [of "mappings_mx db" w] assms
  by (auto simp: wf_database_def search_record_a_def search_record_mx_def split: option.split)

section \<open>Properties\<close>

lemma load_printed_records:
  assumes "list_all (\<lambda>(n, _). token n \<and> ascii_name n) entries" and "ascii_name w"
  shows "\<exists>db. bind_r (dns_parse_records_a (Some (records_file (a_lines entries)))) (load_records_a u (empty_database u)) = Inr db
    \<and> wf_database db \<and> search_record_a db w = Inr (map_of (rev entries) w)"
proof -
  have parsed: "dns_parse_records_a (Some (records_file (a_lines entries))) = Inr entries"
    using assms(1) by (intro parse_records_a) (auto simp: list_all_iff)
  have "list_all (\<lambda>(n, _). ascii_name n) entries" using assms(1) by (auto simp: list_all_iff)
  from loaded_a [OF wf_empty_database this assms(2), of u u] show ?thesis
    by (auto simp: parsed search_empty [OF assms(2)] split: option.splits)
qed

text \<open>A server started on a well-formed record file answers as the file says: the lines are read back,
  the loading loop succeeds, and a search for any ASCII name gives the address of the last line with that
  name, or nothing when no line has it.\<close>

theorem dns_database_loaded:
  assumes "list_all (\<lambda>(n, _). token n \<and> ascii_name n) entries" and "ascii_name w"
  shows "\<exists>db. bind_r (dns_parse_records_a (Some (records_file (a_lines entries)))) (load_records_a u (empty_database u)) = Inr db
    \<and> wf_database db \<and> search_record_a db w = Inr (map_of (rev entries) w)"
  using assms by (rule load_printed_records)

theorem dns_database_loaded_witness:
  "\<forall>u. \<exists>db. bind_r (dns_parse_records_a (Some (records_file (a_lines [(''b'', Ip4_addr 1 2 3 4), (''b'', Ip4_addr 9 9 9 9)]))))
      (load_records_a u (empty_database u)) = Inr db
    \<and> wf_database db \<and> search_record_a db ''b'' = Inr (Some (Ip4_addr 9 9 9 9))"
  using dns_database_loaded [of "[(''b'', Ip4_addr 1 2 3 4), (''b'', Ip4_addr 9 9 9 9)]" "''b''"]
  by (simp add: token_def is_space_def ascii_name_def ascii_char_def)

text \<open>A name with a byte of 128 or more leaves the children array of a trie node: adding such a name, and
  searching a name that starts with one, is undefined behaviour in every database.  A name in a query comes
  from the network.  Adding the empty name dereferences a null pointer.\<close>

theorem dns_database_non_ascii:
  assumes "wf_database db"
  shows "(\<not> list_all ascii_char w \<longrightarrow> add_record_a u db w a = Inl Undefined)
   \<and> (\<not> ascii_char c \<longrightarrow> search_record_a db (c # w) = Inl Undefined)
   \<and> add_record_a u db [] a = Inl Null_deref"
  using assms
  by (auto simp: wf_database_def add_record_a_def add_word_def add_word_loop_out_of_range search_record_a_def
      search_out_of_range simp del: search.simps)

theorem dns_database_non_ascii_witness:
  "add_record_a u (empty_database u) [CHR 0xC3] a = Inl Undefined
   \<and> search_record_a (empty_database u) [CHR 0xC3] = Inl Undefined"
  using dns_database_non_ascii [OF wf_empty_database, of "[CHR 0xC3]" u u a "CHR 0xC3"]
    dns_database_non_ascii [OF wf_empty_database, of "[]" u u a "CHR 0xC3"]
  by (simp add: ascii_char_def)

end
