(* ===== verification/Dns_Tool.thy ===== *)
theory Dns_Tool
  imports Dns_Database Dns
begin

text \<open>
  The DNS client and server logic (\<^verbatim>\<open>src/tools/dns/dns_tool.cpp\<close>, and the message handler of
  \<^verbatim>\<open>src/main/dns/dns_server.cpp\<close>): the request message and the loop that waits for its reply,
  the reply to a query, and the server's handling of a datagram.  Local \<^verbatim>\<open>dns_message\<close> objects
  leave header bits uninitialised (\<^verbatim>\<open>cd\<close>, \<^verbatim>\<open>ad\<close>); the header they start from is
  an argument \<open>u\<close>.  A query that finds no record is answered with a start of authority, whose data comes from
  \<^verbatim>\<open>convert_to_rdata\<close>; that is undefined, and so is the answer.
\<close>

section \<open>The client\<close>

definition request_message :: "dns_header \<Rightarrow> dns_query \<Rightarrow> dns_message" where
  "request_message u query =
     \<lparr>msg_header = u\<lparr>dns_id := 0x8950, qr := 0, opcode := 0, aa := 0, tc := 0, rd := 1, ra := 0, rcode := 0,
        query_count := 1, ans_count := 0, auth_count := 0, add_count := 0\<rparr>,
      queries = [query], ans = [], ans_auth = [], ans_addit = []\<rparr>"

text \<open>The loop of \<^verbatim>\<open>send_requests\<close> against what its reads of the queue yield: \<open>None\<close> is a
  time-out, after which it sends again, \<open>Some\<close> a message, which it drops when the identifier is not its
  own.  The result is the reply it ends with, if it has ended, and how often it has sent.\<close>

fun request_loop :: "u16 \<Rightarrow> dns_message option list \<Rightarrow> nat \<Rightarrow> dns_message option \<times> nat" where
  "request_loop i [] sent = (None, sent)"
| "request_loop i (None # evs) sent = request_loop i evs (sent + 1)"
| "request_loop i (Some reply # evs) sent =
     (if i \<noteq> dns_id (msg_header reply) then request_loop i evs sent else (Some reply, sent))"

definition send_requests :: "dns_message \<Rightarrow> dns_message option list \<Rightarrow> dns_message option \<times> nat" where
  "send_requests msg evs = request_loop (dns_id (msg_header msg)) evs 1"

section \<open>The server\<close>

definition get_my_start_of_authority :: "dns_answer result" where
  "get_my_start_of_authority =
     bind_r (convert_to_rdata_soa \<lparr>primary_server = string_bytes ''none'' @ [0], admin_mail_server = string_bytes ''none'' @ [0],
       serial_num = 69, refresh_interval = 60 * 30, retry_interval = 60 * 15, expire_limit = 7 * 24 * 60 * 60,
       max_ttl = 1 * 24 * 60 * 60\<rparr>) (\<lambda>rdt.
     Inr \<lparr>ans_name = string_bytes ''some local dns server'' @ [0], ans_type = type_soa, ans_class = class_in,
       ans_ttl = 60 * 15, data_len = word_of_nat (length rdt), rdata = rdt\<rparr>)"

definition answer_a :: "dns_query \<Rightarrow> ip4_addr \<Rightarrow> dns_answer" where
  "answer_a query res =
     \<lparr>ans_name = q_name query, ans_type = q_type query, ans_class = q_class query, ans_ttl = 3600,
      data_len = 4, rdata = write_ip4_addr res\<rparr>"

definition answer_mx :: "dns_query \<Rightarrow> string \<Rightarrow> dns_answer" where
  "answer_mx query res =
     (let rdt = convert_to_rdata_mx \<lparr>preference = 10, domain = string_bytes res\<rparr> in
      \<lparr>ans_name = q_name query, ans_type = q_type query, ans_class = q_class query, ans_ttl = 3600,
       data_len = word_of_nat (length rdt), rdata = rdt\<rparr>)"

text \<open>One round of the loop: the answers and the authority records to append.\<close>

definition answer_query :: "dns_database \<Rightarrow> dns_query \<Rightarrow> (dns_answer list \<times> dns_answer list) result" where
  "answer_query db query =
     (if q_type query = type_a then
        bind_r (c_string (q_name query)) (\<lambda>name.
        bind_r (search_record_a db name) (\<lambda>tmp.
          case tmp of None \<Rightarrow> bind_r get_my_start_of_authority (\<lambda>auth. Inr ([], [auth])) | Some res \<Rightarrow> Inr ([answer_a query res], [])))
      else if q_type query = type_mx then
        bind_r (c_string (q_name query)) (\<lambda>name.
        bind_r (search_record_mx db name) (\<lambda>tmp.
          case tmp of None \<Rightarrow> bind_r get_my_start_of_authority (\<lambda>auth. Inr ([], [auth])) | Some res \<Rightarrow> Inr ([answer_mx query res], [])))
      else bind_r get_my_start_of_authority (\<lambda>auth. Inr ([], [auth])))"

fun query_loop ::
  "dns_database \<Rightarrow> dns_query list \<Rightarrow> nat \<Rightarrow> nat \<Rightarrow> dns_answer list \<Rightarrow> dns_answer list
    \<Rightarrow> (dns_answer list \<times> dns_answer list) result" where
  "query_loop db qs i 0 answers auth_ans = Inr (answers, auth_ans)"
| "query_loop db qs i (Suc k) answers auth_ans =
     (if \<not> i < length qs then Inl Overread
      else bind_r (answer_query db (qs ! i)) (\<lambda>(a, s).
             query_loop db qs (i + 1) k (answers @ a) (auth_ans @ s)))"

definition handle_query :: "dns_header \<Rightarrow> dns_database \<Rightarrow> dns_message \<Rightarrow> dns_message result" where
  "handle_query u db msg =
     bind_r (query_loop db (queries msg) 0 (unat (query_count (msg_header msg))) [] []) (\<lambda>(answers, auth_ans).
     Inr \<lparr>msg_header = u\<lparr>dns_id := dns_id (msg_header msg), qr := 1, opcode := 0, aa := 0, tc := 0, rd := 0, ra := 0,
            rcode := 0, query_count := query_count (msg_header msg), ans_count := word_of_nat (length answers),
            auth_count := word_of_nat (length auth_ans), add_count := 0\<rparr>,
          queries = queries msg, ans = answers, ans_auth = auth_ans, ans_addit = []\<rparr>)"

text \<open>The handler of the server: the reply is written to a buffer of 4096 bytes and sent back.\<close>

definition dns_server_handle ::
  "dns_header \<Rightarrow> dns_database \<Rightarrow> 's option \<Rightarrow> dns_message \<Rightarrow> ('s \<times> bytes) list result" where
  "dns_server_handle u db dns_surface msg =
     bind_r (handle_query u db msg) (\<lambda>reply.
     bind_r (write_dns_message reply) (\<lambda>bs.
     bind_r (store_at 0 bs (replicate 0x1000 0)) (\<lambda>tmp_buff.
       case dns_surface of None \<Rightarrow> Inl Null_deref | Some s \<Rightarrow> Inr [(s, take (length bs) tmp_buff)])))"

section \<open>The reply\<close>

text \<open>What the loop computes: the concatenation of the single answers.\<close>

fun answer_all :: "dns_database \<Rightarrow> dns_query list \<Rightarrow> (dns_answer list \<times> dns_answer list) result" where
  "answer_all db [] = Inr ([], [])"
| "answer_all db (q # qs) =
     bind_r (answer_query db q) (\<lambda>(a, s). bind_r (answer_all db qs) (\<lambda>(as, ss). Inr (a @ as, s @ ss)))"

lemma query_loop_answer_all:
  "query_loop db (pre @ qs) (length pre) (length qs) answers auth_ans
     = bind_r (answer_all db qs) (\<lambda>(as, ss). Inr (answers @ as, auth_ans @ ss))"
proof (induction qs arbitrary: pre answers auth_ans)
  case (Cons q qs)
  show ?case
  proof (cases "answer_query db q")
    case (Inr r)
    obtain a s where "r = (a, s)" by (cases r)
    then show ?thesis
      using Inr Cons.IH [of "pre @ [q]" "answers @ a" "auth_ans @ s"]
      by (cases "answer_all db qs") (simp_all add: case_prod_beta)
  qed simp
qed simp

lemma handle_query_eq:
  assumes "unat (query_count (msg_header msg)) = length (queries msg)"
  shows "handle_query u db msg = bind_r (answer_all db (queries msg)) (\<lambda>(answers, auth_ans).
     Inr \<lparr>msg_header = u\<lparr>dns_id := dns_id (msg_header msg), qr := 1, opcode := 0, aa := 0, tc := 0, rd := 0, ra := 0,
            rcode := 0, query_count := query_count (msg_header msg), ans_count := word_of_nat (length answers),
            auth_count := word_of_nat (length auth_ans), add_count := 0\<rparr>,
          queries = queries msg, ans = answers, ans_auth = auth_ans, ans_addit = []\<rparr>)"
  using query_loop_answer_all [of db "[]" "queries msg" "[]" "[]"] assms
  by (cases "answer_all db (queries msg)") (simp_all add: handle_query_def case_prod_beta)

text \<open>Every query is answered once.\<close>

lemma answer_query_one: "answer_query db q = Inr (a, s) \<Longrightarrow> length a + length s = 1"
  by (auto simp: answer_query_def result_simps split: if_splits option.splits)

lemma answer_all_length: "answer_all db qs = Inr (as, ss) \<Longrightarrow> length as + length ss = length qs"
proof (induction qs arbitrary: as ss)
  case (Cons q qs)
  then show ?case by (fastforce simp: result_simps dest: answer_query_one)
qed simp

text \<open>A query whose name is stored as an ASCII string with its null byte.\<close>

definition query_text :: "dns_query \<Rightarrow> string" where
  "query_text q = map (\<lambda>b. char_of (unat b)) (butlast (q_name q))"

definition ascii_query :: "dns_query \<Rightarrow> bool" where
  "ascii_query q \<longleftrightarrow> (\<exists>bs. q_name q = bs @ [0] \<and> list_all (\<lambda>b. b \<noteq> 0 \<and> b < 128) bs)"

lemma ascii_query_text:
  assumes "ascii_query q"
  shows "c_string (q_name q) = Inr (query_text q)" "list_all ascii_char (query_text q)"
proof -
  from assms obtain bs where bs: "q_name q = bs @ [0]" "list_all (\<lambda>b. b \<noteq> 0 \<and> b < 128) bs"
    by (auto simp: ascii_query_def)
  then show "c_string (q_name q) = Inr (query_text q)"
    using c_string_append_nul [of bs] by (auto simp: query_text_def list_all_iff)
  show "list_all ascii_char (query_text q)"
    using bs by (auto simp: query_text_def list_all_iff ascii_char_def word_less_nat_alt)
qed

text \<open>The records a query finds.\<close>

definition lookup_a :: "dns_database \<Rightarrow> dns_query \<Rightarrow> ip4_addr option" where
  "lookup_a db q = (case search_record_a db (query_text q) of Inr r \<Rightarrow> r | Inl _ \<Rightarrow> None)"

definition lookup_mx :: "dns_database \<Rightarrow> dns_query \<Rightarrow> string option" where
  "lookup_mx db q = (case search_record_mx db (query_text q) of Inr r \<Rightarrow> r | Inl _ \<Rightarrow> None)"

definition found :: "dns_database \<Rightarrow> dns_query \<Rightarrow> dns_answer list" where
  "found db q =
     (if q_type q = type_a then (case lookup_a db q of None \<Rightarrow> [] | Some r \<Rightarrow> [answer_a q r])
      else if q_type q = type_mx then (case lookup_mx db q of None \<Rightarrow> [] | Some r \<Rightarrow> [answer_mx q r]) else [])"

lemma start_of_authority_undefined [simp]: "get_my_start_of_authority = Inl Undefined"
  by (simp add: get_my_start_of_authority_def convert_to_rdata_soa_def local_range_def Let_def)

lemma answer_query_found:
  assumes "wf_database db" and "ascii_query q"
  shows "answer_query db q = (if found db q = [] then Inl Undefined else Inr (found db q, []))"
proof -
  obtain ra rm where "search_record_a db (query_text q) = Inr ra" "search_record_mx db (query_text q) = Inr rm"
    using search_record_total [OF assms(1) ascii_query_text(2) [OF assms(2)]] by blast
  then show ?thesis
    by (auto simp: answer_query_def found_def lookup_a_def lookup_mx_def ascii_query_text(1) [OF assms(2)] split: option.splits)
qed

lemma answer_all_found:
  assumes "wf_database db" and "list_all ascii_query qs"
  shows "answer_all db qs = (if list_all (\<lambda>q. found db q \<noteq> []) qs then Inr (concat (map (found db) qs), []) else Inl Undefined)"
  using assms(2) by (induction qs) (simp_all add: answer_query_found [OF assms(1)])

lemma length_found: "length (found db q) \<le> 1"
  by (simp add: found_def split: option.split)

lemma length_all_found: "list_all (\<lambda>q. found db q \<noteq> []) qs \<Longrightarrow> length (concat (map (found db) qs)) = length qs"
proof (induction qs)
  case (Cons q qs)
  then show ?case using length_found [of db q] by (cases "found db q") auto
qed simp

section \<open>One question and its answer on the wire\<close>

lemma length_encode_loop: "length (encode_loop label p) \<le> length label + length p"
  by (induction label p rule: encode_loop.induct) (auto simp: le_Suc_eq)

lemma length_encode_dns_name: "length (encode_dns_name n) \<le> length n + 1"
  using length_encode_loop [of "[]" n] by (simp add: encode_dns_name_def)

lemma request_ok:
  assumes "name_ok (q_name q)"
  shows "message_ok (request_message u q)" "length (message_bytes (request_message u q)) \<le> length (q_name q) + 17"
  using assms length_encode_dns_name [of "q_name q"]
  by (simp_all add: message_ok_def request_message_def header_ok_def query_ok_def message_bytes_def header_bytes_def write_dns_query_def)

text \<open>The server's reply to a question with an address record.\<close>

definition address_reply :: "dns_header \<Rightarrow> u16 \<Rightarrow> dns_query \<Rightarrow> ip4_addr \<Rightarrow> dns_message" where
  "address_reply u i q a =
     \<lparr>msg_header = u\<lparr>dns_id := i, qr := 1, opcode := 0, aa := 0, tc := 0, rd := 0, ra := 0, rcode := 0,
        query_count := 1, ans_count := 1, auth_count := 0, add_count := 0\<rparr>,
      queries = [q], ans = [answer_a q a], ans_auth = [], ans_addit = []\<rparr>"

lemma address_reply_ok:
  assumes "name_ok (q_name q)"
  shows "message_ok (address_reply u i q a)"
    "length (message_bytes (address_reply u i q a)) \<le> 2 * length (q_name q) + 32"
  using assms length_encode_dns_name [of "q_name q"]
  by (simp_all add: message_ok_def address_reply_def header_ok_def query_ok_def answer_ok_def answer_a_def
      message_bytes_def header_bytes_def write_dns_query_def answer_bytes_def)

lemma server_address_reply:
  assumes "wf_database db" and "ascii_query q" and "q_type q = type_a"
    and "search_record_a db (query_text q) = Inr (Some a)"
    and "name_ok (q_name q)" and "length (q_name q) \<le> 256"
  shows "dns_server_handle u db (Some s) (request_message u' q)
    = Inr [(s, message_bytes (address_reply u 0x8950 q a))]"
proof -
  have "found db q = [answer_a q a]" using assms by (simp add: found_def lookup_a_def)
  then have "handle_query u db (request_message u' q) = Inr (address_reply u 0x8950 q a)"
    using answer_query_found [OF assms(1,2)]
    by (simp add: handle_query_def request_message_def address_reply_def)
  then show ?thesis
    using address_reply_ok [OF assms(5), of u "0x8950" a] assms(6)
    by (simp add: dns_server_handle_def write_message_ok store_at_def)
qed

section \<open>Properties\<close>

text \<open>C12: What the server answers to a query message with ASCII names on a well-formed database.  When every query
  finds a record, the reply has the identifier and the queries of the request, as a response without any flag, the
  records found, one a query and in their order, and the counts of its sections.  When one finds none, or is of a type
  that is not supported, the answer is undefined behaviour: the start of authority it would carry is copied between
  different variables.\<close>

theorem dns_handle_query_complete:
  assumes "wf_database db" and "list_all ascii_query (queries msg)"
    and "unat (query_count (msg_header msg)) = length (queries msg)"
  shows "handle_query u db msg =
    (if list_all (\<lambda>q. found db q \<noteq> []) (queries msg)
     then Inr \<lparr>msg_header = u\<lparr>dns_id := dns_id (msg_header msg), qr := 1, opcode := 0, aa := 0, tc := 0, rd := 0, ra := 0,
              rcode := 0, query_count := query_count (msg_header msg), ans_count := query_count (msg_header msg),
              auth_count := 0, add_count := 0\<rparr>,
            queries = queries msg, ans = concat (map (found db) (queries msg)), ans_auth = [], ans_addit = []\<rparr>
     else Inl Undefined)"
proof -
  have "word_of_nat (length (queries msg)) = query_count (msg_header msg)"
    unfolding assms(3) [symmetric] by simp
  then show ?thesis
    by (simp add: handle_query_eq [OF assms(3)] answer_all_found [OF assms(1,2)] length_all_found del: length_concat)
qed

lemma sample_database: "\<exists>db. load_records_a u (empty_database u) [(''a'', Ip4_addr 1 2 3 4)] = Inr db
    \<and> wf_database db \<and> search_record_a db ''a'' = Inr (Some (Ip4_addr 1 2 3 4))"
  using loaded_a [OF wf_empty_database, of "[(''a'', Ip4_addr 1 2 3 4)]" "''a''" u u]
  by (simp add: ascii_name_def ascii_char_def)

theorem dns_handle_query_complete_witness:
  "\<forall>u. \<exists>db reply. handle_query u db (request_message u (make_dns_query [0x61] type_a class_in)) = Inr reply
    \<and> ans reply = [answer_a (make_dns_query [0x61] type_a class_in) (Ip4_addr 1 2 3 4)]
    \<and> handle_query u db (request_message u (make_dns_query [0x61] type_soa class_in)) = Inl Undefined"
proof (rule allI)
  fix u
  obtain db where db: "wf_database db" "search_record_a db ''a'' = Inr (Some (Ip4_addr 1 2 3 4))"
    using sample_database by blast
  let ?q = "make_dns_query [0x61] type_a class_in" and ?n = "make_dns_query [0x61] type_soa class_in"
  have qt: "query_text ?q = ''a''" by (simp add: query_text_def make_dns_query_def) code_simp
  have ok: "ascii_query ?q" "ascii_query ?n"
    unfolding ascii_query_def by (auto intro!: exI [of _ "[0x61]"] simp: make_dns_query_def)
  have "found db ?q = [answer_a ?q (Ip4_addr 1 2 3 4)]"
    using db(2) by (simp add: found_def lookup_a_def qt) (simp add: make_dns_query_def)
  moreover have "found db ?n = []" by (simp add: found_def make_dns_query_def dns_type_defs)
  ultimately show "\<exists>db reply. handle_query u db (request_message u ?q) = Inr reply
    \<and> ans reply = [answer_a ?q (Ip4_addr 1 2 3 4)] \<and> handle_query u db (request_message u ?n) = Inl Undefined"
    using dns_handle_query_complete [OF db(1), of "request_message u ?q" u]
      dns_handle_query_complete [OF db(1), of "request_message u ?n" u] ok
    by (intro exI [of _ db]) (auto simp: request_message_def)
qed

text \<open>C32: The client's loop ends with the first message that has its identifier; until then it has sent
  the request once, and once more for every time-out.\<close>

theorem dns_send_requests_reply:
  assumes "dns_id (msg_header reply) = dns_id (msg_header msg)"
    and "list_all (\<lambda>r. case r of None \<Rightarrow> True | Some m \<Rightarrow> dns_id (msg_header m) \<noteq> dns_id (msg_header msg)) before"
  shows "send_requests msg (before @ Some reply # after) = (Some reply, 1 + length (filter (\<lambda>r. r = None) before))"
proof -
  have "request_loop (dns_id (msg_header msg)) (before @ Some reply # after) n
      = (Some reply, n + length (filter (\<lambda>r. r = None) before))" for n
    using assms(2)
  proof (induction before arbitrary: n)
    case (Cons r before)
    then show ?case by (cases r) auto
  qed (simp add: assms(1))
  then show ?thesis by (simp add: send_requests_def)
qed

theorem dns_send_requests_reply_witness:
  "send_requests sample_message [None, Some sample_message] = (Some sample_message, 2)"
  using dns_send_requests_reply [of sample_message sample_message "[None]" "[]"] by simp

text \<open>A question travels to the server and its answer back: for a stored ASCII name, the client's
  request datagram is parsed by the server into the client's message, the server's reply datagram is parsed by
  the client into a message that ends its loop, and the only answer in it is the stored address.\<close>

theorem dns_question_answered:
  assumes "wf_database db" and "ascii_query q" and "q_type q = type_a"
    and "search_record_a db (query_text q) = Inr (Some a)"
    and "name_ok (q_name q)" and "length (q_name q) \<le> 256"
  shows "\<exists>request reply_frame reply.
      dns_send (Some server) (request_message u q) = Inr [(server, request)]
    \<and> (\<exists>msg. dns_recv request = Some (Inr msg)
          \<and> dns_server_handle u' db (Some client) msg = Inr [(client, reply_frame)])
    \<and> dns_recv reply_frame = Some (Inr reply)
    \<and> send_requests (request_message u q) [Some reply] = (Some reply, 1)
    \<and> ans reply = [answer_a q a]"
proof -
  let ?m = "request_message u q" and ?r = "address_reply u' 0x8950 q a"
  have "dns_send (Some server) ?m = Inr [(server, message_bytes ?m)]"
    using request_ok [OF assms(5), of u] assms(6) by (simp add: dns_send_def write_message_ok store_at_def)
  moreover have "dns_recv (message_bytes ?m) = Some (Inr ?m)"
    using extract_message_bytes [OF request_ok(1) [OF assms(5)], of u "[]"] by (simp add: dns_recv_def)
  moreover have "dns_recv (message_bytes ?r) = Some (Inr ?r)"
    using extract_message_bytes [OF address_reply_ok(1) [OF assms(5)], of u' "0x8950" a "[]"] by (simp add: dns_recv_def)
  moreover have "send_requests ?m [Some ?r] = (Some ?r, 1)" "ans ?r = [answer_a q a]"
    by (simp_all add: send_requests_def request_message_def address_reply_def)
  ultimately show ?thesis using server_address_reply [OF assms, of u' client u] by blast
qed

theorem dns_question_answered_witness:
  "\<forall>u u'. \<exists>db request reply_frame reply msg.
      dns_send (Some ()) (request_message u (make_dns_query [0x61] type_a class_in)) = Inr [((), request)]
    \<and> dns_recv request = Some (Inr msg) \<and> dns_server_handle u' db (Some ()) msg = Inr [((), reply_frame)]
    \<and> dns_recv reply_frame = Some (Inr reply)
    \<and> ans reply = [answer_a (make_dns_query [0x61] type_a class_in) (Ip4_addr 1 2 3 4)]"
proof (intro allI)
  fix u u'
  obtain db where db: "wf_database db" "search_record_a db ''a'' = Inr (Some (Ip4_addr 1 2 3 4))"
    using sample_database by blast
  let ?q = "make_dns_query [0x61] type_a class_in"
  have qt: "query_text ?q = ''a''" by (simp add: query_text_def make_dns_query_def) code_simp
  have "ascii_query ?q" unfolding ascii_query_def by (rule exI [of _ "[0x61]"]) (simp add: make_dns_query_def)
  then show "\<exists>db request reply_frame reply msg.
      dns_send (Some ()) (request_message u ?q) = Inr [((), request)]
    \<and> dns_recv request = Some (Inr msg) \<and> dns_server_handle u' db (Some ()) msg = Inr [((), reply_frame)]
    \<and> dns_recv reply_frame = Some (Inr reply) \<and> ans reply = [answer_a ?q (Ip4_addr 1 2 3 4)]"
    using dns_question_answered [of db ?q "Ip4_addr 1 2 3 4" "()" u u' "()"] db qt sample_name
    by (fastforce simp: make_dns_query_def)
qed

end
