(* ===== verification/Multiplexer.thy ===== *)
theory Multiplexer
  imports Prelude "HOL-Library.Multiset"
begin

text \<open>
  The packet multiplexer (\<^verbatim>\<open>src/utils/multiplexer.h\<close>): handlers with requirements on the components
  of a tuple, and a lookup that walks, component by component, the handlers registered for the component's value,
  counting for each handler the requirements it has met.  Counters are not cleared between lookups: each
  lookup takes a new identifier, and a counter with another identifier counts as zero.  The template's list of
  component types is one type \<open>'v\<close> here (a sum when they differ), and the tuple is a list.  The lemmas show
  that the counting computes the filter a reader expects.
\<close>

section \<open>State\<close>

record 'd handler =
  last_id :: nat
  no_reqs :: nat
  reqs_satisfied :: nat
  data :: 'd

record ('d, 'v) multiplexer =
  unique_id :: nat
  handlers_pool :: "'d handler list"
  maps :: "('v \<Rightarrow> nat list) list"

definition new_multiplexer :: "nat \<Rightarrow> ('d, 'v) multiplexer" where
  "new_multiplexer no_multiplexing_types =
     \<lparr>unique_id = 1, handlers_pool = [], maps = replicate no_multiplexing_types (\<lambda>_. [])\<rparr>"

section \<open>Operations\<close>

definition append_new_empty_handler :: "'d \<Rightarrow> ('d, 'v) multiplexer \<Rightarrow> ('d, 'v) multiplexer" where
  "append_new_empty_handler d m =
     m\<lparr>handlers_pool := handlers_pool m @ [\<lparr>last_id = 0, no_reqs = 0, reqs_satisfied = 0, data = d\<rparr>]\<rparr>"

text \<open>The index of the component is a template argument, checked when the program is compiled.\<close>

definition add_requirement_to_last_handler :: "nat \<Rightarrow> 'v \<Rightarrow> ('d, 'v) multiplexer \<Rightarrow> ('d, 'v) multiplexer result" where
  "add_requirement_to_last_handler i v m =
     (let mp = maps m ! i; pool = handlers_pool m in
      if pool = [] then Inl Undefined
      else Inr (m\<lparr>maps := (maps m)[i := mp(v := mp v @ [length pool - 1])],
                  handlers_pool := pool[length pool - 1 := (last pool)\<lparr>no_reqs := no_reqs (last pool) + 1\<rparr>]\<rparr>))"

text \<open>One round of the inner loop, on the pool and the result so far.\<close>

definition hit :: "nat \<Rightarrow> nat \<Rightarrow> 'd handler list \<times> 'd list \<Rightarrow> 'd handler list \<times> 'd list" where
  "hit uid h st =
     (let (pool, res) = st;
          cur = pool ! h;
          cur = (if last_id cur \<noteq> uid then cur\<lparr>last_id := uid, reqs_satisfied := 0\<rparr> else cur);
          cur = cur\<lparr>reqs_satisfied := reqs_satisfied cur + 1\<rparr>
      in (pool[h := cur], if reqs_satisfied cur = no_reqs cur then res @ [data cur] else res))"

fun rec_stream_array ::
  "nat \<Rightarrow> ('v \<Rightarrow> nat list) list \<Rightarrow> 'v list \<Rightarrow> 'd handler list \<times> 'd list \<Rightarrow> 'd handler list \<times> 'd list" where
  "rec_stream_array uid (mp # mps) (x # xs) st = rec_stream_array uid mps xs (fold (hit uid) (mp x) st)"
| "rec_stream_array uid _ _ st = st"

definition stream_array :: "'v list \<Rightarrow> ('d, 'v) multiplexer \<Rightarrow> ('d, 'v) multiplexer \<times> 'd list" where
  "stream_array arr m =
     (let uid = unique_id m + 1;
          (pool, res) = rec_stream_array uid (maps m) arr (handlers_pool m, [])
      in (m\<lparr>unique_id := uid, handlers_pool := pool\<rparr>, res))"

section \<open>What the counting computes\<close>

definition met :: "nat \<Rightarrow> 'd handler \<Rightarrow> nat" where
  "met uid h = (if last_id h = uid then reqs_satisfied h else 0)"

text \<open>After the hits \<open>hs\<close> every handler has been counted as often as it occurs, and the result holds the
  data of those whose count has reached their number of requirements.\<close>

definition counted_inv :: "nat \<Rightarrow> 'd handler list \<Rightarrow> nat list \<Rightarrow> 'd handler list \<times> 'd list \<Rightarrow> bool" where
  "counted_inv uid pool hs st \<longleftrightarrow>
     length (fst st) = length pool
     \<and> (\<forall>h < length pool. met uid (fst st ! h) = count_list hs h \<and> no_reqs (fst st ! h) = no_reqs (pool ! h)
          \<and> data (fst st ! h) = data (pool ! h) \<and> (last_id (fst st ! h) = last_id (pool ! h) \<or> last_id (fst st ! h) = uid))
     \<and> mset (snd st) = mset (map (\<lambda>h. data (pool ! h))
         (filter (\<lambda>h. no_reqs (pool ! h) \<noteq> 0 \<and> no_reqs (pool ! h) \<le> count_list hs h) [0..<length pool]))"

lemma rec_stream_array_fold:
  "length xs = length mps \<Longrightarrow>
   rec_stream_array uid mps xs st = fold (hit uid) (concat (map2 (\<lambda>mp x. mp x) mps xs)) st"
  by (induction mps xs arbitrary: st rule: list_induct2') auto

lemma count_filter_upt: "count (mset (filter R [0..<n])) x = (if R x \<and> x < n then 1 else 0)"
  by (induction n) (auto simp: less_Suc_eq)

lemma filter_upt_insert:
  assumes "h < n" and "\<not> P h" and "\<And>i. i < n \<Longrightarrow> Q i \<longleftrightarrow> P i \<or> i = h"
  shows "mset (filter Q [0..<n]) = mset (filter P [0..<n]) + {#h#}"
proof (rule multiset_eqI)
  fix x
  show "count (mset (filter Q [0..<n])) x = count (mset (filter P [0..<n]) + {#h#}) x"
    using assms unfolding count_union count_filter_upt by auto
qed

lemma count_list_snoc: "count_list (hs @ [h]) i = count_list hs i + (if i = h then 1 else 0)"
  by (induction hs) auto

lemma counted_start: "\<forall>h < length pool. last_id (pool ! h) \<noteq> uid \<Longrightarrow> counted_inv uid pool [] (pool, [])"
  by (auto simp: counted_inv_def met_def filter_empty_conv simp flip: mset_filter)

lemma counted_hit:
  assumes inv: "counted_inv uid pool hs st" and h: "h < length pool"
  shows "counted_inv uid pool (hs @ [h]) (hit uid h st)"
proof -
  obtain p res where st: "st = (p, res)" by (cases st)
  note i = inv [unfolded counted_inv_def st fst_conv snd_conv]
  let ?c = "met uid (p ! h) + 1"
  let ?new = "(p ! h)\<lparr>last_id := uid, reqs_satisfied := ?c\<rparr>"
  have len: "length p = length pool" and c: "?c = count_list (hs @ [h]) h"
    and nr: "no_reqs (p ! h) = no_reqs (pool ! h)" and dt: "data (p ! h) = data (pool ! h)"
    using i h by (simp_all add: count_list_snoc)
  have hit: "hit uid h (p, res) = (p[h := ?new], if ?c = no_reqs (pool ! h) then res @ [data (pool ! h)] else res)"
    using nr dt by (cases "p ! h") (simp add: hit_def met_def Let_def)
  have each: "\<forall>k < length pool. met uid (p[h := ?new] ! k) = count_list (hs @ [h]) k
      \<and> no_reqs (p[h := ?new] ! k) = no_reqs (pool ! k) \<and> data (p[h := ?new] ! k) = data (pool ! k)
      \<and> (last_id (p[h := ?new] ! k) = last_id (pool ! k) \<or> last_id (p[h := ?new] ! k) = uid)"
    using i h len c nr dt by (auto simp: nth_list_update met_def count_list_snoc)
  let ?P = "\<lambda>hs k. no_reqs (pool ! k) \<noteq> 0 \<and> no_reqs (pool ! k) \<le> count_list hs k"
  have "mset (if ?c = no_reqs (pool ! h) then res @ [data (pool ! h)] else res)
      = mset (map (\<lambda>k. data (pool ! k)) (filter (?P (hs @ [h])) [0..<length pool]))"
  proof (cases "?c = no_reqs (pool ! h)")
    case True
    have "mset (filter (?P (hs @ [h])) [0..<length pool]) = mset (filter (?P hs) [0..<length pool]) + {#h#}"
      by (rule filter_upt_insert [OF h]) (use True c in \<open>auto simp: count_list_snoc\<close>)
    then show ?thesis using True i by simp
  next
    case False
    have "?P (hs @ [h]) k \<longleftrightarrow> ?P hs k" for k using False c by (auto simp: count_list_snoc le_Suc_eq)
    then have "filter (?P (hs @ [h])) [0..<length pool] = filter (?P hs) [0..<length pool]" by simp
    then show ?thesis using False i by (simp only: if_False)
  qed
  then show ?thesis unfolding counted_inv_def st hit fst_conv snd_conv using each len by simp
qed

lemma counted_hits:
  assumes "counted_inv uid pool hs st" and "\<forall>h \<in> set ks. h < length pool"
  shows "counted_inv uid pool (hs @ ks) (fold (hit uid) ks st)"
  using assms
proof (induction ks arbitrary: hs st)
  case (Cons k ks)
  then show ?case using Cons.IH [OF counted_hit, of hs st k] by simp
qed simp

section \<open>The abstract multiplexer\<close>

text \<open>A handler is its data and its list of required components; a tuple reaches the handlers that
  require something and all of whose requirements it meets.\<close>

type_synonym ('d, 'v) spec_handler = "'d \<times> (nat \<times> 'v) list"

definition accepts :: "'v list \<Rightarrow> ('d, 'v) spec_handler \<Rightarrow> bool" where
  "accepts arr h \<longleftrightarrow> snd h \<noteq> [] \<and> (\<forall>(i, v) \<in> set (snd h). arr ! i = v)"

definition represents :: "('d, 'v) multiplexer \<Rightarrow> ('d, 'v) spec_handler list \<Rightarrow> bool" where
  "represents m hs \<longleftrightarrow>
     length (handlers_pool m) = length hs
     \<and> (\<forall>h < length hs. data (handlers_pool m ! h) = fst (hs ! h) \<and> no_reqs (handlers_pool m ! h) = length (snd (hs ! h))
          \<and> last_id (handlers_pool m ! h) \<le> unique_id m \<and> (\<forall>(i, v) \<in> set (snd (hs ! h)). i < length (maps m)))
     \<and> (\<forall>i < length (maps m). \<forall>v. (\<forall>h \<in> set ((maps m ! i) v). h < length hs)
          \<and> (\<forall>h < length hs. count_list ((maps m ! i) v) h = count_list (snd (hs ! h)) (i, v)))"

lemma represents_new: "represents (new_multiplexer n) []"
  by (simp add: represents_def new_multiplexer_def)

lemma represents_append: "represents m hs \<Longrightarrow> represents (append_new_empty_handler d m) (hs @ [(d, [])])"
proof -
  assume r: "represents m hs"
  have "count_list ((maps m ! i) v) (length hs) = 0" if "i < length (maps m)" for i v
  proof -
    have "length hs \<notin> set ((maps m ! i) v)" using r that unfolding represents_def by blast
    then show ?thesis by (simp add: count_list_0_iff)
  qed
  then show ?thesis
    using r by (auto simp: represents_def append_new_empty_handler_def nth_append less_Suc_eq)
qed

lemma represents_requirement:
  assumes r: "represents m hs" and "hs \<noteq> []" and i: "i < length (maps m)"
  shows "\<exists>m'. add_requirement_to_last_handler i v m = Inr m'
    \<and> represents m' (butlast hs @ [(fst (last hs), snd (last hs) @ [(i, v)])])"
proof -
  obtain hs0 d rs where hs: "hs = hs0 @ [(d, rs)]" using assms(2) by (cases hs rule: rev_cases) auto
  obtain p0 last_h where p: "handlers_pool m = p0 @ [last_h]" and len: "length p0 = length hs0"
    using r hs by (cases "handlers_pool m" rule: rev_cases) (auto simp: represents_def)
  let ?m = "m\<lparr>maps := (maps m)[i := (maps m ! i)(v := (maps m ! i) v @ [length hs0])],
              handlers_pool := p0 @ [last_h\<lparr>no_reqs := no_reqs last_h + 1\<rparr>]\<rparr>"
  have m': "add_requirement_to_last_handler i v m = Inr ?m"
    using p by (simp add: add_requirement_to_last_handler_def Let_def list_update_append flip: len)
  have R: "\<forall>h < Suc (length hs0). data ((p0 @ [last_h]) ! h) = fst (hs ! h)
      \<and> no_reqs ((p0 @ [last_h]) ! h) = length (snd (hs ! h)) \<and> last_id ((p0 @ [last_h]) ! h) \<le> unique_id m
      \<and> (\<forall>(i, v) \<in> set (snd (hs ! h)). i < length (maps m))"
    using r hs p by (simp add: represents_def)
  have M: "\<forall>i < length (maps m). \<forall>v. (\<forall>h \<in> set ((maps m ! i) v). h < Suc (length hs0))
      \<and> (\<forall>h < Suc (length hs0). count_list ((maps m ! i) v) h = count_list (snd (hs ! h)) (i, v))"
    using r hs by (simp add: represents_def)
  have pool: "\<forall>h < Suc (length hs0). data ((p0 @ [last_h\<lparr>no_reqs := no_reqs last_h + 1\<rparr>]) ! h) = fst ((hs0 @ [(d, rs @ [(i, v)])]) ! h)
      \<and> no_reqs ((p0 @ [last_h\<lparr>no_reqs := no_reqs last_h + 1\<rparr>]) ! h) = length (snd ((hs0 @ [(d, rs @ [(i, v)])]) ! h))
      \<and> last_id ((p0 @ [last_h\<lparr>no_reqs := no_reqs last_h + 1\<rparr>]) ! h) \<le> unique_id m
      \<and> (\<forall>(j, v) \<in> set (snd ((hs0 @ [(d, rs @ [(i, v)])]) ! h)). j < length (maps m))"
    using R hs len i by (auto simp: nth_append less_Suc_eq)
  have mp: "\<forall>j < length (maps m). \<forall>w.
      (\<forall>h \<in> set (((maps m)[i := (maps m ! i)(v := (maps m ! i) v @ [length hs0])] ! j) w). h < Suc (length hs0))
      \<and> (\<forall>h < Suc (length hs0). count_list (((maps m)[i := (maps m ! i)(v := (maps m ! i) v @ [length hs0])] ! j) w) h
          = count_list (snd ((hs0 @ [(d, rs @ [(i, v)])]) ! h)) (j, w))"
    using M hs i by (auto simp: nth_list_update count_list_snoc nth_append less_Suc_eq)
  show ?thesis
    using m' pool mp hs len by (simp add: represents_def)
qed

section \<open>Properties\<close>

lemma stream_hits:
  assumes r: "represents m hs" and len: "length arr = length (maps m)" and h: "h < length hs"
  shows "count_list (concat (map2 (\<lambda>mp x. mp x) (maps m) arr)) h
    = length (filter (\<lambda>(i, v). arr ! i = v) (snd (hs ! h)))"
proof -
  define rs where "rs = snd (hs ! h)"
  have c: "count_list ((maps m ! i) v) h = count_list rs (i, v)" if "i < length (maps m)" for i v
    using r h that by (auto simp: represents_def rs_def)
  have dims: "\<forall>(i, v) \<in> set rs. i < length (maps m)"
    using r h by (auto simp: represents_def rs_def)
  have "count_list (concat (map2 (\<lambda>mp x. mp x) mps xs)) h
      = (\<Sum>i < length mps. count_list ((mps ! i) (xs ! i)) h)" if "length mps = length xs" for mps :: "('b \<Rightarrow> nat list) list" and xs
    using that
  proof (induction mps xs rule: list_induct2)
    case (Cons mp mps x xs)
    then show ?case by (simp add: count_list_append lessThan_Suc_eq_insert_0 sum.reindex zero_notin_Suc_image del: sum.lessThan_Suc)
  qed simp
  then have "count_list (concat (map2 (\<lambda>mp x. mp x) (maps m) arr)) h
      = (\<Sum>i < length (maps m). count_list ((maps m ! i) (arr ! i)) h)" using len by simp
  also have "\<dots> = (\<Sum>i < length (maps m). count_list rs (i, arr ! i))" by (simp add: c)
  also have "\<dots> = length (filter (\<lambda>(i, v). arr ! i = v) rs)"
    using dims
  proof (induction rs)
    case (Cons x rs)
    obtain j w where x: "x = (j, w)" by (cases x)
    have j: "j < length (maps m)" using Cons.prems x by auto
    have "(\<Sum>i < length (maps m). count_list (x # rs) (i, arr ! i))
        = (\<Sum>i < length (maps m). count_list rs (i, arr ! i) + (if i = j then of_bool (arr ! j = w) else 0))"
      by (rule sum.cong) (auto simp: x)
    also have "\<dots> = length (filter (\<lambda>(i, v). arr ! i = v) rs) + of_bool (arr ! j = w)"
      using Cons j by (simp add: sum.distrib)
    finally show ?case by (simp add: x)
  qed simp
  finally show ?thesis by (simp add: rs_def)
qed

lemma accepts_filter:
  "accepts arr h \<longleftrightarrow> snd h \<noteq> [] \<and> length (snd h) \<le> length (filter (\<lambda>(i, v). arr ! i = v) (snd h))"
proof -
  have "(\<forall>(i, v) \<in> set rs. arr ! i = v) \<longleftrightarrow> length rs \<le> length (filter (\<lambda>(i, v). arr ! i = v) rs)" for rs :: "(nat \<times> 'a) list"
    by (induction rs) (auto simp: le_Suc_eq dest: le_trans [OF _ length_filter_le] not_less_eq_eq [THEN iffD2])
  then show ?thesis by (auto simp: accepts_def)
qed

lemma map_filter_upt: "map (\<lambda>h. fst (hs ! h)) (filter (\<lambda>h. P (hs ! h)) [0..<length hs]) = map fst (filter P hs)"
proof -
  have "map fst (filter P (map (\<lambda>h. hs ! h) [0..<length hs])) = map (\<lambda>h. fst (hs ! h)) (filter (\<lambda>h. P (hs ! h)) [0..<length hs])"
    by (simp add: filter_map comp_def)
  then show ?thesis by (simp add: map_nth)
qed

text \<open>C20: The multiplexer refines its specification: a new multiplexer has no handler, appending adds a handler
  without requirements, adding a requirement adds it to the last handler, and a lookup leaves the handlers as
  they are and returns, each once, the data of exactly those handlers that have a requirement and all of
  whose requirements the tuple meets, whatever was looked up before.\<close>

theorem multiplexer_refines:
  assumes r: "represents m hs"
  shows "represents (append_new_empty_handler d m) (hs @ [(d, [])])
   \<and> (hs \<noteq> [] \<and> i < length (maps m) \<longrightarrow> (\<exists>m'. add_requirement_to_last_handler i v m = Inr m'
        \<and> represents m' (butlast hs @ [(fst (last hs), snd (last hs) @ [(i, v)])])))
   \<and> (length arr = length (maps m) \<longrightarrow> represents (fst (stream_array arr m)) hs
        \<and> mset (snd (stream_array arr m)) = mset (map fst (filter (accepts arr) hs)))"
proof (intro conjI impI)
  show "represents (append_new_empty_handler d m) (hs @ [(d, [])])" by (rule represents_append [OF r])
  show "\<exists>m'. add_requirement_to_last_handler i v m = Inr m'
        \<and> represents m' (butlast hs @ [(fst (last hs), snd (last hs) @ [(i, v)])])"
    if "hs \<noteq> [] \<and> i < length (maps m)" using represents_requirement [OF r] that by blast
  assume len: "length arr = length (maps m)"
  let ?uid = "unique_id m + 1" and ?hits = "concat (map2 (\<lambda>mp x. mp x) (maps m) arr)"
  obtain p res where st: "fold (hit ?uid) ?hits (handlers_pool m, []) = (p, res)" by fastforce
  have fresh: "\<forall>h < length (handlers_pool m). last_id (handlers_pool m ! h) \<noteq> ?uid"
    using r by (force simp: represents_def)
  have "\<forall>h \<in> set ?hits. h < length (handlers_pool m)"
    using r len by (auto simp: represents_def set_zip)
  from counted_hits [OF counted_start [OF fresh] this]
  have inv: "counted_inv ?uid (handlers_pool m) ?hits (p, res)" by (simp only: st append_Nil)
  have stream: "stream_array arr m = (m\<lparr>unique_id := ?uid, handlers_pool := p\<rparr>, res)"
    using st by (simp add: stream_array_def Let_def rec_stream_array_fold [OF len])
  have last: "last_id (p ! h) \<le> ?uid" if "h < length hs" for h
    using r inv that by (fastforce simp: represents_def counted_inv_def)
  then show "represents (fst (stream_array arr m)) hs"
    using r inv by (simp add: stream represents_def counted_inv_def)
  have "mset res = mset (map (\<lambda>h. fst (hs ! h)) (filter (\<lambda>h. accepts arr (hs ! h)) [0..<length hs]))"
  proof -
    have "mset res = mset (map (\<lambda>h. data (handlers_pool m ! h)) (filter (\<lambda>h. no_reqs (handlers_pool m ! h) \<noteq> 0
        \<and> no_reqs (handlers_pool m ! h) \<le> count_list ?hits h) [0..<length hs]))"
      using inv r by (simp add: counted_inv_def represents_def)
    also have "filter (\<lambda>h. no_reqs (handlers_pool m ! h) \<noteq> 0 \<and> no_reqs (handlers_pool m ! h) \<le> count_list ?hits h) [0..<length hs]
        = filter (\<lambda>h. accepts arr (hs ! h)) [0..<length hs]"
      using r by (intro filter_cong refl) (auto simp: stream_hits [OF r len] accepts_filter represents_def)
    also have "map (\<lambda>h. data (handlers_pool m ! h)) \<dots> = map (\<lambda>h. fst (hs ! h)) \<dots>"
      using r by (intro map_cong refl) (auto simp: represents_def)
    finally show ?thesis .
  qed
  then show "mset (snd (stream_array arr m)) = mset (map fst (filter (accepts arr) hs))"
    by (simp only: map_filter_upt stream snd_conv)
qed

theorem multiplexer_refines_witness:
  "\<exists>m :: (nat, nat) multiplexer. represents m [(5, [(0, 8), (1, 9)])] \<and> mset (snd (stream_array [8, 9] m)) = {#5#}
     \<and> mset (snd (stream_array [8, 7] m)) = {#}"
proof -
  let ?m0 = "append_new_empty_handler 5 (new_multiplexer 2) :: (nat, nat) multiplexer"
  have r0: "represents ?m0 [(5, [])]"
    using represents_append [OF represents_new [of 2, where ?'a = nat and ?'b = nat], of 5] by simp
  have d0: "length (maps ?m0) = 2" by (simp add: append_new_empty_handler_def new_multiplexer_def)
  obtain m1 where m1: "add_requirement_to_last_handler 0 8 ?m0 = Inr m1" "represents m1 [(5, [(0, 8)])]"
    using represents_requirement [OF r0, of 0 8] d0 by auto
  have d1: "length (maps m1) = 2" using m1(1) d0 by (auto simp: add_requirement_to_last_handler_def Let_def split: if_splits)
  obtain m2 where m2: "add_requirement_to_last_handler 1 9 m1 = Inr m2" "represents m2 [(5, [(0, 8), (1, 9)])]"
    using represents_requirement [OF m1(2), of 1 9] d1 by auto
  have d2: "length (maps m2) = 2" using m2(1) d1 by (auto simp: add_requirement_to_last_handler_def Let_def split: if_splits)
  show ?thesis
    using multiplexer_refines [OF m2(2), of 0 0 0 "[8, 9]"] multiplexer_refines [OF m2(2), of 0 0 0 "[8, 7]"] m2(2) d2
    by (intro exI [of _ m2]) (simp add: accepts_def)
qed

end
