(* ===== verification/Msg_Boundary.thy ===== *)
theory Msg_Boundary
  imports Prelude
begin

text \<open>
  The message boundary protocol (\<^verbatim>\<open>src/protocols/msg_boundary/msg_boundary_seperator.h\<close>, with the
  default 16-bit size field): a sender that puts the size of a message in front of it, in host byte order, and
  a receiver that cuts a stream arriving in arbitrary packets back into messages.  The receiver keeps the
  message under construction between packets; its counters are \<^verbatim>\<open>uint16_t\<close>.  The reference is
  \<open>frames\<close>, which cuts a whole stream at once; the lemmas show that the receiver computes it packet by packet as
  long as no packet ends inside a size field, and that it reads past the packet when one does.
\<close>

section \<open>Sending\<close>

text \<open>\<open>data\<close> is the active buffer; its count is narrowed to the size field.\<close>

definition boundary_send :: "bytes \<Rightarrow> bytes" where
  "boundary_send data =
     (let sz = word_of_nat (length data) :: u16 in store16 sz @ take (unat sz) data)"

section \<open>Receiving\<close>

record boundary =
  mid_packet :: bool
  curr_msg :: bytes
  curr_read :: u16

definition new_boundary :: "u16 \<Rightarrow> boundary" where
  "new_boundary u = \<lparr>mid_packet = False, curr_msg = [], curr_read = u\<rparr>"

text \<open>The body of the loop: an optional size field, the copy, and an optional complete message.\<close>

definition read_size :: "boundary \<Rightarrow> bytes \<Rightarrow> u16 \<Rightarrow> (boundary \<times> bytes \<times> u16) result" where
  "read_size s buff cnt =
     (if \<not> mid_packet s then
        bind_r (load16 buff) (\<lambda>(curr_sz, buff).
        Inr (s\<lparr>mid_packet := True, curr_msg := replicate (unat curr_sz) 0, curr_read := 0\<rparr>, buff, cnt - 2))
      else Inr (s, buff, cnt))"

definition read_body :: "boundary \<Rightarrow> bytes \<Rightarrow> u16 \<Rightarrow> (boundary \<times> bytes \<times> u16 \<times> bytes list) result" where
  "read_body s buff cnt =
     (let read_left = word_of_nat (length (curr_msg s)) - curr_read s;
          reading = min cnt read_left
      in if length buff < unat reading then Inl Overread
         else bind_r (store_at (unat (curr_read s)) (take (unat reading) buff) (curr_msg s)) (\<lambda>msg.
           let s = s\<lparr>curr_msg := msg, curr_read := curr_read s + reading\<rparr>;
               buff = drop (unat reading) buff; cnt = cnt - reading
           in if unat (curr_read s) = length (curr_msg s)
              then Inr (s\<lparr>mid_packet := False, curr_msg := []\<rparr>, buff, cnt, [curr_msg s])
              else Inr (s, buff, cnt, [])))"

definition boundary_step :: "boundary \<Rightarrow> bytes \<Rightarrow> u16 \<Rightarrow> (boundary \<times> bytes \<times> u16 \<times> bytes list) result" where
  "boundary_step s buff cnt = bind_r (read_size s buff cnt) (\<lambda>(s, buff, cnt). read_body s buff cnt)"

partial_function (option) boundary_loop ::
  "boundary \<Rightarrow> bytes \<Rightarrow> u16 \<Rightarrow> bytes list \<Rightarrow> (boundary \<times> bytes list) result option" where
  "boundary_loop s buff cnt out =
     (if cnt = 0 then Some (Inr (s, out))
      else case boundary_step s buff cnt of
             Inl e \<Rightarrow> Some (Inl e)
           | Inr (s', buff', cnt', o') \<Rightarrow> boundary_loop s' buff' cnt' (out @ o'))"

text \<open>\<^verbatim>\<open>handle_callback\<close>: the new state and the messages handed on.\<close>

definition boundary_handle :: "boundary \<Rightarrow> bytes \<Rightarrow> (boundary \<times> bytes list) result option" where
  "boundary_handle s packet = boundary_loop s packet (word_of_nat (length packet)) []"

fun boundary_run :: "boundary \<Rightarrow> bytes list \<Rightarrow> bytes list \<Rightarrow> (boundary \<times> bytes list) result option" where
  "boundary_run s [] out = Some (Inr (s, out))"
| "boundary_run s (packet # packets) out =
     bind_ro (boundary_handle s packet) (\<lambda>(s, ms). boundary_run s packets (out @ ms))"

section \<open>The stream it decodes\<close>

text \<open>The complete messages of a stream, and what is left.\<close>

function frames :: "bytes \<Rightarrow> bytes list \<times> bytes" where
  "frames (a # b # p) =
     (let n = unat (join16 a b) in
      if n \<le> length p then (let (ms, r) = frames (drop n p) in (take n p # ms, r)) else ([], a # b # p))"
| "frames [] = ([], [])"
| "frames [a] = ([], [a])"
  by pat_completeness auto
termination by (relation "measure length") auto

declare frames.simps(1) [simp del]

text \<open>What the state has consumed of a message that is not complete.\<close>

definition pending :: "boundary \<Rightarrow> bytes" where
  "pending s = (if mid_packet s then store16 (word_of_nat (length (curr_msg s))) @ take (unat (curr_read s)) (curr_msg s) else [])"

definition wf_boundary :: "boundary \<Rightarrow> bool" where
  "wf_boundary s \<longleftrightarrow> (mid_packet s \<longrightarrow> length (curr_msg s) < 65536 \<and> unat (curr_read s) < length (curr_msg s))"

lemma unat_small: "n < 65536 \<Longrightarrow> unat (word_of_nat n :: u16) = n"
  by (simp add: unat_of_nat)

lemma frames_store16:
  "n < 65536 \<Longrightarrow> frames (store16 (word_of_nat n) @ p) =
     (if n \<le> length p then (let (ms, r) = frames (drop n p) in (take n p # ms, r)) else ([], store16 (word_of_nat n) @ p))"
  by (simp add: store16_def frames.simps(1) unat_small)

text \<open>The body of the loop on a message of \<open>r + k\<close> bytes of which \<open>r\<close> have been read.\<close>

lemma min_word: "m < 65536 \<Longrightarrow> k < 65536 \<Longrightarrow> min (word_of_nat m) (word_of_nat k :: u16) = word_of_nat (min m k)"
  by (simp add: min_def word_le_nat_alt unat_small)

lemma read_body_eq:
  assumes n: "length (curr_msg s) = r + k" "curr_read s = word_of_nat r" "r + k < 65536" and len: "length buff < 65536"
  shows "read_body s buff (word_of_nat (length buff)) =
    (if k \<le> length buff
     then Inr (s\<lparr>mid_packet := False, curr_msg := [], curr_read := word_of_nat (r + k)\<rparr>, drop k buff,
               word_of_nat (length (drop k buff)), [take r (curr_msg s) @ take k buff])
     else Inr (s\<lparr>curr_msg := take r (curr_msg s) @ buff @ drop (r + length buff) (curr_msg s),
                 curr_read := word_of_nat (r + length buff)\<rparr>, [], 0, []))"
proof -
  have left: "word_of_nat (length (curr_msg s)) - curr_read s = (word_of_nat k :: u16)"
    by (simp add: n)
  have mn: "min (word_of_nat (length buff)) (word_of_nat k :: u16) = word_of_nat (min (length buff) k)"
    using len n(3) by (intro min_word) auto
  have r: "unat (word_of_nat r :: u16) = r" using n(3) by (simp add: unat_small)
  show ?thesis
  proof (cases "k \<le> length buff")
    case True
    then have m: "min (length buff) k = k" by simp
    have u: "unat (word_of_nat k :: u16) = k" "unat (word_of_nat r + word_of_nat k :: u16) = r + k"
      using n(3) by (simp_all add: unat_small flip: of_nat_add)
    have "word_of_nat (length buff) - word_of_nat k = (word_of_nat (length (drop k buff)) :: u16)"
      using True by (simp add: of_nat_diff)
    then show ?thesis
      using True n(1) unfolding read_body_def Let_def left mn m by (simp add: u r store_at_def n(2))
  next
    case False
    then have m: "min (length buff) k = length buff" by simp
    have u: "unat (word_of_nat (length buff) :: u16) = length buff" "unat (word_of_nat r + word_of_nat (length buff) :: u16) = r + length buff"
      using n(3) False len by (simp_all add: unat_small flip: of_nat_add)
    show ?thesis
      using False n(1) unfolding read_body_def Let_def left mn m by (simp add: u r store_at_def n(2) add.commute)
  qed
qed

text \<open>What a run of the loop must give for the stream \<open>t\<close>.\<close>

definition decodes :: "(boundary \<times> bytes list) result option \<Rightarrow> bytes list \<Rightarrow> bytes \<Rightarrow> bool" where
  "decodes r out t \<longleftrightarrow>
     (if length (snd (frames t)) = 1 then r = Some (Inl Overread)
      else \<exists>s. r = Some (Inr (s, out @ fst (frames t))) \<and> wf_boundary s \<and> pending s = snd (frames t))"

lemma decodes_message:
  assumes "n < 65536" and "n \<le> length p" and "decodes r (out @ [take n p]) (drop n p)"
  shows "decodes r out (store16 (word_of_nat n) @ p)"
  using assms by (auto simp: decodes_def frames_store16 case_prod_beta Let_def)

lemma join16_store16: "a # b # p = store16 (word_of_nat (unat (join16 a b))) @ p"
  by (simp add: store16_def)

text \<open>The part of the loop behind the size field.\<close>

lemma loop_body:
  assumes n: "length (curr_msg s) = r + k" "curr_read s = word_of_nat r" "r + k < 65536"
    and mid: "mid_packet s" and len: "length buff < 65536"
    and IH: "\<And>s' out. k \<le> length buff \<Longrightarrow> \<not> mid_packet s' \<Longrightarrow>
      decodes (boundary_loop s' (drop k buff) (word_of_nat (length (drop k buff))) out) out (drop k buff)"
  shows "decodes (case read_body s buff (word_of_nat (length buff)) of
        Inl e \<Rightarrow> Some (Inl e) | Inr (s', buff', cnt', o') \<Rightarrow> boundary_loop s' buff' cnt' (out @ o')) out
      (store16 (word_of_nat (r + k)) @ take r (curr_msg s) @ buff)"
proof (cases "k \<le> length buff")
  case True
  have "take (r + k) (take r (curr_msg s) @ buff) = take r (curr_msg s) @ take k buff"
    "drop (r + k) (take r (curr_msg s) @ buff) = drop k buff"
    using n(1) by simp_all
  then have "decodes (boundary_loop (s\<lparr>mid_packet := False, curr_msg := [], curr_read := word_of_nat (r + k)\<rparr>) (drop k buff)
      (word_of_nat (length (drop k buff))) (out @ [take r (curr_msg s) @ take k buff])) out
      (store16 (word_of_nat (r + k)) @ take r (curr_msg s) @ buff)"
    using n True IH by (intro decodes_message) (auto simp del: of_nat_add)
  then show ?thesis using True by (simp add: read_body_eq [OF n len] del: of_nat_add)
next
  case False
  let ?s = "s\<lparr>curr_msg := take r (curr_msg s) @ buff @ drop (r + length buff) (curr_msg s),
                 curr_read := word_of_nat (r + length buff)\<rparr>"
  let ?t = "store16 (word_of_nat (r + k)) @ take r (curr_msg s) @ buff"
  have msg: "length (curr_msg ?s) = r + k" "unat (curr_read ?s) = r + length buff"
    using False n by (simp_all add: unat_small del: of_nat_add)
  have "pending ?s = ?t" using mid msg n by (simp add: pending_def unat_small del: of_nat_add)
  moreover have "frames ?t = ([], ?t)" using False n by (simp add: frames_store16 del: of_nat_add)
  moreover have "wf_boundary ?s" using False msg n by (simp add: wf_boundary_def)
  moreover have "length ?t \<noteq> 1" by (simp add: store16_def)
  ultimately show ?thesis
    using False by (simp add: read_body_eq [OF n len] boundary_loop.simps decodes_def del: of_nat_add)
qed

lemma loop_decodes:
  assumes "wf_boundary s" and "length buff < 65536"
  shows "decodes (boundary_loop s buff (word_of_nat (length buff)) out) out (pending s @ buff)"
  using assms
proof (induction "length buff" arbitrary: s buff out rule: less_induct)
  case less
  show ?case
  proof (cases "buff = []")
    case True
    have t: "frames (pending s) = ([], pending s) \<and> length (pending s) \<noteq> 1"
    proof (cases "mid_packet s")
      case True
      let ?n = "length (curr_msg s)"
      have "?n < 65536" "unat (curr_read s) < ?n" using less.prems(1) True by (auto simp: wf_boundary_def)
      then show ?thesis using True by (simp add: pending_def frames_store16)
    qed (simp add: pending_def)
    then show ?thesis using True less.prems by (simp add: boundary_loop.simps decodes_def)
  next
    case False
    have cnt: "(word_of_nat (length buff) :: u16) \<noteq> 0"
      using False less.prems(2) by (metis length_0_conv unat_0 unat_small)
    have IH: "decodes (boundary_loop s' b (word_of_nat (length b)) out) out b"
      if "length b < length buff" "\<not> mid_packet s'" for s' b out
      using less.hyps [of b s' out] that less.prems(2) by (simp add: wf_boundary_def pending_def)
    show ?thesis
    proof (cases "mid_packet s")
      case True
      let ?r = "unat (curr_read s)" and ?k = "length (curr_msg s) - unat (curr_read s)"
      have r: "length (curr_msg s) < 65536" "?r < length (curr_msg s)" using less.prems(1) True by (auto simp: wf_boundary_def)
      then have n: "length (curr_msg s) = ?r + ?k" "curr_read s = word_of_nat ?r" "?r + ?k < 65536" "0 < ?k" by simp_all
      have step: "boundary_step s buff c = read_body s buff c" for c
        using True by (simp add: boundary_step_def read_size_def)
      have "pending s @ buff = store16 (word_of_nat (?r + ?k)) @ take ?r (curr_msg s) @ buff"
        using True r by (simp add: pending_def)
      moreover have "decodes (case read_body s buff (word_of_nat (length buff)) of
          Inl e \<Rightarrow> Some (Inl e) | Inr (s', buff', cnt', o') \<Rightarrow> boundary_loop s' buff' cnt' (out @ o')) out
        (store16 (word_of_nat (?r + ?k)) @ take ?r (curr_msg s) @ buff)"
      proof (rule loop_body [OF n(1-3) True less.prems(2)])
        fix s' :: boundary and out
        assume "\<not> mid_packet s'"
        then show "decodes (boundary_loop s' (drop ?k buff) (word_of_nat (length (drop ?k buff))) out) out (drop ?k buff)"
          by (intro IH) (use n(4) False in \<open>auto simp flip: length_greater_0_conv\<close>)
      qed
      ultimately show ?thesis using cnt by (simp add: boundary_loop.simps [of s buff] step)
    next
      case idle: False
      show ?thesis
      proof (cases buff)
        case (Cons a p0)
        show ?thesis
        proof (cases p0)
          case Nil
          then show ?thesis using idle cnt Cons
            by (simp add: boundary_loop.simps [of s "[a]"] boundary_step_def read_size_def pending_def decodes_def)
        next
          case (Cons b p)
          let ?n = "unat (join16 a b)"
          let ?s = "s\<lparr>mid_packet := True, curr_msg := replicate ?n 0, curr_read := 0\<rparr>"
          have buff: "buff = a # b # p" using Cons \<open>buff = a # p0\<close> by simp
          have "word_of_nat (length buff) - 2 = (word_of_nat (length p) :: u16)" by (simp add: buff)
          then have step: "boundary_step s buff (word_of_nat (length buff)) = read_body ?s p (word_of_nat (length p))"
            using idle by (simp add: boundary_step_def read_size_def buff)
          have "decodes (case read_body ?s p (word_of_nat (length p)) of
              Inl e \<Rightarrow> Some (Inl e) | Inr (s', buff', cnt', o') \<Rightarrow> boundary_loop s' buff' cnt' (out @ o')) out
            (store16 (word_of_nat (0 + ?n)) @ take 0 (curr_msg ?s) @ p)"
          proof (rule loop_body)
            fix s' :: boundary and out
            assume "\<not> mid_packet s'"
            then show "decodes (boundary_loop s' (drop ?n p) (word_of_nat (length (drop ?n p))) out) out (drop ?n p)"
              by (intro IH) (simp_all add: buff)
          qed (use less.prems(2) unat_u16_less [of "join16 a b"] buff in simp_all)
          moreover have "store16 (word_of_nat (0 + ?n)) @ take 0 (curr_msg ?s) @ p = pending s @ buff"
            using idle by (simp add: pending_def buff store16_def)
          moreover have "boundary_loop s buff (word_of_nat (length buff)) out
              = (case read_body ?s p (word_of_nat (length p)) of
                  Inl e \<Rightarrow> Some (Inl e) | Inr (s', buff', cnt', o') \<Rightarrow> boundary_loop s' buff' cnt' (out @ o'))"
            by (subst boundary_loop.simps) (simp only: cnt step if_False)
          ultimately show ?thesis by (simp only:)
        qed
      qed (use False in simp)
    qed
  qed
qed

section \<open>Streams of packets\<close>

lemma frames_append:
  "frames (t @ u) = (fst (frames t) @ fst (frames (snd (frames t) @ u)), snd (frames (snd (frames t) @ u)))"
proof (induction t rule: frames.induct)
  case (1 a b p)
  let ?n = "unat (join16 a b)"
  show ?case
  proof (cases "?n \<le> length p")
    case True
    then show ?thesis using 1 [OF refl True] by (simp add: frames.simps(1) case_prod_beta Let_def)
  qed (simp add: frames.simps(1))
qed simp_all

lemma frames_sent: "list_all (\<lambda>m. length m < 65536) ms \<Longrightarrow> frames (concat (map boundary_send ms)) = (ms, [])"
  by (induction ms) (simp_all add: boundary_send_def Let_def unat_small frames_store16)

text \<open>No packet ends inside a size field.\<close>

fun whole_sizes :: "bytes \<Rightarrow> bytes list \<Rightarrow> bool" where
  "whole_sizes t [] = True"
| "whole_sizes t (p # ps) = (length (snd (frames (t @ p))) \<noteq> 1 \<and> whole_sizes (snd (frames (t @ p))) ps)"

lemma boundary_run_frames:
  assumes "wf_boundary s" and "list_all (\<lambda>p. length p < 65536) ps" and "whole_sizes (pending s) ps"
    and "frames (pending s) = ([], pending s)"
  shows "\<exists>s'. boundary_run s ps out = Some (Inr (s', out @ fst (frames (pending s @ concat ps))))
    \<and> wf_boundary s' \<and> pending s' = snd (frames (pending s @ concat ps))"
  using assms
proof (induction ps arbitrary: s out)
  case Nil
  then show ?case by simp
next
  case (Cons p ps)
  let ?f = "frames (pending s @ p)"
  obtain s1 where s1: "boundary_handle s p = Some (Inr (s1, fst ?f))" "wf_boundary s1" "pending s1 = snd ?f"
    using loop_decodes [OF Cons.prems(1), of p "[]"] Cons.prems by (auto simp: decodes_def boundary_handle_def)
  have rest: "frames (pending s1) = ([], pending s1)"
    using frames_append [of "pending s @ p" "[]"] s1(3) by (cases ?f; cases "frames (snd ?f)") simp
  obtain s2 where "boundary_run s1 ps (out @ fst ?f) = Some (Inr (s2, (out @ fst ?f) @ fst (frames (pending s1 @ concat ps))))"
    "wf_boundary s2" "pending s2 = snd (frames (pending s1 @ concat ps))"
    using Cons.IH [OF s1(2) _ _ rest, of "out @ fst ?f"] Cons.prems s1(3) by auto
  then show ?case
    using s1 frames_append [of "pending s @ p" "concat ps"] by (intro exI [of _ s2]) simp
qed

section \<open>Properties\<close>

text \<open>One packet of up to 65535 bytes, in any state the receiver can be in: the receiver returns; it reads past
  the packet exactly when the stream received so far ends inside a size field, and otherwise hands on the
  messages that become complete and keeps the rest.\<close>

theorem msg_boundary_packet:
  assumes "wf_boundary s" and "length packet < 65536"
  shows "if length (snd (frames (pending s @ packet))) = 1 then boundary_handle s packet = Some (Inl Overread)
    else \<exists>s'. boundary_handle s packet = Some (Inr (s', fst (frames (pending s @ packet))))
           \<and> wf_boundary s' \<and> pending s' = snd (frames (pending s @ packet))"
  using loop_decodes [OF assms, of "[]"] unfolding decodes_def boundary_handle_def append_Nil .

theorem msg_boundary_packet_witness:
  "boundary_handle (new_boundary 0) [1, 0, 7, 2] = Some (Inl Overread)"
  using msg_boundary_packet [of "new_boundary 0" "[1, 0, 7, 2]"]
  by (simp add: wf_boundary_def new_boundary_def pending_def frames.simps(1) join16_def Let_def)

text \<open>C15: Messages of up to 65535 bytes survive the stream: however their wire form is cut into packets of up to
  65535 bytes, as long as no packet ends inside a size field, the receiver hands on exactly the messages that
  were sent, in order, and is left between messages.\<close>

theorem msg_boundary_roundtrip:
  assumes "list_all (\<lambda>m. length m < 65536) msgs" and "concat packets = concat (map boundary_send msgs)"
    and "list_all (\<lambda>p. length p < 65536) packets" and "whole_sizes [] packets"
  shows "\<exists>s. boundary_run (new_boundary u) packets [] = Some (Inr (s, msgs)) \<and> \<not> mid_packet s"
proof -
  have p: "pending (new_boundary u) = []" "wf_boundary (new_boundary u)"
    by (simp_all add: pending_def new_boundary_def wf_boundary_def)
  obtain s where "boundary_run (new_boundary u) packets [] = Some (Inr (s, msgs))" "pending s = []"
    using boundary_run_frames [OF p(2) assms(3), of "[]"] assms(2,4) p(1) frames_sent [OF assms(1)] by auto
  moreover from this(2) have "\<not> mid_packet s" by (auto simp: pending_def store16_def split: if_splits)
  ultimately show ?thesis by blast
qed

theorem msg_boundary_roundtrip_witness:
  "\<exists>s. boundary_run (new_boundary 0) [[1, 0, 7, 2, 0], [8], [9]] [] = Some (Inr (s, [[7], [8, 9]])) \<and> \<not> mid_packet s"
proof -
  have w: "whole_sizes [] [[1, 0, 7, 2, 0], [8], [9 :: u8]]" by code_simp
  have c: "concat [[1, 0, 7, 2, 0], [8], [9 :: u8]] = concat (map boundary_send [[7], [8, 9]])" by code_simp
  show ?thesis by (rule msg_boundary_roundtrip [OF _ c _ w]) simp_all
qed

end
