(* ===== verification/Net_Stack.thy ===== *)
theory Net_Stack
  imports Ether2 Ip4 Udp Emp Nsp Eap Ptp
begin

text \<open>
  Stacks of network accesses (\<^verbatim>\<open>src/abstract/net_access\<close>, \<^verbatim>\<open>multi_recv_listener.h\<close>, and the
  parts of the protocol files that build accesses): the objects that \<^verbatim>\<open>connect_recv\<close>,
  \<^verbatim>\<open>net_access_single\<close>, \<^verbatim>\<open>net_access_broadcast\<close>, \<^verbatim>\<open>multi_net_access\<close> and
  \<^verbatim>\<open>connect_net_access_generator_listener\<close> create, in an explicit heap, with the receiving path (calls of
  \<^verbatim>\<open>handle_recv\<close>) and the sending path (calls of \<^verbatim>\<open>send_data\<close>) between them.  The protocol
  of a layer is given by its conditions.  The application above the stack is a value too: it installs a
  receiver on every access it is given, or a further generator.  The main lemma describes what a packet does
  in a stack of generators of any height.
\<close>

section \<open>Layers\<close>

datatype conditions =
    Ether2_layer ethernet2_conditions
  | Ip4_layer ip4_conditions
  | Udp_layer udp_conditions
  | Emp_layer emp_conditions
  | Nsp_layer nsp_conditions
  | Eap_layer eap_conditions
  | Ptp_layer ptp_action_list  \<comment> \<open>the path to send on; the filter accepts ends of paths\<close>

text \<open>The part of a received header from which a generator makes the conditions of a new access.\<close>

datatype peer =
    Ether2_peer mac_addr
  | Ip4_peer ip4_addr
  | Udp_peer udp_port
  | Emp_peer emp_port
  | Nsp_peer nsp_id
  | Eap_peer eap_addr
  | Ptp_peer ptp_header

definition with_peer :: "('h \<Rightarrow> peer) \<Rightarrow> ('h \<times> bytes) option result \<Rightarrow> (peer \<times> bytes) option result" where
  "with_peer f r = bind_r r (\<lambda>v. Inr (map_option (\<lambda>(h, d). (f h, d)) v))"

fun run_filter :: "conditions \<Rightarrow> bytes \<Rightarrow> (peer \<times> bytes) option result" where
  "run_filter (Ether2_layer c) d = with_peer (\<lambda>h. Ether2_peer (eth_src_addr h)) (ethernet2_recv c d)"
| "run_filter (Ip4_layer c) d = with_peer (\<lambda>h. Ip4_peer (ip_src_addr h)) (ip4_recv c d)"
| "run_filter (Udp_layer c) d = with_peer (\<lambda>h. Udp_peer (udp_src_port h)) (udp_recv c d)"
| "run_filter (Emp_layer c) d = with_peer (\<lambda>h. Emp_peer (emp_src_port h)) (emp_recv c d)"
| "run_filter (Nsp_layer c) d = with_peer (\<lambda>h. Nsp_peer (nsp_src_id h)) (nsp_recv c d)"
| "run_filter (Eap_layer c) d = with_peer (\<lambda>h. Eap_peer (eap_src_addr h)) (eap_recv c d)"
| "run_filter (Ptp_layer _) d = with_peer Ptp_peer (ptp_recv ptp_is_endpoint_end d)"

text \<open>The conditions of the \<^verbatim>\<open>net_access_single\<close> a generator makes for a peer.\<close>

fun single_conditions :: "conditions \<Rightarrow> peer \<Rightarrow> conditions" where
  "single_conditions (Ether2_layer c) (Ether2_peer a) = Ether2_layer (c\<lparr>cond_src := Some a\<rparr>)"
| "single_conditions (Ip4_layer c) (Ip4_peer a) = Ip4_layer (c\<lparr>ip_cond_src := Some a\<rparr>)"
| "single_conditions (Udp_layer c) (Udp_peer a) = Udp_layer (c\<lparr>udp_cond_src := Some a\<rparr>)"
| "single_conditions (Emp_layer c) (Emp_peer a) = Emp_layer (c\<lparr>emp_cond_src := Some a\<rparr>)"
| "single_conditions (Nsp_layer c) (Nsp_peer a) = Nsp_layer (c\<lparr>nsp_cond_src := Some a\<rparr>)"
| "single_conditions (Eap_layer c) (Eap_peer a) = Eap_layer (c\<lparr>eap_cond_src := Some a\<rparr>)"
| "single_conditions c _ = c"

text \<open>\<^verbatim>\<open>my_send::send_data\<close> of an access, up to the call on the access below: the frame.  Without a
  source in its conditions the access is a \<^verbatim>\<open>net_access_broadcast\<close>, which UDP, EMP and NSP do not have;
  UDP and EMP take an optional source, and all three need a destination.\<close>

definition sent_frame :: "(unit \<times> bytes) list result \<Rightarrow> bytes result" where
  "sent_frame r = bind_r r (\<lambda>fs. case fs of [(_, f)] \<Rightarrow> Inr f | _ \<Rightarrow> Inl Undefined)"

fun access_frame :: "conditions \<Rightarrow> bytes \<Rightarrow> bytes result" where
  "access_frame (Ether2_layer c) d = sent_frame (ethernet2_send (Some ())
     (case cond_src c of None \<Rightarrow> ethernet2_broadcast_header (cond_dest c) (cond_type c)
      | Some a \<Rightarrow> ethernet2_single_header a (cond_dest c) (cond_type c)) d)"
| "access_frame (Ip4_layer c) d = sent_frame (ip4_send (Some ())
     (case ip_cond_src c of None \<Rightarrow> ip4_broadcast_header (ip_cond_dest c) (ip_cond_prot c) (length d)
      | Some a \<Rightarrow> ip4_single_header a (ip_cond_dest c) (ip_cond_prot c) (length d)) d)"
| "access_frame (Udp_layer c) d = (case udp_cond_dest c of None \<Rightarrow> Inl Undefined
      | Some dp \<Rightarrow> sent_frame (udp_send (Some ()) (udp_single_header (udp_cond_src c) dp) d))"
| "access_frame (Emp_layer c) d = (case emp_cond_dest c of None \<Rightarrow> Inl Undefined
      | Some dp \<Rightarrow> sent_frame (emp_send (Some ()) (emp_single_header (emp_cond_src c) dp) d))"
| "access_frame (Nsp_layer c) d = (case (nsp_cond_src c, nsp_cond_dest c) of
       (Some si, Some di) \<Rightarrow> sent_frame (nsp_send (Some ()) (nsp_single_header si di) d) | _ \<Rightarrow> Inl Undefined)"
| "access_frame (Eap_layer c) d = sent_frame (eap_send (Some ())
     (case eap_cond_src c of None \<Rightarrow> eap_broadcast_header (eap_cond_dest c) (eap_cond_prot c)
      | Some a \<Rightarrow> eap_single_header a (eap_cond_dest c) (eap_cond_prot c)) d)"
| "access_frame (Ptp_layer path) d = sent_frame (ptp_send (Some ()) (ptp_single_header path) d)"

section \<open>Objects\<close>

type_synonym ref = nat

text \<open>What the application does with a new access: it keeps it and sets a receiver made for it, it sets a receiver that
  exists already, or one that answers on the access, with the access kept or not, or it connects a generator
  of the next layer for an application above, which keeps the access.\<close>

datatype app = Receiver | Static_receiver ref | Responder bool "bytes \<Rightarrow> bytes list result option" | Layer conditions app

fun keeps :: "app \<Rightarrow> bool" where
  "keeps (Static_receiver s) = False"
| "keeps (Responder keep respond) = keep"
| "keeps _ = True"

datatype obj =
    Sink                          \<comment> \<open>a receiver of the application\<close>
  | Filter conditions ref         \<comment> \<open>\<^verbatim>\<open>my_recv\<close> of \<^verbatim>\<open>connect_recv\<close>, and the listener it calls\<close>
  | Forward ref                   \<comment> \<open>\<^verbatim>\<open>my_recv\<close> of a \<^verbatim>\<open>net_access_single\<close>, and its \<^verbatim>\<open>par\<close>\<close>
  | Generator conditions ref ref "app option"
      \<comment> \<open>\<^verbatim>\<open>my_recv\<close> of a generator: the access and the \<^verbatim>\<open>multi_recv\<close> of its \<^verbatim>\<open>multi_access\<close>, and the \<^verbatim>\<open>listener\<close>\<close>
  | Multi "ref list"              \<comment> \<open>\<^verbatim>\<open>multi_recv_listener\<close> and its set\<close>
  | Base "ref option"             \<comment> \<open>an access to a device, with the receiver that was set\<close>
  | Access conditions ref "ref option"
      \<comment> \<open>\<^verbatim>\<open>net_access_single\<close> or \<^verbatim>\<open>net_access_broadcast\<close>: \<^verbatim>\<open>my_net_access\<close> and \<^verbatim>\<open>recv_access\<close>\<close>
  | Child ref ref "ref option"
      \<comment> \<open>an access from \<^verbatim>\<open>generate_net_access\<close>: the \<^verbatim>\<open>access\<close> and \<^verbatim>\<open>multi_recv\<close> of its \<^verbatim>\<open>par\<close>, and \<^verbatim>\<open>curr_recv\<close>\<close>
  | Split ref "ref option"
      \<comment> \<open>one of the parts of \<^verbatim>\<open>multi_net_access_recv_split\<close>: \<open>par\<close> and \<open>curr\<close>\<close>
  | Paired ref ref
      \<comment> \<open>\<^verbatim>\<open>net_access_make_from_send_recv\<close>: the access to send on and the one to receive from\<close>
  | Replier ref "bytes \<Rightarrow> bytes list result option"
      \<comment> \<open>a receiver of the application that sends on the access it was made for: the messages for what it gets, or a fault, if it returns\<close>
  | Node ptp_addr "ref option"    \<comment> \<open>\<^verbatim>\<open>my_recv\<close> of a PTP \<^verbatim>\<open>node\<close>, with the node's \<open>my_addr\<close> and \<open>recv_endpoint_end\<close>\<close>
  | Node_end ref                  \<comment> \<open>an access from \<^verbatim>\<open>get_recv_endpoint_end\<close>, and its \<open>par\<close>\<close>
  | Ptp_generator ref ref "app option"
      \<comment> \<open>\<^verbatim>\<open>my_net_access_generator_listener\<close> of PTP: its \<open>recv_access\<close>, send access and \<open>listener\<close>\<close>

record world =
  objs :: "ref \<Rightarrow> obj option"
  unused :: ref
  received :: "(ref \<times> bytes) list"
  sent :: "(ref \<times> bytes) list"

definition alloc :: "obj \<Rightarrow> world \<Rightarrow> ref \<times> world" where
  "alloc ob w = (unused w, w\<lparr>objs := (objs w)(unused w \<mapsto> ob), unused := unused w + 1\<rparr>)"

definition set_obj :: "ref \<Rightarrow> obj \<Rightarrow> world \<Rightarrow> world" where
  "set_obj r ob w = w\<lparr>objs := (objs w)(r \<mapsto> ob)\<rparr>"

text \<open>The operations of \<^verbatim>\<open>multi_recv_listener\<close> on its set, with their results.\<close>

definition add_recv_listener :: "ref option \<Rightarrow> ref list \<Rightarrow> ref list" where
  "add_recv_listener l ls = (case l of None \<Rightarrow> ls | Some r \<Rightarrow> if r \<in> set ls then ls else ls @ [r])"

definition remove_listener :: "ref option \<Rightarrow> ref list \<Rightarrow> bool \<times> ref list" where
  "remove_listener l ls =
     (case l of None \<Rightarrow> (False, ls) | Some r \<Rightarrow> if r \<notin> set ls then (False, ls) else (True, remove1 r ls))"

section \<open>Setting receivers\<close>

text \<open>\<^verbatim>\<open>set_recv_access\<close>, by the class of the access.  A pair hands the call on to its second access,
  which is never a pair itself.\<close>

definition switch_listener :: "ref option \<Rightarrow> ref \<Rightarrow> ref list \<Rightarrow> ref list" where
  "switch_listener prev recv ls =
     (let ls = (if prev \<noteq> None then snd (remove_listener prev ls) else ls) in add_recv_listener (Some recv) ls)"

definition set_single_recv_access :: "ref \<Rightarrow> ref \<Rightarrow> world \<Rightarrow> world result" where
  "set_single_recv_access a recv w =
     (case objs w a of
        Some (Base _) \<Rightarrow> Inr (set_obj a (Base (Some recv)) w)
      | Some (Access c my _) \<Rightarrow> Inr (set_obj a (Access c my (Some recv)) w)
      | Some (Child acc m curr_recv) \<Rightarrow>
          (case objs w m of
             Some (Multi ls) \<Rightarrow>
               Inr (set_obj a (Child acc m (Some recv)) (set_obj m (Multi (switch_listener curr_recv recv ls)) w))
           | _ \<Rightarrow> Inl Undefined)
      | Some (Split m prev) \<Rightarrow>
          (case objs w m of
             Some (Multi ls) \<Rightarrow>
               Inr (set_obj a (Split m (Some recv)) (set_obj m (Multi (switch_listener prev recv ls)) w))
           | _ \<Rightarrow> Inl Undefined)
      | Some (Node_end k) \<Rightarrow>
          (case objs w k of Some (Node a _) \<Rightarrow> Inr (set_obj k (Node a (Some recv)) w) | _ \<Rightarrow> Inl Undefined)
      | _ \<Rightarrow> Inl Undefined)"

definition set_recv_access :: "ref \<Rightarrow> ref \<Rightarrow> world \<Rightarrow> world result" where
  "set_recv_access a recv w =
     (case objs w a of Some (Paired _ r) \<Rightarrow> set_single_recv_access r recv w | _ \<Rightarrow> set_single_recv_access a recv w)"

definition net_access_make_from_send_recv :: "ref \<Rightarrow> ref \<Rightarrow> world \<Rightarrow> ref \<times> world" where
  "net_access_make_from_send_recv send recv w = alloc (Paired send recv) w"

declare net_access_make_from_send_recv_def [simp]

text \<open>\<^verbatim>\<open>connect_recv\<close> of a protocol.\<close>

definition connect_recv :: "ref \<Rightarrow> conditions \<Rightarrow> ref \<Rightarrow> world \<Rightarrow> world result" where
  "connect_recv a c recv w = (let (f, w) = alloc (Filter c recv) w in set_recv_access a f w)"

text \<open>The constructor of \<^verbatim>\<open>net_access_single\<close> and \<^verbatim>\<open>net_access_broadcast\<close>.\<close>

definition make_access :: "ref \<Rightarrow> conditions \<Rightarrow> world \<Rightarrow> (ref \<times> world) result" where
  "make_access my c w =
     (let (n, w) = alloc (Access c my None) w; (f, w) = alloc (Forward n) w
      in bind_r (connect_recv my c f w) (\<lambda>w. Inr (n, w)))"

text \<open>The constructor of \<^verbatim>\<open>multi_net_access\<close>: its \<^verbatim>\<open>multi_recv\<close>, set on the access.\<close>

definition make_multi_net_access :: "ref \<Rightarrow> world \<Rightarrow> (ref \<times> world) result" where
  "make_multi_net_access a w =
     (let (m, w) = alloc (Multi []) w in bind_r (set_recv_access a m w) (\<lambda>w. Inr (m, w)))"

text \<open>\<^verbatim>\<open>connect_net_access_generator_listener\<close>.\<close>

definition connect_generator :: "ref \<Rightarrow> conditions \<Rightarrow> app option \<Rightarrow> world \<Rightarrow> world result" where
  "connect_generator a c listener w =
     bind_r (make_multi_net_access a w) (\<lambda>(m, w).
       let (g, w) = alloc (Generator c a m listener) w in connect_recv a c g w)"

section \<open>The accesses and generators of the protocols\<close>

definition ethernet2_net_access_broadcast :: "ref \<Rightarrow> mac_addr option \<Rightarrow> ethertype option \<Rightarrow> world \<Rightarrow> (ref \<times> world) result" where
  "ethernet2_net_access_broadcast my dest_addr pr w =
     make_access my (Ether2_layer \<lparr>cond_src = None, cond_dest = dest_addr, cond_type = pr\<rparr>) w"

definition ethernet2_net_access_single ::
  "ref \<Rightarrow> mac_addr \<Rightarrow> mac_addr option \<Rightarrow> ethertype option \<Rightarrow> world \<Rightarrow> (ref \<times> world) result" where
  "ethernet2_net_access_single my src_addr dest_addr pr w =
     make_access my (Ether2_layer \<lparr>cond_src = Some src_addr, cond_dest = dest_addr, cond_type = pr\<rparr>) w"

definition ethernet2_connect_generator :: "ref \<Rightarrow> mac_addr option \<Rightarrow> ethertype option \<Rightarrow> app option \<Rightarrow> world \<Rightarrow> world result" where
  "ethernet2_connect_generator a dest_addr pr listener w =
     connect_generator a (Ether2_layer \<lparr>cond_src = None, cond_dest = dest_addr, cond_type = pr\<rparr>) listener w"

definition ip4_net_access_broadcast :: "ref \<Rightarrow> ip4_addr option \<Rightarrow> ip_prot option \<Rightarrow> world \<Rightarrow> (ref \<times> world) result" where
  "ip4_net_access_broadcast my dest_addr pr w =
     make_access my (Ip4_layer \<lparr>ip_cond_src = None, ip_cond_dest = dest_addr, ip_cond_prot = pr\<rparr>) w"

definition ip4_net_access_single ::
  "ref \<Rightarrow> ip4_addr \<Rightarrow> ip4_addr option \<Rightarrow> ip_prot option \<Rightarrow> world \<Rightarrow> (ref \<times> world) result" where
  "ip4_net_access_single my src_addr dest_addr pr w =
     make_access my (Ip4_layer \<lparr>ip_cond_src = Some src_addr, ip_cond_dest = dest_addr, ip_cond_prot = pr\<rparr>) w"

definition ip4_connect_generator :: "ref \<Rightarrow> ip4_addr option \<Rightarrow> ip_prot option \<Rightarrow> app option \<Rightarrow> world \<Rightarrow> world result" where
  "ip4_connect_generator a dest_addr pr listener w =
     connect_generator a (Ip4_layer \<lparr>ip_cond_src = None, ip_cond_dest = dest_addr, ip_cond_prot = pr\<rparr>) listener w"

definition eap_net_access_broadcast :: "ref \<Rightarrow> eap_addr option \<Rightarrow> eap_prot option \<Rightarrow> world \<Rightarrow> (ref \<times> world) result" where
  "eap_net_access_broadcast my dest_addr pr w =
     make_access my (Eap_layer \<lparr>eap_cond_src = None, eap_cond_dest = dest_addr, eap_cond_prot = pr\<rparr>) w"

definition eap_net_access_single ::
  "ref \<Rightarrow> eap_addr \<Rightarrow> eap_addr option \<Rightarrow> eap_prot option \<Rightarrow> world \<Rightarrow> (ref \<times> world) result" where
  "eap_net_access_single my src_addr dest_addr pr w =
     make_access my (Eap_layer \<lparr>eap_cond_src = Some src_addr, eap_cond_dest = dest_addr, eap_cond_prot = pr\<rparr>) w"

definition eap_connect_generator :: "ref \<Rightarrow> eap_addr option \<Rightarrow> eap_prot option \<Rightarrow> app option \<Rightarrow> world \<Rightarrow> world result" where
  "eap_connect_generator a dest_addr pr listener w =
     connect_generator a (Eap_layer \<lparr>eap_cond_src = None, eap_cond_dest = dest_addr, eap_cond_prot = pr\<rparr>) listener w"

definition udp_net_access_single :: "ref \<Rightarrow> udp_port option \<Rightarrow> udp_port \<Rightarrow> world \<Rightarrow> (ref \<times> world) result" where
  "udp_net_access_single my src_port dest_port w =
     make_access my (Udp_layer \<lparr>udp_cond_src = src_port, udp_cond_dest = Some dest_port\<rparr>) w"

definition udp_connect_generator :: "ref \<Rightarrow> udp_port \<Rightarrow> app option \<Rightarrow> world \<Rightarrow> world result" where
  "udp_connect_generator a dest_port listener w =
     connect_generator a (Udp_layer \<lparr>udp_cond_src = None, udp_cond_dest = Some dest_port\<rparr>) listener w"

definition emp_net_access_single :: "ref \<Rightarrow> emp_port option \<Rightarrow> emp_port \<Rightarrow> world \<Rightarrow> (ref \<times> world) result" where
  "emp_net_access_single my src_port dest_port w =
     make_access my (Emp_layer \<lparr>emp_cond_src = src_port, emp_cond_dest = Some dest_port\<rparr>) w"

definition emp_connect_generator :: "ref \<Rightarrow> emp_port \<Rightarrow> app option \<Rightarrow> world \<Rightarrow> world result" where
  "emp_connect_generator a dest_port listener w =
     connect_generator a (Emp_layer \<lparr>emp_cond_src = None, emp_cond_dest = Some dest_port\<rparr>) listener w"

definition nsp_net_access_single :: "ref \<Rightarrow> nsp_id \<Rightarrow> nsp_id \<Rightarrow> world \<Rightarrow> (ref \<times> world) result" where
  "nsp_net_access_single my src_id dest_id w =
     make_access my (Nsp_layer \<lparr>nsp_cond_src = Some src_id, nsp_cond_dest = Some dest_id\<rparr>) w"

definition nsp_connect_generator :: "ref \<Rightarrow> nsp_id \<Rightarrow> app option \<Rightarrow> world \<Rightarrow> world result" where
  "nsp_connect_generator a dest_id listener w =
     connect_generator a (Nsp_layer \<lparr>nsp_cond_src = None, nsp_cond_dest = Some dest_id\<rparr>) listener w"

definition ptp_net_access_single :: "ref \<Rightarrow> ptp_action_list \<Rightarrow> world \<Rightarrow> (ref \<times> world) result" where
  "ptp_net_access_single my path w = make_access my (Ptp_layer path) w"

text \<open>\<^verbatim>\<open>multi_net_access_recv_split\<close>.\<close>

fun alloc_splits :: "nat \<Rightarrow> ref \<Rightarrow> world \<Rightarrow> ref list \<times> world" where
  "alloc_splits 0 m w = ([], w)"
| "alloc_splits (Suc n) m w = (let (r, w) = alloc (Split m None) w; (rs, w) = alloc_splits n m w in (r # rs, w))"

definition multi_net_access_recv_split :: "ref \<Rightarrow> nat \<Rightarrow> world \<Rightarrow> (ref list \<times> world) result" where
  "multi_net_access_recv_split base no_splits w =
     (let (m, w) = alloc (Multi []) w in bind_r (set_recv_access base m w) (\<lambda>w. Inr (alloc_splits no_splits m w)))"

definition ptp_connect_generator :: "ref \<Rightarrow> ref \<Rightarrow> app option \<Rightarrow> world \<Rightarrow> world result" where
  "ptp_connect_generator recv_surface send_surface listener w =
     bind_r (multi_net_access_recv_split recv_surface 2 w) (\<lambda>(splits, w).
       let (g, w) = alloc (Ptp_generator (splits ! 1) send_surface listener) w
       in connect_recv (splits ! 0) (Ptp_layer []) g w)"

text \<open>The access or the generator of a protocol, by its conditions.  Conditions that the parameters of the
  protocol cannot express have no access.\<close>

fun new_net_access :: "ref \<Rightarrow> conditions \<Rightarrow> world \<Rightarrow> (ref \<times> world) result" where
  "new_net_access my (Ether2_layer c) w = (case cond_src c of
       None \<Rightarrow> ethernet2_net_access_broadcast my (cond_dest c) (cond_type c) w
     | Some sa \<Rightarrow> ethernet2_net_access_single my sa (cond_dest c) (cond_type c) w)"
| "new_net_access my (Ip4_layer c) w = (case ip_cond_src c of
       None \<Rightarrow> ip4_net_access_broadcast my (ip_cond_dest c) (ip_cond_prot c) w
     | Some sa \<Rightarrow> ip4_net_access_single my sa (ip_cond_dest c) (ip_cond_prot c) w)"
| "new_net_access my (Eap_layer c) w = (case eap_cond_src c of
       None \<Rightarrow> eap_net_access_broadcast my (eap_cond_dest c) (eap_cond_prot c) w
     | Some sa \<Rightarrow> eap_net_access_single my sa (eap_cond_dest c) (eap_cond_prot c) w)"
| "new_net_access my (Udp_layer c) w = (case udp_cond_dest c of
       None \<Rightarrow> Inl Undefined | Some dp \<Rightarrow> udp_net_access_single my (udp_cond_src c) dp w)"
| "new_net_access my (Emp_layer c) w = (case emp_cond_dest c of
       None \<Rightarrow> Inl Undefined | Some dp \<Rightarrow> emp_net_access_single my (emp_cond_src c) dp w)"
| "new_net_access my (Nsp_layer c) w = (case (nsp_cond_src c, nsp_cond_dest c) of
       (Some si, Some di) \<Rightarrow> nsp_net_access_single my si di w | _ \<Rightarrow> Inl Undefined)"
| "new_net_access my (Ptp_layer path) w = ptp_net_access_single my path w"

fun connect_layer :: "ref \<Rightarrow> conditions \<Rightarrow> app option \<Rightarrow> world \<Rightarrow> world result" where
  "connect_layer a (Ether2_layer c) listener w = ethernet2_connect_generator a (cond_dest c) (cond_type c) listener w"
| "connect_layer a (Ip4_layer c) listener w = ip4_connect_generator a (ip_cond_dest c) (ip_cond_prot c) listener w"
| "connect_layer a (Eap_layer c) listener w = eap_connect_generator a (eap_cond_dest c) (eap_cond_prot c) listener w"
| "connect_layer a (Udp_layer c) listener w = (case udp_cond_dest c of
       None \<Rightarrow> Inl Undefined | Some dp \<Rightarrow> udp_connect_generator a dp listener w)"
| "connect_layer a (Emp_layer c) listener w = (case emp_cond_dest c of
       None \<Rightarrow> Inl Undefined | Some dp \<Rightarrow> emp_connect_generator a dp listener w)"
| "connect_layer a (Nsp_layer c) listener w = (case nsp_cond_dest c of
       None \<Rightarrow> Inl Undefined | Some di \<Rightarrow> nsp_connect_generator a di listener w)"
| "connect_layer a (Ptp_layer _) listener w = ptp_connect_generator a a listener w"

text \<open>The conditions of an access and of a generator.\<close>

fun access_conditions :: "conditions \<Rightarrow> bool" where
  "access_conditions (Udp_layer c) = (udp_cond_dest c \<noteq> None)"
| "access_conditions (Emp_layer c) = (emp_cond_dest c \<noteq> None)"
| "access_conditions (Nsp_layer c) = (nsp_cond_src c \<noteq> None \<and> nsp_cond_dest c \<noteq> None)"
| "access_conditions _ = True"

fun listens :: "conditions \<Rightarrow> bool" where
  "listens (Ether2_layer c) = (cond_src c = None)"
| "listens (Ip4_layer c) = (ip_cond_src c = None)"
| "listens (Udp_layer c) = (udp_cond_src c = None \<and> udp_cond_dest c \<noteq> None)"
| "listens (Emp_layer c) = (emp_cond_src c = None \<and> emp_cond_dest c \<noteq> None)"
| "listens (Nsp_layer c) = (nsp_cond_src c = None \<and> nsp_cond_dest c \<noteq> None)"
| "listens (Eap_layer c) = (eap_cond_src c = None)"
| "listens (Ptp_layer _) = False"

lemmas access_defs = ethernet2_net_access_broadcast_def ethernet2_net_access_single_def ip4_net_access_broadcast_def
  ip4_net_access_single_def eap_net_access_broadcast_def eap_net_access_single_def udp_net_access_single_def
  emp_net_access_single_def nsp_net_access_single_def ptp_net_access_single_def ethernet2_connect_generator_def ip4_connect_generator_def
  eap_connect_generator_def udp_connect_generator_def emp_connect_generator_def nsp_connect_generator_def

lemma new_net_access_eq [simp]: "access_conditions c \<Longrightarrow> new_net_access my c w = make_access my c w"
  by (cases c) (auto simp: access_defs split: option.split intro!: arg_cong3 [where f = make_access])

lemma connect_layer_eq [simp]: "listens c \<Longrightarrow> connect_layer a c l w = connect_generator a c l w"
  by (cases c) (auto simp: access_defs intro!: arg_cong [where f = "\<lambda>c. connect_generator a c l w"])

lemma access_conditions_single:
  "listens c \<Longrightarrow> run_filter c d = Inr (Some (p, e)) \<Longrightarrow> access_conditions (single_conditions c p)"
  by (cases c) (auto simp: with_peer_def bind_r_eq_Inr)

text \<open>The application's \<^verbatim>\<open>handle_new_net_access\<close>.\<close>

fun handle_new_net_access :: "app \<Rightarrow> ref \<Rightarrow> world \<Rightarrow> world result" where
  "handle_new_net_access Receiver n w = (let (s, w) = alloc Sink w in set_recv_access n s w)"
| "handle_new_net_access (Static_receiver s) n w = set_recv_access n s w"
| "handle_new_net_access (Responder keep respond) n w =
     (let (s, w) = alloc (Replier n respond) w in set_recv_access n s w)"
| "handle_new_net_access (Layer c upper) n w = connect_layer n c (Some upper) w"

section \<open>Sending\<close>

text \<open>\<^verbatim>\<open>get_send_access()->send_data\<close> of an access: an access of a layer builds its frame and sends it on
  \<^verbatim>\<open>my_net_access\<close>, a child sends on the access of its \<^verbatim>\<open>par\<close>, a device takes the bytes.\<close>

partial_function (option) send_data :: "ref \<Rightarrow> bytes \<Rightarrow> world \<Rightarrow> world result option" where
  "send_data n d w =
     (case objs w n of
        Some (Base _) \<Rightarrow> Some (Inr (w\<lparr>sent := sent w @ [(n, d)]\<rparr>))
      | Some (Access c my _) \<Rightarrow>
          (case access_frame c d of Inl e \<Rightarrow> Some (Inl e) | Inr frame \<Rightarrow> send_data my frame w)
      | Some (Child acc _ _) \<Rightarrow> send_data acc d w
      | Some (Paired acc _) \<Rightarrow> send_data acc d w
      | _ \<Rightarrow> Some (Inl Undefined))"

fun send_all :: "ref \<Rightarrow> bytes list \<Rightarrow> world \<Rightarrow> world result option" where
  "send_all n [] w = Some (Inr w)"
| "send_all n (m # ms) w = bind_ro (send_data n m w) (send_all n ms)"

section \<open>Receiving\<close>

text \<open>The receiver set on an access that has a field for it.\<close>

definition recv_access :: "world \<Rightarrow> ref \<Rightarrow> ref option" where
  "recv_access w a = (case objs w a of Some (Access _ _ r) \<Rightarrow> r | Some (Base r) \<Rightarrow> r | _ \<Rightarrow> None)"

lemma recv_access_exists [simp]: "recv_access w n = Some r \<Longrightarrow> objs w n \<noteq> None"
  by (auto simp: recv_access_def split: option.splits)

text \<open>The iterator over a \<^verbatim>\<open>std::set\<close> of pointers that other code may change: the listener with the least
  address \<open>addr\<close> above the one visited last.\<close>

fun next_listener :: "(ref \<Rightarrow> nat) \<Rightarrow> ref option \<Rightarrow> ref list \<Rightarrow> ref option" where
  "next_listener addr prev [] = None"
| "next_listener addr prev (r # rs) =
     (let best = next_listener addr prev rs in
      if (case prev of None \<Rightarrow> True | Some l \<Rightarrow> addr l < addr r)
           \<and> (case best of None \<Rightarrow> True | Some b \<Rightarrow> addr r < addr b)
      then Some r else best)"

datatype task =
    Handle ref bytes            \<comment> \<open>\<^verbatim>\<open>handle_recv\<close> of a listener of bytes\<close>
  | Deliver ref peer bytes      \<comment> \<open>\<^verbatim>\<open>handle_recv\<close> of a listener of a header and data\<close>
  | Iterate ref "ref option" bytes  \<comment> \<open>the rest of the loop of a \<^verbatim>\<open>multi_recv_listener\<close>\<close>

text \<open>What a PTP generator does: the new access sends on the reversed path and receives from the second split.\<close>

definition ptp_generate :: "ref \<Rightarrow> ref \<Rightarrow> app \<Rightarrow> ptp_header \<Rightarrow> world \<Rightarrow> (ref \<times> world) result" where
  "ptp_generate recv send listener h w =
     bind_r (ptp_reply_path h) (\<lambda>path.
     let (pair, w) = net_access_make_from_send_recv send recv w
     in bind_r (new_net_access pair (Ptp_layer path) w) (\<lambda>(n, w).
        bind_r (handle_new_net_access listener n w) (\<lambda>w. Inr (n, w))))"

text \<open>When the generator returns, an access that the application has not kept is destroyed; its filter stays in the
  listener set of the split, with a pointer to it.  (The accesses of the other generators are never reached
  again from below, so that their end makes no difference.)\<close>

definition release :: "app \<Rightarrow> ref \<Rightarrow> world \<Rightarrow> world" where
  "release ap n w = (if keeps ap then w else w\<lparr>objs := (objs w)(n := None)\<rparr>)"

lemma release_keeps [simp]: "keeps ap \<Longrightarrow> release ap n w = w"
  by (simp add: release_def)

lemma bind_ro_return [simp]: "bind_ro m (\<lambda>x. Some (Inr x)) = m"
  by (simp add: bind_ro_def split: option.split sum.split)

text \<open>What a generator does before it passes the data on: the new access, and the world it is ready in.\<close>

definition generate :: "conditions \<Rightarrow> ref \<Rightarrow> ref \<Rightarrow> app \<Rightarrow> peer \<Rightarrow> world \<Rightarrow> (ref \<times> world) result" where
  "generate c a m listener p w =
     (let (ch, w) = alloc (Child a m None) w
      in bind_r (new_net_access ch (single_conditions c p) w) (\<lambda>(n, w).
         bind_r (handle_new_net_access listener n w) (\<lambda>w. Inr (n, w))))"

lemma bind_ro_option_bind: "bind_ro m f = Option.bind m (\<lambda>r. case r of Inl e \<Rightarrow> Some (Inl e) | Inr x \<Rightarrow> f x)"
  by (simp add: bind_ro_def split: option.split sum.split)

lemma bind_ro_mono [partial_function_mono]:
  assumes "mono_option B" and "\<And>y. mono_option (\<lambda>f. C y f)"
  shows "mono_option (\<lambda>f. bind_ro (B f) (\<lambda>y. C y f))"
proof -
  have "mono_option (\<lambda>f. case y of Inl e \<Rightarrow> Some (Inl e) | Inr x \<Rightarrow> C x f)" for y
    by (cases y) (simp_all add: assms(2) option.const_mono)
  then show ?thesis unfolding bind_ro_option_bind by (intro bind_mono assms(1))
qed

partial_function (option) exec :: "(ref \<Rightarrow> nat) \<Rightarrow> task \<Rightarrow> world \<Rightarrow> world result option" where
  "exec addr t w =
     (case t of
        Handle l d \<Rightarrow>
          (case objs w l of
             Some Sink \<Rightarrow> Some (Inr (w\<lparr>received := received w @ [(l, d)]\<rparr>))
           | Some (Replier n respond) \<Rightarrow>
               bind_ro (respond d) (\<lambda>ms. send_all n ms (w\<lparr>received := received w @ [(l, d)]\<rparr>))
           | Some (Node a e) \<Rightarrow>
               (case node_handle_recv \<lparr>my_addr = a, recv_endpoint_end = e\<rparr> d of
                  Some (Inr ((r, packet) # _)) \<Rightarrow> exec addr (Handle r packet) w
                | Some (Inr []) \<Rightarrow> Some (Inr w)
                | Some (Inl e) \<Rightarrow> Some (Inl e)
                | None \<Rightarrow> None)
           | Some (Filter c recv) \<Rightarrow>
               (case run_filter c d of
                  Inl e \<Rightarrow> Some (Inl e)
                | Inr None \<Rightarrow> Some (Inr w)
                | Inr (Some (p, encap)) \<Rightarrow> exec addr (Deliver recv p encap) w)
           | Some (Multi _) \<Rightarrow> exec addr (Iterate l None d) w
           | _ \<Rightarrow> Some (Inl Undefined))
      | Deliver l p d \<Rightarrow>
          (case objs w l of
             Some (Forward par) \<Rightarrow>
               (if objs w par = None then Some (Inl Undefined)
                else case recv_access w par of None \<Rightarrow> Some (Inr w) | Some r \<Rightarrow> exec addr (Handle r d) w)
           | Some (Generator c a m listener) \<Rightarrow>
               (case listener of None \<Rightarrow> Some (Inr w)
                | Some ap \<Rightarrow>
                    (case generate c a m ap p w of
                       Inl e \<Rightarrow> Some (Inl e)
                     | Inr (n, w') \<Rightarrow>
                         (case recv_access w' n of None \<Rightarrow> Some (Inr w') | Some r \<Rightarrow> exec addr (Handle r d) w')))
           | Some (Ptp_generator recv send listener) \<Rightarrow>
               (case (listener, p) of
                  (Some ap, Ptp_peer h) \<Rightarrow>
                    (case ptp_generate recv send ap h w of
                       Inl e \<Rightarrow> Some (Inl e)
                     | Inr (n, w') \<Rightarrow>
                         (case recv_access w' n of None \<Rightarrow> Some (Inr (release ap n w'))
                          | Some r \<Rightarrow> bind_ro (exec addr (Handle r d) w') (\<lambda>w'. Some (Inr (release ap n w')))))
                | (None, _) \<Rightarrow> Some (Inr w)
                | _ \<Rightarrow> Some (Inl Undefined))
           | _ \<Rightarrow> Some (Inl Undefined))
      | Iterate l prev d \<Rightarrow>
          (case objs w l of
             Some (Multi ls) \<Rightarrow>
               (case next_listener addr prev ls of
                  None \<Rightarrow> Some (Inr w)
                | Some r \<Rightarrow>
                    bind_ro (exec addr (Handle r d) w) (\<lambda>w'. exec addr (Iterate l (Some r) d) w'))
           | _ \<Rightarrow> Some (Inl Undefined)))"

section \<open>Well-formed worlds\<close>

definition wf_world :: "world \<Rightarrow> bool" where
  "wf_world w \<longleftrightarrow> (\<forall>r. unused w \<le> r \<longrightarrow> objs w r = None)"

text \<open>Later worlds keep the objects of earlier ones, but for the contents of listener sets.\<close>

fun is_multi :: "obj \<Rightarrow> bool" where
  "is_multi (Multi _) = True"
| "is_multi _ = False"

definition kept :: "obj \<Rightarrow> obj \<Rightarrow> bool" where
  "kept ob ob' \<longleftrightarrow> ob' = ob \<or> is_multi ob \<and> is_multi ob'"

definition extends :: "world \<Rightarrow> world \<Rightarrow> bool" where
  "extends w w' \<longleftrightarrow> unused w \<le> unused w'
     \<and> (\<forall>r ob. objs w r = Some ob \<longrightarrow> (\<exists>ob'. objs w' r = Some ob' \<and> kept ob ob'))"

lemma kept_refl [simp]: "kept ob ob"
  by (simp add: kept_def)

lemma kept_trans: "kept a b \<Longrightarrow> kept b c \<Longrightarrow> kept a c"
  by (auto simp: kept_def)

lemma extends_refl [simp]: "extends w w"
  by (auto simp: extends_def)

lemma extends_trans: "extends w1 w2 \<Longrightarrow> extends w2 w3 \<Longrightarrow> extends w1 w3"
  unfolding extends_def by (meson kept_trans le_trans)

lemma wf_allocated: "wf_world w \<Longrightarrow> objs w r = Some ob \<Longrightarrow> r < unused w"
  unfolding wf_world_def by (metis linorder_not_less option.distinct(1))

lemma extends_keeps:
  assumes "extends w w'" and "objs w r = Some ob" and "\<not> is_multi ob"
  shows "objs w' r = Some ob"
  using assms by (auto simp: extends_def kept_def)

lemma is_multi_iff: "is_multi ob \<longleftrightarrow> (\<exists>ls. ob = Multi ls)"
  by (cases ob) auto

lemma extends_multi:
  assumes "extends w w'" and "objs w r = Some (Multi ls)"
  shows "\<exists>ls'. objs w' r = Some (Multi ls')"
  using assms by (auto simp: extends_def kept_def is_multi_iff)

text \<open>The steps of a world that keep it well-formed and extend it.\<close>

lemma alloc_facts:
  assumes "wf_world w" and "alloc ob w = (r, w')"
  shows "r = unused w" "wf_world w'" "extends w w'" "objs w' r = Some ob" "unused w' = unused w + 1"
    "received w' = received w" "sent w' = sent w" "\<And>k. k \<noteq> unused w \<Longrightarrow> objs w' k = objs w k"
proof -
  have w': "w' = w\<lparr>objs := (objs w)(unused w \<mapsto> ob), unused := unused w + 1\<rparr>" and r: "r = unused w"
    using assms(2) by (auto simp: alloc_def)
  show "extends w w'" using assms(1) wf_allocated [OF assms(1), of "unused w"] by (auto simp: extends_def w')
  show "wf_world w'" using assms(1) by (simp add: wf_world_def w')
qed (use assms in \<open>auto simp: alloc_def\<close>)

lemma set_obj_facts:
  assumes "wf_world w" and "r < unused w"
  shows "wf_world (set_obj r ob w)" "unused (set_obj r ob w) = unused w"
    "received (set_obj r ob w) = received w" "sent (set_obj r ob w) = sent w"
    "objs (set_obj r ob w) k = (if k = r then Some ob else objs w k)"
  using assms by (auto simp: set_obj_def wf_world_def)

lemma set_obj_extends:
  assumes "wf_world w0" and "extends w0 w" and "unused w0 \<le> r \<or> is_multi ob \<and> (\<exists>ls. objs w0 r = Some (Multi ls))"
  shows "extends w0 (set_obj r ob w)"
  using assms by (force simp: extends_def kept_def set_obj_def is_multi_iff dest: wf_allocated [OF assms(1)])

section \<open>What a generator builds\<close>

lemmas world_defs = alloc_def set_obj_def set_recv_access_def set_single_recv_access_def switch_listener_def connect_recv_def make_access_def
  make_multi_net_access_def connect_generator_def

text \<open>A generator for \<open>c\<close> is connected: the filter in front, the generator behind it and its listener set.\<close>

definition connected :: "world \<Rightarrow> ref \<Rightarrow> conditions \<Rightarrow> ref \<Rightarrow> app \<Rightarrow> bool" where
  "connected w l c a ap \<longleftrightarrow> (\<exists>g m ls. objs w l = Some (Filter c g)
     \<and> objs w g = Some (Generator c a m (Some ap)) \<and> objs w m = Some (Multi ls))"

text \<open>From an access down to a device \<open>b\<close>, through accesses with the given conditions, the top one first; a child
  of a \<^verbatim>\<open>multi_net_access\<close> may be between two of them.\<close>

definition through :: "world \<Rightarrow> ref \<Rightarrow> ref \<Rightarrow> bool" where
  "through w my a \<longleftrightarrow> a = my \<or> (\<exists>m q. objs w my = Some (Child a m q))"

fun send_path :: "world \<Rightarrow> ref \<Rightarrow> conditions list \<Rightarrow> ref \<Rightarrow> bool" where
  "send_path w n [] b \<longleftrightarrow> n = b \<and> (\<exists>r. objs w b = Some (Base r))"
| "send_path w n (c # cs) b \<longleftrightarrow> (\<exists>my r a. objs w n = Some (Access c my r) \<and> through w my a \<and> send_path w a cs b)"

lemma send_path_extends: "extends w w' \<Longrightarrow> send_path w n cs b \<Longrightarrow> send_path w' n cs b"
proof (induction cs arbitrary: n)
  case Nil
  then obtain r where "n = b" "objs w b = Some (Base r)" by auto
  then show ?case using extends_keeps [OF Nil.prems(1), of b] by simp
next
  case (Cons c cs)
  then obtain my r a where o: "objs w n = Some (Access c my r)" "through w my a" "send_path w a cs b"
    by auto
  have "objs w' n = Some (Access c my r)" using extends_keeps [OF Cons.prems(1) o(1)] by simp
  moreover have "through w' my a" using o(2) extends_keeps [OF Cons.prems(1)] by (fastforce simp: through_def)
  ultimately show ?case using Cons.IH [OF Cons.prems(1) o(3)] by auto
qed

text \<open>The frame that reaches the device.\<close>

fun wrap :: "conditions list \<Rightarrow> bytes \<Rightarrow> bytes result" where
  "wrap [] d = Inr d"
| "wrap (c # cs) d = bind_r (access_frame c d) (wrap cs)"

lemma send_along_path:
  "send_path w n cs b \<Longrightarrow> send_data n d w
     = Some (bind_r (wrap cs d) (\<lambda>frame. Inr (w\<lparr>sent := sent w @ [(b, frame)]\<rparr>)))"
proof (induction cs arbitrary: n d)
  case Nil
  then show ?case by (auto simp: send_data.simps)
next
  case (Cons c cs)
  then obtain my r a where o: "objs w n = Some (Access c my r)" "through w my a" "send_path w a cs b"
    by auto
  show ?case
  proof (cases "access_frame c d")
    case (Inr frame)
    have "send_data n d w = send_data my frame w" using o(1) Inr by (simp add: send_data.simps [of n])
    also have "\<dots> = send_data a frame w" using o(2) by (auto simp: through_def send_data.simps [of my])
    finally show ?thesis using Cons.IH [OF o(3)] Inr by simp
  qed (use o in \<open>simp add: send_data.simps [of n]\<close>)
qed

lemma connected_extends: "extends w w' \<Longrightarrow> connected w l c a ap \<Longrightarrow> connected w' l c a ap"
  unfolding connected_def by (metis extends_keeps extends_multi is_multi.simps(3,5))

text \<open>The receivers of applications that are no layers: the object, and what is known of the receiver \<open>s\<close> of an access
  \<open>n\<close> that was made in the world \<open>w\<close>.\<close>

fun receiver_for :: "app \<Rightarrow> ref \<Rightarrow> obj" where
  "receiver_for (Responder keep respond) n = Replier n respond"
| "receiver_for _ n = Sink"

fun top_app :: "app \<Rightarrow> bool" where
  "top_app (Layer c ap) = False"
| "top_app _ = True"

definition top_receiver :: "world \<Rightarrow> app \<Rightarrow> world \<Rightarrow> ref \<Rightarrow> ref \<Rightarrow> bool" where
  "top_receiver w ap w' n s = (case ap of Static_receiver s0 \<Rightarrow> s = s0
     | _ \<Rightarrow> unused w \<le> s \<and> objs w' s = Some (receiver_for ap n))"

text \<open>The objects a generator adds, with \<open>u\<close> the first unused reference: the child access (\<open>u\<close>), the
  access of the layer (\<open>u + 1\<close>) with its forwarder and filter, and what the application puts on it.\<close>

definition generated :: "world \<Rightarrow> conditions \<Rightarrow> ref \<Rightarrow> ref \<Rightarrow> ref list \<Rightarrow> ref \<Rightarrow> ref \<Rightarrow> obj option" where
  "generated w c a m ls rcv =
     (let u = unused w in (objs w)(m \<mapsto> Multi (add_recv_listener (Some (u + 3)) ls), u \<mapsto> Child a m (Some (u + 3)),
        u + 1 \<mapsto> Access c u (Some rcv), u + 2 \<mapsto> Forward (u + 1), u + 3 \<mapsto> Filter c (u + 2)))"

lemma generate_receiver:
  assumes "wf_world w" and "objs w m = Some (Multi ls)" and "access_conditions (single_conditions c p)"
    and "ap = Receiver \<or> (\<exists>keep respond. ap = Responder keep respond)"
  shows "generate c a m ap p w = Inr (unused w + 1, w\<lparr>
    objs := (generated w (single_conditions c p) a m ls (unused w + 4))(unused w + 4 \<mapsto> receiver_for ap (unused w + 1)),
    unused := unused w + 5\<rparr>)"
proof -
  have "m < unused w" by (rule wf_allocated [OF assms(1,2)])
  then show ?thesis using assms(2-4)
    by (elim disjE exE; simp add: generate_def generated_def world_defs Let_def numeral_eq_Suc; intro world.equality; auto simp: fun_eq_iff)
qed

lemma generate_static:
  assumes "wf_world w" and "objs w m = Some (Multi ls)" and "access_conditions (single_conditions c p)"
  shows "generate c a m (Static_receiver s) p w = Inr (unused w + 1, w\<lparr>
    objs := generated w (single_conditions c p) a m ls s, unused := unused w + 4\<rparr>)"
proof -
  have "m < unused w" by (rule wf_allocated [OF assms(1,2)])
  then show ?thesis using assms(2,3)
    by (simp add: generate_def generated_def world_defs Let_def numeral_eq_Suc) (rule world.equality, auto simp: fun_eq_iff)
qed

lemma generate_layer:
  assumes "wf_world w" and "objs w m = Some (Multi ls)" and "access_conditions (single_conditions c p)" and "listens k"
  shows "generate c a m (Layer k upper) p w = Inr (unused w + 1, w\<lparr>
    objs := (generated w (single_conditions c p) a m ls (unused w + 6))(unused w + 4 \<mapsto> Multi [],
      unused w + 5 \<mapsto> Generator k (unused w + 1) (unused w + 4) (Some upper), unused w + 6 \<mapsto> Filter k (unused w + 5)),
    unused := unused w + 7\<rparr>)"
proof -
  have "m < unused w" by (rule wf_allocated [OF assms(1,2)])
  then show ?thesis using assms(2-4)
    by (simp add: generate_def generated_def world_defs Let_def numeral_eq_Suc) (rule world.equality, auto simp: fun_eq_iff)
qed

lemma generated_extends:
  assumes "wf_world w" and "objs w m = Some (Multi ls)" and "unused w < k"
    and "\<And>r. r < unused w \<Longrightarrow> f r = generated w c a m ls rcv r" and "\<And>r. k \<le> r \<Longrightarrow> f r = None"
  shows "extends w (w\<lparr>objs := f, unused := k\<rparr>)" "wf_world (w\<lparr>objs := f, unused := k\<rparr>)"
proof -
  have "f r = (if r = m then Some (Multi (add_recv_listener (Some (unused w + 3)) ls)) else objs w r)" if "r < unused w" for r
    using assms(4) [OF that] that by (auto simp: generated_def Let_def)
  then show "extends w (w\<lparr>objs := f, unused := k\<rparr>)"
    using assms(2,3) wf_allocated [OF assms(1)] by (auto simp: extends_def kept_def)
  show "wf_world (w\<lparr>objs := f, unused := k\<rparr>)" using assms(5) by (simp add: wf_world_def)
qed

lemma generate_top_facts:
  assumes wf: "wf_world w" and m: "objs w m = Some (Multi ls)" and ac: "access_conditions (single_conditions c p)" and top: "top_app ap"
  shows "\<exists>w' n s. generate c a m ap p w = Inr (n, w') \<and> wf_world w' \<and> extends w w'
    \<and> received w' = received w \<and> sent w' = sent w
    \<and> recv_access w' n = Some s \<and> top_receiver w ap w' n s
    \<and> (\<exists>ch r q. objs w' n = Some (Access (single_conditions c p) ch r) \<and> objs w' ch = Some (Child a m q))"
proof -
  have mu: "m < unused w" by (rule wf_allocated [OF wf m])
  show ?thesis
  proof (cases "\<exists>s0. ap = Static_receiver s0")
    case True
    then obtain s0 where ap: "ap = Static_receiver s0" by blast
    define w' where "w' = w\<lparr>objs := generated w (single_conditions c p) a m ls s0, unused := unused w + 4\<rparr>"
    have "extends w w'" "wf_world w'" unfolding w'_def
      by (rule generated_extends [OF wf m]; use wf mu in \<open>simp add: generated_def Let_def wf_world_def\<close>)+
    then show ?thesis
      by (simp add: generate_static [OF wf m ac] ap top_receiver_def recv_access_def w'_def) (simp add: generated_def Let_def)
  next
    case False
    then have ap: "ap = Receiver \<or> (\<exists>keep respond. ap = Responder keep respond)" using top by (cases ap) auto
    define w' where "w' = w\<lparr>objs := (generated w (single_conditions c p) a m ls (unused w + 4))(unused w + 4 \<mapsto> receiver_for ap (unused w + 1)),
      unused := unused w + 5\<rparr>"
    have "extends w w'" "wf_world w'" unfolding w'_def
      by (rule generated_extends [OF wf m]; use wf mu in \<open>simp add: generated_def Let_def wf_world_def\<close>)+
    moreover have "top_receiver w ap w' (unused w + 1) (unused w + 4)" using ap by (auto simp: w'_def top_receiver_def)
    moreover have "recv_access w' (unused w + 1) = Some (unused w + 4)" "objs w' (unused w) = Some (Child a m (Some (unused w + 3)))"
      "\<exists>r. objs w' (unused w + 1) = Some (Access (single_conditions c p) (unused w) r)"
      by (simp_all add: w'_def recv_access_def generated_def Let_def)
    moreover have "generate c a m ap p w = Inr (unused w + 1, w')" "received w' = received w" "sent w' = sent w"
      by (simp_all add: w'_def generate_receiver [OF wf m ac ap])
    ultimately show ?thesis by blast
  qed
qed

lemma generate_layer_facts:
  assumes wf: "wf_world w" and m: "objs w m = Some (Multi ls)" and ac: "access_conditions (single_conditions c p)" and k: "listens k"
  shows "\<exists>w' n l. generate c a m (Layer k upper) p w = Inr (n, w') \<and> wf_world w' \<and> extends w w'
    \<and> received w' = received w \<and> sent w' = sent w
    \<and> recv_access w' n = Some l \<and> connected w' l k n upper
    \<and> (\<exists>ch r q. objs w' n = Some (Access (single_conditions c p) ch r) \<and> objs w' ch = Some (Child a m q))"
proof -
  have mu: "m < unused w" by (rule wf_allocated [OF wf m])
  let ?f = "(generated w (single_conditions c p) a m ls (unused w + 6))(unused w + 4 \<mapsto> Multi [],
      unused w + 5 \<mapsto> Generator k (unused w + 1) (unused w + 4) (Some upper), unused w + 6 \<mapsto> Filter k (unused w + 5))"
  define w' where "w' = w\<lparr>objs := ?f, unused := unused w + 7\<rparr>"
  have "extends w w'" "wf_world w'" unfolding w'_def
    by (rule generated_extends [OF wf m]; use wf mu in \<open>simp add: generated_def Let_def wf_world_def\<close>)+
  moreover have "generate c a m (Layer k upper) p w = Inr (unused w + 1, w')" "received w' = received w" "sent w' = sent w"
    by (simp_all add: w'_def generate_layer [OF wf m ac k])
  moreover have "recv_access w' (unused w + 1) = Some (unused w + 6)"
    by (simp add: w'_def recv_access_def generated_def Let_def)
  moreover have "connected w' (unused w + 6) k (unused w + 1) upper"
    by (simp add: w'_def connected_def)
  moreover have "objs w' (unused w) = Some (Child a m (Some (unused w + 3)))"
    "\<exists>r. objs w' (unused w + 1) = Some (Access (single_conditions c p) (unused w) r)"
    by (simp_all add: w'_def generated_def Let_def)
  ultimately show ?thesis
    by blast
qed

section \<open>A packet in a stack of generators\<close>

text \<open>The layers of a stack, lowest first, under an application, and the payload that passes all their filters.\<close>

fun app_on :: "app \<Rightarrow> conditions list \<Rightarrow> app" where
  "app_on ap [] = ap"
| "app_on ap (c # cs) = Layer c (app_on ap cs)"

abbreviation app_of :: "conditions list \<Rightarrow> app" where "app_of \<equiv> app_on Receiver"

fun stack_filter :: "conditions list \<Rightarrow> conditions list \<Rightarrow> bytes \<Rightarrow> (conditions list \<times> bytes) option result" where
  "stack_filter [] acc d = Inr (Some (acc, d))"
| "stack_filter (c # cs) acc d =
     bind_r (run_filter c d) (\<lambda>r. case r of None \<Rightarrow> Inr None
       | Some (p, encap) \<Rightarrow> stack_filter cs (single_conditions c p # acc) encap)"

text \<open>What a packet comes to: a fault, nothing, or a call of the receiver of an access that did not exist
  before, from which data go down to the device \<open>b\<close> through accesses for the peers of the packet.\<close>

definition reaches :: "(ref \<Rightarrow> nat) \<Rightarrow> ref \<Rightarrow> app \<Rightarrow> world \<Rightarrow> (conditions list \<times> bytes) option result \<Rightarrow> world result option \<Rightarrow> bool" where
  "reaches addr b ap w v res \<longleftrightarrow>
     (case v of
        Inl e \<Rightarrow> res = Some (Inl e)
      | Inr None \<Rightarrow> \<exists>w'. res = Some (Inr w') \<and> wf_world w' \<and> extends w w' \<and> received w' = received w \<and> sent w' = sent w
      | Inr (Some (acc, d)) \<Rightarrow> \<exists>w' s n. res = exec addr (Handle s d) w' \<and> wf_world w' \<and> extends w w'
          \<and> received w' = received w \<and> sent w' = sent w \<and> top_receiver w ap w' n s
          \<and> recv_access w' n = Some s \<and> send_path w' n acc b)"

lemma reaches_extends:
  assumes "reaches addr b ap w1 v res" and "extends w w1" and "received w1 = received w" and "sent w1 = sent w"
  shows "reaches addr b ap w v res"
proof -
  have "top_receiver w1 ap w' n s \<Longrightarrow> top_receiver w ap w' n s" for w' n s
    using assms(2) by (cases ap) (auto simp: top_receiver_def extends_def)
  then show ?thesis
    using assms extends_trans [OF assms(2)] by (fastforce simp: reaches_def split: sum.splits option.splits)
qed

text \<open>The filter and the generator, up to the receiver of the new access.\<close>

lemma exec_filter:
  assumes "wf_world w" and "objs w l = Some (Filter c g)"
    and "\<And>p encap. run_filter c d = Inr (Some (p, encap)) \<Longrightarrow>
      reaches addr b ap w (stack_filter cs (single_conditions c p # acc) encap) (exec addr (Deliver g p encap) w)"
  shows "reaches addr b ap w (stack_filter (c # cs) acc d) (exec addr (Handle l d) w)"
proof (cases "run_filter c d")
  case (Inr v)
  show ?thesis
  proof (cases v)
    case (Some pe)
    then show ?thesis using assms Inr by (cases pe) (simp add: exec.simps [of addr "Handle l d"])
  qed (use assms Inr in \<open>simp add: exec.simps [of addr "Handle l d"] reaches_def\<close>)
qed (use assms in \<open>simp add: exec.simps [of addr "Handle l d"] reaches_def\<close>)

lemma exec_generator:
  assumes "objs w g = Some (Generator c a m (Some ap))" and "generate c a m ap p w = Inr (n, w')"
    and "recv_access w' n = Some r"
  shows "exec addr (Deliver g p d) w = exec addr (Handle r d) w'"
  using assms by (simp add: exec.simps [of addr "Deliver g p d"])

lemma exec_sink:
  "objs w s = Some Sink \<Longrightarrow> exec addr (Handle s d) w = Some (Inr (w\<lparr>received := received w @ [(s, d)]\<rparr>))"
  by (simp add: exec.simps [of addr "Handle s d"])

lemma exec_stack:
  assumes "wf_world w" and "connected w l c a (app_on ap cs)" and "send_path w a acc b"
    and "listens c" and "\<forall>c \<in> set cs. listens c" and "top_app ap"
  shows "reaches addr b ap w (stack_filter (c # cs) acc d) (exec addr (Handle l d) w)"
  using assms
proof (induction cs arbitrary: w l c a acc d)
  case Nil
  then obtain g m ls where o: "objs w l = Some (Filter c g)" "objs w g = Some (Generator c a m (Some ap))"
    "objs w m = Some (Multi ls)" by (auto simp: connected_def)
  show ?case
  proof (rule exec_filter [OF Nil.prems(1) o(1)])
    fix p encap
    assume "run_filter c d = Inr (Some (p, encap))"
    then have ac: "access_conditions (single_conditions c p)" by (rule access_conditions_single [OF Nil.prems(4)])
    obtain w' n s where w': "generate c a m ap p w = Inr (n, w')" "wf_world w'" "extends w w'"
      "received w' = received w" "sent w' = sent w" "recv_access w' n = Some s" "top_receiver w ap w' n s"
      "\<exists>ch r q. objs w' n = Some (Access (single_conditions c p) ch r) \<and> objs w' ch = Some (Child a m q)"
      using generate_top_facts [OF Nil.prems(1) o(3) ac Nil.prems(6)] by blast
    have path: "send_path w' n (single_conditions c p # acc) b"
      using w'(8) send_path_extends [OF w'(3) Nil.prems(3)] by (fastforce simp: through_def)
    show "reaches addr b ap w (stack_filter [] (single_conditions c p # acc) encap) (exec addr (Deliver g p encap) w)"
      unfolding reaches_def stack_filter.simps sum.case option.case prod.case
      using exec_generator [OF o(2) w'(1,6)] w'(2-7) path by blast
  qed
next
  case (Cons k cs)
  then obtain g m ls where o: "objs w l = Some (Filter c g)" "objs w g = Some (Generator c a m (Some (Layer k (app_on ap cs))))"
    "objs w m = Some (Multi ls)" by (auto simp: connected_def)
  show ?case
  proof (rule exec_filter [OF Cons.prems(1) o(1)])
    fix p encap
    assume "run_filter c d = Inr (Some (p, encap))"
    then have ac: "access_conditions (single_conditions c p)" by (rule access_conditions_single [OF Cons.prems(4)])
    have k: "listens k" "\<forall>c \<in> set cs. listens c" using Cons.prems(5) by simp_all
    obtain w' n l' where w': "generate c a m (Layer k (app_on ap cs)) p w = Inr (n, w')" "wf_world w'" "extends w w'"
      "received w' = received w" "sent w' = sent w" "recv_access w' n = Some l'" "connected w' l' k n (app_on ap cs)"
      "\<exists>ch r q. objs w' n = Some (Access (single_conditions c p) ch r) \<and> objs w' ch = Some (Child a m q)"
      using generate_layer_facts [OF Cons.prems(1) o(3) ac k(1)] by blast
    have path: "send_path w' n (single_conditions c p # acc) b"
      using w'(8) send_path_extends [OF w'(3) Cons.prems(3)] by (fastforce simp: through_def)
    show "reaches addr b ap w (stack_filter (k # cs) (single_conditions c p # acc) encap) (exec addr (Deliver g p encap) w)"
      unfolding exec_generator [OF o(2) w'(1,6)]
      by (rule reaches_extends [OF Cons.IH [OF w'(2,7) path k Cons.prems(6)] w'(3-5)])
  qed
qed

text \<open>The effect of a packet in a stack whose application makes receivers: at most one delivery, to a fresh receiver.\<close>

definition effect :: "ref \<Rightarrow> world \<Rightarrow> (conditions list \<times> bytes) option result \<Rightarrow> world result option \<Rightarrow> bool" where
  "effect b w v res \<longleftrightarrow>
     (case v of
        Inl e \<Rightarrow> res = Some (Inl e)
      | Inr None \<Rightarrow> \<exists>w'. res = Some (Inr w') \<and> wf_world w' \<and> extends w w' \<and> received w' = received w \<and> sent w' = sent w
      | Inr (Some (acc, d)) \<Rightarrow> \<exists>w' s n. res = Some (Inr w') \<and> wf_world w' \<and> extends w w'
          \<and> received w' = received w @ [(s, d)] \<and> sent w' = sent w \<and> unused w \<le> s \<and> objs w' s = Some Sink
          \<and> recv_access w' n = Some s \<and> send_path w' n acc b)"

lemma extends_received [simp]: "extends w w' \<Longrightarrow> extends w (w'\<lparr>received := x, sent := y\<rparr>)" "extends w w' \<Longrightarrow> extends w (w'\<lparr>received := x\<rparr>)"
  by (simp_all add: extends_def)

lemma send_path_received [simp]: "send_path w n cs b \<Longrightarrow> send_path (w\<lparr>received := x\<rparr>) n cs b"
  by (rule send_path_extends [of w]) (simp_all add: extends_def)

lemma reaches_effect:
  assumes "reaches addr b Receiver w v res"
  shows "effect b w v res"
proof (cases v)
  case (Inr x)
  show ?thesis
  proof (cases x)
    case (Some ad)
    then obtain acc d w' s n where w': "ad = (acc, d)" "res = exec addr (Handle s d) w'" "wf_world w'" "extends w w'"
      "received w' = received w" "sent w' = sent w" "unused w \<le> s" "objs w' s = Some Sink" "recv_access w' n = Some s" "send_path w' n acc b"
      using assms Inr by (cases ad) (auto simp: reaches_def top_receiver_def)
    then show ?thesis
      using exec_sink [OF w'(8), of addr d] by (auto simp: effect_def Inr Some wf_world_def recv_access_def)
  qed (use assms Inr in \<open>simp add: reaches_def effect_def\<close>)
qed (use assms in \<open>simp add: reaches_def effect_def\<close>)

section \<open>A device with a stack on it\<close>

text \<open>An access to a device (\<open>0\<close>), with the generator of the lowest layer connected to it.\<close>

definition device_world :: "conditions \<Rightarrow> app \<Rightarrow> world result" where
  "device_world c ap = connect_layer 0 c (Some ap) \<lparr>objs = [0 \<mapsto> Base None], unused = 1, received = [], sent = []\<rparr>"

text \<open>The frames the device hands to its receiver, one after the other.\<close>

fun run_frames :: "(ref \<Rightarrow> nat) \<Rightarrow> bytes list \<Rightarrow> world \<Rightarrow> world result option" where
  "run_frames addr [] w = Some (Inr w)"
| "run_frames addr (d # ds) w =
     bind_ro (case recv_access w 0 of None \<Rightarrow> Some (Inr w) | Some l \<Rightarrow> exec addr (Handle l d) w) (run_frames addr ds)"

definition stacked_on :: "app \<Rightarrow> conditions list \<Rightarrow> world \<Rightarrow> bool" where
  "stacked_on ap cs w \<longleftrightarrow> top_app ap \<and> (\<forall>c \<in> set cs. listens c) \<and> wf_world w
     \<and> (\<exists>l. objs w 0 = Some (Base (Some l)) \<and> connected w l (hd cs) 0 (app_on ap (tl cs)))"

abbreviation stacked :: "conditions list \<Rightarrow> world \<Rightarrow> bool" where "stacked \<equiv> stacked_on Receiver"

lemma connect_layer_stacked:
  assumes "wf_world w" and "objs w 0 = Some (Base q)" and "\<forall>c \<in> set (c # cs). listens c" and "top_app ap"
  shows "\<exists>w'. connect_layer 0 c (Some (app_on ap cs)) w = Inr w' \<and> stacked_on ap (c # cs) w' \<and> received w' = received w
    \<and> sent w' = sent w \<and> (\<forall>r ob. objs w r = Some ob \<and> r \<noteq> 0 \<longrightarrow> objs w' r = Some ob)"
  using assms wf_allocated [OF assms(1,2)] wf_allocated [OF assms(1)]
  by (fastforce simp: world_defs stacked_on_def connected_def wf_world_def Let_def)

lemma device_world_stacked:
  "\<forall>c \<in> set (c # cs). listens c \<Longrightarrow> \<exists>w. device_world c (app_of cs) = Inr w \<and> stacked (c # cs) w \<and> received w = [] \<and> sent w = []"
  using connect_layer_stacked [of "\<lparr>objs = [0 \<mapsto> Base None], unused = 1, received = [], sent = []\<rparr>" None c cs Receiver]
  by (auto simp: device_world_def wf_world_def)

lemma stacked_extends: "stacked_on ap cs w \<Longrightarrow> extends w w' \<Longrightarrow> wf_world w' \<Longrightarrow> stacked_on ap cs w'"
  unfolding stacked_on_def using connected_extends extends_keeps by (metis is_multi.simps(6))

lemma frame_reaches:
  assumes "stacked_on ap (c # cs) w"
  shows "reaches addr 0 ap w (stack_filter (c # cs) [] d)
    (case recv_access w 0 of None \<Rightarrow> Some (Inr w) | Some l \<Rightarrow> exec addr (Handle l d) w)"
proof -
  from assms obtain l where l: "objs w 0 = Some (Base (Some l))" "connected w l c 0 (app_on ap cs)" and wf: "wf_world w"
    and ls: "listens c" "\<forall>c \<in> set cs. listens c" "top_app ap"
    by (auto simp: stacked_on_def)
  then show ?thesis using exec_stack [OF wf l(2) _ ls, of "[]" 0 addr d] by (simp add: recv_access_def)
qed

lemma run_frame:
  assumes "stacked (c # cs) w"
  shows "effect 0 w (stack_filter (c # cs) [] d)
    (case recv_access w 0 of None \<Rightarrow> Some (Inr w) | Some l \<Rightarrow> exec addr (Handle l d) w)"
  by (rule reaches_effect [OF frame_reaches [OF assms]])

text \<open>What a frame delivers to the application.\<close>

definition payload :: "conditions list \<Rightarrow> bytes \<Rightarrow> bytes list" where
  "payload cs d = (case stack_filter cs [] d of Inr (Some (_, e)) \<Rightarrow> [e] | _ \<Rightarrow> [])"

lemma run_frames_delivers:
  assumes "stacked (c # cs) w" and "\<forall>d \<in> set ds. \<exists>v. stack_filter (c # cs) [] d = Inr v"
  shows "\<exists>w' rs. run_frames addr ds w = Some (Inr w') \<and> stacked (c # cs) w' \<and> extends w w' \<and> sent w' = sent w
    \<and> received w' = received w @ zip rs (concat (map (payload (c # cs)) ds))
    \<and> length rs = length (concat (map (payload (c # cs)) ds)) \<and> distinct rs
    \<and> (\<forall>r \<in> set rs. unused w \<le> r \<and> r < unused w')"
  using assms
proof (induction ds arbitrary: w)
  case (Cons d ds)
  obtain v where v: "stack_filter (c # cs) [] d = Inr v" using Cons.prems(2) by auto
  obtain w1 s where w1: "(case recv_access w 0 of None \<Rightarrow> Some (Inr w) | Some l \<Rightarrow> exec addr (Handle l d) w) = Some (Inr w1)"
    "wf_world w1" "extends w w1" "sent w1 = sent w"
    "received w1 = received w @ zip s (payload (c # cs) d)" "length s = length (payload (c # cs) d)" "distinct s"
    "\<forall>r \<in> set s. unused w \<le> r \<and> r < unused w1"
  proof (cases v)
    case None
    then show ?thesis using run_frame [OF Cons.prems(1), of d addr] that [of _ "[]"]
      by (auto simp: v effect_def payload_def simp del: stack_filter.simps)
  next
    case (Some x)
    then obtain w1 s where "(case recv_access w 0 of None \<Rightarrow> Some (Inr w) | Some l \<Rightarrow> exec addr (Handle l d) w) = Some (Inr w1)"
      "wf_world w1" "extends w w1" "sent w1 = sent w" "received w1 = received w @ [(s, snd x)]" "unused w \<le> s" "objs w1 s = Some Sink"
      using run_frame [OF Cons.prems(1), of d addr] by (auto simp: v effect_def simp del: stack_filter.simps split: prod.splits)
    then show ?thesis using Some that [of w1 "[s]"] wf_allocated [of w1 s Sink]
      by (auto simp: v payload_def simp del: stack_filter.simps split: prod.splits)
  qed
  obtain w' rs where w': "run_frames addr ds w1 = Some (Inr w')" "stacked (c # cs) w'" "extends w1 w'" "sent w' = sent w1"
    "received w' = received w1 @ zip rs (concat (map (payload (c # cs)) ds))"
    "length rs = length (concat (map (payload (c # cs)) ds))" "distinct rs" "\<forall>r \<in> set rs. unused w1 \<le> r \<and> r < unused w'"
    using Cons.IH [OF stacked_extends [OF Cons.prems(1) w1(3,2)]] Cons.prems(2) by auto
  have u: "unused w \<le> unused w1" "unused w1 \<le> unused w'" using w1(3) w'(3) by (simp_all add: extends_def)
  show ?case
    using w1 w' u extends_trans [OF w1(3) w'(3)]
    by (intro exI [of _ w'] exI [of _ "s @ rs"]) (fastforce simp: bind_ro_def)
qed (simp add: stacked_on_def)

section \<open>Properties\<close>

text \<open>C8: On a device with a stack of generators, every frame that passes the filters of all layers is delivered to the
  application exactly once, in order and with exactly the payload, each to the receiver of a fresh access (no
  receiver ever gets a second packet), and nothing is sent.\<close>

theorem generator_stack_delivery:
  assumes "\<forall>c \<in> set (c # cs). listens c" and "\<forall>d \<in> set ds. \<exists>v. stack_filter (c # cs) [] d = Inr v"
  shows "\<exists>w w'. device_world c (app_of cs) = Inr w \<and> run_frames addr ds w = Some (Inr w') \<and> sent w' = []
    \<and> map snd (received w') = concat (map (payload (c # cs)) ds) \<and> distinct (map fst (received w'))"
proof -
  obtain w where w: "device_world c (app_of cs) = Inr w" "stacked (c # cs) w" "received w = []" "sent w = []"
    using device_world_stacked [OF assms(1)] by blast
  from run_frames_delivers [OF w(2) assms(2), of addr] w show ?thesis by auto
qed

theorem generator_stack_delivery_witness:
  "\<exists>w w'. device_world (Udp_layer \<lparr>udp_cond_src = None, udp_cond_dest = Some 53\<rparr>) Receiver = Inr w
    \<and> run_frames id [[0,1, 0,53, 0,9, 0,0, 42], [0,1, 0,54, 0,9, 0,0, 43], [0,1, 0,53, 0,9, 0,0, 44]] w = Some (Inr w') \<and> sent w' = []
    \<and> map snd (received w') = [[42], [44]] \<and> distinct (map fst (received w'))"
proof -
  let ?ds = "[[0,1, 0,53, 0,9, 0,0, 42], [0,1, 0,54, 0,9, 0,0, 43], [0,1, 0,53, 0,9, 0,0, 44]] :: bytes list"
  let ?c = "Udp_layer \<lparr>udp_cond_src = None, udp_cond_dest = Some 53\<rparr>"
  have "list_all (\<lambda>d. case stack_filter [?c] [] d of Inr v \<Rightarrow> True | Inl e \<Rightarrow> False) ?ds" by code_simp
  then have f: "\<forall>d \<in> set ?ds. \<exists>v. stack_filter [?c] [] d = Inr v" by (auto split: sum.splits)
  have "concat (map (payload [?c]) ?ds) = [[42], [44]]" by code_simp
  with generator_stack_delivery [OF _ f, of id] show ?thesis by simp
qed

text \<open>What the application sends through an access that a packet generated reaches the device as one frame,
  wrapped by every layer for the peers of that packet, from the top layer down.\<close>

theorem generated_access_replies:
  assumes "\<forall>c \<in> set (c # cs). listens c" and "stack_filter (c # cs) [] d = Inr (Some (layers, e))"
  shows "\<exists>w w' n s. device_world c (app_of cs) = Inr w \<and> run_frames addr [d] w = Some (Inr w')
    \<and> received w' = [(s, e)] \<and> recv_access w' n = Some s
    \<and> send_data n reply w' = Some (bind_r (wrap layers reply) (\<lambda>frame. Inr (w'\<lparr>sent := [(0, frame)]\<rparr>)))"
proof -
  obtain w where w: "device_world c (app_of cs) = Inr w" "stacked (c # cs) w" "received w = []" "sent w = []"
    using device_world_stacked [OF assms(1)] by blast
  from run_frame [OF w(2), of d addr] obtain w' s n where
    "run_frames addr [d] w = Some (Inr w')" "received w' = [(s, e)]" "sent w' = []" "recv_access w' n = Some s" "send_path w' n layers 0"
    unfolding assms(2) by (auto simp: effect_def w bind_ro_def)
  then show ?thesis using w(1) send_along_path [of w' n layers 0 reply] by auto
qed

theorem generated_access_replies_witness:
  "\<exists>w w' n s. device_world (Udp_layer \<lparr>udp_cond_src = None, udp_cond_dest = Some 53\<rparr>) Receiver = Inr w
    \<and> run_frames id [[0,1, 0,53, 0,9, 0,0, 42]] w = Some (Inr w')
    \<and> received w' = [(s, [42])] \<and> recv_access w' n = Some s
    \<and> send_data n [7, 8] w' = Some (Inr (w'\<lparr>sent := [(0, [0,53, 0,1, 0,10, 0,0, 7,8])]\<rparr>))"
proof -
  let ?c = "Udp_layer \<lparr>udp_cond_src = None, udp_cond_dest = Some 53\<rparr>"
    and ?c1 = "Udp_layer \<lparr>udp_cond_src = Some 1, udp_cond_dest = Some 53\<rparr>"
  have "stack_filter [?c] [] [0,1, 0,53, 0,9, 0,0, 42] = Inr (Some ([?c1], [42]))" by code_simp
  note r = generated_access_replies [OF _ this, of id "[7, 8]"]
  have "wrap [?c1] [7, 8] = Inr [0,53, 0,1, 0,10, 0,0, 7,8]" by code_simp
  with r show ?thesis by simp
qed

end
