(* ===== verification/Net_Conversation.thy ===== *)
theory Net_Conversation
  imports Net_Stack
begin

text \<open>
  Two ends of a network (\<^verbatim>\<open>net_access_single\<close> on one side, generators on the other): a client opens
  an access over an access over a device; a server connects a stack of generators to its device.  The
  property says that a request sent through the client's access is delivered by the server, and the
  server's reply through the access it generated is delivered to the client.
\<close>

section \<open>The other end of an access\<close>

text \<open>The conditions under which the other end has an access for this one.\<close>

fun mirror :: "conditions \<Rightarrow> conditions" where
  "mirror (Ether2_layer c) = Ether2_layer (c\<lparr>cond_src := cond_dest c, cond_dest := cond_src c\<rparr>)"
| "mirror (Ip4_layer c) = Ip4_layer (c\<lparr>ip_cond_src := ip_cond_dest c, ip_cond_dest := ip_cond_src c\<rparr>)"
| "mirror (Udp_layer c) = Udp_layer (c\<lparr>udp_cond_src := udp_cond_dest c, udp_cond_dest := udp_cond_src c\<rparr>)"
| "mirror (Emp_layer c) = Emp_layer (c\<lparr>emp_cond_src := emp_cond_dest c, emp_cond_dest := emp_cond_src c\<rparr>)"
| "mirror (Nsp_layer c) = Nsp_layer (c\<lparr>nsp_cond_src := nsp_cond_dest c, nsp_cond_dest := nsp_cond_src c\<rparr>)"
| "mirror (Eap_layer c) = Eap_layer (c\<lparr>eap_cond_src := eap_cond_dest c, eap_cond_dest := eap_cond_src c\<rparr>)"
| "mirror (Ptp_layer path) = Ptp_layer path"

text \<open>The conditions of a generator: any source.\<close>

fun any_source :: "conditions \<Rightarrow> conditions" where
  "any_source (Ether2_layer c) = Ether2_layer (c\<lparr>cond_src := None\<rparr>)"
| "any_source (Ip4_layer c) = Ip4_layer (c\<lparr>ip_cond_src := None\<rparr>)"
| "any_source (Udp_layer c) = Udp_layer (c\<lparr>udp_cond_src := None\<rparr>)"
| "any_source (Emp_layer c) = Emp_layer (c\<lparr>emp_cond_src := None\<rparr>)"
| "any_source (Nsp_layer c) = Nsp_layer (c\<lparr>nsp_cond_src := None\<rparr>)"
| "any_source (Eap_layer c) = Eap_layer (c\<lparr>eap_cond_src := None\<rparr>)"
| "any_source (Ptp_layer path) = Ptp_layer path"

text \<open>The access has an address of its own.\<close>

fun addressed :: "conditions \<Rightarrow> bool" where
  "addressed (Ether2_layer c) = (cond_dest c \<noteq> None)"
| "addressed (Ip4_layer c) = (ip_cond_dest c \<noteq> None)"
| "addressed (Udp_layer c) = (udp_cond_dest c \<noteq> None)"
| "addressed (Emp_layer c) = (emp_cond_dest c \<noteq> None)"
| "addressed (Nsp_layer c) = (nsp_cond_dest c \<noteq> None)"
| "addressed (Eap_layer c) = (eap_cond_dest c \<noteq> None)"
| "addressed (Ptp_layer path) = False"

lemma mirror_mirror [simp]: "mirror (mirror c) = c"
  by (cases c) simp_all

lemma fixed_send:
  "sent_frame (send_frame (Some ()) (fixed_frame n bs d)) = Inr f \<longleftrightarrow> length bs + length d \<le> n \<and> f = bs @ d"
  by (auto simp: fixed_frame_eq sent_frame_def)

lemmas send_defs = sent_frame_def ethernet2_send_def ip4_send_frame udp_send_frame emp_send_def nsp_send_def eap_send_def
  fixed_frame_eq with_peer_def

lemma mirror_accepts:
  assumes "access_frame c d = Inr f" and "\<forall>path. c \<noteq> Ptp_layer path"
  shows "\<exists>p. run_filter (mirror c) f = Inr (Some (p, d))
    \<and> (addressed c \<longrightarrow> run_filter (any_source (mirror c)) f = Inr (Some (p, d))
         \<and> single_conditions (any_source (mirror c)) p = mirror c)"
proof (cases c)
  case (Ptp_layer path)
  then show ?thesis using assms(2) by simp
next
  case (Ether2_layer c)
  define h where "h = (case cond_src c of None \<Rightarrow> ethernet2_broadcast_header (cond_dest c) (cond_type c)
      | Some a \<Rightarrow> ethernet2_single_header a (cond_dest c) (cond_type c))"
  have "f = write_ethernet2_header h @ d"
    using assms(1) by (simp add: Ether2_layer send_defs h_def split: option.splits if_splits)
  then show ?thesis
    using ethernet2.rcv_frame [of "h" "write_ethernet2_header h" _ d] unfolding Ether2_layer
    by (auto simp: with_peer_def h_def ethernet2_sel_def ethernet2_broadcast_header_def ethernet2_single_header_def split: option.splits)
next
  case (Ip4_layer c)
  define h where "h = (case ip_cond_src c of None \<Rightarrow> ip4_broadcast_header (ip_cond_dest c) (ip_cond_prot c) (length d)
      | Some a \<Rightarrow> ip4_single_header a (ip_cond_dest c) (ip_cond_prot c) (length d))"
  have "f = write_ip4_header (checksummed h) @ d"
    using assms(1) by (simp add: Ip4_layer send_defs h_def split: option.splits if_splits)
  moreover have "flags (checksummed h) = 0"
    by (simp add: h_def ip4_broadcast_header_def ip4_single_header_def split: option.split)
  ultimately show ?thesis
    using ip4.rcv_frame [of "checksummed h" "write_ip4_header (checksummed h)" _ d] unfolding Ip4_layer
    by (auto simp: with_peer_def h_def checksummed_def ip4_sel_def ip4_broadcast_header_def ip4_single_header_def split: option.splits)
next
  case (Eap_layer c)
  define h where "h = (case eap_cond_src c of None \<Rightarrow> eap_broadcast_header (eap_cond_dest c) (eap_cond_prot c)
      | Some a \<Rightarrow> eap_single_header a (eap_cond_dest c) (eap_cond_prot c))"
  have "f = write_eap_header h @ d"
    using assms(1) by (simp add: Eap_layer send_defs h_def split: option.splits if_splits)
  then show ?thesis
    using eap.rcv_frame [of "h" "write_eap_header h" _ d] unfolding Eap_layer
    by (auto simp: with_peer_def h_def eap_sel_def eap_broadcast_header_def eap_single_header_def split: option.splits)
next
  case (Udp_layer c)
  then obtain a where a: "udp_cond_dest c = Some a" using assms(1) by (cases "udp_cond_dest c") auto
  define h where "h = udp_single_header (udp_cond_src c) a"
  have "f = write_udp_header (udp_filled h (length d)) @ d"
    using assms(1) by (simp add: Udp_layer a send_defs h_def split: if_splits)
  then show ?thesis
    using udp.rcv_frame [of "udp_filled h (length d)" "write_udp_header (udp_filled h (length d))" _ d] unfolding Udp_layer
    by (auto simp: with_peer_def a h_def udp_filled_def udp_sel_def udp_single_header_def split: option.splits)
next
  case (Emp_layer c)
  then obtain a where a: "emp_cond_dest c = Some a" using assms(1) by (cases "emp_cond_dest c") auto
  define h where "h = emp_single_header (emp_cond_src c) a"
  have "f = write_emp_header h @ d"
    using assms(1) by (simp add: Emp_layer a send_defs h_def split: if_splits)
  then show ?thesis
    using emp.rcv_frame [of "h" "write_emp_header h" _ d] unfolding Emp_layer
    by (auto simp: with_peer_def a h_def emp_sel_def emp_single_header_def split: option.splits)
next
  case (Nsp_layer c)
  then obtain a b where ab: "nsp_cond_src c = Some b" "nsp_cond_dest c = Some a"
    using assms(1) by (cases "nsp_cond_dest c"; cases "nsp_cond_src c") auto
  define h where "h = nsp_single_header b a"
  have "f = write_nsp_header h @ d"
    using assms(1) by (simp add: Nsp_layer ab send_defs h_def split: if_splits)
  then show ?thesis
    using nsp.rcv_frame [of "h" "write_nsp_header h" _ d] unfolding Nsp_layer
    by (auto simp: with_peer_def ab h_def nsp_sel_def nsp_single_header_def)
qed

lemma stack_filter_append:
  "stack_filter (xs @ ys) out f = bind_r (stack_filter xs out f) (\<lambda>r. case r of None \<Rightarrow> Inr None
     | Some (out', e) \<Rightarrow> stack_filter ys out' e)"
proof (induction xs arbitrary: out f)
  case (Cons x xs)
  then show ?case
    by (cases "run_filter x f") (simp_all split: option.split prod.split)
qed simp

lemma wrap_accepted:
  "wrap acc d = Inr f \<Longrightarrow> \<forall>c \<in> set acc. \<forall>path. c \<noteq> Ptp_layer path \<Longrightarrow> (\<exists>ls. stack_filter (map mirror (rev acc)) [] f = Inr (Some (ls, d)))
    \<and> ((\<forall>c \<in> set acc. addressed c) \<longrightarrow>
      stack_filter (map (\<lambda>c. any_source (mirror c)) (rev acc)) [] f = Inr (Some (map mirror acc, d)))"
proof (induction acc arbitrary: d)
  case (Cons c acc)
  obtain e where e: "access_frame c d = Inr e" "wrap acc e = Inr f"
    using Cons.prems(1) by (auto simp: bind_r_eq_Inr)
  have l: "\<forall>path. c \<noteq> Ptp_layer path" "\<forall>c \<in> set acc. \<forall>path. c \<noteq> Ptp_layer path" using Cons.prems(2) by simp_all
  obtain p where p: "run_filter (mirror c) e = Inr (Some (p, d))"
    "addressed c \<longrightarrow> run_filter (any_source (mirror c)) e = Inr (Some (p, d)) \<and> single_conditions (any_source (mirror c)) p = mirror c"
    using mirror_accepts [OF e(1) l(1)] by blast
  show ?case using Cons.IH [OF e(2) l(2)] p by (auto simp: stack_filter_append)
qed simp

lemma wrap_access_conditions: "wrap acc d = Inr f \<Longrightarrow> \<forall>c \<in> set acc. access_conditions c"
proof (induction acc arbitrary: d)
  case (Cons c acc)
  then obtain e where e: "access_frame c d = Inr e" "wrap acc e = Inr f" by (auto simp: bind_r_eq_Inr)
  have "access_conditions c" using e(1) by (cases c) (auto split: option.splits)
  then show ?case using Cons.IH [OF e(2)] by simp
qed simp

section \<open>A client\<close>

text \<open>Opening accesses with given conditions over an access, the lowest first, with a receiver on the top one.\<close>

fun open_access :: "conditions list \<Rightarrow> ref \<Rightarrow> world \<Rightarrow> (ref \<times> ref \<times> world) result" where
  "open_access [] a w = (let (s, w) = alloc Sink w in bind_r (set_recv_access a s w) (\<lambda>w. Inr (a, s, w)))"
| "open_access (c # cs) a w = bind_r (new_net_access a c w) (\<lambda>(n, w). open_access cs n w)"

definition client_world :: "conditions list \<Rightarrow> (ref \<times> ref \<times> world) result" where
  "client_world cs = open_access cs 0 \<lparr>objs = [0 \<mapsto> Base None], unused = 1, received = [], sent = []\<rparr>"

text \<open>From a listener up to the receiver \<open>s\<close>, through filters with the given conditions.\<close>

fun recv_path :: "world \<Rightarrow> ref \<Rightarrow> conditions list \<Rightarrow> ref \<Rightarrow> bool" where
  "recv_path w l [] s \<longleftrightarrow> l = s \<and> objs w s = Some Sink"
| "recv_path w l (c # cs) s \<longleftrightarrow> (\<exists>fw n r. objs w l = Some (Filter c fw) \<and> objs w fw = Some (Forward n)
     \<and> recv_access w n = Some r \<and> recv_path w r cs s)"

lemma exec_recv_path:
  "recv_path w l cs s \<Longrightarrow> stack_filter cs ls f = Inr (Some (ls', d))
    \<Longrightarrow> exec addr (Handle l f) w = Some (Inr (w\<lparr>received := received w @ [(s, d)]\<rparr>))"
proof (induction cs arbitrary: l ls f)
  case (Cons c cs)
  then obtain fw n r where o: "objs w l = Some (Filter c fw)" "objs w fw = Some (Forward n)"
    "recv_access w n = Some r" "recv_path w r cs s" by auto
  obtain p e where pe: "run_filter c f = Inr (Some (p, e))" "stack_filter cs (single_conditions c p # ls) e = Inr (Some (ls', d))"
    using Cons.prems(2) by (auto simp: bind_r_eq_Inr split: option.splits)
  then have "exec addr (Handle l f) w = exec addr (Handle r e) w"
    using o by (simp add: exec.simps [of addr "Handle l f"] exec.simps [of addr "Deliver fw p e"] del: not_None_eq)
  with Cons.IH [OF o(4) pe(2)] show ?case by simp
qed (simp add: exec_sink)

text \<open>The receiver set on an access changes nothing for the sending path.\<close>

definition reset_recv :: "ref option \<Rightarrow> obj \<Rightarrow> obj" where
  "reset_recv r ob = (case ob of Base _ \<Rightarrow> Base r | Access c my _ \<Rightarrow> Access c my r | _ \<Rightarrow> ob)"

lemma send_path_reset:
  assumes "\<And>r ob. objs w r = Some ob \<Longrightarrow> \<exists>q. objs w' r = Some (reset_recv q ob)"
  shows "send_path w n cs b \<Longrightarrow> send_path w' n cs b"
proof (induction cs arbitrary: n)
  case Nil
  then obtain q where "objs w n = Some (Base q)" "n = b" by auto
  with assms [of n "Base q"] show ?case by (auto simp: reset_recv_def)
next
  case (Cons c cs)
  then obtain my r a where o: "objs w n = Some (Access c my r)" "through w my a" "send_path w a cs b" by auto
  have "\<exists>q. objs w' n = Some (Access c my q)" using assms [OF o(1)] by (auto simp: reset_recv_def)
  moreover have "through w' my a" using o(2) assms by (fastforce simp: through_def reset_recv_def)
  ultimately show ?case using Cons.IH [OF o(3)] by auto
qed

definition unset :: "world \<Rightarrow> ref \<Rightarrow> bool" where
  "unset w a \<longleftrightarrow> objs w a = Some (Base None) \<or> (\<exists>c my. objs w a = Some (Access c my None))"

lemma open_access_facts:
  assumes "wf_world w" and "unset w a" and "send_path w a acc b" and "\<forall>c \<in> set cs. access_conditions c"
  shows "\<exists>n s w' l. open_access cs a w = Inr (n, s, w') \<and> wf_world w'
    \<and> (\<forall>r ob. objs w r = Some ob \<longrightarrow> objs w' r = Some (if r = a then reset_recv (Some l) ob else ob))
    \<and> recv_path w' l cs s \<and> send_path w' n (rev cs @ acc) b \<and> received w' = received w \<and> sent w' = sent w"
  using assms
proof (induction cs arbitrary: a w acc)
  case Nil
  have au: "a < unused w" using Nil.prems(1,2) by (auto simp: unset_def dest: wf_allocated)
  define w' where "w' = w\<lparr>objs := (objs w)(unused w \<mapsto> Sink, a \<mapsto> reset_recv (Some (unused w)) (the (objs w a))), unused := unused w + 1\<rparr>"
  have o: "open_access [] a w = Inr (a, unused w, w')"
    using Nil.prems(2) au by (auto simp: unset_def world_defs reset_recv_def w'_def)
  have k: "\<forall>r ob. objs w r = Some ob \<longrightarrow> objs w' r = Some (if r = a then reset_recv (Some (unused w)) ob else ob)"
    using wf_allocated [OF Nil.prems(1)] by (fastforce simp: w'_def)
  have "send_path w' a acc b"
    using k by (intro send_path_reset [OF _ Nil.prems(3)]) (auto simp: reset_recv_def split: obj.split)
  moreover have "recv_path w' (unused w) [] (unused w)" "wf_world w'" "received w' = received w" "sent w' = sent w"
    using au Nil.prems(1) by (auto simp: w'_def wf_world_def)
  ultimately show ?case using o k by (intro exI [of _ a] exI [of _ "unused w"] exI [of _ w']) (simp del: open_access.simps)
next
  case (Cons c cs)
  have au: "a < unused w" using Cons.prems(1,2) by (auto simp: unset_def dest: wf_allocated)
  let ?u = "unused w"
  define w1 where "w1 = w\<lparr>objs := (objs w)(?u \<mapsto> Access c a None, ?u + 1 \<mapsto> Forward ?u, ?u + 2 \<mapsto> Filter c (?u + 1),
    a \<mapsto> reset_recv (Some (?u + 2)) (the (objs w a))), unused := ?u + 3\<rparr>"
  have m: "make_access a c w = Inr (?u, w1)"
    using Cons.prems(2) au by (auto simp: unset_def world_defs reset_recv_def w1_def numeral_eq_Suc Let_def)
  have k: "\<forall>r ob. objs w r = Some ob \<longrightarrow> objs w1 r = Some (if r = a then reset_recv (Some (?u + 2)) ob else ob)"
    using wf_allocated [OF Cons.prems(1)] by (fastforce simp: w1_def)
  have w1: "wf_world w1" "unset w1 ?u" "objs w1 ?u = Some (Access c a None)" "objs w1 (?u + 1) = Some (Forward ?u)"
    "objs w1 (?u + 2) = Some (Filter c (?u + 1))"
    using Cons.prems(1) au by (auto simp: w1_def wf_world_def unset_def)
  have "send_path w1 a acc b"
    using k by (intro send_path_reset [OF _ Cons.prems(3)]) (auto simp: reset_recv_def split: obj.split)
  then have "send_path w1 ?u (c # acc) b" using w1(3) by (auto simp: through_def)
  with Cons.IH [OF w1(1,2) _] Cons.prems(4) obtain n s w' l where w': "open_access cs ?u w1 = Inr (n, s, w')" "wf_world w'"
    "\<forall>r ob. objs w1 r = Some ob \<longrightarrow> objs w' r = Some (if r = ?u then reset_recv (Some l) ob else ob)"
    "recv_path w' l cs s" "send_path w' n (rev cs @ c # acc) b" "received w' = received w1" "sent w' = sent w1"
    by (metis list.set_intros(2))
  have "objs w' r = Some (if r = a then reset_recv (Some (?u + 2)) ob else ob)" if "objs w r = Some ob" for r ob
    using k w'(3) that wf_allocated [OF Cons.prems(1) that] by simp
  moreover have "objs w' (?u + 2) = Some (Filter c (?u + 1))" "objs w' (?u + 1) = Some (Forward ?u)"
    "recv_access w' ?u = Some l"
    using w'(3) w1 by (simp_all add: recv_access_def reset_recv_def)
  then have "recv_path w' (?u + 2) (c # cs) s" using w'(4) by auto
  moreover have "open_access (c # cs) a w = Inr (n, s, w')" using m w'(1) Cons.prems(4) by simp
  moreover have "send_path w' n (rev (c # cs) @ acc) b" "received w' = received w" "sent w' = sent w"
    using w'(5-7) by (simp_all add: w1_def)
  ultimately show ?case using w'(2) by blast
qed

lemma client_world_facts:
  "\<forall>c \<in> set cs. access_conditions c \<Longrightarrow> \<exists>n s w l. client_world cs = Inr (n, s, w) \<and> recv_access w 0 = Some l \<and> recv_path w l cs s
    \<and> send_path w n (rev cs) 0 \<and> received w = [] \<and> sent w = []"
proof -
  assume ac: "\<forall>c \<in> set cs. access_conditions c"
  define w :: world where "w = \<lparr>objs = [0 \<mapsto> Base None], unused = 1, received = [], sent = []\<rparr>"
  have "wf_world w" "unset w 0" "send_path w 0 [] 0" by (simp_all add: w_def wf_world_def unset_def)
  from open_access_facts [OF this ac] obtain n s w' l where w': "open_access cs 0 w = Inr (n, s, w')"
    "objs w' 0 = Some (Base (Some l))" "recv_path w' l cs s" "send_path w' n (rev cs) 0" "received w' = []" "sent w' = []"
    by (auto simp: w_def reset_recv_def)
  then show ?thesis by (simp add: client_world_def w_def recv_access_def)
qed

lemma client_receives:
  assumes "recv_access w 0 = Some l" and "recv_path w l cs s" and "stack_filter cs [] f = Inr (Some (ls, d))"
  shows "run_frames addr [f] w = Some (Inr (w\<lparr>received := received w @ [(s, d)]\<rparr>))"
  using exec_recv_path [OF assms(2,3), of addr] assms(1) by (simp add: bind_ro_def)

lemma recv_path_update [simp]:
  "recv_path (w\<lparr>sent := x\<rparr>) l cs s = recv_path w l cs s" "recv_access (w\<lparr>sent := x\<rparr>) a = recv_access w a"
  "recv_path (w\<lparr>received := y\<rparr>) l cs s = recv_path w l cs s" "recv_access (w\<lparr>received := y\<rparr>) a = recv_access w a"
  by (induction cs arbitrary: l) (simp_all add: recv_access_def)

section \<open>Properties\<close>

text \<open>C2: A client with accesses \<open>cs\<close> (lowest first) sends a request through the top one; its frame, handed to the
  device of a server whose generators listen under the mirrored conditions from any source, is delivered
  there as it was sent; a reply through the access the server generated reaches the client's device, whose
  receiver gets exactly the reply.  This holds for every stack of the six protocols in which the client's
  accesses have addresses of their own, as long as the layers can frame both messages.\<close>

theorem request_and_reply:
  assumes "cs = c # cs'" and "\<forall>c \<in> set cs. addressed c \<and> listens (any_source (mirror c))"
    and "wrap (rev cs) request = Inr frame" and "wrap (map mirror (rev cs)) reply = Inr frame'"
  shows "\<exists>top sink client server w n s.
      client_world cs = Inr (top, sink, client)
    \<and> send_data top request client = Some (Inr (client\<lparr>sent := [(0, frame)]\<rparr>))
    \<and> device_world (any_source (mirror c)) (app_of (map (\<lambda>c. any_source (mirror c)) cs')) = Inr server
    \<and> run_frames addr [frame] server = Some (Inr w) \<and> received w = [(s, request)] \<and> recv_access w n = Some s
    \<and> send_data n reply w = Some (Inr (w\<lparr>sent := [(0, frame')]\<rparr>))
    \<and> run_frames addr' [frame'] (client\<lparr>sent := [(0, frame)]\<rparr>)
        = Some (Inr (client\<lparr>sent := [(0, frame)], received := [(sink, reply)]\<rparr>))"
proof -
  obtain top sink client l where cl: "client_world cs = Inr (top, sink, client)" "recv_access client 0 = Some l"
    "recv_path client l cs sink" "send_path client top (rev cs) 0" "received client = []" "sent client = []"
    using client_world_facts [of cs] wrap_access_conditions [OF assms(3)] by auto
  obtain server where sv: "device_world (any_source (mirror c)) (app_of (map (\<lambda>c. any_source (mirror c)) cs')) = Inr server"
    "stacked (map (\<lambda>c. any_source (mirror c)) cs) server" "received server = []" "sent server = []"
    using device_world_stacked [of "any_source (mirror c)" "map (\<lambda>c. any_source (mirror c)) cs'"] assms(1,2) by auto
  have not_ptp: "\<forall>path. c \<noteq> Ptp_layer path" "\<forall>path. mirror c \<noteq> Ptp_layer path" if "c \<in> set cs" for c
    using assms(2) that by (cases c; fastforce)+
  have f: "stack_filter (map (\<lambda>c. any_source (mirror c)) cs) [] frame = Inr (Some (map mirror (rev cs), request))"
    using wrap_accepted [OF assms(3)] assms(2) not_ptp(1) by auto
  obtain w s n where w: "run_frames addr [frame] server = Some (Inr w)" "received w = [(s, request)]" "sent w = []"
    "recv_access w n = Some s" "send_path w n (map mirror (rev cs)) 0"
  proof -
    have "effect 0 server (Inr (Some (map mirror (rev cs), request)))
        (case recv_access server 0 of None \<Rightarrow> Some (Inr server) | Some l \<Rightarrow> exec addr (Handle l frame) server)"
      using run_frame [of "any_source (mirror c)" "map (\<lambda>c. any_source (mirror c)) cs'" server frame addr] sv(2) f
      by (simp add: assms(1) del: stack_filter.simps)
    then show ?thesis using that sv(3,4) by (auto simp: effect_def bind_ro_def)
  qed
  obtain ls where "stack_filter cs [] frame' = Inr (Some (ls, reply))"
    using wrap_accepted [OF assms(4)] not_ptp(2) by (auto simp: rev_map comp_def)
  from client_receives [OF _ _ this, of "client\<lparr>sent := [(0, frame)]\<rparr>" l sink addr'] cl
  have "run_frames addr' [frame'] (client\<lparr>sent := [(0, frame)]\<rparr>)
      = Some (Inr (client\<lparr>sent := [(0, frame)], received := [(sink, reply)]\<rparr>))" by simp
  moreover have "send_data top request client = Some (Inr (client\<lparr>sent := [(0, frame)]\<rparr>))"
    "send_data n reply w = Some (Inr (w\<lparr>sent := [(0, frame')]\<rparr>))"
    using send_along_path [OF cl(4)] send_along_path [OF w(5)] assms(3,4) cl(6) w(3) by simp_all
  ultimately show ?thesis using cl(1) sv(1) w(1,2,4) by blast
qed

theorem request_and_reply_witness:
  "\<exists>frame frame' top sink client server w n s.
      client_world [Ip4_layer \<lparr>ip_cond_src = Some (Ip4_addr 10 0 0 2), ip_cond_dest = Some (Ip4_addr 10 0 0 1), ip_cond_prot = Some 17\<rparr>,
        Udp_layer \<lparr>udp_cond_src = Some 53, udp_cond_dest = Some 1234\<rparr>] = Inr (top, sink, client)
    \<and> device_world (Ip4_layer \<lparr>ip_cond_src = None, ip_cond_dest = Some (Ip4_addr 10 0 0 2), ip_cond_prot = Some 17\<rparr>)
        (Layer (Udp_layer \<lparr>udp_cond_src = None, udp_cond_dest = Some 53\<rparr>) Receiver) = Inr server
    \<and> send_data top [1, 2] client = Some (Inr (client\<lparr>sent := [(0, frame)]\<rparr>))
    \<and> run_frames id [frame] server = Some (Inr w) \<and> received w = [(s, [1, 2])] \<and> recv_access w n = Some s
    \<and> send_data n [3] w = Some (Inr (w\<lparr>sent := [(0, frame')]\<rparr>))
    \<and> run_frames id [frame'] (client\<lparr>sent := [(0, frame)]\<rparr>)
        = Some (Inr (client\<lparr>sent := [(0, frame)], received := [(sink, [3])]\<rparr>))"
proof -
  let ?i = "Ip4_layer \<lparr>ip_cond_src = Some (Ip4_addr 10 0 0 2), ip_cond_dest = Some (Ip4_addr 10 0 0 1), ip_cond_prot = Some 17\<rparr>"
  let ?u = "Udp_layer \<lparr>udp_cond_src = Some 53, udp_cond_dest = Some 1234\<rparr>"
  have "\<exists>f. wrap (rev [?i, ?u]) [1, 2] = Inr f" "\<exists>f. wrap (map mirror (rev [?i, ?u])) [3] = Inr f"
    by (simp_all add: send_defs)
  then obtain f f' where f: "wrap (rev [?i, ?u]) [1, 2] = Inr f" "wrap (map mirror (rev [?i, ?u])) [3] = Inr f'" by blast
  have "\<forall>c \<in> set [?i, ?u]. addressed c \<and> listens (any_source (mirror c))" by simp
  from request_and_reply [OF refl this f, of id id] show ?thesis by (simp del: set_simps) blast
qed

end
