(* ===== verification/Ptp_Net.thy ===== *)
theory Ptp_Net
  imports Net_Conversation
begin

text \<open>
  The generator of PTP (\<^verbatim>\<open>connect_net_access_generator_listener\<close> of \<^verbatim>\<open>ptp_protocol.cpp\<close>): it
  splits the receiving side of its surface in two with a shared \<^verbatim>\<open>multi_recv_listener\<close>, receives on one part
  and lets every access it generates receive on the other.  The generator changes the set of
  listeners while the set is iterated, so what a packet reaches depends on the addresses of the listeners.
  The properties say exactly how, for an application that keeps the accesses it is given.
\<close>

section \<open>A generator of PTP and the accesses it makes\<close>

text \<open>What the receiver of an access for a path sends to the device \<open>b\<close> for the data \<open>e\<close>.\<close>

fun path_frames :: "ref \<Rightarrow> ptp_action_list \<Rightarrow> bytes list \<Rightarrow> (ref \<times> bytes) list result" where
  "path_frames b path [] = Inr []"
| "path_frames b path (m # ms) =
     bind_r (access_frame (Ptp_layer path) m) (\<lambda>f. bind_r (path_frames b path ms) (\<lambda>fs. Inr ((b, f) # fs)))"

fun answer_frames :: "app \<Rightarrow> ref \<Rightarrow> ptp_action_list \<Rightarrow> bytes \<Rightarrow> (ref \<times> bytes) list result" where
  "answer_frames (Responder keep respond) b path e = (case respond e of None \<Rightarrow> Inl Undefined | Some r \<Rightarrow> bind_r r (path_frames b path))"
| "answer_frames _ b path e = Inr []"

definition answerable :: "app \<Rightarrow> ptp_action_list \<Rightarrow> bytes \<Rightarrow> bool" where
  "answerable ap path e \<longleftrightarrow> (\<exists>fs. answer_frames ap 0 path e = Inr fs)"

definition answers :: "app \<Rightarrow> ref \<Rightarrow> ptp_action_list \<Rightarrow> bytes \<Rightarrow> (ref \<times> bytes) list" where
  "answers ap b path e = (case answer_frames ap b path e of Inr fs \<Rightarrow> fs | Inl _ \<Rightarrow> [])"

lemma path_frames_device: "path_frames b path ms = bind_r (path_frames c path ms) (\<lambda>fs. Inr (map (\<lambda>(_, f). (b, f)) fs))"
proof (induction ms)
  case (Cons m ms)
  then show ?case by (cases "access_frame (Ptp_layer path) m"; cases "path_frames c path ms") simp_all
qed simp

lemma answerable_frames: "answerable ap path e \<Longrightarrow> answer_frames ap b path e = Inr (answers ap b path e)"
proof -
  assume "answerable ap path e"
  then obtain fs where "answer_frames ap 0 path e = Inr fs" by (auto simp: answerable_def)
  then have "\<exists>fs. answer_frames ap b path e = Inr fs"
    using path_frames_device [of b path _ 0] by (cases ap) (auto simp: bind_r_eq_Inr split: option.splits)
  then show ?thesis by (auto simp: answers_def)
qed

lemma answers_receiver [simp]: "answers Receiver b path e = []" "answerable Receiver path e"
  by (simp_all add: answers_def answerable_def)

definition give :: "(ref \<times> bytes) list \<Rightarrow> (ref \<times> bytes) list \<Rightarrow> world \<Rightarrow> world" where
  "give rs fs w = w\<lparr>received := received w @ rs, sent := sent w @ fs\<rparr>"

lemma give_simps [simp]:
  "objs (give rs fs w) = objs w" "unused (give rs fs w) = unused w" "wf_world (give rs fs w) = wf_world w"
  "received (give rs fs w) = received w @ rs" "sent (give rs fs w) = sent w @ fs"
  "give rs fs (give rs' fs' w) = give (rs' @ rs) (fs' @ fs) w" "recv_access (give rs fs w) = recv_access w"
  "through (give rs fs w) = through w"
  by (simp_all add: give_def wf_world_def fun_eq_iff recv_access_def through_def)

text \<open>Data sent on \<open>sd\<close> go to the device \<open>b\<close>.\<close>

definition to_device :: "world \<Rightarrow> ref \<Rightarrow> ref \<Rightarrow> bool" where
  "to_device w sd b \<longleftrightarrow> (\<exists>r. objs w b = Some (Base r)) \<and> through w sd b"

lemma to_device_give [simp]: "to_device (give rs fs w) = to_device w"
  by (simp add: to_device_def fun_eq_iff)

text \<open>An access for a path: its filter \<open>f\<close>, the access \<open>n\<close> over a pair, and its receiver \<open>s\<close>.\<close>

definition ptp_access :: "world \<Rightarrow> app \<Rightarrow> ref \<Rightarrow> ref \<Rightarrow> ref \<Rightarrow> ref \<Rightarrow> ref \<Rightarrow> ptp_action_list \<Rightarrow> bool" where
  "ptp_access w ap sd sp f n s path \<longleftrightarrow> (\<exists>fw pr. objs w f = Some (Filter (Ptp_layer path) fw) \<and> objs w fw = Some (Forward n)
     \<and> objs w n = Some (Access (Ptp_layer path) pr (Some s)) \<and> objs w pr = Some (Paired sd sp)
     \<and> objs w s = Some (receiver_for ap n))"

text \<open>What stays true between packets: the filter \<open>f0\<close> of the generator \<open>g\<close> is in the set \<open>m\<close> of the listeners, and so
  is the filter of the access generated last, if any, which the second split \<open>sp\<close> remembers.\<close>

definition ptp_shared ::
  "world \<Rightarrow> app \<Rightarrow> ref \<Rightarrow> ref \<Rightarrow> ref \<Rightarrow> ref \<Rightarrow> ref \<Rightarrow> ref \<Rightarrow> (ref \<times> ref \<times> ptp_action_list) option \<Rightarrow> bool" where
  "ptp_shared w ap m sp g f0 sd b prev \<longleftrightarrow> wf_world w \<and> (ap = Receiver \<or> (\<exists>keep respond. ap = Responder keep respond))
     \<and> objs w g = Some (Ptp_generator sp sd (Some ap)) \<and> objs w f0 = Some (Filter (Ptp_layer []) g) \<and> to_device w sd b
     \<and> (case prev of None \<Rightarrow> objs w m = Some (Multi [f0]) \<and> objs w sp = Some (Split m None)
        | Some (f, s, path) \<Rightarrow> f \<noteq> f0 \<and> objs w m = Some (Multi [f0, f]) \<and> objs w sp = Some (Split m (Some f))
            \<and> (\<exists>n. ptp_access w ap sd sp f n s path))"

lemma send_on_access:
  assumes "objs w n = Some (Access (Ptp_layer path) pr q)" and "objs w pr = Some (Paired sd sp)" and "to_device w sd b"
  shows "send_data n d w = Some (bind_r (access_frame (Ptp_layer path) d) (\<lambda>f. Inr (give [] [(b, f)] w)))"
proof -
  have "send_data sd f w = Some (Inr (give [] [(b, f)] w))" for f
    using assms(3) by (auto simp: to_device_def through_def give_def send_data.simps [of sd] send_data.simps [of b])
  then have "send_data pr f w = Some (Inr (give [] [(b, f)] w))" for f
    using assms(2) by (simp add: send_data.simps [of pr])
  then show ?thesis
    using assms(1) by (cases "access_frame (Ptp_layer path) d") (simp_all add: send_data.simps [of n])
qed

lemma send_all_on_access:
  assumes "objs w n = Some (Access (Ptp_layer path) pr q)" and "objs w pr = Some (Paired sd sp)" and "to_device w sd b"
    and "path_frames b path ms = Inr fs"
  shows "send_all n ms w = Some (Inr (give [] fs w))"
  using assms
proof (induction ms arbitrary: w fs)
  case (Cons m ms)
  obtain f fs1 where f: "access_frame (Ptp_layer path) m = Inr f" "path_frames b path ms = Inr fs1" "fs = (b, f) # fs1"
    using Cons.prems(4) by (auto simp: bind_r_eq_Inr)
  have "send_all n ms (give [] [(b, f)] w) = Some (Inr (give [] fs1 (give [] [(b, f)] w)))"
    by (rule Cons.IH [OF _ _ _ f(2)]) (use Cons.prems in simp_all)
  then show ?case using send_on_access [OF Cons.prems(1-3), of m] f by simp
qed (simp add: give_def)

lemma receiver_handles:
  assumes "ptp_access w ap sd sp f n s path" and "to_device w sd b" and "answerable ap path e"
    and "ap = Receiver \<or> (\<exists>keep respond. ap = Responder keep respond)"
  shows "exec addr (Handle s e) w = Some (Inr (give [(s, e)] (answers ap b path e) w))"
proof -
  obtain pr where o: "objs w n = Some (Access (Ptp_layer path) pr (Some s))" "objs w pr = Some (Paired sd sp)"
    "objs w s = Some (receiver_for ap n)" using assms(1) by (auto simp: ptp_access_def)
  show ?thesis
  proof (cases "ap = Receiver")
    case True
    then show ?thesis using o(3) by (simp add: exec.simps [of addr "Handle s e"] give_def)
  next
    case False
    then obtain keep respond ms where r: "ap = Responder keep respond" "respond e = Some (Inr ms)" "path_frames b path ms = Inr (answers ap b path e)"
      using assms(4) answerable_frames [OF assms(3), of b] by (auto simp: bind_r_eq_Inr split: option.splits)
    have "send_all n ms (give [(s, e)] [] w) = Some (Inr (give [] (answers ap b path e) (give [(s, e)] [] w)))"
      by (rule send_all_on_access [OF _ _ _ r(3)]) (use o assms(2) in simp_all)
    then show ?thesis using o(3) r(1,2) by (simp add: exec.simps [of addr "Handle s e"] give_def)
  qed
qed

lemma previous_handles:
  assumes "ptp_access w ap sd sp f n s path" and "to_device w sd b" and "answerable ap path e"
    and "ap = Receiver \<or> (\<exists>keep respond. ap = Responder keep respond)"
    and "run_filter (Ptp_layer []) d = Inr (Some (Ptp_peer h, e))"
  shows "exec addr (Handle f d) w = Some (Inr (give [(s, e)] (answers ap b path e) w))"
proof -
  obtain fw pr where o: "objs w f = Some (Filter (Ptp_layer path) fw)" "objs w fw = Some (Forward n)"
    "objs w n = Some (Access (Ptp_layer path) pr (Some s))" using assms(1) by (auto simp: ptp_access_def)
  have "exec addr (Handle f d) w = exec addr (Deliver fw (Ptp_peer h) e) w"
    using o(1) assms(5) by (simp add: exec.simps [of addr "Handle f d"])
  also have "\<dots> = exec addr (Handle s e) w"
    using o(2,3) by (simp add: exec.simps [of addr "Deliver fw (Ptp_peer h) e"] recv_access_def)
  finally show ?thesis using receiver_handles [OF assms(1-4)] by simp
qed

text \<open>The world after a packet has generated an access for the path back.\<close>

definition ptp_made :: "world \<Rightarrow> app \<Rightarrow> ref \<Rightarrow> ref \<Rightarrow> ref \<Rightarrow> ref \<Rightarrow> ptp_action_list \<Rightarrow> world" where
  "ptp_made w ap m sp f0 sd path = (let u = unused w in w\<lparr>objs := (objs w)(sp \<mapsto> Split m (Some (u + 3)), m \<mapsto> Multi [f0, u + 3],
     u \<mapsto> Paired sd sp, u + 1 \<mapsto> Access (Ptp_layer path) u (Some (u + 4)), u + 2 \<mapsto> Forward (u + 1),
     u + 3 \<mapsto> Filter (Ptp_layer path) (u + 2), u + 4 \<mapsto> receiver_for ap (u + 1)), unused := u + 5\<rparr>)"

lemma ptp_shared_refs:
  assumes "ptp_shared w ap m sp g f0 sd b prev"
  shows "m < unused w" "sp < unused w" "g < unused w" "f0 < unused w" "sd < unused w" "b < unused w"
    "m \<noteq> sp" "m \<noteq> g" "m \<noteq> f0" "sp \<noteq> g" "sp \<noteq> f0" "g \<noteq> f0" "sd \<noteq> m" "sd \<noteq> sp" "b \<noteq> m" "b \<noteq> sp"
  using assms wf_allocated [of w]
  by (auto simp: ptp_shared_def to_device_def through_def split: option.splits)

lemma ptp_generate_made:
  assumes "ptp_shared w ap m sp g f0 sd b prev" and "ptp_reply_path h = Inr path"
  shows "ptp_generate sp sd ap h w = Inr (unused w + 1, ptp_made w ap m sp f0 sd path)"
proof -
  note u = ptp_shared_refs [OF assms(1)]
  have o: "objs w m = Some (Multi (f0 # (case prev of None \<Rightarrow> [] | Some (f, _) \<Rightarrow> [f])))"
    "objs w sp = Some (Split m (map_option fst prev))" "case prev of None \<Rightarrow> True | Some (f, _) \<Rightarrow> f \<noteq> f0"
    using assms(1) by (auto simp: ptp_shared_def split: option.splits)
  have ap: "ap = Receiver \<or> (\<exists>keep respond. ap = Responder keep respond)" using assms(1) by (simp add: ptp_shared_def)
  show ?thesis
    using ap o u(1,2,4,5,7,9,11) assms(2)
    by (elim disjE exE; cases prev)
      (simp_all add: ptp_generate_def ptp_made_def ptp_net_access_single_def world_defs Let_def numeral_eq_Suc
        add_recv_listener_def remove_listener_def split: prod.splits,
       (rule world.equality, auto simp: fun_eq_iff)+)
qed

lemma ptp_made_access:
  assumes "ptp_shared w ap m sp g f0 sd b prev"
  shows "ptp_access (ptp_made w ap m sp f0 sd path) ap sd sp (unused w + 3) (unused w + 1) (unused w + 4) path"
    "recv_access (ptp_made w ap m sp f0 sd path) (unused w + 1) = Some (unused w + 4)"
    "to_device (ptp_made w ap m sp f0 sd path) sd b"
    "objs (ptp_made w ap m sp f0 sd path) m = Some (Multi [f0, unused w + 3])"
proof -
  note u = ptp_shared_refs [OF assms]
  show "ptp_access (ptp_made w ap m sp f0 sd path) ap sd sp (unused w + 3) (unused w + 1) (unused w + 4) path"
    "recv_access (ptp_made w ap m sp f0 sd path) (unused w + 1) = Some (unused w + 4)"
    "objs (ptp_made w ap m sp f0 sd path) m = Some (Multi [f0, unused w + 3])"
    using u by (simp_all add: ptp_access_def ptp_made_def recv_access_def Let_def)
  show "to_device (ptp_made w ap m sp f0 sd path) sd b"
    using assms u by (auto simp: ptp_shared_def to_device_def through_def ptp_made_def Let_def)
qed

lemma ptp_made_shared:
  assumes "ptp_shared w ap m sp g f0 sd b prev"
  shows "ptp_shared (give rs fs (ptp_made w ap m sp f0 sd path)) ap m sp g f0 sd b (Some (unused w + 3, unused w + 4, path))"
proof -
  note u = ptp_shared_refs [OF assms] and a = ptp_made_access [OF assms, of path]
  have w: "wf_world w" using assms by (simp add: ptp_shared_def)
  have "wf_world (ptp_made w ap m sp f0 sd path)" using w u by (simp add: wf_world_def ptp_made_def Let_def)
  moreover have "objs (ptp_made w ap m sp f0 sd path) g = objs w g" "objs (ptp_made w ap m sp f0 sd path) f0 = objs w f0"
    "objs (ptp_made w ap m sp f0 sd path) sp = Some (Split m (Some (unused w + 3)))"
    using u by (simp_all add: ptp_made_def Let_def)
  ultimately show ?thesis
    using assms a u(4) by (auto simp: ptp_shared_def ptp_access_def to_device_def)
qed

section \<open>A packet\<close>

lemma generator_handles:
  assumes "ptp_shared w ap m sp g f0 sd b prev" and "run_filter (Ptp_layer []) d = Inr (Some (Ptp_peer h, e))"
    and "ptp_reply_path h = Inr path" and "answerable ap path e"
  shows "exec addr (Handle f0 d) w = Some (Inr (release ap (unused w + 1)
    (give [(unused w + 4, e)] (answers ap b path e) (ptp_made w ap m sp f0 sd path))))"
proof -
  have o: "objs w f0 = Some (Filter (Ptp_layer []) g)" "objs w g = Some (Ptp_generator sp sd (Some ap))"
    and ap: "ap = Receiver \<or> (\<exists>keep respond. ap = Responder keep respond)" using assms(1) by (auto simp: ptp_shared_def)
  note n = ptp_made_access [OF assms(1), of path]
  have "exec addr (Handle f0 d) w = exec addr (Deliver g (Ptp_peer h) e) w"
    using o(1) assms(2) by (simp add: exec.simps [of addr "Handle f0 d"])
  also have "\<dots> = bind_ro (exec addr (Handle (unused w + 4) e) (ptp_made w ap m sp f0 sd path))
      (\<lambda>w'. Some (Inr (release ap (unused w + 1) w')))"
    using o(2) n(2) ptp_generate_made [OF assms(1,3)] by (simp add: exec.simps [of addr "Deliver g (Ptp_peer h) e"])
  finally show ?thesis using receiver_handles [OF n(1,3) assms(4) ap] by simp
qed

lemma iterate_step:
  "objs w l = Some (Multi ls) \<Longrightarrow> next_listener addr prev ls = Some r \<Longrightarrow> exec addr (Handle r d) w = Some (Inr w')
    \<Longrightarrow> exec addr (Iterate l prev d) w = exec addr (Iterate l (Some r) d) w'"
  "objs w l = Some (Multi ls) \<Longrightarrow> next_listener addr prev ls = None \<Longrightarrow> exec addr (Iterate l prev d) w = Some (Inr w)"
  by (simp_all add: exec.simps [of addr "Iterate l prev d"])

text \<open>The iteration from the generator's filter on: the new filter is visited too when its address is greater.\<close>

lemma iterate_generator:
  assumes "ptp_shared w ap m sp g f0 sd b prev" and "run_filter (Ptp_layer []) d = Inr (Some (Ptp_peer h, e))"
    and "ptp_reply_path h = Inr path" and "answerable ap path e"
    and "objs w m = Some (Multi ls)" and "next_listener addr p ls = Some f0" and "keeps ap"
  shows "exec addr (Iterate m p d) w = Some (Inr (give
    ((unused w + 4, e) # (if addr f0 < addr (unused w + 3) then [(unused w + 4, e)] else []))
    (answers ap b path e @ (if addr f0 < addr (unused w + 3) then answers ap b path e else []))
    (ptp_made w ap m sp f0 sd path)))"
proof -
  let ?u = "unused w" and ?made = "ptp_made w ap m sp f0 sd path"
  let ?w = "give [(?u + 4, e)] (answers ap b path e) ?made"
  have ap: "ap = Receiver \<or> (\<exists>keep respond. ap = Responder keep respond)" using assms(1) by (simp add: ptp_shared_def)
  note n = ptp_made_access [OF assms(1), of path]
  have lm: "objs ?w m = Some (Multi [f0, ?u + 3])" using n(4) by simp
  have step: "exec addr (Iterate m p d) w = exec addr (Iterate m (Some f0) d) ?w"
    using iterate_step(1) [OF assms(5,6) generator_handles [OF assms(1-4)]] assms(7) by simp
  show ?thesis
  proof (cases "addr f0 < addr (?u + 3)")
    case True
    then have nx: "next_listener addr (Some f0) [f0, ?u + 3] = Some (?u + 3)" by simp
    have acc: "ptp_access ?w ap sd sp (?u + 3) (?u + 1) (?u + 4) path" "to_device ?w sd b"
      using n(1,3) by (simp_all add: ptp_access_def to_device_def)
    let ?w2 = "give [(?u + 4, e)] (answers ap b path e) ?w"
    have "exec addr (Iterate m (Some f0) d) ?w = exec addr (Iterate m (Some (?u + 3)) d) ?w2"
      by (rule iterate_step(1) [OF lm nx previous_handles [OF acc assms(4) ap assms(2)]])
    also have "\<dots> = Some (Inr ?w2)"
      by (rule iterate_step(2) [where ls = "[f0, ?u + 3]"]) (use lm True in simp_all)
    finally show ?thesis using step True by simp
  next
    case False
    then have "next_listener addr (Some f0) [f0, ?u + 3] = None" by simp
    from iterate_step(2) [OF lm this] show ?thesis using step False by simp
  qed
qed

text \<open>What a packet with the payload \<open>e\<close> is given to: the access made before when its filter comes first, then the new
  access, then the new access again when its filter comes after the generator's.\<close>

definition ptp_reached :: "(ref \<Rightarrow> nat) \<Rightarrow> ref \<Rightarrow> (ref \<times> ref \<times> ptp_action_list) option \<Rightarrow> ref \<Rightarrow> ptp_action_list
    \<Rightarrow> (ref \<times> ptp_action_list) list" where
  "ptp_reached addr f0 prev u path =
     (case prev of Some (f, s, path0) \<Rightarrow> if addr f < addr f0 then [(s, path0)] else [] | None \<Rightarrow> [])
     @ (u + 4, path) # (if addr f0 < addr (u + 3) then [(u + 4, path)] else [])"

lemma handle_packet_shared:
  assumes "ptp_shared w ap m sp g f0 sd b prev" and "inj addr"
    and "ptp_recv ptp_is_endpoint_end d = Inr (Some (h, e))" and "ptp_reply_path h = Inr path"
    and "\<forall>(_, p) \<in> set (ptp_reached addr f0 prev (unused w) path). answerable ap p e" and "keeps ap"
  shows "exec addr (Handle m d) w = Some (Inr (give
    (map (\<lambda>(s, _). (s, e)) (ptp_reached addr f0 prev (unused w) path))
    (concat (map (\<lambda>(_, p). answers ap b p e) (ptp_reached addr f0 prev (unused w) path)))
    (ptp_made w ap m sp f0 sd path)))"
proof -
  have flt: "run_filter (Ptp_layer []) d = Inr (Some (Ptp_peer h, e))" using assms(3) by (simp add: with_peer_def)
  have ap: "ap = Receiver \<or> (\<exists>keep respond. ap = Responder keep respond)" using assms(1) by (simp add: ptp_shared_def)
  have an: "answerable ap path e" using assms(5) by (simp add: ptp_reached_def)
  obtain ls where ls: "objs w m = Some (Multi ls)" using assms(1) by (auto simp: ptp_shared_def split: option.splits)
  have start: "exec addr (Handle m d) w = exec addr (Iterate m None d) w"
    using ls by (simp add: exec.simps [of addr "Handle m d"])
  show ?thesis
  proof (cases prev)
    case None
    then have "ls = [f0]" using assms(1) ls by (simp add: ptp_shared_def)
    then have "next_listener addr None ls = Some f0" by simp
    from iterate_generator [OF assms(1) flt assms(4) an ls this assms(6)] show ?thesis by (simp add: None start ptp_reached_def)
  next
    case (Some fs)
    then obtain f n s path0 where p: "prev = Some (f, s, path0)" "f \<noteq> f0" "ptp_access w ap sd sp f n s path0"
      and l: "ls = [f0, f]" and dv: "to_device w sd b"
      using assms(1) ls by (cases fs) (auto simp: ptp_shared_def)
    have ne: "addr f \<noteq> addr f0" using p(2) assms(2) by (auto dest: injD)
    show ?thesis
    proof (cases "addr f < addr f0")
      case False
      then have "next_listener addr None ls = Some f0" using ne by (simp add: l)
      from iterate_generator [OF assms(1) flt assms(4) an ls this assms(6)] False show ?thesis by (simp add: p start ptp_reached_def)
    next
      case True
      let ?w = "give [(s, e)] (answers ap b path0 e) w"
      have an0: "answerable ap path0 e" using assms(5) True by (simp add: ptp_reached_def p)
      have nx: "next_listener addr None ls = Some f" using True by (simp add: l)
      have st: "exec addr (Iterate m None d) w = exec addr (Iterate m (Some f) d) ?w"
        by (rule iterate_step(1) [OF ls nx previous_handles [OF p(3) dv an0 ap flt]])
      have inv: "ptp_shared ?w ap m sp g f0 sd b prev"
        using assms(1) p(1) by (auto simp: ptp_shared_def ptp_access_def to_device_def)
      have l': "objs ?w m = Some (Multi ls)" "next_listener addr (Some f) ls = Some f0" using ls True by (simp_all add: l)
      have nw: "give rs fs (ptp_made ?w ap m sp f0 sd path) = give ((s, e) # rs) (answers ap b path0 e @ fs) (ptp_made w ap m sp f0 sd path)" for rs fs
        by (simp add: ptp_made_def Let_def give_def)
      show ?thesis
        unfolding start st iterate_generator [OF inv flt assms(4) an l' assms(6)] nw using True by (simp add: p ptp_reached_def)
    qed
  qed
qed

section \<open>A device with a PTP generator\<close>

definition ptp_world :: "world result" where
  "ptp_world = ptp_connect_generator 0 0 (Some Receiver) \<lparr>objs = [0 \<mapsto> Base None], unused = 1, received = [], sent = []\<rparr>"

text \<open>Between packets: the filter (\<open>5\<close>) of the generator (\<open>4\<close>) listens, and so does the filter \<open>f\<close> of the access generated
  last, if any, which leads to the receiver \<open>s\<close>.\<close>

definition ptp_inv :: "world \<Rightarrow> (ref \<times> ref) option \<Rightarrow> bool" where
  "ptp_inv w prev \<longleftrightarrow> objs w 0 = Some (Base (Some 1))
     \<and> (\<exists>last. ptp_shared w Receiver 1 3 4 5 0 0 last \<and> prev = map_option (\<lambda>(f, s, _). (f, s)) last)"

lemma ptp_world_inv: "\<exists>w. ptp_world = Inr w \<and> ptp_inv w None \<and> received w = [] \<and> sent w = []"
  by (simp add: ptp_world_def ptp_connect_generator_def multi_net_access_recv_split_def world_defs Let_def numeral_eq_Suc
      ptp_inv_def ptp_shared_def to_device_def through_def wf_world_def add_recv_listener_def)

lemma ptp_inv_above: "ptp_inv w prev \<Longrightarrow> 5 < unused w"
  by (auto simp: ptp_inv_def dest: ptp_shared_refs(4))

definition ptp_next :: "world \<Rightarrow> ptp_action_list \<Rightarrow> world" where
  "ptp_next w path = ptp_made w Receiver 1 3 5 0 path"

lemma ptp_next_inv:
  assumes "ptp_inv w prev"
  shows "ptp_inv ((ptp_next w path)\<lparr>received := r\<rparr>) (Some (unused w + 3, unused w + 4))"
proof -
  obtain last where s: "ptp_shared w Receiver 1 3 4 5 0 0 last" and o: "objs w 0 = Some (Base (Some 1))"
    using assms by (auto simp: ptp_inv_def)
  let ?w = "w\<lparr>received := []\<rparr>"
  have "ptp_shared ?w Receiver 1 3 4 5 0 0 last"
    using s by (auto simp: ptp_shared_def ptp_access_def to_device_def through_def wf_world_def split: option.splits)
  from ptp_made_shared [OF this, where path = path and rs = r and fs = "[]"]
  have "ptp_shared ((ptp_next w path)\<lparr>received := r\<rparr>) Receiver 1 3 4 5 0 0 (Some (unused w + 3, unused w + 4, path))"
    by (simp add: give_def ptp_next_def ptp_made_def Let_def)
  moreover have "objs ((ptp_next w path)\<lparr>received := r\<rparr>) 0 = Some (Base (Some 1))"
    using o ptp_inv_above [OF assms] by (simp add: ptp_next_def ptp_made_def Let_def)
  ultimately show ?thesis by (auto simp: ptp_inv_def)
qed

text \<open>A packet from the device on.\<close>

lemma run_packet:
  assumes "ptp_inv w prev" and "inj addr"
    and "ptp_recv ptp_is_endpoint_end d = Inr (Some (h, e))" and "ptp_reply_path h = Inr path"
  shows "run_frames addr [d] w = Some (Inr ((ptp_next w path)\<lparr>received := received w
      @ (case prev of Some (f0, s0) \<Rightarrow> if addr f0 < addr 5 then [(s0, e)] else [] | None \<Rightarrow> [])
      @ [(unused w + 4, e)] @ (if addr 5 < addr (unused w + 3) then [(unused w + 4, e)] else [])\<rparr>))"
proof -
  obtain last where s: "ptp_shared w Receiver 1 3 4 5 0 0 last" and o: "objs w 0 = Some (Base (Some 1))"
    and p: "prev = map_option (\<lambda>(f, s, _). (f, s)) last" using assms(1) by (auto simp: ptp_inv_def)
  have none: "concat (map (\<lambda>(_, p). answers Receiver 0 p e) xs) = []" for xs :: "(ref \<times> ptp_action_list) list"
    by (induction xs) auto
  have "\<forall>(_, p) \<in> set (ptp_reached addr 5 last (unused w) path). answerable Receiver p e" by auto
  from handle_packet_shared [OF s assms(2-4) this _] none
  have "exec addr (Handle 1 d) w = Some (Inr (give (map (\<lambda>(s, _). (s, e)) (ptp_reached addr 5 last (unused w) path)) [] (ptp_next w path)))"
    by (simp add: ptp_next_def)
  moreover have "map (\<lambda>(s, _). (s, e)) (ptp_reached addr 5 last (unused w) path)
      = (case prev of Some (f0, s0) \<Rightarrow> if addr f0 < addr 5 then [(s0, e)] else [] | None \<Rightarrow> [])
      @ [(unused w + 4, e)] @ (if addr 5 < addr (unused w + 3) then [(unused w + 4, e)] else [])"
    by (auto simp: ptp_reached_def p split: option.split)
  moreover have "received (ptp_next w path) = received w" by (simp add: ptp_next_def ptp_made_def Let_def)
  ultimately show ?thesis
    using o by (simp add: recv_access_def bind_ro_def give_def del: One_nat_def)
qed

section \<open>Properties\<close>

text \<open>C23: A packet for the end of a path, handled after any number of others, generates an access and is delivered to its receiver
  once, and a second time when the filter of the new access has a greater address than the filter of the
  generator; the receiver of the access generated before gets the packet too when its filter has a
  smaller address.  The invariant holds again after it.\<close>

theorem ptp_generator_duplicates:
  assumes "ptp_inv w prev" and "inj addr"
    and "ptp_recv ptp_is_endpoint_end d = Inr (Some (h, e))" and "ptp_reply_path h = Inr path"
  shows "\<exists>w' f s. run_frames addr [d] w = Some (Inr w') \<and> ptp_inv w' (Some (f, s)) \<and> objs w s = None
    \<and> received w' = received w
        @ (case prev of Some (f0, s0) \<Rightarrow> if addr f0 < addr 5 then [(s0, e)] else [] | None \<Rightarrow> [])
        @ [(s, e)] @ (if addr 5 < addr f then [(s, e)] else [])"
proof (intro exI conjI)
  show "run_frames addr [d] w = Some (Inr ((ptp_next w path)\<lparr>received := received w
      @ (case prev of Some (f0, s0) \<Rightarrow> if addr f0 < addr 5 then [(s0, e)] else [] | None \<Rightarrow> [])
      @ [(unused w + 4, e)] @ (if addr 5 < addr (unused w + 3) then [(unused w + 4, e)] else [])\<rparr>))"
    by (rule run_packet [OF assms])
  show "ptp_inv ((ptp_next w path)\<lparr>received := r\<rparr>) (Some (unused w + 3, unused w + 4))" for r
    by (rule ptp_next_inv [OF assms(1)])
  show "objs w (unused w + 4) = None" using assms(1) by (auto simp: ptp_inv_def ptp_shared_def wf_world_def)
qed simp

theorem ptp_generator_duplicates_witness:
  "\<exists>w h d w' f s. ptp_world = Inr w \<and> ptp_recv ptp_is_endpoint_end d = Inr (Some (h, [7]))
    \<and> run_frames id [d] w = Some (Inr w') \<and> ptp_inv w' (Some (f, s))
    \<and> received w' = [(s, [7])] @ (if 5 < f then [(s, [7])] else [])"
proof -
  obtain w where w: "ptp_world = Inr w" "ptp_inv w None" "received w = []" using ptp_world_inv by blast
  let ?h = "\<lparr>actions = direct_path (Ptp_addr [1]) (Ptp_addr [2]), curr_action = 2, no_jumps = 2\<rparr>"
  have "direct_size (Ptp_addr [1]) (Ptp_addr [2]) + length [7 :: u8] \<le> 65536"
    by (simp add: direct_size_def write_ptp_addr_def escape_defs)
  from direct_packet [OF this, of 2 2] obtain d where
    d: "extract_ptp_header d = Inr (?h, direct_size (Ptp_addr [1]) (Ptp_addr [2]))" "drop (direct_size (Ptp_addr [1]) (Ptp_addr [2])) d = [7]"
    by blast
  have r: "ptp_recv ptp_is_endpoint_end d = Inr (Some (?h, [7]))"
    using d by (simp add: ptp_recv_def ptp_is_endpoint_end_def get_curr_action_def direct_path_def)
  have "ptp_reply_path ?h = Inr (direct_path (Ptp_addr [2]) (Ptp_addr [1]))"
    by (simp add: ptp_reply_path_def create_reverse_actions_def direct_path_def create_reverse_action_def
        create_reverse_endpoint_def action_defs endpoint_defs)
  from ptp_generator_duplicates [OF w(2) inj_on_id r this] obtain w' f s where
    "run_frames id [d] w = Some (Inr w')" "ptp_inv w' (Some (f, s))"
    "received w' = [(s, [7])] @ (if 5 < f then [(s, [7])] else [])"
    by (simp only: w(3) option.case append_Nil id_apply) blast
  with w(1) r show ?thesis by blast
qed

text \<open>C4: Client and server of PTP on one network, each behind the node of its address, with a path of the one local
  connection between them and packets that fit the buffer: a request sent through an access for the path reaches the
  receiver of an access the server's generator makes, after any number of packets before; a reply through that access
  goes to the device, and behind the client's node the client's access gives it to its receiver.  Over more connections
  there is no conversation: a node drops what it would have to pass on (\<open>ptp_end_to_end\<close>).\<close>

theorem ptp_conversation:
  assumes "direct_size a b + length request \<le> 65536" and "direct_size b a + length reply \<le> 65536"
    and "ptp_inv w prev" and "inj addr"
  shows "\<exists>top sink client frame packet w' n s frame' packet'.
      client_world [Ptp_layer (direct_path a b)] = Inr (top, sink, client)
    \<and> send_data top request client = Some (Inr (client\<lparr>sent := [(0, frame)]\<rparr>))
    \<and> node_handle_recv \<lparr>my_addr = b, recv_endpoint_end = Some ()\<rparr> frame = Some (Inr [((), packet)])
    \<and> run_frames addr [packet] w = Some (Inr w') \<and> recv_access w' n = Some s
    \<and> objs w s = None \<and> (s, request) \<in> set (received w')
    \<and> send_data n reply w' = Some (Inr (w'\<lparr>sent := sent w @ [(0, frame')]\<rparr>))
    \<and> node_handle_recv \<lparr>my_addr = a, recv_endpoint_end = Some ()\<rparr> frame' = Some (Inr [((), packet')])
    \<and> run_frames addr' [packet'] (client\<lparr>sent := [(0, frame)]\<rparr>)
        = Some (Inr (client\<lparr>sent := [(0, frame)], received := [(sink, reply)]\<rparr>))"
proof -
  obtain frame packet h where there: "ptp_send (Some ()) (ptp_single_header (direct_path a b)) request = Inr [((), frame)]"
    "node_handle_recv \<lparr>my_addr = b, recv_endpoint_end = Some ()\<rparr> frame = Some (Inr [((), packet)])"
    "ptp_recv ptp_is_endpoint_end packet = Inr (Some (h, request))" "ptp_reply_path h = Inr (direct_path b a)"
    using path_delivers [OF assms(1), of "()" "()"] by blast
  obtain frame' packet' h' where home: "ptp_send (Some ()) (ptp_single_header (direct_path b a)) reply = Inr [((), frame')]"
    "node_handle_recv \<lparr>my_addr = a, recv_endpoint_end = Some ()\<rparr> frame' = Some (Inr [((), packet')])"
    "ptp_recv ptp_is_endpoint_end packet' = Inr (Some (h', reply))"
    using path_delivers [OF assms(2), of "()" "()"] by blast
  obtain top sink client l where cl: "client_world [Ptp_layer (direct_path a b)] = Inr (top, sink, client)"
    "recv_access client 0 = Some l" "recv_path client l [Ptp_layer (direct_path a b)] sink"
    "send_path client top [Ptp_layer (direct_path a b)] 0" "received client = []" "sent client = []"
    using client_world_facts [of "[Ptp_layer (direct_path a b)]"] by auto
  have up: "send_data top request client = Some (Inr (client\<lparr>sent := [(0, frame)]\<rparr>))"
    using send_along_path [OF cl(4)] there(1) cl(6) by (simp add: sent_frame_def)
  have "stack_filter [Ptp_layer (direct_path a b)] [] packet'
      = Inr (Some ([single_conditions (Ptp_layer (direct_path a b)) (Ptp_peer h')], reply))"
    using home(3) by (simp add: with_peer_def)
  from client_receives [OF _ _ this, of "client\<lparr>sent := [(0, frame)]\<rparr>" l sink addr'] cl
  have down: "run_frames addr' [packet'] (client\<lparr>sent := [(0, frame)]\<rparr>)
      = Some (Inr (client\<lparr>sent := [(0, frame)], received := [(sink, reply)]\<rparr>))" by (simp del: recv_path.simps)
  obtain rs where w': "run_frames addr [packet] w = Some (Inr ((ptp_next w (direct_path b a))\<lparr>received := rs\<rparr>))"
    "(unused w + 4, request) \<in> set rs"
    using run_packet [OF assms(3,4) there(3,4)] by auto
  let ?w = "(ptp_next w (direct_path b a))\<lparr>received := rs\<rparr>"
  have send: "send_data (unused w + 1) reply ?w = Some (Inr (?w\<lparr>sent := sent w @ [(0, frame')]\<rparr>))"
  proof -
    have u: "5 < unused w" and o: "objs w 0 = Some (Base (Some 1))"
      using ptp_inv_above [OF assms(3)] assms(3) by (auto simp: ptp_inv_def)
    have o': "objs ?w (unused w + 1) = Some (Access (Ptp_layer (direct_path b a)) (unused w) (Some (unused w + 4)))"
      "objs ?w (unused w) = Some (Paired 0 3)" "objs ?w 0 = Some (Base (Some 1))" "sent ?w = sent w"
      using u o by (simp_all add: ptp_next_def ptp_made_def Let_def)
    then show ?thesis
      using home(1) by (simp add: send_data.simps [of "Suc (unused w)"] send_data.simps [of "unused w"] send_data.simps [of 0] sent_frame_def)
  qed
  have acc: "recv_access ?w (unused w + 1) = Some (unused w + 4)"
    by (simp add: recv_access_def ptp_next_def ptp_made_def Let_def)
  have fresh: "objs w (unused w + 4) = None" using assms(3) by (auto simp: ptp_inv_def ptp_shared_def wf_world_def)
  have got: "(unused w + 4, request) \<in> set (received ?w)" using w'(2) by simp
  show ?thesis
    by (intro exI conjI) (rule cl(1) up there(2) w'(1) acc fresh got send home(2) down)+
qed

theorem ptp_conversation_witness:
  "\<exists>top sink client frame packet w w' n s frame' packet'. ptp_world = Inr w
    \<and> client_world [Ptp_layer (direct_path (Ptp_addr [1]) (Ptp_addr [2]))] = Inr (top, sink, client)
    \<and> send_data top [7] client = Some (Inr (client\<lparr>sent := [(0, frame)]\<rparr>))
    \<and> node_handle_recv \<lparr>my_addr = Ptp_addr [2], recv_endpoint_end = Some ()\<rparr> frame = Some (Inr [((), packet)])
    \<and> run_frames id [packet] w = Some (Inr w') \<and> (s, [7]) \<in> set (received w')
    \<and> send_data n [8] w' = Some (Inr (w'\<lparr>sent := [(0, frame')]\<rparr>))
    \<and> node_handle_recv \<lparr>my_addr = Ptp_addr [1], recv_endpoint_end = Some ()\<rparr> frame' = Some (Inr [((), packet')])
    \<and> run_frames id [packet'] (client\<lparr>sent := [(0, frame)]\<rparr>)
        = Some (Inr (client\<lparr>sent := [(0, frame)], received := [(sink, [8])]\<rparr>))"
proof -
  obtain w where w: "ptp_world = Inr w" "ptp_inv w None" "sent w = []" using ptp_world_inv by blast
  have "direct_size (Ptp_addr [1]) (Ptp_addr [2]) + length [7 :: u8] \<le> 65536" "direct_size (Ptp_addr [2]) (Ptp_addr [1]) + length [8 :: u8] \<le> 65536"
    by (simp_all add: direct_size_def write_ptp_addr_def escape_defs)
  from ptp_conversation [OF this w(2) inj_on_id, of id] w show ?thesis by (simp only: append_Nil) blast
qed

end
