(* ===== verification/Net_Types.thy ===== *)
theory Net_Types
  imports Ptp_Net
begin

text \<open>
  A typing of the objects of a stack: what class of object each pointer of an object leads to, and that
  accesses are built on older ones; the receivers that answer and the PTP nodes of the programs are left out.  Every operation of \<open>Net_Stack\<close> keeps the typing, and none faults on an
  object of the wrong class or a missing one: the only faults are those of the protocols' own readers and writers.
\<close>

section \<open>Classes\<close>

text \<open>The part of an object that never changes.\<close>

fun obj_class :: "obj \<Rightarrow> obj" where
  "obj_class (Multi ls) = Multi []"
| "obj_class (Base r) = Base None"
| "obj_class (Access c my r) = Access c my None"
| "obj_class (Child a m r) = Child a m None"
| "obj_class (Split m r) = Split m None"
| "obj_class ob = ob"

fun is_listener :: "obj \<Rightarrow> bool" where
  "is_listener Sink = True"
| "is_listener (Filter c k) = True"
| "is_listener (Multi ls) = True"
| "is_listener ob = False"

fun is_sender :: "obj \<Rightarrow> bool" where
  "is_sender (Base r) = True"
| "is_sender (Access c my r) = True"
| "is_sender (Child a m r) = True"
| "is_sender (Paired a r) = True"
| "is_sender ob = False"

fun is_recv_side :: "obj \<Rightarrow> bool" where
  "is_recv_side (Base r) = True"
| "is_recv_side (Access c my r) = True"
| "is_recv_side (Child a m r) = True"
| "is_recv_side (Split m r) = True"
| "is_recv_side ob = False"

definition is_access :: "obj \<Rightarrow> bool" where
  "is_access ob \<longleftrightarrow> (\<exists>c my r. ob = Access c my r)"

text \<open>The listeners of what a filter for \<open>c\<close> lets through.\<close>

definition consumes :: "conditions \<Rightarrow> obj \<Rightarrow> bool" where
  "consumes c ob \<longleftrightarrow> (\<exists>par. ob = Forward par) \<or> (\<exists>a m l. ob = Generator c a m l)
     \<or> (\<exists>r s l path. ob = Ptp_generator r s l \<and> c = Ptp_layer path)"

text \<open>The object behind a pointer, by a property of its class.\<close>

definition has :: "world \<Rightarrow> (obj \<Rightarrow> bool) \<Rightarrow> ref \<Rightarrow> bool" where
  "has w P r \<longleftrightarrow> (\<exists>ob. objs w r = Some ob \<and> P (obj_class ob))"

text \<open>Applications whose layers have generators and that make their receivers anew.\<close>

fun app_ok :: "app \<Rightarrow> bool" where
  "app_ok Receiver = True"
| "app_ok (Static_receiver s) = False"
| "app_ok (Responder keep respond) = False"
| "app_ok (Layer c upper) = ((listens c \<or> (\<exists>path. c = Ptp_layer path)) \<and> app_ok upper)"

fun obj_ok :: "world \<Rightarrow> ref \<Rightarrow> obj \<Rightarrow> bool" where
  "obj_ok w k Sink = True"
| "obj_ok w k (Filter c r) = has w (consumes c) r"
| "obj_ok w k (Forward par) = has w is_access par"
| "obj_ok w k (Generator c a m l) = (has w is_sender a \<and> has w is_multi m \<and> listens c \<and> pred_option app_ok l)"
| "obj_ok w k (Multi ls) = (\<forall>r \<in> set ls. has w is_listener r)"
| "obj_ok w k (Base r) = pred_option (has w is_listener) r"
| "obj_ok w k (Access c my r) = (has w is_sender my \<and> my < k \<and> access_conditions c \<and> pred_option (has w is_listener) r)"
| "obj_ok w k (Child a m r) = (has w is_sender a \<and> a < k \<and> has w is_multi m \<and> pred_option (has w is_listener) r)"
| "obj_ok w k (Split m r) = (has w is_multi m \<and> pred_option (has w is_listener) r)"
| "obj_ok w k (Paired a r) = (has w is_sender a \<and> a < k \<and> has w is_recv_side r)"
| "obj_ok w k (Replier n respond) = False"
| "obj_ok w k (Node a e) = False"
| "obj_ok w k (Node_end n) = False"
| "obj_ok w k (Ptp_generator r a l) = (has w is_recv_side r \<and> has w is_sender a \<and> pred_option app_ok l)"

definition typed :: "world \<Rightarrow> bool" where
  "typed w \<longleftrightarrow> wf_world w \<and> (\<forall>r ob. objs w r = Some ob \<longrightarrow> obj_ok w r ob)"

text \<open>Objects stay and keep their classes.\<close>

definition grows :: "world \<Rightarrow> world \<Rightarrow> bool" where
  "grows w w' \<longleftrightarrow> (\<forall>r ob. objs w r = Some ob \<longrightarrow> (\<exists>ob'. objs w' r = Some ob' \<and> obj_class ob' = obj_class ob))"

lemma grows_refl [simp]: "grows w w"
  by (simp add: grows_def)

lemma grows_trans [trans]: "grows w1 w2 \<Longrightarrow> grows w2 w3 \<Longrightarrow> grows w1 w3"
  unfolding grows_def by (metis (full_types))

lemma has_grows: "has w P r \<Longrightarrow> grows w w' \<Longrightarrow> has w' P r"
  unfolding has_def grows_def by metis

lemma opt_has_grows: "pred_option (has w P) r \<Longrightarrow> grows w w' \<Longrightarrow> pred_option (has w' P) r"
  by (cases r) (auto intro: has_grows)

lemma obj_ok_grows: "obj_ok w k ob \<Longrightarrow> grows w w' \<Longrightarrow> obj_ok w' k ob"
  by (cases ob) (auto intro: has_grows opt_has_grows)

lemma class_iff [simp]:
  "is_listener (obj_class ob) = is_listener ob" "is_sender (obj_class ob) = is_sender ob"
  "is_recv_side (obj_class ob) = is_recv_side ob" "is_access (obj_class ob) = is_access ob"
  "is_multi (obj_class ob) = is_multi ob" "consumes c (obj_class ob) = consumes c ob"
  by (cases ob; simp add: is_access_def consumes_def)+

lemma has_obj: "objs w r = Some ob \<Longrightarrow> has w P r = P (obj_class ob)"
  by (simp add: has_def)

section \<open>Changing a typed world\<close>

lemma typed_obj: "typed w \<Longrightarrow> objs w r = Some ob \<Longrightarrow> obj_ok w r ob"
  by (simp add: typed_def)

lemma typed_alloc:
  assumes "typed w" and "obj_ok w (unused w) ob" and "alloc ob w = (r, w')"
  shows "typed w'" "grows w w'" "r = unused w" "objs w' r = Some ob"
proof -
  have wf: "wf_world w" using assms(1) by (simp add: typed_def)
  note a = alloc_facts [OF wf assms(3)]
  have new: "objs w (unused w) = None" using wf by (simp add: wf_world_def)
  show g: "grows w w'" unfolding grows_def using a(8) new by (metis option.distinct(1))
  show "r = unused w" "objs w' r = Some ob" using a by simp_all
  have "obj_ok w' k x" if "objs w' k = Some x" for k x
  proof (cases "k = unused w")
    case True
    then show ?thesis using that a(1,4) assms(2) obj_ok_grows [OF _ g] by simp
  next
    case False
    then show ?thesis using that a(8) typed_obj [OF assms(1)] obj_ok_grows [OF _ g] by simp
  qed
  then show "typed w'" using a(2) by (simp add: typed_def)
qed

lemma typed_set:
  assumes "typed w" and "objs w r = Some ob0" and "obj_class ob = obj_class ob0" and "obj_ok w r ob"
  shows "typed (set_obj r ob w)" "grows w (set_obj r ob w)"
proof -
  have wf: "wf_world w" using assms(1) by (simp add: typed_def)
  note s = set_obj_facts [OF wf wf_allocated [OF wf assms(2)]]
  show g: "grows w (set_obj r ob w)" using assms(2,3) by (auto simp: grows_def s(5))
  show "typed (set_obj r ob w)"
    using s(1) obj_ok_grows [OF assms(4) g] obj_ok_grows [OF typed_obj [OF assms(1)] g] by (auto simp: typed_def s(5))
qed

lemma has_received [simp]: "has (w\<lparr>received := x\<rparr>) = has w" "has (w\<lparr>sent := y\<rparr>) = has w"
  by (simp_all add: fun_eq_iff has_def)

lemma obj_ok_received [simp]: "obj_ok (w\<lparr>received := x\<rparr>) k ob = obj_ok w k ob" "obj_ok (w\<lparr>sent := y\<rparr>) k ob = obj_ok w k ob"
  by (cases ob; simp)+

lemma typed_received [simp]: "typed (w\<lparr>received := x\<rparr>) = typed w" "typed (w\<lparr>sent := y\<rparr>) = typed w"
  by (simp_all add: typed_def wf_world_def)

lemma grows_received [simp]: "grows w (w\<lparr>received := x\<rparr>)" "grows w (w\<lparr>sent := x\<rparr>)"
  by (simp_all add: grows_def)

section \<open>The operations\<close>

lemma switch_listener_ok:
  "\<forall>r \<in> set ls. has w is_listener r \<Longrightarrow> has w is_listener l \<Longrightarrow> \<forall>r \<in> set (switch_listener prev l ls). has w is_listener r"
  by (cases prev) (auto simp: switch_listener_def remove_listener_def add_recv_listener_def Let_def dest: notin_set_remove1 split: if_splits)

lemma set_listener:
  assumes "typed w" and "objs w a = Some ob0" and "obj_class ob = obj_class ob0" and "obj_ok w a ob"
    and "has w is_multi m" and "has w is_listener l" and "\<not> is_multi ob0"
  shows "\<exists>ls w'. objs w m = Some (Multi ls) \<and> w' = set_obj a ob (set_obj m (Multi (switch_listener prev l ls)) w) \<and> typed w' \<and> grows w w'"
proof -
  obtain ls where m: "objs w m = Some (Multi ls)" using assms(5) by (auto simp: has_def) (auto simp: is_multi_iff)
  let ?w = "set_obj m (Multi (switch_listener prev l ls)) w"
  have ok: "obj_ok w m (Multi (switch_listener prev l ls))"
    using switch_listener_ok [OF _ assms(6)] typed_obj [OF assms(1) m] by simp
  have t: "typed ?w" "grows w ?w" using typed_set [OF assms(1) m _ ok] by simp_all
  have "a \<noteq> m" using assms(2,7) m by auto
  then have o: "objs ?w a = Some ob0" using assms(2) by (simp add: set_obj_def)
  have "typed (set_obj a ob ?w)" "grows ?w (set_obj a ob ?w)"
    using typed_set [OF t(1) o assms(3) obj_ok_grows [OF assms(4) t(2)]] by simp_all
  then show ?thesis using m grows_trans [OF t(2)] by blast
qed

lemma set_single_typed:
  assumes "typed w" and "has w is_recv_side a" and "has w is_listener l"
  shows "\<exists>w'. set_single_recv_access a l w = Inr w' \<and> typed w' \<and> grows w w'"
proof -
  obtain ob where o: "objs w a = Some ob" "is_recv_side ob" using assms(2) by (auto simp: has_def)
  have ok: "obj_ok w a ob" by (rule typed_obj [OF assms(1) o(1)])
  show ?thesis
  proof (cases ob)
    case (Base r)
    then show ?thesis using typed_set [OF assms(1) o(1), of "Base (Some l)"] o assms(3) by (auto simp: set_single_recv_access_def)
  next
    case (Access c my r)
    then show ?thesis using typed_set [OF assms(1) o(1), of "Access c my (Some l)"] o ok assms(3) by (auto simp: set_single_recv_access_def)
  next
    case (Child b m r)
    then have "has w is_multi m" "obj_ok w a (Child b m (Some l))" using ok assms(3) by auto
    from set_listener [OF assms(1) o(1) _ this(2,1) assms(3), of r] o Child
    show ?thesis by (auto simp: set_single_recv_access_def)
  next
    case (Split m r)
    then have "has w is_multi m" "obj_ok w a (Split m (Some l))" using ok assms(3) by auto
    from set_listener [OF assms(1) o(1) _ this(2,1) assms(3), of r] o Split
    show ?thesis by (auto simp: set_single_recv_access_def)
  qed (use o in simp_all)
qed

lemma set_recv_typed:
  assumes "typed w" and "has w is_sender a \<or> has w is_recv_side a" and "has w is_listener l"
  shows "\<exists>w'. set_recv_access a l w = Inr w' \<and> typed w' \<and> grows w w'"
proof (cases "\<exists>b r. objs w a = Some (Paired b r)")
  case True
  then obtain b r where o: "objs w a = Some (Paired b r)" by blast
  then have "has w is_recv_side r" using typed_obj [OF assms(1) o] by simp
  from set_single_typed [OF assms(1) this assms(3)] show ?thesis by (simp add: set_recv_access_def o)
next
  case False
  then have "has w is_recv_side a" using assms(2) by (auto simp: has_def elim!: is_sender.elims)
  moreover have "set_recv_access a l w = set_single_recv_access a l w"
    using False by (auto simp: set_recv_access_def split: option.split obj.split)
  ultimately show ?thesis using set_single_typed [OF assms(1) _ assms(3)] by simp
qed

lemma connect_recv_typed:
  assumes "typed w" and "has w is_sender a \<or> has w is_recv_side a" and "has w (consumes c) k"
  shows "\<exists>w'. connect_recv a c k w = Inr w' \<and> typed w' \<and> grows w w'"
proof -
  obtain f w1 where f: "alloc (Filter c k) w = (f, w1)" by fastforce
  note t = typed_alloc [OF assms(1) _ f]
  have ok: "obj_ok w (unused w) (Filter c k)" using assms(3) by simp
  have "has w1 is_listener f" using t(4) [OF ok] by (simp add: has_def)
  moreover have "has w1 is_sender a \<or> has w1 is_recv_side a" using assms(2) has_grows t(2) [OF ok] by blast
  ultimately obtain w' where "set_recv_access a f w1 = Inr w'" "typed w'" "grows w1 w'"
    using set_recv_typed [OF t(1) [OF ok]] by blast
  then show ?thesis using grows_trans [OF t(2) [OF ok]] by (simp add: connect_recv_def f)
qed

lemma make_access_typed:
  assumes "typed w" and "has w is_sender my" and "access_conditions c"
  shows "\<exists>n w'. make_access my c w = Inr (n, w') \<and> typed w' \<and> grows w w' \<and> has w' is_access n"
proof -
  obtain n w1 where n: "alloc (Access c my None) w = (n, w1)" by fastforce
  have "my < unused w" using assms(1,2) by (auto simp: has_def typed_def dest: wf_allocated)
  then have "obj_ok w (unused w) (Access c my None)" using assms(2,3) by simp
  note t1 = typed_alloc [OF assms(1) this n]
  obtain f w2 where f: "alloc (Forward n) w1 = (f, w2)" by fastforce
  have a: "has w1 is_access n" using t1(4) by (simp add: has_def is_access_def)
  then have "obj_ok w1 (unused w1) (Forward n)" by simp
  note t2 = typed_alloc [OF t1(1) this f]
  have "has w2 is_sender my" using assms(2) has_grows t1(2) t2(2) by blast
  moreover have "has w2 (consumes c) f" using t2(4) by (simp add: has_def consumes_def)
  ultimately obtain w' where w': "connect_recv my c f w2 = Inr w'" "typed w'" "grows w2 w'"
    using connect_recv_typed [OF t2(1)] by blast
  have "grows w w'" using t1(2) t2(2) w'(3) grows_trans by blast
  moreover have "has w' is_access n" using a t2(2) w'(3) has_grows by blast
  ultimately show ?thesis using w'(1,2) by (simp add: make_access_def n f)
qed

lemma new_net_access_typed:
  assumes "typed w" and "has w is_sender my" and "access_conditions c"
  shows "\<exists>n w'. new_net_access my c w = Inr (n, w') \<and> typed w' \<and> grows w w' \<and> has w' is_access n"
  using make_access_typed [OF assms] assms(3) by simp

lemma alloc_multi:
  assumes "typed w" and "has w is_sender a \<or> has w is_recv_side a" and "alloc (Multi []) w = (m, w1)"
  shows "\<exists>w'. set_recv_access a m w1 = Inr w' \<and> typed w' \<and> grows w w' \<and> has w' is_multi m"
proof -
  note t = typed_alloc [OF assms(1) _ assms(3)]
  have l: "has w1 is_listener m" "has w1 is_multi m" using t(4) by (simp_all add: has_def)
  have "has w1 is_sender a \<or> has w1 is_recv_side a" using assms(2) has_grows t(2) by auto
  from set_recv_typed [OF t(1) this l(1)] obtain w' where "set_recv_access a m w1 = Inr w'" "typed w'" "grows w1 w'" by auto
  moreover have "grows w w1" using t(2) by simp
  ultimately show ?thesis using grows_trans has_grows [OF l(2)] by blast
qed

lemma connect_generator_typed:
  assumes "typed w" and "has w is_sender a" and "listens c" and "pred_option app_ok l"
  shows "\<exists>w'. connect_generator a c l w = Inr w' \<and> typed w' \<and> grows w w'"
proof -
  obtain m w1 where m: "alloc (Multi []) w = (m, w1)" by fastforce
  obtain w2 where w2: "set_recv_access a m w1 = Inr w2" "typed w2" "grows w w2" "has w2 is_multi m"
    using alloc_multi [OF assms(1) _ m] assms(2) by blast
  obtain g w3 where g: "alloc (Generator c a m l) w2 = (g, w3)" by fastforce
  have "obj_ok w2 (unused w2) (Generator c a m l)" using w2(4) assms has_grows [OF assms(2) w2(3)] by simp
  note t = typed_alloc [OF w2(2) this g]
  have "has w3 (consumes c) g" using t(4) by (simp add: has_def consumes_def)
  moreover have "has w3 is_sender a" using assms(2) has_grows w2(3) t(2) by blast
  ultimately obtain w' where w': "connect_recv a c g w3 = Inr w'" "typed w'" "grows w3 w'"
    using connect_recv_typed [OF t(1)] by blast
  have "grows w w'" by (rule grows_trans [OF grows_trans [OF w2(3) t(2)] w'(3)])
  then show ?thesis using w'(1,2)
    by (simp add: connect_generator_def make_multi_net_access_def m w2(1) g)
qed

lemma alloc_splits_typed:
  assumes "typed w" and "has w is_multi m" and "alloc_splits n m w = (rs, w')"
  shows "typed w'" "grows w w'" "length rs = n" "\<forall>r \<in> set rs. has w' is_recv_side r"
proof -
  have "typed w' \<and> grows w w' \<and> length rs = n \<and> (\<forall>r \<in> set rs. has w' is_recv_side r)" using assms
  proof (induction n arbitrary: w rs)
    case (Suc n)
    obtain r w1 where r: "alloc (Split m None) w = (r, w1)" by fastforce
    obtain rs1 w2 where rs1: "alloc_splits n m w1 = (rs1, w2)" by fastforce
    have "obj_ok w (unused w) (Split m None)" using Suc.prems(2) by simp
    note t = typed_alloc [OF Suc.prems(1) this r]
    have eq: "rs = r # rs1" "w' = w2" using Suc.prems(3) r rs1 by simp_all
    have ih: "typed w' \<and> grows w1 w' \<and> length rs1 = n \<and> (\<forall>r \<in> set rs1. has w' is_recv_side r)"
      using Suc.IH [OF t(1) has_grows [OF Suc.prems(2) t(2)]] rs1 eq by simp
    have "has w1 is_recv_side r" using t(4) by (simp add: has_def)
    with ih show ?case using grows_trans [OF t(2)] has_grows by (auto simp: eq(1))
  qed simp
  then show "typed w'" "grows w w'" "length rs = n" "\<forall>r \<in> set rs. has w' is_recv_side r" by blast+
qed

lemma ptp_connect_generator_typed:
  assumes "typed w" and "has w is_sender a \<or> has w is_recv_side a" and "has w is_sender b" and "pred_option app_ok l"
  shows "\<exists>w'. ptp_connect_generator a b l w = Inr w' \<and> typed w' \<and> grows w w'"
proof -
  obtain m w1 where m: "alloc (Multi []) w = (m, w1)" by fastforce
  obtain w2 where w2: "set_recv_access a m w1 = Inr w2" "typed w2" "grows w w2" "has w2 is_multi m"
    using alloc_multi [OF assms(1,2) m] by blast
  obtain rs w3 where rs: "alloc_splits 2 m w2 = (rs, w3)" by fastforce
  note s = alloc_splits_typed [OF w2(2,4) rs]
  have r: "has w3 is_recv_side (rs ! 0)" "has w3 is_recv_side (rs ! 1)" using s(3,4) by simp_all
  have b: "has w3 is_sender b" using assms(3) has_grows w2(3) s(2) by blast
  obtain g w4 where g: "alloc (Ptp_generator (rs ! 1) b l) w3 = (g, w4)" by fastforce
  have "obj_ok w3 (unused w3) (Ptp_generator (rs ! 1) b l)" using r(2) b assms(4) by simp
  note t = typed_alloc [OF s(1) this g]
  have "has w4 (consumes (Ptp_layer [])) g" using t(4) by (simp add: has_def consumes_def)
  moreover have "has w4 is_recv_side (rs ! 0)" using r(1) t(2) has_grows by blast
  ultimately obtain w' where w': "connect_recv (rs ! 0) (Ptp_layer []) g w4 = Inr w'" "typed w'" "grows w4 w'"
    using connect_recv_typed [OF t(1)] by blast
  have "grows w w'" by (rule grows_trans [OF grows_trans [OF grows_trans [OF w2(3) s(2)] t(2)] w'(3)])
  then show ?thesis using w'(1,2) g
    by (simp add: ptp_connect_generator_def multi_net_access_recv_split_def m w2(1) rs del: alloc_splits.simps)
qed

lemma access_is_sender: "has w is_access n \<Longrightarrow> has w is_sender n"
  by (auto simp: has_def) (auto simp: is_access_def)

lemma connect_layer_typed:
  assumes "typed w" and "has w is_sender n" and "app_ok (Layer c upper)"
  shows "\<exists>w'. connect_layer n c (Some upper) w = Inr w' \<and> typed w' \<and> grows w w'"
proof -
  from assms(3) consider "listens c" | path where "c = Ptp_layer path" by auto
  then show ?thesis
  proof cases
    case 1
    then show ?thesis using connect_generator_typed [OF assms(1,2), of c "Some upper"] assms(3) by simp
  next
    case 2
    then show ?thesis using ptp_connect_generator_typed [OF assms(1) _ assms(2), of n "Some upper"] assms(2,3) by simp
  qed
qed

lemma handle_new_net_access_typed:
  assumes "typed w" and "has w is_access n" and "app_ok ap"
  shows "\<exists>w'. handle_new_net_access ap n w = Inr w' \<and> typed w' \<and> grows w w'"
proof (cases ap)
  case Receiver
  obtain s w1 where s: "alloc Sink w = (s, w1)" by fastforce
  note t = typed_alloc [OF assms(1) _ s]
  have "has w1 is_listener s" using t(4) by (simp add: has_def)
  moreover have "has w1 is_sender n" using t(2) has_grows [OF access_is_sender [OF assms(2)]] by simp
  ultimately obtain w' where "set_recv_access n s w1 = Inr w'" "typed w'" "grows w1 w'"
    using set_recv_typed [OF t(1)] by auto
  then show ?thesis using grows_trans t(2) s by (auto simp: Receiver)
next
  case (Layer c upper)
  then show ?thesis using connect_layer_typed [OF assms(1) access_is_sender [OF assms(2)], of c upper] assms(3) by simp
qed (use assms(3) in simp_all)

text \<open>The peers a filter yields.\<close>

definition peer_of :: "conditions \<Rightarrow> peer \<Rightarrow> bool" where
  "peer_of c p \<longleftrightarrow> (\<exists>d e. run_filter c d = Inr (Some (p, e)))"

lemma peer_of_ptp: "peer_of (Ptp_layer path) p \<Longrightarrow> \<exists>h. p = Ptp_peer h"
  by (auto simp: peer_of_def with_peer_def bind_r_eq_Inr)

lemma generate_typed:
  assumes "typed w" and "obj_ok w k (Generator c a m (Some ap))" and "peer_of c p"
  shows "\<exists>n w'. generate c a m ap p w = Inr (n, w') \<and> typed w' \<and> grows w w'"
proof -
  have g: "has w is_sender a" "has w is_multi m" "listens c" "app_ok ap" using assms(2) by auto
  obtain ch w1 where ch: "alloc (Child a m None) w = (ch, w1)" by fastforce
  have "a < unused w" using assms(1) g(1) by (auto simp: has_def typed_def dest: wf_allocated)
  then have "obj_ok w (unused w) (Child a m None)" using g by simp
  note t = typed_alloc [OF assms(1) this ch]
  have "access_conditions (single_conditions c p)" using assms(3) g(3) access_conditions_single by (auto simp: peer_of_def)
  moreover have "has w1 is_sender ch" using t(4) by (simp add: has_def)
  ultimately obtain n w2 where n: "new_net_access ch (single_conditions c p) w1 = Inr (n, w2)" "typed w2" "grows w1 w2" "has w2 is_access n"
    using new_net_access_typed [OF t(1)] by blast
  obtain w' where w': "handle_new_net_access ap n w2 = Inr w'" "typed w'" "grows w2 w'"
    using handle_new_net_access_typed [OF n(2,4) g(4)] by blast
  have "grows w w'" by (rule grows_trans [OF grows_trans [OF t(2) n(3)] w'(3)])
  then show ?thesis using w'(1,2) n(1) by (simp add: generate_def ch)
qed

lemma ptp_generate_typed:
  assumes "typed w" and "obj_ok w k (Ptp_generator r a (Some ap))"
  shows "case ptp_generate r a ap h w of Inl e \<Rightarrow> ptp_reply_path h = Inl e | Inr (n, w') \<Rightarrow> typed w' \<and> grows w w'"
proof (cases "ptp_reply_path h")
  case (Inr path)
  have g: "has w is_sender a" "has w is_recv_side r" "app_ok ap" using assms(2) by auto
  obtain pr w1 where pr: "alloc (Paired a r) w = (pr, w1)" by fastforce
  have "a < unused w" using assms(1) g(1) by (auto simp: has_def typed_def dest: wf_allocated)
  then have "obj_ok w (unused w) (Paired a r)" using g by simp
  note t = typed_alloc [OF assms(1) this pr]
  have "has w1 is_sender pr" using t(4) by (simp add: has_def)
  then obtain n w2 where n: "new_net_access pr (Ptp_layer path) w1 = Inr (n, w2)" "typed w2" "grows w1 w2" "has w2 is_access n"
    using new_net_access_typed [OF t(1), of pr "Ptp_layer path"] by auto
  obtain w' where w': "handle_new_net_access ap n w2 = Inr w'" "typed w'" "grows w2 w'"
    using handle_new_net_access_typed [OF n(2,4) g(3)] by blast
  have "grows w w'" by (rule grows_trans [OF grows_trans [OF t(2) n(3)] w'(3)])
  then show ?thesis using w'(1,2) n(1) by (simp add: ptp_generate_def Inr pr del: new_net_access.simps new_net_access_eq)
qed (simp add: ptp_generate_def)

section \<open>Receiving\<close>

text \<open>The faults of the layers themselves.\<close>

definition layer_fault :: "fault \<Rightarrow> bool" where
  "layer_fault e \<longleftrightarrow> (\<exists>c d. run_filter c d = Inl e) \<or> (\<exists>h. peer_of (Ptp_layer []) (Ptp_peer h) \<and> ptp_reply_path h = Inl e)"

fun task_ok :: "world \<Rightarrow> task \<Rightarrow> bool" where
  "task_ok w (Handle l d) = has w is_listener l"
| "task_ok w (Deliver l p d) = (\<exists>c. peer_of c p \<and> has w (consumes c) l)"
| "task_ok w (Iterate l prev d) = has w is_multi l"

definition good_result :: "world \<Rightarrow> world result \<Rightarrow> bool" where
  "good_result w r = (case r of Inl e \<Rightarrow> layer_fault e | Inr w' \<Rightarrow> typed w' \<and> grows w w')"

lemma good_result_later: "good_result w1 r \<Longrightarrow> grows w w1 \<Longrightarrow> good_result w r"
  by (auto simp: good_result_def intro: grows_trans split: sum.splits)

lemma next_listener_mem: "next_listener addr prev ls = Some r \<Longrightarrow> r \<in> set ls"
  by (induction ls) (auto simp: Let_def split: if_splits)

lemma recv_access_listener: "typed w \<Longrightarrow> recv_access w n = Some r \<Longrightarrow> has w is_listener r"
  by (auto simp: recv_access_def dest: typed_obj split: option.splits obj.splits)

text \<open>Passing the data on to the receiver of an access.\<close>

lemma passed_on:
  assumes IH: "\<And>t w r. ex t w = Some r \<Longrightarrow> typed w \<Longrightarrow> task_ok w t \<Longrightarrow> good_result w r"
    and "(case recv_access w n of None \<Rightarrow> Some (Inr w) | Some l \<Rightarrow> ex (Handle l d) w) = Some r" and "typed w"
  shows "good_result w r"
proof (cases "recv_access w n")
  case None
  then show ?thesis using assms(2,3) by (auto simp: good_result_def)
next
  case (Some l)
  then show ?thesis using IH [of "Handle l d" w r] assms(2,3) recv_access_listener [OF assms(3) Some] by simp
qed

lemma handle_typed:
  assumes IH: "\<And>t w r. ex t w = Some r \<Longrightarrow> typed w \<Longrightarrow> task_ok w t \<Longrightarrow> good_result w r"
    and step: "(case objs w l of
             Some Sink \<Rightarrow> Some (Inr (w\<lparr>received := received w @ [(l, d)]\<rparr>))
           | Some (Replier n respond) \<Rightarrow>
               bind_ro (respond d) (\<lambda>ms. send_all n ms (w\<lparr>received := received w @ [(l, d)]\<rparr>))
           | Some (Node a e) \<Rightarrow>
               (case node_handle_recv \<lparr>my_addr = a, recv_endpoint_end = e\<rparr> d of
                  Some (Inr ((r, packet) # _)) \<Rightarrow> ex (Handle r packet) w
                | Some (Inr []) \<Rightarrow> Some (Inr w)
                | Some (Inl e) \<Rightarrow> Some (Inl e)
                | None \<Rightarrow> None)
           | Some (Filter c recv) \<Rightarrow>
               (case run_filter c d of
                  Inl e \<Rightarrow> Some (Inl e)
                | Inr None \<Rightarrow> Some (Inr w)
                | Inr (Some (p, encap)) \<Rightarrow> ex (Deliver recv p encap) w)
           | Some (Multi _) \<Rightarrow> ex (Iterate l None d) w
           | _ \<Rightarrow> Some (Inl Undefined)) = Some r"
    and ty: "typed w" and ok: "has w is_listener l"
  shows "good_result w r"
proof -
  obtain ob where o: "objs w l = Some ob" "is_listener ob" using ok by (auto simp: has_def)
  show ?thesis
  proof (cases ob)
    case Sink
    then show ?thesis using step o ty by (auto simp: good_result_def)
  next
    case (Filter c k)
    then have k: "has w (consumes c) k" using typed_obj [OF ty o(1)] by simp
    show ?thesis
    proof (cases "run_filter c d")
      case (Inl e)
      then have "layer_fault e" unfolding layer_fault_def by blast
      then show ?thesis using step o Filter Inl by (auto simp: good_result_def)
    next
      case (Inr v)
      show ?thesis
      proof (cases v)
        case None
        then show ?thesis using step o Filter Inr ty by (auto simp: good_result_def)
      next
        case (Some pe)
        obtain p e where pe: "pe = (p, e)" by (cases pe)
        have "peer_of c p" using Inr Some pe by (auto simp: peer_of_def)
        then show ?thesis using step o Filter Inr Some pe IH [of "Deliver k p e" w r] ty k by auto
      qed
    qed
  next
    case (Multi ls)
    then show ?thesis using step o IH [of "Iterate l None d" w r] ty by (simp add: has_def)
  qed (use o in simp_all)
qed

lemma deliver_typed:
  assumes IH: "\<And>t w r. ex t w = Some r \<Longrightarrow> typed w \<Longrightarrow> task_ok w t \<Longrightarrow> good_result w r"
    and step: "(case objs w l of
             Some (Forward par) \<Rightarrow>
               (if objs w par = None then Some (Inl Undefined)
                else case recv_access w par of None \<Rightarrow> Some (Inr w) | Some r \<Rightarrow> ex (Handle r d) w)
           | Some (Generator c a m listener) \<Rightarrow>
               (case listener of None \<Rightarrow> Some (Inr w)
                | Some ap \<Rightarrow>
                    (case generate c a m ap p w of
                       Inl e \<Rightarrow> Some (Inl e)
                     | Inr (n, w') \<Rightarrow>
                         (case recv_access w' n of None \<Rightarrow> Some (Inr w') | Some r \<Rightarrow> ex (Handle r d) w')))
           | Some (Ptp_generator recv send listener) \<Rightarrow>
               (case (listener, p) of
                  (Some ap, Ptp_peer h) \<Rightarrow>
                    (case ptp_generate recv send ap h w of
                       Inl e \<Rightarrow> Some (Inl e)
                     | Inr (n, w') \<Rightarrow>
                         (case recv_access w' n of None \<Rightarrow> Some (Inr (release ap n w'))
                          | Some r \<Rightarrow> bind_ro (ex (Handle r d) w') (\<lambda>w'. Some (Inr (release ap n w')))))
                | (None, _) \<Rightarrow> Some (Inr w)
                | _ \<Rightarrow> Some (Inl Undefined))
           | _ \<Rightarrow> Some (Inl Undefined)) = Some r"
    and ty: "typed w" and ok: "peer_of c0 p" "has w (consumes c0) l"
  shows "good_result w r"
proof -
  obtain ob where o: "objs w l = Some ob" "consumes c0 ob" using ok(2) by (auto simp: has_def)
  note obk = typed_obj [OF ty o(1)]
  from o(2) consider (forward) par where "ob = Forward par" | (generator) a m ap where "ob = Generator c0 a m ap"
    | (ptp) rv sd ap path where "ob = Ptp_generator rv sd ap" "c0 = Ptp_layer path" by (auto simp: consumes_def)
  then show ?thesis
  proof cases
    case forward
    then have "objs w par \<noteq> None" using obk by (auto simp: has_def)
    then show ?thesis using passed_on [where ex = ex, OF IH _ ty] step o(1) forward by (simp del: not_None_eq)
  next
    case generator
    show ?thesis
    proof (cases ap)
      case None
      then show ?thesis using step o(1) generator ty by (auto simp: good_result_def)
    next
      case (Some app)
      obtain n w' where g: "generate c0 a m app p w = Inr (n, w')" "typed w'" "grows w w'"
        using generate_typed [OF ty obk [unfolded generator Some] ok(1)] by blast
      then have "(case recv_access w' n of None \<Rightarrow> Some (Inr w') | Some r \<Rightarrow> ex (Handle r d) w') = Some r"
        using step o(1) by (simp add: generator Some)
      from good_result_later [OF passed_on [where ex = ex, OF IH this g(2)] g(3)] show ?thesis .
    qed
  next
    case ptp
    obtain h where h: "p = Ptp_peer h" using peer_of_ptp ok(1) ptp(2) by blast
    show ?thesis
    proof (cases ap)
      case None
      then show ?thesis using step o(1) ptp h ty by (auto simp: good_result_def)
    next
      case (Some app)
      have keep: "keeps app" using obk by (cases app) (simp_all add: ptp Some)
      have g: "case ptp_generate rv sd app h w of Inl e \<Rightarrow> ptp_reply_path h = Inl e | Inr (n, w') \<Rightarrow> typed w' \<and> grows w w'"
        using ptp_generate_typed [OF ty] obk by (simp add: ptp Some)
      show ?thesis
      proof (cases "ptp_generate rv sd app h w")
        case (Inl e)
        have "peer_of (Ptp_layer []) (Ptp_peer h)" using ok(1) by (simp add: peer_of_def ptp(2) h)
        with Inl have "layer_fault e" using g by (auto simp: layer_fault_def)
        then show ?thesis using step o(1) Inl by (auto simp: good_result_def ptp Some h)
      next
        case (Inr nw)
        obtain n w' where nw: "nw = (n, w')" by (cases nw)
        then have w': "typed w'" "grows w w'" using g Inr by simp_all
        have "(case recv_access w' n of None \<Rightarrow> Some (Inr w') | Some r \<Rightarrow> ex (Handle r d) w') = Some r"
          using step o(1) Inr nw keep by (cases "recv_access w' n") (simp_all add: ptp Some h)
        from good_result_later [OF passed_on [where ex = ex, OF IH this w'(1)] w'(2)] show ?thesis .
      qed
    qed
  qed
qed

lemma exec_typed: "exec addr t w = Some r \<Longrightarrow> typed w \<Longrightarrow> task_ok w t \<Longrightarrow> good_result w r"
proof -
  assume e: "exec addr t w = Some r"
  have "typed w \<longrightarrow> task_ok w t \<longrightarrow> good_result w r"
  proof (rule exec.raw_induct [where P = "\<lambda>addr t w r. typed w \<longrightarrow> task_ok w t \<longrightarrow> good_result w r", OF _ e], goal_cases)
    case (1 ex addr t w r)
    then have IH: "\<And>t w r. ex addr t w = Some r \<Longrightarrow> typed w \<Longrightarrow> task_ok w t \<Longrightarrow> good_result w r" by blast
    note step = 1(2)
    show ?case
    proof (intro impI)
      assume ty: "typed w" and ok: "task_ok w t"
      show "good_result w r"
      proof (cases t)
        case (Handle l d)
        have "has w is_listener l" using ok by (simp add: Handle)
        from handle_typed [where ex = "ex addr", OF IH step [unfolded Handle task.case] ty this] show ?thesis .
      next
        case (Deliver l p d)
        obtain c0 where "peer_of c0 p" "has w (consumes c0) l" using ok by (auto simp: Deliver)
        from deliver_typed [where ex = "ex addr", OF IH step [unfolded Deliver task.case] ty this] show ?thesis .
      next
        case (Iterate l prev d)
        then obtain ls where ls: "objs w l = Some (Multi ls)" using ok by (auto simp: has_def) (auto simp: is_multi_iff)
        show ?thesis
        proof (cases "next_listener addr prev ls")
          case None
          then show ?thesis using step ty ls by (auto simp: Iterate good_result_def)
        next
          case (Some k)
          have k: "has w is_listener k" using typed_obj [OF ty ls] next_listener_mem [OF Some] by simp
          obtain r1 where r1: "ex addr (Handle k d) w = Some r1" using step ls Some by (auto simp: Iterate bind_ro_def split: option.splits)
          have g: "good_result w r1" using IH [OF r1 ty] k by simp
          show ?thesis
          proof (cases r1)
            case (Inl e)
            then show ?thesis using step ls Some r1 g by (auto simp: Iterate bind_ro_def)
          next
            case (Inr w1)
            then have w1: "typed w1" "grows w w1" using g by (simp_all add: good_result_def)
            have "ex addr (Iterate l (Some k) d) w1 = Some r" using step ls Some r1 Inr by (simp add: Iterate bind_ro_def)
            from good_result_later [OF IH [OF this w1(1)] w1(2)] show ?thesis
              using has_grows [OF _ w1(2)] ok by (simp add: Iterate)
          qed
        qed
      qed
    qed
  qed
  then show "typed w \<Longrightarrow> task_ok w t \<Longrightarrow> good_result w r" by blast
qed

section \<open>The faults of the layers\<close>

definition faults_in :: "fault set \<Rightarrow> 'a result \<Rightarrow> bool" where
  "faults_in S r \<longleftrightarrow> (\<forall>e. r = Inl e \<longrightarrow> e \<in> S)"

lemma faults_bind: "faults_in S r \<Longrightarrow> (\<And>x. faults_in S (f x)) \<Longrightarrow> faults_in S (bind_r r f)"
  by (cases r) (simp_all add: faults_in_def)

lemma faults_simps [simp]: "faults_in S (Inr x)" "faults_in S (Inl e) = (e \<in> S)"
  by (auto simp: faults_in_def)

lemma faults_loads:
  "Overread \<in> S \<Longrightarrow> faults_in S (load8 p)" "Overread \<in> S \<Longrightarrow> faults_in S (var_len_decode_bytes p)"
proof -
  have "Overread \<in> S \<Longrightarrow> faults_in S (var_len_decode_loop dest cnt p)" for dest cnt
    by (induction dest cnt p rule: var_len_decode_loop.induct) (simp_all split: list.split)
  then show "Overread \<in> S \<Longrightarrow> faults_in S (var_len_decode_bytes p)" by (simp add: var_len_decode_bytes_def)
qed (auto simp: faults_in_def load_faults)

lemmas faults_intros = faults_bind faults_loads

lemma faults_case_prod: "(\<And>a b. faults_in S (f a b)) \<Longrightarrow> faults_in S (case x of (a, b) \<Rightarrow> f a b)"
  by (cases x) simp

lemma faults_if: "faults_in S x \<Longrightarrow> faults_in S y \<Longrightarrow> faults_in S (if b then x else y)"
  by simp

lemma header_faults:
  "faults_in {Overread, Thrown} (extract_udp_header d)" "faults_in {Overread, Thrown} (extract_ip4_header d)"
  "faults_in {Overread, Thrown} (extract_ethernet2_header d)"
  by (simp_all add: faults_in_def extract_udp_header_fault extract_ip4_header_fault extract_ethernet2_header_fault)

lemma var_len_header_faults:
  "faults_in {Overread, Thrown} (extract_emp_header d)" "faults_in {Overread, Thrown} (extract_nsp_header d)"
  "faults_in {Overread, Thrown} (extract_eap_header d)"
  unfolding extract_emp_header_def extract_nsp_header_def extract_eap_header_def extract_emp_port_def extract_nsp_id_def extract_eap_addr_def
  by (intro faults_intros faults_case_prod; simp)+

lemma ptp_action_fault: "faults_in {Overread, Thrown} (extract_ptp_action d)"
  unfolding extract_ptp_action_def extract_ptp_endpoint_def extract_ptp_local_conn_def extract_ptp_net_switch_def
  by (intro faults_intros faults_case_prod faults_if; simp split: prod.split)

lemma ptp_header_fault: "faults_in {Overread, Thrown} (extract_ptp_header d)"
proof -
  have "faults_in {Overread, Thrown} (extract_ptp_actions k cur)" for k cur
    by (induction k arbitrary: cur) (auto intro!: faults_intros faults_case_prod ptp_action_fault)
  then show ?thesis
    unfolding extract_ptp_header_def by (intro faults_intros faults_case_prod; simp)
qed

lemma accessor_faults:
  "faults_in {Overread, Thrown} (get_endpoint v)" "faults_in {Overread, Thrown} (get_local_conn v)"
  "faults_in {Overread, Thrown} (get_net_switch v)" "faults_in {Overread, Thrown} (create_reverse_endpoint t)"
  "faults_in {Overread, Thrown} (get_curr_action h)"
  by (cases v; simp add: create_reverse_endpoint_def get_curr_action_def)+

lemma reply_path_fault: "faults_in {Overread, Thrown} (ptp_reply_path h)"
proof -
  have "faults_in {Overread, Thrown} (create_reverse_action a)" for a
    unfolding create_reverse_action_def by (intro faults_intros faults_case_prod faults_if accessor_faults; simp)
  then have "faults_in {Overread, Thrown} (reverse_loop res as)" for res as
    by (induction as arbitrary: res) (auto intro!: faults_intros)
  then show ?thesis by (simp add: ptp_reply_path_def create_reverse_actions_def)
qed

lemma endpoint_end_fault: "faults_in {Overread, Thrown} (ptp_is_endpoint_end h)"
  unfolding ptp_is_endpoint_end_def by (intro faults_intros faults_if accessor_faults; simp add: accessor_faults faults_bind)

lemma filter_fault: "faults_in {Overread, Thrown} (run_filter c d)"
proof -
  have w: "faults_in S r \<Longrightarrow> faults_in S (with_peer f r)" for S f and r :: "('h \<times> bytes) option result"
    by (auto simp: with_peer_def intro!: faults_bind)
  show ?thesis
    by (cases c) (auto simp: ethernet2.rcv_eq ip4.rcv_eq udp.rcv_eq emp.rcv_eq nsp.rcv_eq eap.rcv_eq ptp_recv_def
        intro!: w faults_bind faults_case_prod header_faults var_len_header_faults ptp_header_fault endpoint_end_fault)
qed

lemma layer_fault_kinds: "layer_fault e \<Longrightarrow> e \<in> {Overread, Thrown}"
  using filter_fault reply_path_fault unfolding layer_fault_def faults_in_def by blast

section \<open>Sending\<close>

definition frame_fault :: "fault \<Rightarrow> bool" where
  "frame_fault e \<longleftrightarrow> (\<exists>c d. access_conditions c \<and> access_frame c d = Inl e)"

text \<open>An access is built on older ones, so a call to send ends at a device.\<close>

lemma send_data_typed:
  assumes "typed w" and "has w is_sender n"
  shows "\<exists>r. send_data n d w = Some r \<and> (case r of Inl e \<Rightarrow> frame_fault e
    | Inr w' \<Rightarrow> typed w' \<and> (\<exists>b r f. objs w b = Some (Base r) \<and> w' = w\<lparr>sent := sent w @ [(b, f)]\<rparr>))"
  using assms(2)
proof (induction n arbitrary: d rule: less_induct)
  case (less n)
  obtain ob where o: "objs w n = Some ob" "is_sender ob" using less.prems by (auto simp: has_def)
  note ok = typed_obj [OF assms(1) o(1)]
  show ?case
  proof (cases ob)
    case (Base r)
    then show ?thesis using o assms(1) by (auto simp: send_data.simps [of n])
  next
    case (Access c my r)
    then have a: "my < n" "has w is_sender my" "access_conditions c" using ok by simp_all
    show ?thesis
    proof (cases "access_frame c d")
      case (Inl e)
      then show ?thesis using o Access a(3) by (auto simp: send_data.simps [of n] frame_fault_def)
    next
      case (Inr f)
      then show ?thesis using less.IH [OF a(1,2), of f] o Access by (simp add: send_data.simps [of n])
    qed
  next
    case (Child a m r)
    then show ?thesis using less.IH [of a d] ok o by (simp add: send_data.simps [of n])
  next
    case (Paired a r)
    then show ?thesis using less.IH [of a d] ok o by (simp add: send_data.simps [of n])
  qed (use o in simp_all)
qed

section \<open>Worlds\<close>

lemma run_frames_typed:
  "typed w \<Longrightarrow> run_frames addr ds w = Some r \<Longrightarrow> good_result w r"
proof (induction ds arbitrary: w)
  case Nil
  then show ?case by (auto simp: good_result_def)
next
  case (Cons d ds)
  obtain r1 where r1: "(case recv_access w 0 of None \<Rightarrow> Some (Inr w) | Some l \<Rightarrow> exec addr (Handle l d) w) = Some r1"
    using Cons.prems(2) by (auto simp: bind_ro_def split: option.splits)
  have g: "good_result w r1" by (rule passed_on [where ex = "exec addr", OF exec_typed r1 Cons.prems(1)])
  show ?case
  proof (cases r1)
    case (Inl e)
    then show ?thesis using Cons.prems(2) r1 g by simp
  next
    case (Inr w1)
    then have "typed w1" "grows w w1" "run_frames addr ds w1 = Some r" using Cons.prems(2) r1 g by (simp_all add: good_result_def)
    then show ?thesis using good_result_later [OF Cons.IH] by blast
  qed
qed

lemma device_world_typed:
  assumes "app_ok (Layer c ap)"
  shows "\<exists>w. device_world c ap = Inr w \<and> typed w"
proof -
  let ?w = "\<lparr>objs = [0 \<mapsto> Base None], unused = 1, received = [], sent = []\<rparr>"
  have "typed ?w" "has ?w is_sender 0" by (simp_all add: typed_def wf_world_def has_def)
  from connect_layer_typed [OF this assms] show ?thesis by (auto simp: device_world_def)
qed

section \<open>Property\<close>

text \<open>C7: Type soundness: on a device with any stack of generators, whatever frames arrive and in whatever order of
  the listeners' addresses, no call reaches a missing object or one of another class: the only faults are
  loads beyond a frame and exceptions, from the protocols' readers, and the objects stay typed.  After any frames
  that are handled, sending on any access of the stack returns: it hands one frame to the device, or
  faults in building it.\<close>

theorem stack_type_soundness:
  assumes "app_ok (Layer c ap)"
  shows "\<exists>w. device_world c ap = Inr w \<and> typed w
    \<and> (\<forall>addr ds r. run_frames addr ds w = Some r \<longrightarrow> (case r of
          Inl e \<Rightarrow> e \<in> {Overread, Thrown}
        | Inr w' \<Rightarrow> typed w' \<and> grows w w' \<and> (\<forall>n d. has w' is_sender n \<longrightarrow> (\<exists>r. send_data n d w' = Some r \<and> (case r of
              Inl e \<Rightarrow> frame_fault e
            | Inr w'' \<Rightarrow> typed w'' \<and> (\<exists>b l f. objs w' b = Some (Base l) \<and> w'' = w'\<lparr>sent := sent w' @ [(b, f)]\<rparr>))))))"
proof -
  obtain w where w: "device_world c ap = Inr w" "typed w" using device_world_typed [OF assms] by blast
  have "case r of Inl e \<Rightarrow> e \<in> {Overread, Thrown}
      | Inr w' \<Rightarrow> typed w' \<and> grows w w' \<and> (\<forall>n d. has w' is_sender n \<longrightarrow> (\<exists>r. send_data n d w' = Some r \<and> (case r of
            Inl e \<Rightarrow> frame_fault e
          | Inr w'' \<Rightarrow> typed w'' \<and> (\<exists>b l f. objs w' b = Some (Base l) \<and> w'' = w'\<lparr>sent := sent w' @ [(b, f)]\<rparr>))))"
    if "run_frames addr ds w = Some r" for addr ds r
  proof (cases r)
    case (Inl e)
    then show ?thesis using run_frames_typed [OF w(2) that] layer_fault_kinds by (simp add: good_result_def)
  next
    case (Inr w')
    then have "typed w'" "grows w w'" using run_frames_typed [OF w(2) that] by (simp_all add: good_result_def)
    then show ?thesis using send_data_typed [of w'] Inr by simp
  qed
  with w show ?thesis by blast
qed

theorem stack_type_soundness_witness:
  "\<exists>w. device_world (Udp_layer \<lparr>udp_cond_src = None, udp_cond_dest = Some 53\<rparr>) (Layer (Ptp_layer []) Receiver) = Inr w \<and> typed w
    \<and> (\<forall>r. run_frames id [[1, 2]] w = Some r \<longrightarrow> r \<noteq> Inl Undefined)"
proof -
  have "app_ok (Layer (Udp_layer \<lparr>udp_cond_src = None, udp_cond_dest = Some 53\<rparr>) (Layer (Ptp_layer []) Receiver))" by simp
  from stack_type_soundness [OF this] show ?thesis
  proof (elim exE conjE, goal_cases)
    case (1 w)
    have "r \<noteq> Inl Undefined" if "run_frames id [[1, 2]] w = Some r" for r
      using 1(3) [rule_format, OF that] by auto
    then show ?case using 1(1,2) by blast
  qed
qed

end
