(* ===== verification/Hexdump.thy ===== *)
theory Hexdump
  imports Octet_Text
begin

text \<open>
  The hexadecimal dump of a buffer (\<^verbatim>\<open>src/lib/hexdump.cpp\<close>).  The number of digits of the
  row addresses is computed with logarithms in floating point, whose rounding is not modelled: the floor of
  the quotient of the logarithms is an argument \<open>lg\<close> of the definitions.  The property holds for every \<open>lg\<close>.
\<close>

section \<open>The dump\<close>

definition cnt_digits_base :: "(nat \<Rightarrow> nat \<Rightarrow> nat) \<Rightarrow> nat \<Rightarrow> nat \<Rightarrow> nat" where
  "cnt_digits_base lg num base = (if num = 0 then 1 else lg num base + 1)"

text \<open>\<^verbatim>\<open>std::hex << std::setfill('0') << std::setw(n)\<close>.\<close>

definition padded_hex_num :: "nat \<Rightarrow> nat \<Rightarrow> string" where
  "padded_hex_num num no_digits =
     (let ds = to_hex num in replicate (no_digits - length ds) (CHR ''0'') @ ds)"

text \<open>\<^verbatim>\<open>std::isprint\<close> in the default locale.\<close>

definition is_print :: "u8 \<Rightarrow> bool" where
  "is_print b \<longleftrightarrow> 32 \<le> unat b \<and> unat b < 127"

text \<open>The two inner loops, from column \<open>i\<close> on.\<close>

definition hex_cell :: "bytes \<Rightarrow> nat \<Rightarrow> nat \<Rightarrow> nat \<Rightarrow> string" where
  "hex_cell dat row_sz row i =
     (if i > 0 then '' '' else '''')
     @ (if \<not> row_sz * row + i < length dat then ''  '' else padded_hex_num (unat (dat ! (row_sz * row + i))) 2)"

definition ascii_cell :: "bytes \<Rightarrow> nat \<Rightarrow> nat \<Rightarrow> nat \<Rightarrow> string" where
  "ascii_cell dat row_sz row i =
     (if \<not> row_sz * row + i < length dat then '' ''
      else let b = dat ! (row_sz * row + i) in if is_print b then [char_of (unat b)] else ''.'')"

definition hexdump_row :: "bytes \<Rightarrow> nat \<Rightarrow> bool \<Rightarrow> nat \<Rightarrow> nat \<Rightarrow> string" where
  "hexdump_row dat row_sz show_ascii no_digits row =
     ''0x'' @ padded_hex_num (row_sz * row) no_digits @ '': ''
     @ concat (map (hex_cell dat row_sz row) [0..<row_sz])
     @ (if show_ascii then '' |'' @ concat (map (ascii_cell dat row_sz row) [0..<row_sz]) @ ''|'' else '''')"

fun rows_loop :: "(nat \<Rightarrow> string) \<Rightarrow> nat \<Rightarrow> nat list \<Rightarrow> string" where
  "rows_loop line no_rows [] = ''''"
| "rows_loop line no_rows (row # rows) =
     line row @ (if row + 1 < no_rows then [CHR 0x0A] else '''') @ rows_loop line no_rows rows"

text \<open>With rows of no bytes the first division is undefined.\<close>

definition produce_hexdump :: "(nat \<Rightarrow> nat \<Rightarrow> nat) \<Rightarrow> bytes \<Rightarrow> nat \<Rightarrow> bool \<Rightarrow> string result" where
  "produce_hexdump lg dat row_sz show_ascii =
     (if row_sz = 0 then Inl Undefined
      else let cnt = length dat;
               no_rows = cnt div row_sz + (if cnt mod row_sz \<noteq> 0 then 1 else 0);
               no_digits = cnt_digits_base lg (cnt div row_sz * row_sz) 16
           in Inr (rows_loop (hexdump_row dat row_sz show_ascii no_digits) no_rows [0..<no_rows]))"

section \<open>Reading a dump\<close>

text \<open>A reader of dumps, as the specification: it takes the text of every line behind the first colon and
  reads pairs of hexadecimal digits, each followed by one character, for as long as it finds them.\<close>

fun read_cells :: "nat \<Rightarrow> string \<Rightarrow> bytes" where
  "read_cells (Suc n) (a # b # s) =
     (if is_hex a \<and> is_hex b then word_of_nat (16 * hex_val a + hex_val b) # read_cells n (drop 1 s) else [])"
| "read_cells _ _ = []"

definition read_line :: "nat \<Rightarrow> string \<Rightarrow> bytes" where
  "read_line row_sz l = read_cells row_sz (drop 2 (dropWhile (\<lambda>c. c \<noteq> CHR '':'') l))"

function lines :: "string \<Rightarrow> string list" where
  "lines s = (let l = takeWhile (\<lambda>c. c \<noteq> CHR 0x0A) s; r = dropWhile (\<lambda>c. c \<noteq> CHR 0x0A) s
     in if r = [] then [l] else l # lines (tl r))"
  by pat_completeness auto
termination
proof (relation "measure length")
  fix s :: string and l r
  assume r: "r = dropWhile (\<lambda>c. c \<noteq> CHR 0x0A) s" "r \<noteq> []"
  then show "(tl r, s) \<in> measure length"
    using length_dropWhile_le [of "\<lambda>c. c \<noteq> CHR 0x0A" s] unfolding r(1) [symmetric] by (cases r) auto
qed simp

declare lines.simps [simp del]

definition read_dump :: "nat \<Rightarrow> string \<Rightarrow> bytes" where
  "read_dump row_sz s = concat (map (read_line row_sz) (lines s))"

section \<open>Properties of the rows\<close>

lemma to_hex_is_hex: "list_all is_hex (to_hex n) \<and> to_hex n \<noteq> []"
proof (induction n rule: to_hex.induct)
  case (1 n)
  then show ?case by (cases "n < 16") (simp_all add: to_hex.simps [of n])
qed

lemma to_hex_two_digits: "n < 256 \<Longrightarrow> padded_hex_num n 2 = [hex_char (n div 16), hex_char (n mod 16)]"
proof (cases "n < 16")
  case True
  then have "to_hex n = [hex_char n]" by (simp add: to_hex.simps [of n])
  moreover have "hex_char 0 = CHR ''0''" by code_simp
  ultimately show ?thesis using True by (simp add: padded_hex_num_def)
qed (simp add: padded_hex_num_def to_hex_two)

lemma padded_hex_num_plain: "c \<in> set (padded_hex_num n k) \<Longrightarrow> is_hex c"
  using to_hex_is_hex [of n]
  by (auto simp: padded_hex_num_def Let_def list_all_iff is_hex_def is_digit_def)

lemma hex_not_special_dump: "is_hex c \<Longrightarrow> c \<noteq> CHR '':'' \<and> c \<noteq> CHR 0x0A"
  by (auto simp: is_hex_def is_digit_def)

lemma is_print_not_newline: "is_print b \<Longrightarrow> char_of (unat b) \<noteq> CHR 0x0A"
proof
  assume "is_print b" "char_of (unat b) = CHR 0x0A"
  then have "of_char (char_of (unat b) :: char) = (10 :: nat)" by simp
  with \<open>is_print b\<close> show False by (simp add: is_print_def of_char_char_of_small)
qed

lemma row_no_newline: "CHR 0x0A \<notin> set (hexdump_row dat row_sz show_ascii k row)"
proof -
  have h: "CHR 0x0A \<notin> set (padded_hex_num n j)" for n j
    using padded_hex_num_plain hex_not_special_dump by blast
  have "CHR 0x0A \<notin> set (hex_cell dat row_sz row i)" for i
    using h by (simp add: hex_cell_def)
  moreover have "CHR 0x0A \<notin> set (ascii_cell dat row_sz row i)" for i
    using is_print_not_newline [of "dat ! (row_sz * row + i)"] by (simp add: ascii_cell_def Let_def) metis
  ultimately show ?thesis using h by (simp add: hexdump_row_def)
qed

text \<open>The bytes a row shows.\<close>

definition row_bytes :: "bytes \<Rightarrow> nat \<Rightarrow> nat \<Rightarrow> bytes" where
  "row_bytes dat row_sz row = take row_sz (drop (row_sz * row) dat)"

text \<open>A cell without the blank before it.\<close>

definition bare_cell :: "bytes \<Rightarrow> nat \<Rightarrow> string" where
  "bare_cell dat j = (if \<not> j < length dat then ''  '' else padded_hex_num (unat (dat ! j)) 2)"

lemma hex_cell_bare: "hex_cell dat row_sz row i = (if i > 0 then '' '' else []) @ bare_cell dat (row_sz * row + i)"
  by (simp add: hex_cell_def bare_cell_def)

lemma read_bare_cell:
  "read_cells (Suc n) (bare_cell dat j @ r) = (if j < length dat then dat ! j # read_cells n (drop 1 r) else [])"
proof (cases "j < length dat")
  case True
  let ?b = "dat ! j"
  have b: "padded_hex_num (unat ?b) 2 = [hex_char (unat ?b div 16), hex_char (unat ?b mod 16)]"
    by (rule to_hex_two_digits) simp
  have d: "unat ?b div 16 < 16" using unat_u8_less [of ?b] by (simp add: less_mult_imp_div_less)
  have "16 * (unat ?b div 16) + unat ?b mod 16 = unat ?b" by simp
  then have "word_of_nat (16 * (unat ?b div 16) + unat ?b mod 16) = ?b"
    by (simp only:) simp
  with True d show ?thesis by (simp add: bare_cell_def b)
next
  case False
  have "\<not> is_hex CHR '' ''" by code_simp
  then show ?thesis using False by (simp add: bare_cell_def)
qed

lemma read_cells_row:
  assumes "i + Suc n = row_sz"
  shows "read_cells (Suc n) (bare_cell dat (row_sz * row + i) @ concat (map (hex_cell dat row_sz row) [Suc i..<row_sz]) @ rest)
     = take (Suc n) (drop (row_sz * row + i) dat)"
  using assms
proof (induction n arbitrary: i)
  case 0
  have "drop (row_sz * row + i) dat = dat ! (row_sz * row + i) # drop (Suc (row_sz * row + i)) dat"
    if "row_sz * row + i < length dat" using that by (simp add: Cons_nth_drop_Suc)
  then show ?case unfolding read_bare_cell by simp
next
  case (Suc n)
  have up: "[Suc i..<row_sz] = Suc i # [Suc (Suc i)..<row_sz]" using Suc.prems by (simp add: upt_conv_Cons)
  have "drop (row_sz * row + i) dat = dat ! (row_sz * row + i) # drop (Suc (row_sz * row + i)) dat"
    if "row_sz * row + i < length dat" using that by (simp add: Cons_nth_drop_Suc)
  moreover have "read_cells (Suc n) (bare_cell dat (row_sz * row + Suc i)
      @ concat (map (hex_cell dat row_sz row) [Suc (Suc i)..<row_sz]) @ rest) = take (Suc n) (drop (row_sz * row + Suc i) dat)"
    using Suc.IH [of "Suc i"] Suc.prems by simp
  ultimately show ?case
    unfolding read_bare_cell [of "Suc n"] up by (simp add: hex_cell_bare del: read_cells.simps)
qed

lemma read_line_row: "row_sz \<noteq> 0 \<Longrightarrow> read_line row_sz (hexdump_row dat row_sz show_ascii k row) = row_bytes dat row_sz row"
proof -
  assume "row_sz \<noteq> 0"
  then obtain n where n: "row_sz = Suc n" by (cases row_sz) auto
  let ?a = "''0x'' @ padded_hex_num (row_sz * row) k"
  let ?t = "if show_ascii then '' |'' @ concat (map (ascii_cell dat row_sz row) [0..<row_sz]) @ ''|'' else []"
  have up: "[0..<row_sz] = 0 # [Suc 0..<row_sz]" by (simp add: n upt_conv_Cons)
  have "\<forall>c \<in> set ?a. c \<noteq> CHR '':''"
    using padded_hex_num_plain hex_not_special_dump by auto
  then have "dropWhile (\<lambda>c. c \<noteq> CHR '':'') (?a @ CHR '':'' # r) = CHR '':'' # r" for r
    by (subst dropWhile_append2) auto
  moreover have "hexdump_row dat row_sz show_ascii k row = ?a @ CHR '':'' # CHR '' '' #
      bare_cell dat (row_sz * row) @ concat (map (hex_cell dat row_sz row) [Suc 0..<row_sz]) @ ?t"
    unfolding hexdump_row_def by (subst up) (simp add: hex_cell_bare)
  ultimately have "read_line row_sz (hexdump_row dat row_sz show_ascii k row)
      = read_cells row_sz (bare_cell dat (row_sz * row) @ concat (map (hex_cell dat row_sz row) [Suc 0..<row_sz]) @ ?t)"
    by (simp add: read_line_def)
  also have "\<dots> = row_bytes dat row_sz row"
    using read_cells_row [of 0 n row_sz dat row ?t] by (simp add: n row_bytes_def del: read_cells.simps)
  finally show ?thesis .
qed

lemma lines_append: "CHR 0x0A \<notin> set l \<Longrightarrow> lines (l @ CHR 0x0A # r) = l # lines r" "CHR 0x0A \<notin> set l \<Longrightarrow> lines l = [l]"
proof -
  assume "CHR 0x0A \<notin> set l"
  then have l: "\<forall>c \<in> set l. c \<noteq> CHR 0x0A" by auto
  have "takeWhile (\<lambda>c. c \<noteq> CHR 0x0A) (l @ CHR 0x0A # r) = l" "dropWhile (\<lambda>c. c \<noteq> CHR 0x0A) (l @ CHR 0x0A # r) = CHR 0x0A # r"
    "takeWhile (\<lambda>c. c \<noteq> CHR 0x0A) l = l" "dropWhile (\<lambda>c. c \<noteq> CHR 0x0A) l = []"
    using l by (simp_all add: takeWhile_append2 dropWhile_append2)
  then show "lines (l @ CHR 0x0A # r) = l # lines r" "lines l = [l]"
    by (simp_all add: lines.simps [of "l @ CHR 0x0A # r"] lines.simps [of l])
qed

lemma lines_rows:
  assumes "\<And>r. CHR 0x0A \<notin> set (line r)" and "i < n"
  shows "lines (rows_loop line n [i..<n]) = map line [i..<n]"
  using assms(2)
proof (induction "n - i" arbitrary: i)
  case (Suc d)
  have up: "[i..<n] = i # [Suc i..<n]" using Suc.prems by (simp add: upt_conv_Cons)
  show ?case
  proof (cases "Suc i < n")
    case True
    then show ?thesis using Suc.hyps(1) [of "Suc i"] Suc.hyps(2) lines_append(1) [OF assms(1)] by (simp add: up)
  next
    case False
    then show ?thesis using lines_append(2) [OF assms(1)] Suc.prems by (simp add: up)
  qed
qed simp

lemma rows_cover: "concat (map (row_bytes dat k) [0..<n]) = take (k * n) dat"
  by (induction n) (simp_all add: row_bytes_def take_add [symmetric] mult.commute add.commute)

section \<open>Property\<close>

text \<open>The hexadecimal columns of a dump give back the buffer, whatever number of digits the floating-point
  computation chose for the addresses; a row size of 0 is undefined.\<close>

theorem hexdump_shows_data:
  "produce_hexdump lg dat 0 show_ascii = Inl Undefined
   \<and> (row_sz \<noteq> 0 \<longrightarrow> (\<exists>s. produce_hexdump lg dat row_sz show_ascii = Inr s \<and> read_dump row_sz s = dat))"
proof -
  have "\<exists>s. produce_hexdump lg dat row_sz show_ascii = Inr s \<and> read_dump row_sz s = dat" if r: "row_sz \<noteq> 0"
  proof -
    define n where "n = length dat div row_sz + (if length dat mod row_sz \<noteq> 0 then 1 else 0)"
    let ?line = "hexdump_row dat row_sz show_ascii (cnt_digits_base lg (length dat div row_sz * row_sz) 16)"
    have cover: "length dat \<le> row_sz * n"
    proof -
      have "length dat \<le> row_sz * (q + (if m \<noteq> 0 then 1 else 0))" if "length dat = row_sz * q + m" "m < row_sz" for q m
        using that by (cases "m = 0") auto
      from this [of "length dat div row_sz" "length dat mod row_sz"] r show ?thesis by (simp add: n_def)
    qed
    have "read_dump row_sz (rows_loop ?line n [0..<n]) = dat"
    proof (cases "n = 0")
      case True
      then have "dat = []" using cover by simp
      then show ?thesis using True lines_append(2) [of "[]"] by (simp add: read_dump_def read_line_def)
    next
      case False
      then have "lines (rows_loop ?line n [0..<n]) = map ?line [0..<n]"
        using lines_rows [OF row_no_newline, of 0 n] by simp
      then show ?thesis
        using r rows_cover [of dat row_sz n] cover by (simp add: read_dump_def comp_def read_line_row)
    qed
    then show ?thesis using r by (simp add: produce_hexdump_def Let_def n_def)
  qed
  then show ?thesis by (simp add: produce_hexdump_def)
qed

theorem hexdump_shows_data_witness:
  "\<exists>s. produce_hexdump (\<lambda>_ _. 0) [1, 0xAB, 65] 2 True = Inr s \<and> read_dump 2 s = [1, 0xAB, 65]"
  using hexdump_shows_data [of "\<lambda>_ _. 0" "[1, 0xAB, 65]" True 2] by simp

end
