(* ===== verification/Net_Analyzer.thy ===== *)
theory Net_Analyzer
  imports Hexdump Arp Ip4
begin

text \<open>
  The packet analyzer (\<^verbatim>\<open>src/tools/net_analyzer/parsed_packet.cpp\<close>): an Ethernet frame is
  handed to the filters of the protocols with no conditions, and every receiver appends a description of its
  layer and hands the payload to the next.  The time of a packet is the text that \<^verbatim>\<open>std::ctime\<close>
  makes of it, an argument; output is the text that is written.
\<close>

section \<open>Parsed packets\<close>

datatype net_analyzer_prot = Ethernet2 | Arp | Ip4 | Udp | Tcp | Icmp | Dns | Mdns

definition net_analyzer_prot_to_str :: "net_analyzer_prot \<Rightarrow> string" where
  "net_analyzer_prot_to_str pr = (case pr of Ethernet2 \<Rightarrow> ''ethernet2'' | Arp \<Rightarrow> ''arp'' | Ip4 \<Rightarrow> ''ip4''
     | Udp \<Rightarrow> ''udp'' | Tcp \<Rightarrow> ''tcp'' | Icmp \<Rightarrow> ''icmp'' | Dns \<Rightarrow> ''dns'' | Mdns \<Rightarrow> ''mdns'')"

definition str_to_net_analyzer_prot :: "string \<Rightarrow> net_analyzer_prot option" where
  "str_to_net_analyzer_prot str =
     (if str = ''ethernet2'' then Some Ethernet2 else if str = ''arp'' then Some Arp
      else if str = ''ip4'' then Some Ip4 else if str = ''udp'' then Some Udp else if str = ''tcp'' then Some Tcp
      else if str = ''icmp'' then Some Icmp else if str = ''dns'' then Some Dns
      else if str = ''mdns'' then Some Mdns else None)"

datatype parsed_status = Valid | Corrupted | Untested | Unknown

record parsed_prot =
  parsed_status :: parsed_status
  parsed_prot :: "net_analyzer_prot option"
  parsed_desc :: string

section \<open>The receivers\<close>

text \<open>Each takes the entries so far and returns them with its own appended.\<close>

definition unsupported_or :: "string option \<Rightarrow> string" where
  "unsupported_or str = (case str of Some s \<Rightarrow> s | None \<Rightarrow> ''<unsupported>'')"

definition arp_ip4_text :: "ethertype \<Rightarrow> bytes \<Rightarrow> string result" where
  "arp_ip4_text pt addr =
     (if pt = ethertype_ip4 then bind_r (extract_ip4_addr addr) (\<lambda>(ip, _). Inr (ip4_addr_to_str ip))
      else Inr ''<unknown>'')"

definition arp_op_text :: "arp_header \<Rightarrow> string result" where
  "arp_op_text dat =
     (if op dat = arp_op_request then
        bind_r (arp_ip4_text (prot_type dat) (target_prot_addr dat)) (\<lambda>ip. Inr (''request for '' @ ip))
      else if op dat = arp_op_reply then
        bind_r (arp_ip4_text (prot_type dat) (sender_prot_addr dat)) (\<lambda>ip.
        bind_r (extract_mac_addr (sender_hard_addr dat)) (\<lambda>(reply_mac, _).
        Inr (''reply: '' @ ip @ '' is '' @ mac_addr_to_str reply_mac)))
      else Inr ''<unsupported op>'')"

definition recv_arp :: "arp_header \<Rightarrow> parsed_prot list \<Rightarrow> parsed_prot list result" where
  "recv_arp dat res =
     bind_r (arp_op_text dat) (\<lambda>ope.
     Inr (res @ [\<lparr>parsed_status = Valid, parsed_prot = Some Arp,
       parsed_desc = unsupported_or (ethertype_to_str (prot_type dat)) @ '' -> '' @ ''mac'' @ '', '' @ ope\<rparr>]))"

text \<open>The branches for ICMP, UDP and TCP only make an access that nothing is sent to.\<close>

definition recv_ip4 :: "ip4_header \<times> bytes \<Rightarrow> parsed_prot list \<Rightarrow> parsed_prot list result" where
  "recv_ip4 dat res =
     Inr (res @ [\<lparr>parsed_status = Valid, parsed_prot = Some Ip4,
       parsed_desc = ''src: '' @ ip4_addr_to_str (ip_src_addr (fst dat)) @ '', dest: '' @ ip4_addr_to_str (ip_dest_addr (fst dat))
         @ '', prot: '' @ unsupported_or (ip_prot_to_str (ip_prot (fst dat)))\<rparr>])"

text \<open>A receiver behind a filter.\<close>

definition recv_through :: "'a option result \<Rightarrow> ('a \<Rightarrow> 's \<Rightarrow> 's result) \<Rightarrow> 's \<Rightarrow> 's result" where
  "recv_through r f st = bind_r r (\<lambda>v. case v of None \<Rightarrow> Inr st | Some x \<Rightarrow> f x st)"

definition recv_ether2 :: "ethernet2_header \<times> bytes \<Rightarrow> parsed_prot list \<Rightarrow> parsed_prot list result" where
  "recv_ether2 dat res =
     (let res = res @ [\<lparr>parsed_status = Valid, parsed_prot = Some Ethernet2,
        parsed_desc = ''src: '' @ mac_addr_to_str (eth_src_addr (fst dat)) @ '', dest: '' @ mac_addr_to_str (eth_dest_addr (fst dat))
          @ '', ethertype: '' @ unsupported_or (ethertype_to_str (eth_prot (fst dat)))\<rparr>]
      in if eth_prot (fst dat) = ethertype_arp then recv_through (arp_recv None (snd dat)) recv_arp res
         else if eth_prot (fst dat) = ethertype_ip4 then
           recv_through (ip4_recv \<lparr>ip_cond_src = None, ip_cond_dest = None, ip_cond_prot = None\<rparr> (snd dat)) recv_ip4 res
         else Inr res)"

definition parse_prots :: "bytes \<Rightarrow> parsed_prot list result" where
  "parse_prots dat =
     recv_through (ethernet2_recv \<lparr>cond_src = None, cond_dest = None, cond_type = None\<rparr> dat) recv_ether2 []"

section \<open>Printing\<close>

definition status_char :: "parsed_status \<Rightarrow> string" where
  "status_char s = (case s of Valid \<Rightarrow> ''v'' | Corrupted \<Rightarrow> ''x'' | Untested \<Rightarrow> ''-'' | Unknown \<Rightarrow> ''?'')"

definition print_entry :: "parsed_prot \<Rightarrow> string" where
  "print_entry e = ''('' @ status_char (parsed_status e) @ '')'' @ '' ''
     @ (case parsed_prot e of Some pr \<Rightarrow> net_analyzer_prot_to_str pr | None \<Rightarrow> ''prot_unknown'')
     @ '' '' @ parsed_desc e @ endl"

definition print_parsed_packet ::
  "(nat \<Rightarrow> nat \<Rightarrow> nat) \<Rightarrow> string \<Rightarrow> bytes \<Rightarrow> parsed_prot list \<Rightarrow> string \<Rightarrow> string result" where
  "print_parsed_packet lg time dat prots desc =
     (let border = replicate 40 (CHR ''#'') in
      bind_r (produce_hexdump lg dat 16 True) (\<lambda>dump.
      Inr (border @ endl @ time @ desc @ endl @ concat (map print_entry prots) @ dump @ endl @ border @ endl)))"

text \<open>\<^verbatim>\<open>parse_sniffed_packet\<close> followed by printing, as the handler of the analyzer does.\<close>

definition handle_sniff :: "(nat \<Rightarrow> nat \<Rightarrow> nat) \<Rightarrow> string \<Rightarrow> bytes \<Rightarrow> string result" where
  "handle_sniff lg time dat = bind_r (parse_prots dat) (\<lambda>prots. print_parsed_packet lg time dat prots ''some packet'')"

section \<open>Lemmas\<close>

lemma ether2_open: "ethernet2_recv \<lparr>cond_src = None, cond_dest = None, cond_type = None\<rparr> d
  = bind_r (extract_ethernet2_header d) (\<lambda>(h, n). Inr (Some (h, drop n d)))"
  by (simp add: ethernet2.rcv_eq ethernet2_sel_def)

lemma ip4_open: "ip4_recv \<lparr>ip_cond_src = None, ip_cond_dest = None, ip_cond_prot = None\<rparr> d
  = bind_r (extract_ip4_header d) (\<lambda>(h, n). Inr (Some (h, drop n d)))"
  by (simp add: ip4.rcv_eq ip4_sel_def)

lemma arp_open: "arp_recv None d = bind_r (extract_arp_header d) (\<lambda>(h, n). Inr (Some h))"
  by (simp add: arp_recv_def)

text \<open>The entry for a frame with a given header.\<close>

definition ether2_entry :: "ethernet2_header \<Rightarrow> parsed_prot" where
  "ether2_entry h = \<lparr>parsed_status = Valid, parsed_prot = Some Ethernet2,
     parsed_desc = ''src: '' @ mac_addr_to_str (eth_src_addr h) @ '', dest: '' @ mac_addr_to_str (eth_dest_addr h)
       @ '', ethertype: '' @ unsupported_or (ethertype_to_str (eth_prot h))\<rparr>"

lemma parse_prots_eq:
  "parse_prots d = bind_r (extract_ethernet2_header d) (\<lambda>(h, n).
     if eth_prot h = ethertype_arp then
       bind_r (extract_arp_header (drop n d)) (\<lambda>(a, _). recv_arp a [ether2_entry h])
     else if eth_prot h = ethertype_ip4 then
       bind_r (extract_ip4_header (drop n d)) (\<lambda>(i, m). recv_ip4 (i, drop m (drop n d)) [ether2_entry h])
     else Inr [ether2_entry h])"
  by (auto simp: parse_prots_def recv_through_def ether2_open bind_r_assoc recv_ether2_def ether2_entry_def Let_def
      ip4_open arp_open split: prod.split intro!: bind_r_cong)

section \<open>Properties\<close>

text \<open>A frame with an IPv4 packet in it, as the protocols send them, is described by its two layers, with
  the addresses and the protocol of the headers.\<close>

theorem analyzer_describes_ip4:
  assumes "ip4_send (Some s) ih d = Inr [(s, packet)]" and "ethernet2_send (Some s) eh packet = Inr [(s, frame)]"
    and "flags ih = 0" and "eth_prot eh = ethertype_ip4"
  shows "parse_prots frame = Inr [
    \<lparr>parsed_status = Valid, parsed_prot = Some Ethernet2,
     parsed_desc = ''src: '' @ mac_addr_to_str (eth_src_addr eh) @ '', dest: '' @ mac_addr_to_str (eth_dest_addr eh)
       @ '', ethertype: ip4''\<rparr>,
    \<lparr>parsed_status = Valid, parsed_prot = Some Ip4,
     parsed_desc = ''src: '' @ ip4_addr_to_str (ip_src_addr ih) @ '', dest: '' @ ip4_addr_to_str (ip_dest_addr ih)
       @ '', prot: '' @ unsupported_or (ip_prot_to_str (ip_prot ih))\<rparr>]"
proof -
  have f: "frame = write_ethernet2_header eh @ packet" "packet = write_ip4_header (checksummed ih) @ d"
    using assms(1,2) by (simp_all add: ip4_send_frame ethernet2_send_def)
  have e: "extract_ethernet2_header frame = Inr (eh, length (write_ethernet2_header eh))"
    unfolding f(1) by (rule ethernet2.ex_wr) simp_all
  have "flags (checksummed ih) = 0" using assms(3) by simp
  then have i: "extract_ip4_header packet = Inr (checksummed ih, sizeof_ip4_header)"
    unfolding f(2) by simp
  have "ethertype_ip4 \<noteq> ethertype_arp" by (simp add: ethertype_ip4_def ethertype_arp_def)
  then show ?thesis
    unfolding parse_prots_eq e using assms(4) i
    by (simp add: f(1) recv_ip4_def ether2_entry_def unsupported_or_def ethertype_to_str_def checksummed_def)
qed

theorem analyzer_describes_ip4_witness:
  "\<exists>packet frame. ip4_send (Some ()) (ip4_single_header (Ip4_addr 10 0 0 2) None (Some 17) 1) [7] = Inr [((), packet)]
     \<and> ethernet2_send (Some ()) (ethernet2_single_header mac_addr_broadcast None (Some ethertype_ip4)) packet = Inr [((), frame)]
     \<and> map_option (map parsed_prot) (case parse_prots frame of Inr ps \<Rightarrow> Some ps | Inl e \<Rightarrow> None) = Some [Some Ethernet2, Some Ip4]"
proof -
  let ?ih = "ip4_single_header (Ip4_addr 10 0 0 2) None (Some 17) 1"
    and ?eh = "ethernet2_single_header mac_addr_broadcast None (Some ethertype_ip4)"
  obtain packet frame where f: "ip4_send (Some ()) ?ih [7] = Inr [((), packet)]" "ethernet2_send (Some ()) ?eh packet = Inr [((), frame)]"
    by (simp add: ip4_send_frame ethernet2_send_def)
  have "flags ?ih = 0" "eth_prot ?eh = ethertype_ip4" by (simp_all add: ip4_single_header_def ethernet2_single_header_def)
  from analyzer_describes_ip4 [OF f this] f show ?thesis by simp
qed

text \<open>A frame with an ARP reply in it is described by the pair of addresses that the reply announces.\<close>

theorem analyzer_describes_arp_reply:
  assumes "arp_send (Some s) ah = Inr [(s, packet)]" and "ethernet2_send (Some s) eh packet = Inr [(s, frame)]"
    and "eth_prot eh = ethertype_arp" and "op ah = arp_op_reply" and "prot_type ah = ethertype_ip4"
    and "sender_prot_addr ah = write_ip4_addr ip" and "sender_hard_addr ah = write_mac_addr mac"
  shows "\<exists>e. parse_prots frame = Inr [e, \<lparr>parsed_status = Valid, parsed_prot = Some Arp,
     parsed_desc = ''ip4 -> mac, reply: '' @ ip4_addr_to_str ip @ '' is '' @ mac_addr_to_str mac\<rparr>]"
proof -
  have wf: "arp_wf ah" using assms(1) write_arp_header_aborts [of ah] by (auto simp: arp_send_def)
  obtain bs where bs: "write_arp_header ah = Inr bs" using arp.wr_total [OF wf] by blast
  obtain pad where "packet = bs @ pad"
    using assms(1) bs by (auto simp: arp_send_def store_at_def split: if_splits)
  then have a: "extract_arp_header packet = Inr (ah, length bs)" using arp.ex_wr [OF wf bs] by simp
  have f: "frame = write_ethernet2_header eh @ packet" using assms(2) by (simp add: ethernet2_send_def)
  have e: "extract_ethernet2_header frame = Inr (eh, length (write_ethernet2_header eh))"
    unfolding f by (rule ethernet2.ex_wr) simp_all
  have n: "arp_op_reply \<noteq> arp_op_request" "ethertype_ip4 \<noteq> ethertype_arp"
    by (simp_all add: arp_op_reply_def arp_op_request_def ethertype_ip4_def ethertype_arp_def)
  have "extract_ip4_addr (write_ip4_addr ip) = Inr (ip, [])" "extract_mac_addr (write_mac_addr mac) = Inr (mac, [])"
    using extract_write_ip4_addr [of ip "[]"] extract_write_mac_addr [of mac "[]"] by simp_all
  then show ?thesis
    unfolding parse_prots_eq e using assms(3-7) a n
    by (simp add: f recv_arp_def arp_op_text_def arp_ip4_text_def unsupported_or_def ethertype_to_str_def)
qed

theorem analyzer_describes_arp_reply_witness:
  "\<exists>packet frame e. arp_send (Some ()) \<lparr>hard_type = 1, prot_type = ethertype_ip4, hard_addr_sz = 6, prot_addr_sz = 4,
      op = arp_op_reply, sender_hard_addr = write_mac_addr mac_addr_broadcast, sender_prot_addr = write_ip4_addr (Ip4_addr 1 2 3 4),
      target_hard_addr = replicate 6 0, target_prot_addr = replicate 4 0\<rparr> = Inr [((), packet)]
    \<and> ethernet2_send (Some ()) (ethernet2_single_header mac_addr_broadcast None (Some ethertype_arp)) packet = Inr [((), frame)]
    \<and> parse_prots frame = Inr [e, \<lparr>parsed_status = Valid, parsed_prot = Some Arp,
       parsed_desc = ''ip4 -> mac, reply: 1.2.3.4 is ff:ff:ff:ff:ff:ff''\<rparr>]"
proof -
  let ?ah = "\<lparr>hard_type = 1, prot_type = ethertype_ip4, hard_addr_sz = 6, prot_addr_sz = 4,
      op = arp_op_reply, sender_hard_addr = write_mac_addr mac_addr_broadcast, sender_prot_addr = write_ip4_addr (Ip4_addr 1 2 3 4),
      target_hard_addr = replicate 6 0, target_prot_addr = replicate 4 0\<rparr> :: arp_header"
    and ?eh = "ethernet2_single_header mac_addr_broadcast None (Some ethertype_arp)"
  have "arp_wf ?ah" "calc_sz ?ah \<le> sizeof_arp_header" by (simp_all add: arp_wf_def calc_sz_def sizeof_arp_header_def)
  then obtain packet where p: "arp_send (Some ()) ?ah = Inr [((), packet)]" using arp_frame [of ?ah "()"] by blast
  obtain frame where f: "ethernet2_send (Some ()) ?eh packet = Inr [((), frame)]" by (simp add: ethernet2_send_def)
  have "ip4_addr_to_str (Ip4_addr 1 2 3 4) = ''1.2.3.4''" "mac_addr_to_str mac_addr_broadcast = ''ff:ff:ff:ff:ff:ff''"
    by code_simp+
  then show ?thesis
    using analyzer_describes_arp_reply [OF p f, of "Ip4_addr 1 2 3 4" mac_addr_broadcast] p f
    by (simp add: ethernet2_single_header_def)
qed

text \<open>The description of an ARP header reads more of an address than the header holds.\<close>

definition arp_short :: "arp_header \<Rightarrow> bool" where
  "arp_short a \<longleftrightarrow> op a = arp_op_request \<and> prot_type a = ethertype_ip4 \<and> length (target_prot_addr a) < 4
     \<or> op a = arp_op_reply \<and> (prot_type a = ethertype_ip4 \<and> length (sender_prot_addr a) < 4 \<or> length (sender_hard_addr a) < 6)"

lemma arp_op_text_fault: "arp_op_text a = Inl e \<longleftrightarrow> e = Overread \<and> arp_short a"
proof -
  have n: "arp_op_reply \<noteq> arp_op_request" by (simp add: arp_op_reply_def arp_op_request_def)
  have t: "arp_ip4_text pt addr = Inl e \<longleftrightarrow> e = Overread \<and> pt = ethertype_ip4 \<and> length addr < 4" for pt addr e
    by (auto simp: arp_ip4_text_def bind_r_eq_Inl extract_ip4_addr_fault split: prod.splits)
  show ?thesis
    using n t [of "prot_type a" "sender_prot_addr a" Overread] by (cases "arp_ip4_text (prot_type a) (sender_prot_addr a)")
      (auto simp: arp_op_text_def arp_short_def bind_r_eq_Inl t extract_mac_addr_fault split: prod.splits)
qed

text \<open>C38: What the analyzer reads beyond a packet: it faults exactly when the frame is shorter than an Ethernet
  header, when the payload is shorter than the header its type announces, or when an ARP header announces
  addresses that are shorter than the ones the description reads.  No length is checked before.\<close>

theorem analyzer_overreads:
  "parse_prots frame = Inl e \<longleftrightarrow> e = Overread \<and>
     (length frame < sizeof_ethernet2_header
      \<or> (\<exists>h n. extract_ethernet2_header frame = Inr (h, n)
           \<and> (eth_prot h = ethertype_ip4 \<and> length (drop n frame) < sizeof_ip4_header
              \<or> eth_prot h = ethertype_arp \<and> (case extract_arp_header (drop n frame) of Inl _ \<Rightarrow> True | Inr (a, _) \<Rightarrow> arp_short a))))"
proof (cases "extract_ethernet2_header frame")
  case (Inl e')
  then show ?thesis using extract_ethernet2_header_fault [of frame e'] by (auto simp: parse_prots_eq)
next
  case (Inr hn)
  obtain h n where hn: "hn = (h, n)" by (cases hn)
  have len: "\<not> length frame < sizeof_ethernet2_header"
    using extract_ethernet2_header_fault [of frame Overread] Inr by auto
  have ne: "ethertype_ip4 \<noteq> ethertype_arp" by (simp add: ethertype_ip4_def ethertype_arp_def)
  have ar: "extract_arp_header d = Inl e' \<Longrightarrow> e' = Overread" for d e'
    by (auto simp: extract_arp_header_def load_ifs bind_r_eq_Inl split: if_splits prod.splits)
  show ?thesis
  proof (cases "eth_prot h = ethertype_arp")
    case True
    then show ?thesis
      using len ne ar [of "drop n frame"] by (cases "extract_arp_header (drop n frame)")
        (auto simp: parse_prots_eq Inr hn recv_arp_def bind_r_eq_Inl arp_op_text_fault split: prod.splits)
  next
    case False
    then show ?thesis
      using len ne by (auto simp: parse_prots_eq Inr hn recv_ip4_def bind_r_eq_Inl extract_ip4_header_fault split: prod.splits)
  qed
qed

end
