(* ===== verification/Arp_Tool.thy ===== *)
theory Arp_Tool
  imports Arp Ip4_Addr
begin

text \<open>
  The ARP tools (\<^verbatim>\<open>src/tools/arp_tool/arp_tool.cpp\<close>): the search for the hardware address of
  an IPv4 address, the scan of a subnet, the announcement of a pair, and the rounds of the spoofing attack.
  The queues that the tools read are given by what is read from them; the tools' output on the console is
  left out.
\<close>

section \<open>Headers\<close>

text \<open>The ARP header of a pair of IPv4 and Ethernet addresses on both sides.\<close>

definition pair_header :: "arp_op \<Rightarrow> mac_addr \<Rightarrow> ip4_addr \<Rightarrow> mac_addr \<Rightarrow> ip4_addr \<Rightarrow> arp_header" where
  "pair_header ope sender_mac sender_ip target_mac target_ip =
     \<lparr>hard_type = 1, prot_type = ethertype_ip4, hard_addr_sz = 6, prot_addr_sz = 4, op = ope,
      sender_hard_addr = mac_octets sender_mac, sender_prot_addr = octets sender_ip,
      target_hard_addr = mac_octets target_mac, target_prot_addr = octets target_ip\<rparr>"

definition arp_request :: "mac_addr \<Rightarrow> ip4_addr \<Rightarrow> ip4_addr \<Rightarrow> arp_header" where
  "arp_request src_mac src_ip ip = pair_header arp_op_request src_mac src_ip mac_addr_empty ip"

section \<open>Searching an address\<close>

text \<open>The loop against what its reads of the queue yield, \<open>None\<close> for a time-out; the result is the address it
  returns, if it has returned, and how often it has sent the request.  Every round sends first.\<close>

fun search_loop :: "ip4_addr \<Rightarrow> arp_header option list \<Rightarrow> nat \<Rightarrow> (mac_addr option \<times> nat) result" where
  "search_loop searched_ip [] sent = Inr (None, sent + 1)"
| "search_loop searched_ip (None # evs) sent = search_loop searched_ip evs (sent + 1)"
| "search_loop searched_ip (Some reply # evs) sent =
     bind_r (extract_ip4_addr (sender_prot_addr reply)) (\<lambda>(reply_ip, _).
       if ip4_addr_neq reply_ip searched_ip then search_loop searched_ip evs (sent + 1)
       else bind_r (extract_mac_addr (sender_hard_addr reply)) (\<lambda>(res, _). Inr (Some res, sent + 1)))"

definition search_for_mac_addr ::
  "'s option \<Rightarrow> ip4_addr \<Rightarrow> mac_addr \<Rightarrow> ip4_addr \<Rightarrow> arp_header option list \<Rightarrow> (mac_addr option \<times> ('s \<times> bytes) list) result" where
  "search_for_mac_addr surface searched_ip src_mac src_ip evs =
     bind_r (arp_send surface (arp_request src_mac src_ip searched_ip)) (\<lambda>fs.
     bind_r (search_loop searched_ip evs 0) (\<lambda>(res, n). Inr (res, concat (replicate n fs))))"

section \<open>Scanning a subnet\<close>

text \<open>The sending loop, from the address \<open>curr_ip\<close> on: what has been sent and how many addresses it passed.\<close>

partial_function (option) scan_requests ::
  "'s option \<Rightarrow> ip4_subnet_mask \<Rightarrow> ip4_addr set \<Rightarrow> mac_addr \<Rightarrow> ip4_addr \<Rightarrow> ip4_addr \<Rightarrow> ('s \<times> bytes) list \<Rightarrow> nat
    \<Rightarrow> (('s \<times> bytes) list \<times> nat) result option" where
  "scan_requests surface m skip_addrs src_mac src_ip curr_ip sent request_cnt =
     (case is_inside_subnet m curr_ip of
        Inl e \<Rightarrow> Some (Inl e)
      | Inr inside \<Rightarrow>
          if \<not> inside then Some (Inr (sent, request_cnt))
          else (case (if curr_ip \<in> skip_addrs then Inr [] else arp_send surface (arp_request src_mac src_ip curr_ip)) of
                  Inl e \<Rightarrow> Some (Inl e)
                | Inr fs \<Rightarrow> scan_requests surface m skip_addrs src_mac src_ip (generate_next_ip curr_ip)
                              (sent @ fs) (request_cnt + 1)))"

text \<open>The loop over the queue of replies.\<close>

fun process_replies :: "ip4_subnet_mask \<Rightarrow> arp_header list \<Rightarrow> (ip4_addr \<rightharpoonup> mac_addr) \<Rightarrow> (ip4_addr \<rightharpoonup> mac_addr) result" where
  "process_replies m [] res = Inr res"
| "process_replies m (reply # q) res =
     bind_r (extract_ip4_addr (sender_prot_addr reply)) (\<lambda>(reply_ip, _).
     bind_r (is_inside_subnet m reply_ip) (\<lambda>inside.
       if \<not> inside then process_replies m q res
       else if reply_ip \<in> dom res then process_replies m q res
       else bind_r (extract_mac_addr (sender_hard_addr reply)) (\<lambda>(reply_mac, _).
              process_replies m q (res(reply_ip \<mapsto> reply_mac)))))"

definition scan_entire_subnet ::
  "'s option \<Rightarrow> ip4_subnet_mask \<Rightarrow> ip4_addr set \<Rightarrow> mac_addr \<Rightarrow> ip4_addr \<Rightarrow> arp_header list
    \<Rightarrow> (('s \<times> bytes) list \<times> (ip4_addr \<rightharpoonup> mac_addr)) result option" where
  "scan_entire_subnet surface m skip_addrs src_mac src_ip replies =
     bind_ro (Some (smallest_ip_addr_in_subnet m)) (\<lambda>curr_ip.
     bind_ro (scan_requests surface m skip_addrs src_mac src_ip curr_ip [] 0) (\<lambda>(sent, _).
     bind_ro (Some (process_replies m replies (\<lambda>_. None))) (\<lambda>res. Some (Inr (sent, res)))))"

section \<open>Announcing and spoofing\<close>

definition announce_new_pair :: "'s option \<Rightarrow> ip4_addr \<Rightarrow> mac_addr \<Rightarrow> ('s \<times> bytes) list result" where
  "announce_new_pair surface new_ip new_mac =
     arp_send surface (pair_header arp_op_reply new_mac new_ip mac_addr_empty ip4_addr_empty)"

text \<open>The body of the attack's endless loop.\<close>

fun spoof_round :: "('s option \<times> mac_addr \<times> ip4_addr) list \<Rightarrow> ip4_addr \<Rightarrow> mac_addr \<Rightarrow> ('s \<times> bytes) list result" where
  "spoof_round [] dest_ip src_mac = Inr []"
| "spoof_round ((access, assoc_mac, assoc_ip) # targets) dest_ip src_mac =
     bind_r (arp_send access (pair_header arp_op_reply src_mac dest_ip assoc_mac assoc_ip)) (\<lambda>fs.
     bind_r (spoof_round targets dest_ip src_mac) (\<lambda>rest. Inr (fs @ rest)))"

section \<open>Frames\<close>

lemma pair_header_fits:
  "arp_wf (pair_header ope sm si tm ti)" "calc_sz (pair_header ope sm si tm ti) \<le> sizeof_arp_header"
  by (simp_all add: pair_header_def arp_wf_def calc_sz_def sizeof_arp_header_def)

lemma pair_addrs [simp]:
  "extract_ip4_addr (sender_prot_addr (pair_header ope sm si tm ti)) = Inr (si, [])"
  "extract_mac_addr (sender_hard_addr (pair_header ope sm si tm ti)) = Inr (sm, [])"
  by (cases si; cases sm; simp add: pair_header_def)+

text \<open>The frame of a header, the same on every access.\<close>

definition arp_packet :: "arp_header \<Rightarrow> bytes" where
  "arp_packet h = (case arp_send (Some ()) h of Inr [(_, f)] \<Rightarrow> f | _ \<Rightarrow> [])"

lemma pair_sent:
  "arp_send (Some s) (pair_header ope sm si tm ti) = Inr [(s, arp_packet (pair_header ope sm si tm ti))]"
proof -
  let ?h = "pair_header ope sm si tm ti"
  obtain bs where bs: "write_arp_header ?h = Inr bs" "arp_send (Some s) ?h = Inr [(s, bs @ replicate (sizeof_arp_header - calc_sz ?h) 0)]"
    using arp_frame [where s = s, OF pair_header_fits] by blast
  obtain bs' where "write_arp_header ?h = Inr bs'" "arp_send (Some ()) ?h = Inr [((), bs' @ replicate (sizeof_arp_header - calc_sz ?h) 0)]"
    using arp_frame [where s = "()", OF pair_header_fits] by blast
  with bs show ?thesis by (simp add: arp_packet_def)
qed

lemma pair_received:
  "arp_recv c (arp_packet (pair_header ope sm si tm ti))
     = Inr (if c = None \<or> c = Some ope then Some (pair_header ope sm si tm ti) else None)"
proof -
  let ?h = "pair_header ope sm si tm ti"
  obtain bs where bs: "write_arp_header ?h = Inr bs" "arp_send (Some ()) ?h = Inr [((), bs @ replicate (sizeof_arp_header - calc_sz ?h) 0)]"
    using arp_frame [where s = "()", OF pair_header_fits] by blast
  have "op ?h = ope" by (simp add: pair_header_def)
  then show ?thesis
    using arp.ex_wr [OF pair_header_fits(1) bs(1)] bs(2) by (cases c) (auto simp: arp_recv_def arp_packet_def)
qed

section \<open>Searching\<close>

text \<open>What the search passes over: a time-out, or a reply for another address.\<close>

definition no_answer :: "ip4_addr \<Rightarrow> arp_header option \<Rightarrow> bool" where
  "no_answer ip ev \<longleftrightarrow> (case ev of None \<Rightarrow> True
     | Some r \<Rightarrow> (\<exists>ip' rest. extract_ip4_addr (sender_prot_addr r) = Inr (ip', rest) \<and> ip' \<noteq> ip))"

lemma search_loop_skips:
  "\<forall>ev \<in> set pre. no_answer ip ev \<Longrightarrow> search_loop ip (pre @ evs) n = search_loop ip evs (n + length pre)"
proof (induction pre arbitrary: n)
  case (Cons ev pre)
  then show ?case by (cases ev) (auto simp: no_answer_def)
qed simp

lemma search_answered:
  assumes "\<forall>ev \<in> set pre. no_answer ip ev"
  shows "search_for_mac_addr (Some s) ip src_mac src_ip (pre @ Some (pair_header ope mac ip tm ti) # post)
    = Inr (Some mac, replicate (length pre + 1) (s, arp_packet (arp_request src_mac src_ip ip)))"
proof -
  have "concat (replicate n [x]) = replicate n x" for n and x :: "'s \<times> bytes" by (induction n) simp_all
  then show ?thesis
    using search_loop_skips [OF assms, of "Some (pair_header ope mac ip tm ti) # post" 0]
    by (simp add: search_for_mac_addr_def arp_request_def pair_sent del: replicate_Suc)
qed

section \<open>The addresses of a subnet\<close>

text \<open>The block of a mask on an octet boundary, as a range of numbers: \<open>2 ^ (32 - n)\<close> from the smallest.\<close>

lemma cidr_block_div:
  assumes "no_mask_bits m = int n" and "n \<le> 32"
  shows "cidr_block m ip \<longleftrightarrow> unat (ip4_value (base_addr m)) div 2 ^ (32 - n) = unat (ip4_value ip) div 2 ^ (32 - n)"
proof -
  have "nat (no_mask_bits m) = n" using assms(1) by simp
  then show ?thesis
    unfolding cidr_block_def word_unat_eq_iff unat_drop_bit_eq by (simp only: drop_bit_eq_div [where 'a = nat])
qed

lemma smallest_value:
  assumes "no_mask_bits m \<in> {8, 16, 24}" and "no_mask_bits m = int n"
  obtains a where "smallest_ip_addr_in_subnet m = Inr a"
    "unat (ip4_value a) = unat (ip4_value (base_addr m)) div 2 ^ (32 - n) * 2 ^ (32 - n)"
proof -
  obtain x0 x1 x2 x3 where x: "base_addr m = Ip4_addr x0 x1 x2 x3" by (cases "base_addr m")
  have u: "unat (join32 d c b a) = unat a * 2 ^ 24 + unat b * 2 ^ 16 + unat c * 2 ^ 8 + unat d" for a b c d
    by (simp add: unat_join32)
  have b: "unat x0 < 256" "unat x1 < 256" "unat x2 < 256" "unat x3 < 256" by simp_all
  have d: "(a * 16777216 + b * 65536 + c * 256 + d) div 16777216 = a"
    "(a * 16777216 + b * 65536 + c * 256 + d) div 65536 = a * 256 + b"
    "(a * 16777216 + b * 65536 + c * 256 + d) div 256 = a * 65536 + b * 256 + c"
    if "b < 256" "c < 256" "d < 256" for a b c d :: nat using that by arith+
  from assms consider "n = 8" | "n = 16" | "n = 24" by fastforce
  then show ?thesis
  proof cases
    case 1
    have "smallest_ip_addr_in_subnet m = Inr (Ip4_addr x0 0 0 0)"
      using 1 assms(2) by (simp add: smallest_ip_addr_in_subnet_def x of_octets_def low_bits_def)
    then show ?thesis using that d [OF b(2-4), of "unat x0"] 1 by (simp add: x u)
  next
    case 2
    have "smallest_ip_addr_in_subnet m = Inr (Ip4_addr x0 x1 0 0)"
      using 2 assms(2) by (simp add: smallest_ip_addr_in_subnet_def x of_octets_def low_bits_def)
    then show ?thesis using that d [OF b(2-4), of "unat x0"] 2 by (simp add: x u)
  next
    case 3
    have "smallest_ip_addr_in_subnet m = Inr (Ip4_addr x0 x1 x2 0)"
      using 3 assms(2) by (simp add: smallest_ip_addr_in_subnet_def x of_octets_def low_bits_def)
    then show ?thesis using that d [OF b(2-4), of "unat x0"] 3 by (simp add: x u)
  qed
qed

lemma unat_next_ip: "unat (ip4_value (generate_next_ip ip)) = (unat (ip4_value ip) + 1) mod 2 ^ 32"
  by (simp add: generate_next_ip_succ unat_word_ariths)

lemma ip4_value_inj: "ip4_value a = ip4_value b \<longleftrightarrow> a = b"
  by (cases a; cases b) auto

text \<open>A block with \<open>2 ^ k\<close> addresses, of which \<open>a\<close> is the first and \<open>q\<close> the prefix.\<close>

lemma block_values:
  assumes "unat (ip4_value a) = q * 2 ^ k" and "k \<le> 32" and "i < 2 ^ k"
  shows "unat (ip4_value ((generate_next_ip ^^ i) a)) = q * 2 ^ k + i"
proof -
  have "unat (ip4_value a) < 2 ^ 32" using unsigned_less [of "ip4_value a", where 'a = nat] by simp
  then have "q * 2 ^ k < 2 ^ (32 - k) * 2 ^ k" using assms(1,2) by (simp add: power_add [symmetric])
  then have "q + 1 \<le> 2 ^ (32 - k)" by simp
  then have "(q + 1) * 2 ^ k \<le> 2 ^ (32 - k) * 2 ^ k" by (rule mult_le_mono1)
  then have top: "q * 2 ^ k + 2 ^ k \<le> 2 ^ 32" using assms(2) by (simp add: power_add [symmetric] distrib_right)
  show ?thesis using assms(3)
  proof (induction i)
    case (Suc i)
    then have "unat (ip4_value ((generate_next_ip ^^ i) a)) = q * 2 ^ k + i" by simp
    moreover have "q * 2 ^ k + i + 1 < 2 ^ 32" using Suc.prems top by linarith
    ultimately show ?case by (simp add: unat_next_ip)
  qed (simp add: assms(1))
qed

lemma block_end:
  assumes "unat (ip4_value a) = q * 2 ^ k" and "k \<le> 24" and "k \<noteq> 0"
  shows "unat (ip4_value ((generate_next_ip ^^ 2 ^ k) a)) div 2 ^ k \<noteq> q"
proof -
  let ?l = "2 ^ k - 1 :: nat"
  have p: "2 ^ k = Suc ?l" by simp
  have "unat (ip4_value ((generate_next_ip ^^ ?l) a)) = q * 2 ^ k + ?l"
    by (rule block_values [OF assms(1)]) (use assms(2) in simp_all)
  then have v: "unat (ip4_value ((generate_next_ip ^^ 2 ^ k) a)) = (q * 2 ^ k + ?l + 1) mod 2 ^ 32"
    by (subst p) (simp only: funpow.simps comp_apply unat_next_ip)
  have e: "q * 2 ^ k + ?l + 1 = (q + 1) * 2 ^ k" by (simp add: distrib_right)
  have "(2 :: nat) ^ 32 = 2 ^ (32 - k) * 2 ^ k" using assms(2) by (simp add: power_add [symmetric])
  then have "(q + 1) * 2 ^ k mod 2 ^ 32 = (q + 1) mod 2 ^ (32 - k) * 2 ^ k"
    by (simp only: mult_mod_left [symmetric])
  then have d: "unat (ip4_value ((generate_next_ip ^^ 2 ^ k) a)) div 2 ^ k = (q + 1) mod 2 ^ (32 - k)"
    unfolding v e by simp
  have "(2 :: nat) ^ 1 < 2 ^ (32 - k)" using assms(2) by (intro power_strict_increasing) simp_all
  then have n: "1 < (2 :: nat) ^ (32 - k)" by simp
  have "(q + 1) mod N \<noteq> q" if "1 < N" for N
  proof -
    consider "q + 1 < N" | "q + 1 = N" | "N \<le> q" by linarith
    then show ?thesis
    proof cases
      case 3
      have "(q + 1) mod N < N" using that by simp
      then show ?thesis using 3 by linarith
    qed (use that in auto)
  qed
  from this [OF n] show ?thesis by (simp only: d) simp
qed

section \<open>The scan\<close>

text \<open>The requests of a scan, one for each address.\<close>

definition requests :: "'s \<Rightarrow> mac_addr \<Rightarrow> ip4_addr \<Rightarrow> ip4_addr list \<Rightarrow> ('s \<times> bytes) list" where
  "requests s src_mac src_ip ips = map (\<lambda>ip. (s, arp_packet (arp_request src_mac src_ip ip))) ips"

lemma request_sent: "arp_send (Some s) (arp_request sm si ip) = Inr [(s, arp_packet (arp_request sm si ip))]"
  by (simp add: arp_request_def pair_sent)

lemma scan_block:
  assumes n: "no_mask_bits m \<in> {8, 16, 24}" "no_mask_bits m = int n"
    and a: "unat (ip4_value a) = q * 2 ^ (32 - n)" "q = unat (ip4_value (base_addr m)) div 2 ^ (32 - n)"
    and "i \<le> 2 ^ (32 - n)"
  shows "scan_requests (Some s) m skip sm si ((generate_next_ip ^^ i) a) sent cnt
     = Some (Inr (sent @ requests s sm si (filter (\<lambda>ip. ip \<notin> skip) (map (\<lambda>i. (generate_next_ip ^^ i) a) [i..<2 ^ (32 - n)])),
         cnt + (2 ^ (32 - n) - i)))"
  using assms(5)
proof (induction "2 ^ (32 - n) - i" arbitrary: i sent cnt)
  case 0
  have k: "32 - n \<le> 24" "32 - n \<noteq> 0" and n32: "n \<le> 32" using n by auto
  have i: "i = 2 ^ (32 - n)" using 0 by simp
  have "is_inside_subnet m ((generate_next_ip ^^ i) a) = Inr False"
    using n block_end [OF a(1) k] a(2) by (simp add: is_inside_subnet_cidr cidr_block_div [OF n(2) n32] i)
  then show ?case by (simp add: scan_requests.simps i requests_def)
next
  case (Suc d)
  have n32: "n \<le> 32" using n by auto
  have i: "i < 2 ^ (32 - n)" using Suc.hyps(2) by simp
  let ?ip = "(generate_next_ip ^^ i) a"
  have "unat (ip4_value ?ip) = q * 2 ^ (32 - n) + i" by (rule block_values [OF a(1) _ i]) simp
  then have "is_inside_subnet m ?ip = Inr True"
    using n a(2) i by (simp add: is_inside_subnet_cidr cidr_block_div [OF n(2) n32])
  then have step: "scan_requests (Some s) m skip sm si ?ip sent cnt
      = scan_requests (Some s) m skip sm si ((generate_next_ip ^^ Suc i) a)
          (sent @ (if ?ip \<in> skip then [] else requests s sm si [?ip])) (cnt + 1)"
    by (subst scan_requests.simps) (simp add: request_sent requests_def)
  have up: "[i..<2 ^ (32 - n)] = i # [Suc i..<2 ^ (32 - n)]" using i by (simp add: upt_conv_Cons)
  have "d = 2 ^ (32 - n) - Suc i" "Suc i \<le> 2 ^ (32 - n)" using Suc.hyps(2) i by simp_all
  from Suc.hyps(1) [OF this] show ?case
    unfolding step up using i by (simp add: requests_def del: funpow.simps)
qed

lemma block_addresses:
  assumes n: "no_mask_bits m = int n" "n \<le> 32"
    and a: "unat (ip4_value a) = q * 2 ^ (32 - n)" "q = unat (ip4_value (base_addr m)) div 2 ^ (32 - n)"
  defines "ips \<equiv> map (\<lambda>i. (generate_next_ip ^^ i) a) [0..<2 ^ (32 - n)]"
  shows "sorted_wrt (<) ips" "set ips = {ip. cidr_block m ip}"
proof -
  have v: "unat (ip4_value ((generate_next_ip ^^ i) a)) = q * 2 ^ (32 - n) + i" if "i < 2 ^ (32 - n)" for i
    by (rule block_values [OF a(1) _ that]) simp
  show "sorted_wrt (<) ips"
    unfolding ips_def sorted_wrt_iff_nth_less by (simp add: ip4_less_value word_less_nat_alt v)
  show "set ips = {ip. cidr_block m ip}"
  proof (intro set_eqI iffI)
    fix ip assume "ip \<in> set ips"
    then show "ip \<in> {ip. cidr_block m ip}"
      using v a(2) by (auto simp: ips_def cidr_block_div [OF n])
  next
    fix ip assume "ip \<in> {ip. cidr_block m ip}"
    then have "unat (ip4_value ip) div 2 ^ (32 - n) = q" using a(2) by (simp add: cidr_block_div [OF n])
    moreover define r where "r = unat (ip4_value ip) mod 2 ^ (32 - n)"
    ultimately have "unat (ip4_value ip) = q * 2 ^ (32 - n) + r"
      using div_mult_mod_eq [of "unat (ip4_value ip)" "2 ^ (32 - n)"] by simp
    moreover have r: "r < 2 ^ (32 - n)" by (simp add: r_def)
    ultimately have "unat (ip4_value ip) = unat (ip4_value ((generate_next_ip ^^ r) a))" using v by simp
    then have "ip = (generate_next_ip ^^ r) a" by (simp only: word_unat_eq_iff [symmetric] ip4_value_inj)
    then show "ip \<in> set ips" using r by (auto simp: ips_def)
  qed
qed

text \<open>With no bits in the mask every address is inside, and the loop does not end.\<close>

lemma scan_all_loops:
  assumes "no_mask_bits m = 0"
  shows "scan_requests (Some (s :: 's)) m skip sm si ip sent cnt = None"
proof -
  have "no_mask_bits m = 0 \<and> surface = Some s \<longrightarrow> False"
    if "scan_requests surface m skip sm si ip sent cnt = Some r" for surface m skip sm si ip sent cnt r
  proof (rule scan_requests.raw_induct [where P = "\<lambda>surface m skip sm si ip sent cnt r. no_mask_bits m = 0 \<and> surface = Some s \<longrightarrow> False", OF _ that])
    fix scan :: "'s option \<Rightarrow> ip4_subnet_mask \<Rightarrow> ip4_addr set \<Rightarrow> mac_addr \<Rightarrow> ip4_addr \<Rightarrow> ip4_addr
      \<Rightarrow> ('s \<times> bytes) list \<Rightarrow> nat \<Rightarrow> (('s \<times> bytes) list \<times> nat) result option"
      and surface m skip src_mac src_ip curr_ip sent request_cnt r
    assume IH: "\<And>surface m skip sm si ip sent cnt r. scan surface m skip sm si ip sent cnt = Some r
        \<Longrightarrow> no_mask_bits m = 0 \<and> surface = Some s \<longrightarrow> False"
      and res: "(case is_inside_subnet m curr_ip of
        Inl e \<Rightarrow> Some (Inl e)
      | Inr inside \<Rightarrow>
          if \<not> inside then Some (Inr (sent, request_cnt))
          else (case (if curr_ip \<in> skip then Inr [] else arp_send surface (arp_request src_mac src_ip curr_ip)) of
                  Inl e \<Rightarrow> Some (Inl e)
                | Inr fs \<Rightarrow> scan surface m skip src_mac src_ip (generate_next_ip curr_ip)
                              (sent @ fs) (request_cnt + 1))) = Some r"
    show "no_mask_bits m = 0 \<and> surface = Some s \<longrightarrow> False"
    proof
      assume z: "no_mask_bits m = 0 \<and> surface = Some s"
      then have "is_inside_subnet m curr_ip = Inr True"
        by (cases "base_addr m"; cases curr_ip) (simp add: is_inside_subnet_cidr cidr_block_def drop_bit_join32)
      then obtain sent' where "scan (Some s) m skip src_mac src_ip (generate_next_ip curr_ip) sent' (request_cnt + 1) = Some r"
        using res z by (auto simp: request_sent split: if_splits)
      from IH [OF this] z show False by simp
    qed
  qed
  with assms show ?thesis by (metis not_Some_eq)
qed

section \<open>Properties\<close>

text \<open>C26: The scan of a subnet on an octet boundary ends, after one request for every address of the subnet that
  is not skipped, in ascending order and none twice; with an empty mask (\<open>/0\<close>) it never ends, since the last
  address is followed by the first.\<close>

theorem arp_scan_covers_subnet:
  assumes "no_mask_bits m \<in> {8, 16, 24}"
  shows "\<exists>curr ips. smallest_ip_addr_in_subnet m = Inr curr
    \<and> scan_requests (Some s) m skip src_mac src_ip curr [] 0
        = Some (Inr (requests s src_mac src_ip ips, 2 ^ (32 - nat (no_mask_bits m))))
    \<and> sorted_wrt (<) ips \<and> set ips = {ip. cidr_block m ip \<and> ip \<notin> skip}"
proof -
  define n where "n = nat (no_mask_bits m)"
  have n: "no_mask_bits m = int n" "n \<le> 32" using assms by (auto simp: n_def)
  obtain a where a: "smallest_ip_addr_in_subnet m = Inr a"
    "unat (ip4_value a) = unat (ip4_value (base_addr m)) div 2 ^ (32 - n) * 2 ^ (32 - n)"
    using smallest_value [OF assms n(1)] by blast
  let ?ips = "filter (\<lambda>ip. ip \<notin> skip) (map (\<lambda>i. (generate_next_ip ^^ i) a) [0..<2 ^ (32 - n)])"
  have "scan_requests (Some s) m skip src_mac src_ip a [] 0 = Some (Inr (requests s src_mac src_ip ?ips, 2 ^ (32 - n)))"
    using scan_block [OF assms n(1) a(2) refl, of 0 s skip src_mac src_ip "[]" 0] by simp
  moreover have "sorted_wrt (<) ?ips" "set ?ips = {ip. cidr_block m ip \<and> ip \<notin> skip}"
    using block_addresses [OF n a(2) refl] by (auto simp: sorted_wrt_filter)
  ultimately show ?thesis using a(1) by (auto simp: n_def)
qed

theorem arp_scan_covers_subnet_witness:
  "\<exists>curr ips. smallest_ip_addr_in_subnet \<lparr>base_addr = Ip4_addr 10 0 0 7, no_mask_bits = 24\<rparr> = Inr curr
    \<and> scan_requests (Some ()) \<lparr>base_addr = Ip4_addr 10 0 0 7, no_mask_bits = 24\<rparr> {Ip4_addr 10 0 0 1}
        mac_addr_empty (Ip4_addr 10 0 0 7) curr [] 0 = Some (Inr (requests () mac_addr_empty (Ip4_addr 10 0 0 7) ips, 256))
    \<and> Ip4_addr 10 0 0 9 \<in> set ips \<and> Ip4_addr 10 0 0 1 \<notin> set ips"
proof -
  let ?m = "\<lparr>base_addr = Ip4_addr 10 0 0 7, no_mask_bits = 24\<rparr>"
  have "cidr_block ?m (Ip4_addr 10 0 0 9)" by code_simp
  moreover obtain curr ips where "smallest_ip_addr_in_subnet ?m = Inr curr"
    "scan_requests (Some ()) ?m {Ip4_addr 10 0 0 1} mac_addr_empty (Ip4_addr 10 0 0 7) curr [] 0
      = Some (Inr (requests () mac_addr_empty (Ip4_addr 10 0 0 7) ips, 256))"
    "set ips = {ip. cidr_block ?m ip \<and> ip \<notin> {Ip4_addr 10 0 0 1}}"
    using arp_scan_covers_subnet [of ?m "()" "{Ip4_addr 10 0 0 1}" mac_addr_empty "Ip4_addr 10 0 0 7"] by auto
  ultimately show ?thesis by (intro exI [of _ curr] exI [of _ ips]) simp
qed

text \<open>An empty mask matches every address, so the scan of the whole address space never ends.\<close>

theorem arp_scan_everything_loops:
  "no_mask_bits m = 0 \<Longrightarrow> scan_entire_subnet (Some s) m skip src_mac src_ip replies = None"
  using scan_all_loops [of m s] by (simp add: scan_entire_subnet_def smallest_ip_addr_in_subnet_def)

text \<open>The pair of addresses a reply announces.\<close>

definition reply_pair :: "arp_header \<Rightarrow> (ip4_addr \<times> mac_addr) result" where
  "reply_pair r = bind_r (extract_ip4_addr (sender_prot_addr r)) (\<lambda>(ip, _).
     bind_r (extract_mac_addr (sender_hard_addr r)) (\<lambda>(mac, _). Inr (ip, mac)))"

lemma process_replies_first:
  assumes "no_mask_bits m \<in> {0, 8, 16, 24}" and "list_all2 (\<lambda>r p. reply_pair r = Inr p) q ps"
  shows "process_replies m q res = Inr (map_of (filter (\<lambda>(ip, _). cidr_block m ip) ps) ++ res)"
  using assms(2)
proof (induction arbitrary: res rule: list_all2_induct)
  case (Cons r q p ps)
  then obtain ip rest mac rest' where x: "extract_ip4_addr (sender_prot_addr r) = Inr (ip, rest)"
    "extract_mac_addr (sender_hard_addr r) = Inr (mac, rest')" "p = (ip, mac)"
    by (auto simp: reply_pair_def bind_r_eq_Inr)
  let ?m = "map_of (filter (\<lambda>(ip, _). cidr_block m ip) ps)"
  have "?m(ip \<mapsto> mac) ++ res = ?m ++ res" if "ip \<in> dom res"
    using that by (auto simp: map_add_def fun_eq_iff split: option.split)
  moreover have "?m ++ res(ip \<mapsto> mac) = ?m(ip \<mapsto> mac) ++ res" if "ip \<notin> dom res"
    using that by (auto simp: map_add_def fun_eq_iff split: option.split)
  ultimately show ?case
    using Cons.IH by (cases "cidr_block m ip"; cases "ip \<in> dom res")
      (simp_all add: x is_inside_subnet_cidr [OF assms(1)] del: fun_upd_apply dom_def)
qed simp

text \<open>The whole of a scan of a subnet on an octet boundary.\<close>

lemma scan_subnet_whole:
  assumes "no_mask_bits m \<in> {8, 16, 24}" and "list_all2 (\<lambda>r p. reply_pair r = Inr p) replies pairs"
  shows "\<exists>ips. scan_entire_subnet (Some s) m skip src_mac src_ip replies
      = Some (Inr (requests s src_mac src_ip ips, \<lambda>ip. if cidr_block m ip then map_of pairs ip else None))
    \<and> sorted_wrt (<) ips \<and> set ips = {ip. cidr_block m ip \<and> ip \<notin> skip}"
proof -
  define n where "n = nat (no_mask_bits m)"
  have n: "no_mask_bits m = int n" "n \<le> 32" using assms(1) by (auto simp: n_def)
  obtain a where a: "smallest_ip_addr_in_subnet m = Inr a"
    "unat (ip4_value a) = unat (ip4_value (base_addr m)) div 2 ^ (32 - n) * 2 ^ (32 - n)"
    using smallest_value [OF assms(1) n(1)] by blast
  let ?ips = "filter (\<lambda>ip. ip \<notin> skip) (map (\<lambda>i. (generate_next_ip ^^ i) a) [0..<2 ^ (32 - n)])"
  have "process_replies m replies (\<lambda>_. None) = Inr (map_of (filter (\<lambda>(ip, _). cidr_block m ip) pairs))"
    using process_replies_first [OF _ assms(2), of m] assms(1) by (auto simp: map_add_def)
  moreover have "map_of (filter (\<lambda>(ip, _). P ip) ps) = (\<lambda>ip. if P ip then map_of ps ip else None)" for P :: "ip4_addr \<Rightarrow> bool" and ps :: "(ip4_addr \<times> mac_addr) list"
    by (induction ps) auto
  moreover have "scan_requests (Some s) m skip src_mac src_ip a [] 0 = Some (Inr (requests s src_mac src_ip ?ips, 2 ^ (32 - n)))"
    using scan_block [OF assms(1) n(1) a(2) refl, of 0 s skip src_mac src_ip "[]" 0] by simp
  moreover have "sorted_wrt (<) ?ips" "set ?ips = {ip. cidr_block m ip \<and> ip \<notin> skip}"
    using block_addresses [OF n a(2) refl] by (auto simp: sorted_wrt_filter)
  ultimately show ?thesis using a(1) by (intro exI [of _ ?ips]) (simp add: scan_entire_subnet_def)
qed

text \<open>Of the replies to a scan, the first from each address of the subnet enters the result.\<close>

theorem arp_scan_result:
  assumes "no_mask_bits m \<in> {8, 16, 24}" and "list_all2 (\<lambda>r p. reply_pair r = Inr p) replies pairs"
  shows "\<exists>sent res. scan_entire_subnet (Some s) m skip src_mac src_ip replies = Some (Inr (sent, res))
    \<and> (\<forall>ip. res ip = (if cidr_block m ip then map_of pairs ip else None))"
  using scan_subnet_whole [OF assms, of s skip src_mac src_ip] by auto

theorem arp_scan_result_witness:
  "\<exists>sent res. scan_entire_subnet (Some ()) \<lparr>base_addr = Ip4_addr 10 0 0 7, no_mask_bits = 24\<rparr> {} mac_addr_empty (Ip4_addr 10 0 0 7)
      [pair_header arp_op_reply mac_addr_broadcast (Ip4_addr 10 0 0 9) mac_addr_empty (Ip4_addr 10 0 0 7),
       pair_header arp_op_reply mac_addr_empty (Ip4_addr 10 0 0 9) mac_addr_empty (Ip4_addr 10 0 0 7)] = Some (Inr (sent, res))
    \<and> res (Ip4_addr 10 0 0 9) = Some mac_addr_broadcast \<and> res (Ip4_addr 10 0 1 9) = None"
proof -
  let ?m = "\<lparr>base_addr = Ip4_addr 10 0 0 7, no_mask_bits = 24\<rparr>"
  let ?q = "[pair_header arp_op_reply mac_addr_broadcast (Ip4_addr 10 0 0 9) mac_addr_empty (Ip4_addr 10 0 0 7),
       pair_header arp_op_reply mac_addr_empty (Ip4_addr 10 0 0 9) mac_addr_empty (Ip4_addr 10 0 0 7)]"
  have q: "list_all2 (\<lambda>r p. reply_pair r = Inr p) ?q [(Ip4_addr 10 0 0 9, mac_addr_broadcast), (Ip4_addr 10 0 0 9, mac_addr_empty)]"
    by (simp add: reply_pair_def)
  have "cidr_block ?m (Ip4_addr 10 0 0 9)" "\<not> cidr_block ?m (Ip4_addr 10 0 1 9)" by code_simp+
  with arp_scan_result [OF _ q, of ?m "()" "{}" mac_addr_empty "Ip4_addr 10 0 0 7"] show ?thesis by auto
qed

text \<open>Whoever announces or spoofs a pair deceives a search: the packet that \<^verbatim>\<open>announce_new_pair\<close> sends, and the
  packet of a spoofing round for any target, pass the filter for replies and end a search for the
  address with the announced hardware address, after one request for each earlier event that was no answer.\<close>

theorem arp_search_believes_announcement:
  assumes "\<forall>ev \<in> set pre. no_answer ip ev"
  shows "\<exists>f1 f2 r1 r2. announce_new_pair (Some s) ip mac = Inr [(s, f1)]
      \<and> spoof_round [(Some s, victim_mac, victim_ip)] ip mac = Inr [(s, f2)]
      \<and> arp_recv (Some arp_op_reply) f1 = Inr (Some r1) \<and> arp_recv (Some arp_op_reply) f2 = Inr (Some r2)
      \<and> (\<forall>r \<in> {r1, r2}. search_for_mac_addr (Some s') ip src_mac src_ip (pre @ Some r # post)
            = Inr (Some mac, requests s' src_mac src_ip (replicate (length pre + 1) ip)))"
proof -
  let ?r1 = "pair_header arp_op_reply mac ip mac_addr_empty ip4_addr_empty"
    and ?r2 = "pair_header arp_op_reply mac ip victim_mac victim_ip"
  have "announce_new_pair (Some s) ip mac = Inr [(s, arp_packet ?r1)]"
    "spoof_round [(Some s, victim_mac, victim_ip)] ip mac = Inr [(s, arp_packet ?r2)]"
    by (simp_all add: announce_new_pair_def pair_sent)
  moreover have "arp_recv (Some arp_op_reply) (arp_packet ?r1) = Inr (Some ?r1)"
    "arp_recv (Some arp_op_reply) (arp_packet ?r2) = Inr (Some ?r2)"
    by (simp_all add: pair_received)
  moreover have "\<forall>r \<in> {?r1, ?r2}. search_for_mac_addr (Some s') ip src_mac src_ip (pre @ Some r # post)
      = Inr (Some mac, requests s' src_mac src_ip (replicate (length pre + 1) ip))"
    using search_answered [OF assms, of s'] by (simp add: requests_def map_replicate del: replicate_Suc)
  ultimately show ?thesis by blast
qed

theorem arp_search_believes_announcement_witness:
  "\<exists>f1 r1. announce_new_pair (Some ()) (Ip4_addr 10 0 0 9) mac_addr_broadcast = Inr [((), f1)]
      \<and> arp_recv (Some arp_op_reply) f1 = Inr (Some r1)
      \<and> search_for_mac_addr (Some ()) (Ip4_addr 10 0 0 9) mac_addr_empty (Ip4_addr 10 0 0 7) [None, Some r1]
          = Inr (Some mac_addr_broadcast, requests () mac_addr_empty (Ip4_addr 10 0 0 7) [Ip4_addr 10 0 0 9, Ip4_addr 10 0 0 9])"
proof -
  have "\<forall>ev \<in> set [None]. no_answer (Ip4_addr 10 0 0 9) ev" by (simp add: no_answer_def)
  from arp_search_believes_announcement [OF this, of "()" mac_addr_broadcast mac_addr_empty ip4_addr_empty
      "()" mac_addr_empty "Ip4_addr 10 0 0 7" "[]"]
  show ?thesis by auto
qed

end
