(* ===== verification/Ping.thy ===== *)
theory Ping
  imports Icmp Text
begin

text \<open>
  The ping tool (\<^verbatim>\<open>src/tools/ping/ping_tool.h\<close>): a loop over echo requests, each sent again
  until a reply is accepted.  Its queue is given by what is read from it, echo by echo, from the moment the
  queue is cleared; a reading is a time-out or a message with the milliseconds since the echo was started.  The
  result is what has been sent and printed, and whether the tool has returned.
\<close>

section \<open>The tool\<close>

datatype ping_read = Timeout | Reply "icmp_header \<times> bytes" nat

datatype 's ping_act = Sent "'s \<times> bytes" | Says string

definition echo_header :: "u16 \<Rightarrow> icmp_header" where
  "echo_header uninit = \<lparr>icmp_type = icmp_echo, icmp_code = 0, icmp_checksum = uninit, icmp_raw = echo_content 0x1234 10\<rparr>"

text \<open>The switch over the type of an accepted message: whether it failed, and the line that is printed.\<close>

definition handle_response :: "icmp_header \<Rightarrow> icmp_header \<Rightarrow> nat \<Rightarrow> bool \<times> string" where
  "handle_response header reply duration =
     (if icmp_type reply = icmp_time_exceeded then (True, ''received time Exceeded'' @ endl)
      else if icmp_type reply = icmp_dest_unreachable then (True, ''received destination unreachable'' @ endl)
      else if icmp_type reply = icmp_redirect then (True, ''received redirect'' @ endl)
      else if icmp_type reply = icmp_echoreply then
        (if echo_id (icmp_raw reply) \<noteq> echo_id (icmp_raw header) then (True, ''received reply with a different id'' @ endl)
         else (False, ''received reply'' @ '', seq_num='' @ to_dec (unat (echo_sequence (icmp_raw header)))
           @ '', delay='' @ to_dec duration @ '' millisecs'' @ endl))
      else (True, ''received unknown type of icmp'' @ endl))"

text \<open>From the label \<^verbatim>\<open>recv_reply\<close> on; \<open>again\<close> is what sending the echo again does.\<close>

fun recv_reply :: "'s ping_act list \<Rightarrow> icmp_header \<Rightarrow> ping_read list \<Rightarrow> bool \<times> 's ping_act list" where
  "recv_reply again header [] = (False, [])"
| "recv_reply again header (Timeout # evs) =
     (let (fin, acts) = recv_reply again header evs in (fin, Says (''no valid reply, resending'' @ endl) # again @ acts))"
| "recv_reply again header (Reply reply duration # evs) =
     (if echo_id (icmp_raw (fst reply)) \<noteq> echo_id (icmp_raw header) then recv_reply again header evs
      else (let (failed, line) = handle_response header (fst reply) duration in
        if \<not> failed then (True, [Says line])
        else (let (fin, acts) = recv_reply again header evs in (fin, Says line # again @ acts))))"

definition echo_round :: "'s option \<Rightarrow> icmp_header \<Rightarrow> ping_read list \<Rightarrow> (bool \<times> 's ping_act list) result" where
  "echo_round icmp_surface header evs =
     bind_r (icmp_send icmp_surface header []) (\<lambda>fs.
       let (fin, acts) = recv_reply (map Sent fs) header evs in Inr (fin, map Sent fs @ acts))"

definition advance_sequence :: "icmp_header \<Rightarrow> icmp_header" where
  "advance_sequence h = h\<lparr>icmp_raw := echo_content (echo_id (icmp_raw h)) (echo_sequence (icmp_raw h) + 1)\<rparr>"

fun ping_loop :: "'s option \<Rightarrow> nat option \<Rightarrow> nat \<Rightarrow> icmp_header \<Rightarrow> ping_read list list \<Rightarrow> (bool \<times> 's ping_act list) result" where
  "ping_loop icmp_surface cnt i header [] = Inr (\<not> (case cnt of Some n \<Rightarrow> i < n | None \<Rightarrow> True), [])"
| "ping_loop icmp_surface cnt i header (evs # echos) =
     (if (case cnt of Some n \<Rightarrow> i < n | None \<Rightarrow> True) then
        bind_r (echo_round icmp_surface header evs) (\<lambda>(fin, acts).
          if \<not> fin then Inr (False, acts)
          else bind_r (ping_loop icmp_surface cnt (i + 1) (advance_sequence header) echos) (\<lambda>(fin, rest).
                 Inr (fin, acts @ rest)))
      else Inr (True, []))"

definition ping :: "'s option \<Rightarrow> nat option \<Rightarrow> u16 \<Rightarrow> ping_read list list \<Rightarrow> (bool \<times> 's ping_act list) result" where
  "ping icmp_surface cnt uninit echos =
     bind_r (ping_loop icmp_surface cnt 0 (echo_header uninit) echos) (\<lambda>(fin, acts).
       Inr (fin, Says (''starting pinging'' @ endl) # acts))"

section \<open>Rounds\<close>

text \<open>What a round passes over before its reply, and whether the echo is sent again for it.\<close>

definition is_answer :: "ping_read \<Rightarrow> bool" where
  "is_answer e \<longleftrightarrow> (case e of Timeout \<Rightarrow> False
     | Reply (r, _) _ \<Rightarrow> icmp_type r = icmp_echoreply \<and> echo_id (icmp_raw r) = 0x1234)"

definition resends :: "ping_read \<Rightarrow> bool" where
  "resends e \<longleftrightarrow> (case e of Timeout \<Rightarrow> True
     | Reply (r, _) _ \<Rightarrow> echo_id (icmp_raw r) = 0x1234 \<and> icmp_type r \<noteq> icmp_echoreply)"

definition nth_echo :: "nat \<Rightarrow> icmp_header" where
  "nth_echo i = \<lparr>icmp_type = icmp_echo, icmp_code = 0, icmp_checksum = 0, icmp_raw = echo_content 0x1234 (10 + word_of_nat i)\<rparr>"

lemma resends_simps [simp]:
  "resends Timeout" "resends (Reply r ms) = (echo_id (icmp_raw (fst r)) = 0x1234 \<and> icmp_type (fst r) \<noteq> icmp_echoreply)"
  by (auto simp: resends_def split: prod.splits)

text \<open>The frames that have been sent, and the lines that report a reply.\<close>

definition sents :: "'s ping_act list \<Rightarrow> ('s \<times> bytes) list" where
  "sents acts = concat (map (\<lambda>a. case a of Sent f \<Rightarrow> [f] | Says _ \<Rightarrow> []) acts)"

definition reports :: "'s ping_act list \<Rightarrow> string list" where
  "reports acts = concat (map (\<lambda>a. case a of Says l \<Rightarrow> if take 14 l = ''received reply'' then [l] else [] | Sent _ \<Rightarrow> []) acts)"

definition report :: "nat \<Rightarrow> nat \<Rightarrow> string" where
  "report i duration = ''received reply'' @ '', seq_num='' @ to_dec ((10 + i) mod 65536) @ '', delay='' @ to_dec duration @ '' millisecs'' @ endl"

lemma acts_simps [simp]:
  "sents [] = []" "sents (Sent f # acts) = f # sents acts" "sents (Says l # acts) = sents acts" "sents (as @ bs) = sents as @ sents bs"
  "reports [] = []" "reports (Sent f # acts) = reports acts" "reports (as @ bs) = reports as @ reports bs"
  by (simp_all add: sents_def reports_def)

lemma reports_says [simp]: "reports (Says l # acts) = (if take 14 l = ''received reply'' then l # reports acts else reports acts)"
  by (simp add: reports_def)

lemmas icmp_types = icmp_echoreply_def icmp_dest_unreachable_def icmp_redirect_def icmp_echo_def icmp_time_exceeded_def

lemma failed_response:
  "icmp_type r \<noteq> icmp_echoreply \<Longrightarrow> fst (handle_response h r ms) \<and> take 14 (snd (handle_response h r ms)) \<noteq> ''received reply''"
  by (simp add: handle_response_def)

lemma recv_reply_answered:
  assumes "\<forall>e \<in> set pre. \<not> is_answer e" and "is_answer (Reply r ms)" and "echo_id (icmp_raw h) = 0x1234"
    and "again = [Sent f]" and "unat (echo_sequence (icmp_raw h)) = (10 + i) mod 65536"
  shows "\<exists>acts. recv_reply again h (pre @ Reply r ms # post) = (True, acts)
    \<and> sents acts = replicate (length (filter resends pre)) f \<and> reports acts = [report i ms]"
  using assms(1)
proof (induction pre)
  case Nil
  have "echo_id (icmp_raw (fst r)) = 0x1234" "icmp_type (fst r) = icmp_echoreply"
    using assms(2) by (auto simp: is_answer_def split: prod.splits)
  then show ?case
    using assms(3,5) by (simp add: handle_response_def icmp_types report_def)
next
  case (Cons e pre)
  then obtain acts where ih: "recv_reply again h (pre @ Reply r ms # post) = (True, acts)"
    "sents acts = replicate (length (filter resends pre)) f" "reports acts = [report i ms]" by auto
  show ?case
  proof (cases e)
    case Timeout
    then show ?thesis using ih by (simp add: assms(4))
  next
    case (Reply r' ms')
    obtain h' d' where r': "r' = (h', d')" by (cases r')
    have "\<not> is_answer e" using Cons.prems by simp
    show ?thesis
    proof (cases "echo_id (icmp_raw h') = 0x1234")
      case False
      then show ?thesis using ih assms(3) by (simp add: Reply r')
    next
      case True
      then have t: "icmp_type h' \<noteq> icmp_echoreply" using \<open>\<not> is_answer e\<close> by (simp add: is_answer_def Reply r')
      then obtain l where l: "handle_response h h' ms' = (True, l)" "take 14 l \<noteq> ''received reply''"
        using failed_response [of h' h ms'] by (cases "handle_response h h' ms'") simp
      then show ?thesis using ih assms(3) True t by (simp add: Reply r' assms(4))
    qed
  qed
qed

lemma icmp_send_nth:
  assumes "h = (nth_echo i)\<lparr>icmp_checksum := c\<rparr>"
  shows "icmp_send (Some s) h [] = icmp_send (Some s) (nth_echo i) []"
  by (simp add: assms icmp_send_frame icmp_checksummed_def)

lemma advance_nth: "advance_sequence ((nth_echo i)\<lparr>icmp_checksum := c\<rparr>) = (nth_echo (i + 1))\<lparr>icmp_checksum := c\<rparr>"
  by (simp add: advance_sequence_def nth_echo_def add.assoc add.commute)

definition echo_frame :: "nat \<Rightarrow> bytes" where
  "echo_frame i = write_icmp_header (icmp_checksummed (nth_echo i) [])"

lemma echo_frame_sent: "icmp_send (Some s) (nth_echo i) [] = Inr [(s, echo_frame i)]"
  by (simp add: icmp_send_frame echo_frame_def)

lemma nth_sequence: "unat (echo_sequence (icmp_raw (nth_echo i))) = (10 + i) mod 65536"
proof -
  have "unat (10 + word_of_nat i :: u16) = (10 + i) mod 65536"
    by (subst unat_word_ariths) (simp add: unat_of_nat mod_simps)
  then show ?thesis by (simp add: nth_echo_def)
qed

text \<open>The rounds of a ping as lists: what is passed over, the answer, and what is left in the queue.\<close>

type_synonym ping_round = "ping_read list \<times> (icmp_header \<times> bytes) \<times> nat \<times> ping_read list"

definition round_reads :: "ping_round \<Rightarrow> ping_read list" where
  "round_reads = (\<lambda>(pre, r, ms, post). pre @ Reply r ms # post)"

definition good_round :: "ping_round \<Rightarrow> bool" where
  "good_round = (\<lambda>(pre, r, ms, post). (\<forall>e \<in> set pre. \<not> is_answer e) \<and> is_answer (Reply r ms))"

definition round_frames :: "'s \<Rightarrow> nat \<Rightarrow> ping_round \<Rightarrow> ('s \<times> bytes) list" where
  "round_frames s i = (\<lambda>(pre, r, ms, post). replicate (1 + length (filter resends pre)) (s, echo_frame i))"

definition round_report :: "nat \<Rightarrow> ping_round \<Rightarrow> string" where
  "round_report i = (\<lambda>(pre, r, ms, post). report i ms)"

lemma ping_loop_answered:
  assumes "\<forall>r \<in> set rounds. good_round r"
  shows "\<exists>acts. ping_loop (Some s) (Some (i + length rounds)) i ((nth_echo i)\<lparr>icmp_checksum := c\<rparr>) (map round_reads rounds) = Inr (True, acts)
    \<and> sents acts = concat (map (\<lambda>(i, r). round_frames s i r) (enumerate i rounds))
    \<and> reports acts = map (\<lambda>(i, r). round_report i r) (enumerate i rounds)"
  using assms
proof (induction rounds arbitrary: i)
  case (Cons rd rounds)
  obtain pre r ms post where rd: "rd = (pre, r, ms, post)" by (cases rd)
  let ?h = "(nth_echo i)\<lparr>icmp_checksum := c\<rparr>"
  have g: "\<forall>e \<in> set pre. \<not> is_answer e" "is_answer (Reply r ms)" using Cons.prems by (simp_all add: rd good_round_def)
  have nth_seq: "unat (echo_sequence (icmp_raw ?h)) = (10 + i) mod 65536" using nth_sequence [of i] by simp
  have "echo_id (icmp_raw ?h) = 0x1234" by (simp add: nth_echo_def)
  from recv_reply_answered [OF g this refl nth_seq, of "(s, echo_frame i)" post] obtain acts1 where
    a1: "recv_reply [Sent (s, echo_frame i)] ?h (round_reads rd) = (True, acts1)"
      "sents acts1 = replicate (length (filter resends pre)) (s, echo_frame i)" "reports acts1 = [report i ms]"
    by (auto simp: rd round_reads_def)
  have rnd: "echo_round (Some s) ?h (round_reads rd) = Inr (True, Sent (s, echo_frame i) # acts1)"
    using a1(1) by (simp add: echo_round_def icmp_send_nth [OF refl] echo_frame_sent)
  from Cons obtain acts2 where
    a2: "ping_loop (Some s) (Some (i + 1 + length rounds)) (i + 1) ((nth_echo (i + 1))\<lparr>icmp_checksum := c\<rparr>) (map round_reads rounds) = Inr (True, acts2)"
      "sents acts2 = concat (map (\<lambda>(i, r). round_frames s i r) (enumerate (i + 1) rounds))"
      "reports acts2 = map (\<lambda>(i, r). round_report i r) (enumerate (i + 1) rounds)"
    by fastforce
  show ?case
    using rnd a2 a1(2,3) advance_nth [of c i] by (simp add: rd round_frames_def round_report_def)
qed simp

lemma echo_frame_received:
  "internet_checksum (echo_frame i) = 0 \<and> (\<exists>h. icmp_recv (Some icmp_echo) (echo_frame i) = Inr (Some (h, echo_frame i))
     \<and> echo_id (icmp_raw h) = 0x1234 \<and> unat (echo_sequence (icmp_raw h)) = (10 + i) mod 65536)"
proof -
  have "icmp_recv (Some icmp_echo) (echo_frame i) = Inr (Some (icmp_checksummed (nth_echo i) [], echo_frame i))"
    using icmp.ex_wr [of "icmp_checksummed (nth_echo i) []" "echo_frame i" "[]"]
    by (simp add: icmp_recv_def echo_frame_def icmp_checksummed_def nth_echo_def)
  then show ?thesis
    using icmp_checksum_verifies [of "[]" "nth_echo i"] nth_sequence [of i]
    by (simp add: echo_frame_def icmp_checksummed_def nth_echo_def)
qed

section \<open>Properties\<close>

text \<open>When every echo is answered sometime, a ping of \<open>n\<close> echos returns: it has sent the \<open>i\<close>-th echo once and once
  more for each time-out and each error that carries its identifier before the answer, and has reported each
  answer, with the sequence number \<open>10 + i\<close>.  The frames are valid echo requests with these numbers.\<close>

theorem ping_answered:
  assumes "\<forall>r \<in> set rounds. good_round r"
  shows "\<exists>acts. ping (Some s) (Some (length rounds)) uninit (map round_reads rounds) = Inr (True, acts)
    \<and> sents acts = concat (map (\<lambda>(i, r). round_frames s i r) (enumerate 0 rounds))
    \<and> reports acts = map (\<lambda>(i, r). round_report i r) (enumerate 0 rounds)
    \<and> (\<forall>i. internet_checksum (echo_frame i) = 0 \<and> (\<exists>h. icmp_recv (Some icmp_echo) (echo_frame i) = Inr (Some (h, echo_frame i))
         \<and> echo_id (icmp_raw h) = 0x1234 \<and> unat (echo_sequence (icmp_raw h)) = (10 + i) mod 65536))"
proof -
  have "echo_header uninit = (nth_echo 0)\<lparr>icmp_checksum := uninit\<rparr>" by (simp add: echo_header_def nth_echo_def)
  with ping_loop_answered [OF assms, of s 0 uninit] obtain acts where
    a: "ping_loop (Some s) (Some (length rounds)) 0 (echo_header uninit) (map round_reads rounds) = Inr (True, acts)"
      "sents acts = concat (map (\<lambda>(i, r). round_frames s i r) (enumerate 0 rounds))"
      "reports acts = map (\<lambda>(i, r). round_report i r) (enumerate 0 rounds)" by auto
  show ?thesis using a echo_frame_received by (auto simp: ping_def)
qed

theorem ping_answered_witness:
  "\<exists>acts. ping (Some ()) (Some 1) 7 [[Timeout, Reply (\<lparr>icmp_type = icmp_echoreply, icmp_code = 0, icmp_checksum = 0,
        icmp_raw = echo_content 0x1234 10\<rparr>, []) 42]] = Inr (True, acts)
    \<and> sents acts = [((), echo_frame 0), ((), echo_frame 0)]
    \<and> reports acts = [''received reply, seq_num=10, delay=42 millisecs'' @ endl]"
proof -
  let ?r = "([Timeout], (\<lparr>icmp_type = icmp_echoreply, icmp_code = 0, icmp_checksum = 0, icmp_raw = echo_content 0x1234 10\<rparr>, [] :: bytes), 42 :: nat, [])"
  have "good_round ?r" by (simp add: good_round_def is_answer_def)
  then have all: "\<forall>r \<in> set [?r]. good_round r" by simp
  have d: "to_dec 10 = ''10''" "to_dec 42 = ''42''" by code_simp+
  have t: "report 0 42 = ''received reply, seq_num=10, delay=42 millisecs'' @ endl" by (simp add: report_def d)
  from ping_answered [OF all, of "()" 7] show ?thesis
    by (auto simp: round_reads_def round_frames_def round_report_def t)
qed

end
