(* ===== verification/Media.thy ===== *)
theory Media
  imports Prelude
begin

text \<open>
  The wrappers of send media and receivers: \<^verbatim>\<open>abstract/sending/multi_send_medium.h\<close>,
  \<^verbatim>\<open>abstract/firewall/firewall.h\<close> and \<^verbatim>\<open>abstract/sniffer/sniffer.h\<close>.
  A medium, a receiver, a filter and a handler is a function on the data and the state \<open>'w\<close> of everything else,
  and sleeping is a step of that state.  The class \<^verbatim>\<open>firewall_net_access\<close> does not compile (its
  constructor has the name of another class and its filters have no \<^verbatim>\<open>calc_policy\<close>); what it is meant to do is in \<open>Net_Access\<close>.
\<close>

datatype err_t = OK | ERR

datatype firewall_policy = BLOCK | ALLOW | DELAY

type_synonym ('a, 'w) medium = "'a \<Rightarrow> 'w \<Rightarrow> err_t \<times> 'w"
type_synonym ('a, 'w) receiver = "'a \<Rightarrow> 'w \<Rightarrow> 'w"
type_synonym ('a, 'w) firewall_filter = "'a \<Rightarrow> 'w \<Rightarrow> firewall_policy \<times> 'w"

section \<open>Several media\<close>

text \<open>The set of shared pointers is ordered by their addresses.\<close>

definition add_send_medium :: "('m \<Rightarrow> nat) \<Rightarrow> 'm option \<Rightarrow> 'm list \<Rightarrow> 'm list" where
  "add_send_medium addr channel mediums =
     (case channel of None \<Rightarrow> mediums | Some c \<Rightarrow> if c \<in> set mediums then mediums else insort_key addr c mediums)"

definition remove_all_send_mediums :: "'m list \<Rightarrow> 'm list" where
  "remove_all_send_mediums mediums = []"

text \<open>A null pointer makes the function end without the value it should return.\<close>

definition remove_send_medium :: "'m option \<Rightarrow> 'm list \<Rightarrow> (bool \<times> 'm list) result" where
  "remove_send_medium channel mediums =
     (case channel of None \<Rightarrow> Inl Undefined
      | Some c \<Rightarrow> if c \<notin> set mediums then Inr (False, mediums) else Inr (True, remove1 c mediums))"

fun multi_send_loop :: "('m \<Rightarrow> ('a, 'w) medium) \<Rightarrow> 'm list \<Rightarrow> 'a \<Rightarrow> err_t \<Rightarrow> 'w \<Rightarrow> err_t \<times> 'w" where
  "multi_send_loop send [] data res w = (res, w)"
| "multi_send_loop send (m # ms) data res w =
     (case send m data w of (e, w) \<Rightarrow> multi_send_loop send ms data (if e = ERR then ERR else res) w)"

definition multi_send_data :: "('m \<Rightarrow> ('a, 'w) medium) \<Rightarrow> 'm list \<Rightarrow> ('a, 'w) medium" where
  "multi_send_data send mediums data w = multi_send_loop send mediums data OK w"

section \<open>Firewalls\<close>

definition add_filter :: "'f option \<Rightarrow> 'f list \<Rightarrow> 'f list" where
  "add_filter f filters = (case f of None \<Rightarrow> filters | Some f \<Rightarrow> filters @ [f])"

fun firewall_send :: "('w \<Rightarrow> 'w) \<Rightarrow> ('a, 'w) firewall_filter list \<Rightarrow> ('a, 'w) medium \<Rightarrow> ('a, 'w) medium" where
  "firewall_send sleep [] send data w = send data w"
| "firewall_send sleep (calc_policy # filters) send data w =
     (case calc_policy data w of
        (ALLOW, w) \<Rightarrow> firewall_send sleep filters send data w
      | (BLOCK, w) \<Rightarrow> (ERR, w)
      | (DELAY, w) \<Rightarrow> firewall_send sleep filters send data (sleep w))"

fun firewall_recv :: "('w \<Rightarrow> 'w) \<Rightarrow> ('a, 'w) firewall_filter list \<Rightarrow> ('a, 'w) receiver \<Rightarrow> ('a, 'w) receiver" where
  "firewall_recv sleep [] recv data w = recv data w"
| "firewall_recv sleep (calc_policy # filters) recv data w =
     (case calc_policy data w of
        (ALLOW, w) \<Rightarrow> firewall_recv sleep filters recv data w
      | (BLOCK, w) \<Rightarrow> w
      | (DELAY, w) \<Rightarrow> firewall_recv sleep filters recv data (sleep w))"

section \<open>Sniffers\<close>

definition add_handler :: "'h option \<Rightarrow> 'h list \<Rightarrow> 'h list" where
  "add_handler h handlers = (case h of None \<Rightarrow> handlers | Some h \<Rightarrow> handlers @ [h])"

definition sniffer_recv :: "('a, 'w) receiver list \<Rightarrow> ('a, 'w) receiver" where
  "sniffer_recv handlers data w = fold (\<lambda>handle_sniff w. handle_sniff data w) handlers w"

definition sniffer_send :: "('a, 'w) receiver list \<Rightarrow> ('a, 'w) medium" where
  "sniffer_send handlers data w = (OK, sniffer_recv handlers data w)"

definition sniffer_access_send :: "('a, 'w) receiver list \<Rightarrow> ('a, 'w) medium \<Rightarrow> ('a, 'w) medium" where
  "sniffer_access_send handlers_send send data w = send data (fold (\<lambda>handle_sniff w. handle_sniff data w) handlers_send w)"

definition sniffer_access_recv :: "('a, 'w) receiver list \<Rightarrow> ('a, 'w) receiver option \<Rightarrow> ('a, 'w) receiver" where
  "sniffer_access_recv handlers_recv recv data w =
     (let w = fold (\<lambda>handle_sniff w. handle_sniff data w) handlers_recv w in
      case recv of None \<Rightarrow> w | Some r \<Rightarrow> r data w)"

section \<open>Sets of media\<close>

datatype 'm set_op = Add "'m option" | Remove "'m" | Remove_all

fun run_set_op :: "('m \<Rightarrow> nat) \<Rightarrow> 'm set_op \<Rightarrow> 'm list result \<Rightarrow> 'm list result" where
  "run_set_op addr (Add c) r = bind_r r (\<lambda>ms. Inr (add_send_medium addr c ms))"
| "run_set_op addr (Remove c) r = bind_r r (\<lambda>ms. bind_r (remove_send_medium (Some c) ms) (\<lambda>(_, ms). Inr ms))"
| "run_set_op addr Remove_all r = bind_r r (\<lambda>ms. Inr (remove_all_send_mediums ms))"

fun spec_set_op :: "'m set_op \<Rightarrow> 'm set \<Rightarrow> 'm set" where
  "spec_set_op (Add None) s = s"
| "spec_set_op (Add (Some c)) s = insert c s"
| "spec_set_op (Remove c) s = s - {c}"
| "spec_set_op Remove_all s = {}"

definition mediums_of :: "('m \<Rightarrow> nat) \<Rightarrow> 'm list \<Rightarrow> 'm set \<Rightarrow> bool" where
  "mediums_of addr ms s \<longleftrightarrow> sorted (map addr ms) \<and> distinct ms \<and> set ms = s"

lemma sorted_remove1: "sorted (map f xs) \<Longrightarrow> sorted (map f (remove1 x xs))"
  by (induction xs) (auto dest: set_mp [OF set_remove1_subset])

lemma run_set_op_mediums:
  "mediums_of addr ms s \<Longrightarrow> \<exists>ms'. run_set_op addr ope (Inr ms) = Inr ms' \<and> mediums_of addr ms' (spec_set_op ope s)"
  by (cases "(ope, s)" rule: spec_set_op.cases)
    (auto simp: mediums_of_def add_send_medium_def remove_send_medium_def remove_all_send_mediums_def sorted_insort_key
      distinct_insort set_insort_key sorted_remove1 insert_absorb)

lemma run_set_ops_mediums:
  "mediums_of addr ms s \<Longrightarrow> \<exists>ms'. fold (run_set_op addr) ops (Inr ms) = Inr ms' \<and> mediums_of addr ms' (fold spec_set_op ops s)"
proof (induction ops arbitrary: ms s)
  case (Cons ope ops)
  then show ?case using run_set_op_mediums [OF Cons.prems, of ope] by fastforce
qed simp

section \<open>The journal of a medium\<close>

text \<open>A state that records what happens, for media that answer \<open>ans\<close> and filters with fixed policies.\<close>

datatype ('m, 'a) media_event = Sniffed nat 'a | Slept | Sent 'm 'a | Received 'a

definition journal_send :: "('m \<Rightarrow> err_t) \<Rightarrow> 'm \<Rightarrow> ('a, ('m, 'a) media_event list) medium" where
  "journal_send ans m data w = (ans m, w @ [Sent m data])"

definition fixed_filter :: "('a \<Rightarrow> firewall_policy) \<Rightarrow> ('a, 'w) firewall_filter" where
  "fixed_filter p data w = (p data, w)"

definition journal_sniff :: "nat \<Rightarrow> ('a, ('m, 'a) media_event list) receiver" where
  "journal_sniff h data w = w @ [Sniffed h data]"

definition journal_sleep :: "('m, 'a) media_event list \<Rightarrow> ('m, 'a) media_event list" where
  "journal_sleep w = w @ [Slept]"

definition journal_recv :: "('a, ('m, 'a) media_event list) receiver" where
  "journal_recv data w = w @ [Received data]"

lemmas journal_defs = journal_send_def fixed_filter_def journal_sniff_def journal_sleep_def journal_recv_def

text \<open>The delays before the first filter that blocks.\<close>

definition delays :: "firewall_policy list \<Rightarrow> ('m, 'a) media_event list" where
  "delays ps = replicate (length (filter (\<lambda>p. p = DELAY) (takeWhile (\<lambda>p. p \<noteq> BLOCK) ps))) Slept"

lemma multi_send_journal:
  "multi_send_loop (journal_send ans) ms d res w
    = (if res = OK \<and> (\<forall>m \<in> set ms. ans m = OK) then OK else ERR, w @ map (\<lambda>m. Sent m d) ms)"
proof (induction ms arbitrary: res w)
  case Nil
  then show ?case by (cases res) simp_all
next
  case (Cons m ms)
  then show ?case by (cases "ans m") (simp_all add: journal_send_def)
qed

lemma firewall_send_journal:
  "firewall_send journal_sleep (map fixed_filter ps) send d w
    = (if \<exists>p \<in> set ps. p d = BLOCK then (ERR, w @ delays (map (\<lambda>p. p d) ps)) else send d (w @ delays (map (\<lambda>p. p d) ps)))"
proof (induction ps arbitrary: w)
  case (Cons p ps)
  then show ?case by (cases "p d") (simp_all add: journal_defs delays_def)
qed (simp add: delays_def)

lemma firewall_recv_journal:
  "firewall_recv journal_sleep (map fixed_filter ps) recv d w
    = (let w = w @ delays (map (\<lambda>p. p d) ps) in if \<exists>p \<in> set ps. p d = BLOCK then w else recv d w)"
proof (induction ps arbitrary: w)
  case (Cons p ps)
  then show ?case by (cases "p d") (simp_all add: journal_defs delays_def Let_def)
qed (simp add: delays_def)

lemma sniff_journal: "fold (\<lambda>handle_sniff w. handle_sniff d w) (map journal_sniff hs) w = w @ map (\<lambda>h. Sniffed h d) hs"
  by (induction hs arbitrary: w) (simp_all add: journal_sniff_def)

section \<open>Property\<close>

text \<open>C35: A sniffer before a firewall before a set of media that any operations have made: every handler sees the
  data, blocked or not; every medium of the set, in the order of the addresses, is sent it exactly when no
  filter blocks it, whether or not a medium before it fails, after one pause for each filter that delays; the result
  is success exactly when all media succeed.  On the receiving side the handlers see it and the receiver gets it exactly
  when no filter blocks it.\<close>

theorem firewall_guards_media:
  "\<exists>ms. fold (run_set_op addr) ops (Inr []) = Inr ms \<and> sorted (map addr ms) \<and> distinct ms \<and> set ms = fold spec_set_op ops {}
    \<and> sniffer_access_send (map journal_sniff hs) (firewall_send journal_sleep (map fixed_filter ps) (multi_send_data (journal_send ans) ms)) d w
        = (let seen = w @ map (\<lambda>h. Sniffed h d) hs @ delays (map (\<lambda>p. p d) ps) in
           if \<exists>p \<in> set ps. p d = BLOCK then (ERR, seen)
           else (if \<exists>m \<in> set ms. ans m = ERR then ERR else OK, seen @ map (\<lambda>m. Sent m d) ms))
    \<and> sniffer_access_recv (map journal_sniff hs) (Some (firewall_recv journal_sleep (map fixed_filter ps) journal_recv)) d w
        = w @ map (\<lambda>h. Sniffed h d) hs @ delays (map (\<lambda>p. p d) ps) @ (if \<exists>p \<in> set ps. p d = BLOCK then [] else [Received d])"
proof -
  have "mediums_of addr [] {}" by (simp add: mediums_of_def)
  from run_set_ops_mediums [OF this, of ops] obtain ms where ms: "fold (run_set_op addr) ops (Inr []) = Inr ms"
    "sorted (map addr ms)" "distinct ms" "set ms = fold spec_set_op ops {}" by (auto simp: mediums_of_def)
  have ans: "(\<forall>m \<in> set ms. ans m = OK) = (\<not> (\<exists>m \<in> set ms. ans m = ERR))" by (metis err_t.distinct(1) err_t.exhaust)
  have s: "sniffer_access_send (map journal_sniff hs) (firewall_send journal_sleep (map fixed_filter ps) (multi_send_data (journal_send ans) ms)) d w
        = (let seen = w @ map (\<lambda>h. Sniffed h d) hs @ delays (map (\<lambda>p. p d) ps) in
           if \<exists>p \<in> set ps. p d = BLOCK then (ERR, seen)
           else (if \<exists>m \<in> set ms. ans m = ERR then ERR else OK, seen @ map (\<lambda>m. Sent m d) ms))"
    by (simp add: sniffer_access_send_def sniff_journal firewall_send_journal multi_send_data_def multi_send_journal ans Let_def)
  have r: "sniffer_access_recv (map journal_sniff hs) (Some (firewall_recv journal_sleep (map fixed_filter ps) journal_recv)) d w
        = w @ map (\<lambda>h. Sniffed h d) hs @ delays (map (\<lambda>p. p d) ps) @ (if \<exists>p \<in> set ps. p d = BLOCK then [] else [Received d])"
    by (simp add: sniffer_access_recv_def sniff_journal firewall_recv_journal Let_def journal_recv_def)
  show ?thesis using ms s r by blast
qed

theorem firewall_guards_media_witness:
  "\<exists>ms. fold (run_set_op id) [Add (Some 2), Add (Some (1 :: nat)), Add None] (Inr []) = Inr ms
    \<and> sniffer_access_send [journal_sniff 0] (firewall_send journal_sleep [fixed_filter (\<lambda>_. DELAY)] (multi_send_data (journal_send (\<lambda>_. OK)) ms)) CHR ''a'' []
        = (OK, [Sniffed 0 CHR ''a'', Slept, Sent 1 CHR ''a'', Sent 2 CHR ''a''])"
proof -
  obtain ms where ms: "fold (run_set_op id) [Add (Some 2), Add (Some (1 :: nat)), Add None] (Inr []) = Inr ms"
    "sniffer_access_send (map journal_sniff [0]) (firewall_send journal_sleep (map fixed_filter [\<lambda>_. DELAY]) (multi_send_data (journal_send (\<lambda>_. OK)) ms)) CHR ''a'' []
      = (OK, [Sniffed 0 CHR ''a'', Slept] @ map (\<lambda>m. Sent m CHR ''a'') ms)"
    using firewall_guards_media [of id "[Add (Some 2), Add (Some 1), Add None]" "[0]" "[\<lambda>_. DELAY]" "\<lambda>_. OK" "CHR ''a''" "[]"]
    by (auto simp: delays_def Let_def)
  moreover have "ms = [1, 2]" using ms(1) by (simp add: add_send_medium_def)
  ultimately show ?thesis by simp
qed

end
