(* ===== verification/Ideal_Net.thy ===== *)
theory Ideal_Net
  imports Prelude
begin

text \<open>
  What the virtual network (\<open>Virtual_Net\<close>) promises: members join and leave, one message at a time is sent to
  the others, and every member reads what is queued for it.  The invariant says that all members see one order of
  messages.  The messages and the size of the buffer are those of the code.
\<close>

section \<open>State\<close>

definition VIRTUAL_NET_MSG_MAX_SZ :: nat where "VIRTUAL_NET_MSG_MAX_SZ = 0x1000"

text \<open>A message that has been or is being sent, with the processes it has been queued for and those that
  were connected when its sending began and have stayed (both for the proofs only).\<close>

record vmsg =
  vm_sender :: nat
  vm_data :: bytes
  vm_reached :: "nat set"
  vm_audience :: "nat set"

text \<open>The members, what is queued for each, what each has read and what its receiver was given since it joined, the
  message that is being sent and the members it still has to reach, and the messages sent.\<close>

record ideal_net =
  id_members :: "nat set"
  id_queue :: "nat \<Rightarrow> bytes list"
  id_read :: "nat \<Rightarrow> bytes list"
  id_given :: "nat \<Rightarrow> bytes list"
  id_lock :: "(vmsg \<times> nat set) option"
  id_log :: "vmsg list"

definition ideal_empty :: ideal_net where
  "ideal_empty = \<lparr>id_members = {}, id_queue = (\<lambda>_. []), id_read = (\<lambda>_. []), id_given = (\<lambda>_. []), id_lock = None, id_log = []\<rparr>"

section \<open>Steps\<close>

definition ideal_join :: "nat \<Rightarrow> ideal_net \<Rightarrow> ideal_net" where
  "ideal_join p s = s\<lparr>id_members := insert p (id_members s), id_queue := (id_queue s)(p := []),
     id_read := (id_read s)(p := []), id_given := (id_given s)(p := [])\<rparr>"

text \<open>A message begins, reaches a member, or does not when it is too long or its sender has left, and ends.\<close>

definition ideal_begin :: "nat \<Rightarrow> bytes \<Rightarrow> ideal_net \<Rightarrow> ideal_net" where
  "ideal_begin p d s = (let peers = id_members s - {p} in
     s\<lparr>id_lock := Some (\<lparr>vm_sender = p, vm_data = d, vm_reached = {}, vm_audience = peers\<rparr>, peers)\<rparr>)"

definition ideal_round :: "nat \<Rightarrow> nat \<Rightarrow> ideal_net \<Rightarrow> ideal_net" where
  "ideal_round max_dgram q s =
     (case id_lock s of None \<Rightarrow> s
      | Some (m, left) \<Rightarrow>
          if vm_sender m \<in> id_members s \<and> q \<in> id_members s \<and> length (vm_data m) \<le> max_dgram
          then s\<lparr>id_queue := (id_queue s)(q := id_queue s q @ [vm_data m]),
                 id_lock := Some (m\<lparr>vm_reached := insert q (vm_reached m)\<rparr>, left - {q})\<rparr>
          else s\<lparr>id_lock := Some (m, left - {q})\<rparr>)"

definition ideal_end :: "ideal_net \<Rightarrow> ideal_net" where
  "ideal_end s = (case id_lock s of None \<Rightarrow> s | Some (m, _) \<Rightarrow> s\<lparr>id_lock := None, id_log := id_log s @ [m]\<rparr>)"

text \<open>A member reads: an empty datagram is skipped, a long one is cut.\<close>

definition ideal_receive :: "nat set \<Rightarrow> nat \<Rightarrow> ideal_net \<Rightarrow> ideal_net" where
  "ideal_receive R p s =
     (case id_queue s p of [] \<Rightarrow> s
      | d # ds \<Rightarrow> s\<lparr>id_queue := (id_queue s)(p := ds), id_read := (id_read s)(p := id_read s p @ [d]),
          id_given := (id_given s)(p := id_given s p
            @ (if d \<noteq> [] \<and> p \<in> R then [take VIRTUAL_NET_MSG_MAX_SZ d] else []))\<rparr>)"

definition forget :: "nat \<Rightarrow> vmsg \<Rightarrow> vmsg" where
  "forget p m = m\<lparr>vm_reached := vm_reached m - {p}, vm_audience := vm_audience m - {p}\<rparr>"

definition ideal_leave :: "nat \<Rightarrow> ideal_net \<Rightarrow> ideal_net" where
  "ideal_leave p s = s\<lparr>id_members := id_members s - {p}, id_queue := (id_queue s)(p := []),
     id_log := map (forget p) (id_log s),
     id_lock := (case id_lock s of None \<Rightarrow> None
       | Some (m, left) \<Rightarrow> Some (if vm_sender m = p then (forget p m)\<lparr>vm_audience := {}\<rparr> else forget p m, left - {p}))\<rparr>"

text \<open>The steps in any order.  A message may reach a member that has joined meanwhile.\<close>

inductive ideal_step :: "nat \<Rightarrow> nat set \<Rightarrow> ideal_net \<Rightarrow> ideal_net \<Rightarrow> bool" for max_dgram :: nat and R :: "nat set" where
  join: "p \<notin> id_members s \<Longrightarrow> ideal_step max_dgram R s (ideal_join p s)"
| begin_send: "p \<in> id_members s \<Longrightarrow> id_lock s = None \<Longrightarrow> ideal_step max_dgram R s (ideal_begin p d s)"
| round: "id_lock s = Some (m, left) \<Longrightarrow> q \<in> left \<or> q \<in> id_members s \<and> q \<notin> vm_reached m \<and> q \<noteq> vm_sender m
    \<Longrightarrow> ideal_step max_dgram R s (ideal_round max_dgram q s)"
| end_send: "id_lock s = Some (m, {}) \<Longrightarrow> ideal_step max_dgram R s (ideal_end s)"
| receive: "p \<in> id_members s \<Longrightarrow> ideal_step max_dgram R s (ideal_receive R p s)"
| leave: "p \<in> id_members s \<Longrightarrow> ideal_step max_dgram R s (ideal_leave p s)"

inductive_cases ideal_stepE: "ideal_step max_dgram R s s'"

inductive ideal_reach :: "nat \<Rightarrow> nat set \<Rightarrow> ideal_net \<Rightarrow> bool" for max_dgram :: nat and R :: "nat set" where
  start: "ideal_reach max_dgram R ideal_empty"
| more: "ideal_reach max_dgram R s \<Longrightarrow> ideal_step max_dgram R s s' \<Longrightarrow> ideal_reach max_dgram R s'"

section \<open>Invariant\<close>

text \<open>All messages, in the order in which their senders took the lock.\<close>

definition ideal_msgs :: "ideal_net \<Rightarrow> vmsg list" where
  "ideal_msgs s = id_log s @ (case id_lock s of None \<Rightarrow> [] | Some (m, _) \<Rightarrow> [m])"

definition for_process :: "nat \<Rightarrow> vmsg list \<Rightarrow> bytes list" where
  "for_process p ms = map vm_data (filter (\<lambda>m. p \<in> vm_reached m) ms)"

definition given_of :: "nat set \<Rightarrow> nat \<Rightarrow> bytes list \<Rightarrow> bytes list" where
  "given_of R p ds = (if p \<in> R then map (take VIRTUAL_NET_MSG_MAX_SZ) (filter (\<lambda>d. d \<noteq> []) ds) else [])"

definition msg_ok :: "ideal_net \<Rightarrow> vmsg \<Rightarrow> bool" where
  "msg_ok s m \<longleftrightarrow> vm_sender m \<notin> vm_reached m \<and> vm_reached m \<subseteq> id_members s \<and> vm_audience m \<subseteq> id_members s - {vm_sender m}"

definition ideal_inv :: "nat \<Rightarrow> nat set \<Rightarrow> ideal_net \<Rightarrow> bool" where
  "ideal_inv max_dgram R s \<longleftrightarrow>
     (\<forall>m \<in> set (ideal_msgs s). msg_ok s m)
   \<and> (\<forall>p \<in> id_members s. id_read s p @ id_queue s p = for_process p (ideal_msgs s) \<and> id_given s p = given_of R p (id_read s p))
   \<and> (\<forall>m \<in> set (id_log s). length (vm_data m) \<le> max_dgram \<longrightarrow> vm_audience m \<subseteq> vm_reached m)
   \<and> (case id_lock s of None \<Rightarrow> True | Some (m, left) \<Rightarrow> left \<subseteq> id_members s - {vm_sender m}
        \<and> (vm_sender m \<in> id_members s \<or> vm_audience m = {}) 
        \<and> left \<inter> vm_reached m = {}
        \<and> (length (vm_data m) \<le> max_dgram \<longrightarrow> vm_audience m \<subseteq> vm_reached m \<union> left))"

lemma for_process_simps [simp]:
  "for_process p [] = []" "for_process p (as @ bs) = for_process p as @ for_process p bs"
  "for_process p [m] = (if p \<in> vm_reached m then [vm_data m] else [])"
  by (simp_all add: for_process_def)

lemma for_process_forget: "q \<noteq> p \<Longrightarrow> for_process q (map (forget p) ms) = for_process q ms"
  by (induction ms) (simp_all add: for_process_def forget_def)

lemma forget_sel [simp]:
  "vm_sender (forget p m) = vm_sender m" "vm_data (forget p m) = vm_data m"
  "vm_reached (forget p m) = vm_reached m - {p}" "vm_audience (forget p m) = vm_audience m - {p}"
  by (simp_all add: forget_def)

lemma for_process_absent: "\<forall>m \<in> set ms. p \<notin> vm_reached m \<Longrightarrow> for_process p ms = []"
  by (induction ms) (simp_all add: for_process_def)

lemma given_of_snoc: "given_of R p (ds @ [d]) = given_of R p ds @ (if d \<noteq> [] \<and> p \<in> R then [take VIRTUAL_NET_MSG_MAX_SZ d] else [])"
  by (simp add: given_of_def)

lemma ideal_join_inv: "ideal_inv n R s \<Longrightarrow> p \<notin> id_members s \<Longrightarrow> ideal_inv n R (ideal_join p s)"
proof -
  assume inv: "ideal_inv n R s" and p: "p \<notin> id_members s"
  have m: "ideal_msgs (ideal_join p s) = ideal_msgs s" by (simp add: ideal_msgs_def ideal_join_def)
  have "\<forall>m \<in> set (ideal_msgs s). p \<notin> vm_reached m" using inv p by (auto simp: ideal_inv_def msg_ok_def)
  then have "for_process p (ideal_msgs s) = []" by (rule for_process_absent)
  then show ?thesis using inv unfolding ideal_inv_def m
    by (auto simp: ideal_join_def msg_ok_def given_of_def split: option.splits)
qed

lemma ideal_begin_inv: "ideal_inv n R s \<Longrightarrow> p \<in> id_members s \<Longrightarrow> id_lock s = None \<Longrightarrow> ideal_inv n R (ideal_begin p d s)"
  by (auto simp: ideal_inv_def ideal_begin_def ideal_msgs_def msg_ok_def Let_def)

lemma ideal_end_inv: "ideal_inv n R s \<Longrightarrow> id_lock s = Some (m, {}) \<Longrightarrow> ideal_inv n R (ideal_end s)"
  by (auto simp: ideal_inv_def ideal_end_def ideal_msgs_def msg_ok_def)

lemma ideal_receive_inv: "ideal_inv n R s \<Longrightarrow> p \<in> id_members s \<Longrightarrow> ideal_inv n R (ideal_receive R p s)"
proof (cases "id_queue s p")
  case (Cons d ds)
  assume inv: "ideal_inv n R s" and p: "p \<in> id_members s"
  let ?s = "ideal_receive R p s"
  have s: "?s = s\<lparr>id_queue := (id_queue s)(p := ds), id_read := (id_read s)(p := id_read s p @ [d]),
    id_given := (id_given s)(p := id_given s p @ (if d \<noteq> [] \<and> p \<in> R then [take VIRTUAL_NET_MSG_MAX_SZ d] else []))\<rparr>"
    by (simp add: ideal_receive_def Cons)
  have m: "ideal_msgs ?s = ideal_msgs s" "id_members ?s = id_members s" "id_log ?s = id_log s" "id_lock ?s = id_lock s" "msg_ok ?s = msg_ok s"
    by (simp_all add: s ideal_msgs_def msg_ok_def fun_eq_iff)
  have "id_read ?s q @ id_queue ?s q = id_read s q @ id_queue s q" for q using Cons by (simp add: s)
  moreover have "id_given ?s q = given_of R q (id_read ?s q)" if "q \<in> id_members s" for q
    using inv that by (auto simp: s ideal_inv_def given_of_snoc)
  ultimately show ?thesis using inv unfolding ideal_inv_def m by simp
qed (simp add: ideal_receive_def)

lemma ideal_round_inv:
  assumes inv: "ideal_inv n R s" and l: "id_lock s = Some (m, left)"
    and q: "q \<in> left \<or> q \<in> id_members s \<and> q \<notin> vm_reached m \<and> q \<noteq> vm_sender m"
  shows "ideal_inv n R (ideal_round n q s)"
proof -
  have i: "\<forall>m \<in> set (id_log s). msg_ok s m" "msg_ok s m" "left \<subseteq> id_members s - {vm_sender m}"
    "vm_sender m \<in> id_members s \<or> vm_audience m = {}" "left \<inter> vm_reached m = {}"
    "length (vm_data m) \<le> n \<longrightarrow> vm_audience m \<subseteq> vm_reached m \<union> left"
    using inv l by (auto simp: ideal_inv_def ideal_msgs_def)
  have qf: "q \<in> id_members s" "q \<noteq> vm_sender m" "q \<notin> vm_reached m" using q i(3,5) by auto
  show ?thesis
  proof (cases "vm_sender m \<in> id_members s \<and> length (vm_data m) \<le> n")
    case True
    let ?m = "m\<lparr>vm_reached := insert q (vm_reached m)\<rparr>"
    have s: "ideal_round n q s = s\<lparr>id_queue := (id_queue s)(q := id_queue s q @ [vm_data m]), id_lock := Some (?m, left - {q})\<rparr>"
      using True qf(1) by (simp add: ideal_round_def l)
    have ok: "msg_ok s ?m" using i(2) qf by (auto simp: msg_ok_def)
    have "id_read s p @ (id_queue (ideal_round n q s)) p = for_process p (id_log s @ [?m])" if "p \<in> id_members s" for p
      using inv that qf(3) by (auto simp: s ideal_inv_def ideal_msgs_def l)
    then show ?thesis using inv ok i unfolding s
      by (auto simp: ideal_inv_def ideal_msgs_def msg_ok_def)
  next
    case False
    have s: "ideal_round n q s = s\<lparr>id_lock := Some (m, left - {q})\<rparr>" using False by (auto simp: ideal_round_def l)
    show ?thesis using inv False i unfolding s by (auto simp: ideal_inv_def ideal_msgs_def msg_ok_def l)
  qed
qed

lemma ideal_leave_inv: "ideal_inv n R s \<Longrightarrow> ideal_inv n R (ideal_leave p s)"
proof -
  assume inv: "ideal_inv n R s"
  let ?s = "ideal_leave p s"
  have f: "for_process q (ideal_msgs ?s) = for_process q (ideal_msgs s)" if "q \<noteq> p" for q
    using that by (auto simp: ideal_msgs_def ideal_leave_def for_process_forget split: option.split)
  have "\<forall>m \<in> set (ideal_msgs ?s). msg_ok ?s m"
    using inv by (auto simp: ideal_inv_def ideal_msgs_def ideal_leave_def msg_ok_def split: option.splits)
  moreover have "\<forall>q \<in> id_members ?s. id_read ?s q @ id_queue ?s q = for_process q (ideal_msgs ?s) \<and> id_given ?s q = given_of R q (id_read ?s q)"
  proof
    fix q assume "q \<in> id_members ?s"
    then have "q \<in> id_members s" "q \<noteq> p" by (simp_all add: ideal_leave_def)
    moreover have "id_read ?s q = id_read s q" "id_given ?s q = id_given s q" by (simp_all add: ideal_leave_def)
    moreover have "q \<noteq> p \<Longrightarrow> id_queue ?s q = id_queue s q" by (simp add: ideal_leave_def)
    ultimately show "id_read ?s q @ id_queue ?s q = for_process q (ideal_msgs ?s) \<and> id_given ?s q = given_of R q (id_read ?s q)"
      using inv by (simp add: f ideal_inv_def)
  qed
  moreover have "\<forall>m \<in> set (id_log ?s). length (vm_data m) \<le> n \<longrightarrow> vm_audience m \<subseteq> vm_reached m"
    using inv by (fastforce simp: ideal_inv_def ideal_leave_def)
  moreover have "case id_lock ?s of None \<Rightarrow> True | Some (m, left) \<Rightarrow> left \<subseteq> id_members ?s - {vm_sender m}
        \<and> (vm_sender m \<in> id_members ?s \<or> vm_audience m = {}) \<and> left \<inter> vm_reached m = {}
        \<and> (length (vm_data m) \<le> n \<longrightarrow> vm_audience m \<subseteq> vm_reached m \<union> left)"
    using inv by (auto simp: ideal_inv_def ideal_leave_def split: option.splits)
  ultimately show ?thesis by (simp add: ideal_inv_def)
qed

lemma ideal_reach_inv: "ideal_reach n R s \<Longrightarrow> ideal_inv n R s"
proof (induction rule: ideal_reach.induct)
  case start
  show ?case by (simp add: ideal_inv_def ideal_empty_def ideal_msgs_def)
next
  case (more s s')
  from more(2) show ?case
    by (rule ideal_stepE) (use more(3) in \<open>auto intro: ideal_join_inv ideal_begin_inv ideal_round_inv ideal_end_inv ideal_receive_inv ideal_leave_inv\<close>)
qed

end
