(* ===== verification/Vnet_Socket.thy ===== *)
theory Vnet_Socket
  imports Prelude Media Text
begin

text \<open>
  One object \<^verbatim>\<open>virtual_net\<close>, in the versions of the two systems
  (\<^verbatim>\<open>src/lib/linux/virtual_net.h\<close>, \<^verbatim>\<open>src/lib/macos/virtual_net.h\<close> and the
  \<^verbatim>\<open>.cpp\<close> files): its socket, its receiving threads and what it sends, while \<open>Virtual_Net\<close> has the
  network of many processes.  The file descriptors that the object has opened and not closed are part of the
  state; closing any other may close a file of somebody else.  A thread that has been detached goes on, with the object.
\<close>

datatype os = Linux | Macos

section \<open>The directory\<close>

text \<open>\<^verbatim>\<open>lock_file\<close>: the descriptor, and the one that is left open.\<close>

definition lock_file :: "os \<Rightarrow> nat option \<Rightarrow> bool \<Rightarrow> nat option \<times> nat option" where
  "lock_file sys opened flocked =
     (case opened of
        None \<Rightarrow> (None, None)
      | Some fd \<Rightarrow> if \<not> flocked then (None, if sys = Linux then Some fd else None) else (Some fd, None))"

text \<open>\<^verbatim>\<open>fs::path\<close>'s \<^verbatim>\<open>operator /\<close>.\<close>

definition path_join :: "string \<Rightarrow> string \<Rightarrow> string" where
  "path_join a b = (if take 1 b = ''/'' then b else if a = [] \<or> last a = CHR ''/'' then a @ b else a @ ''/'' @ b)"

definition net_dir :: "string \<Rightarrow> string" where
  "net_dir net_name = path_join ''/tmp/virtual_net'' net_name"

definition net_lockfile :: "string \<Rightarrow> string" where
  "net_lockfile net_name = path_join (net_dir net_name) ''lock.file''"

definition my_file :: "string \<Rightarrow> nat \<Rightarrow> string" where
  "my_file net_name pid = path_join (net_dir net_name) (to_dec pid @ ''.file'')"

text \<open>The size of \<^verbatim>\<open>sun_path\<close>, and the name that is left of a path.\<close>

definition sun_path :: "os \<Rightarrow> string \<Rightarrow> string" where
  "sun_path sys path = take ((if sys = Linux then 108 else 104) - 1) path"

text \<open>\<^verbatim>\<open>my_send::send_data\<close>, with the socket of the object and the entries that the iterator returns: what
  it returns and the names it sends to.  Without a socket it throws, with the directory locked.\<close>

fun send_to_peers :: "os \<Rightarrow> nat option \<Rightarrow> string \<Rightarrow> string \<Rightarrow> string list \<Rightarrow> string list result" where
  "send_to_peers sys sock lockfile own [] = Inr []"
| "send_to_peers sys sock lockfile own (path # entries) =
     (if path = lockfile then send_to_peers sys sock lockfile own entries
      else if path = own then send_to_peers sys sock lockfile own entries
      else bind_r (opt_value sock) (\<lambda>_. bind_r (send_to_peers sys sock lockfile own entries) (\<lambda>rest. Inr (sun_path sys path # rest))))"

definition vnet_send_data ::
  "os \<Rightarrow> nat option \<Rightarrow> bool \<Rightarrow> nat option \<Rightarrow> string \<Rightarrow> nat \<Rightarrow> string list \<Rightarrow> (err_t \<times> string list) result" where
  "vnet_send_data sys opened flocked sock net_name pid entries =
     (case fst (lock_file sys opened flocked) of
        None \<Rightarrow> Inr (ERR, [])
      | Some lock_fd \<Rightarrow>
          bind_r (send_to_peers sys sock (net_lockfile net_name) (my_file net_name pid) entries) (\<lambda>sent. Inr (OK, sent)))"

section \<open>The object\<close>

text \<open>Where a receiving thread is: before the test of the flag, before its call of \<^verbatim>\<open>recv\<close>, or in it.\<close>

datatype recv_thread = At_test | Before_recv | In_recv nat

record vsock =
  sock_fd :: "nat option"
  recv_thrd_flag :: bool
  joinable :: bool                  \<comment> \<open>of \<^verbatim>\<open>recv_thrd\<close>\<close>
  threads :: "recv_thread list"     \<comment> \<open>that are running\<close>
  send_access :: bool               \<comment> \<open>not null\<close>
  connected :: bool
  recv_set :: bool
  given :: "bytes list"
  open_fds :: "nat set"             \<comment> \<open>of this object\<close>
  bad_closes :: "nat list"          \<comment> \<open>calls of \<^verbatim>\<open>close\<close> for a descriptor that is not open\<close>

definition new_vsock :: vsock where
  "new_vsock = \<lparr>sock_fd = None, recv_thrd_flag = False, joinable = False, threads = [], send_access = False, connected = False,
     recv_set = False, given = [], open_fds = {}, bad_closes = []\<rparr>"

definition close_fd :: "nat \<Rightarrow> vsock \<Rightarrow> vsock" where
  "close_fd fd s = (if fd \<in> open_fds s then s\<lparr>open_fds := open_fds s - {fd}\<rparr> else s\<lparr>bad_closes := bad_closes s @ [fd]\<rparr>)"

text \<open>\<^verbatim>\<open>connect\<close>: there is no socket, it is not bound, or it is.  Assigning to a thread that is joinable
  ends the program.\<close>

datatype connecting = No_socket | Not_bound nat | Bound nat

fun vsock_connect :: "os \<Rightarrow> connecting \<Rightarrow> vsock \<Rightarrow> vsock result" where
  "vsock_connect sys No_socket s = Inr (s\<lparr>sock_fd := None\<rparr>)"
| "vsock_connect sys (Not_bound fd) s =
     (let s = close_fd fd (s\<lparr>open_fds := insert fd (open_fds s)\<rparr>)
      in Inr (s\<lparr>sock_fd := if sys = Linux then Some fd else None\<rparr>))"
| "vsock_connect sys (Bound fd) s =
     (if joinable s then Inl Aborted
      else Inr (s\<lparr>open_fds := insert fd (open_fds s), sock_fd := Some fd, recv_thrd_flag := True, joinable := True,
        threads := threads s @ [At_test], send_access := True, connected := True\<rparr>))"

definition vsock_disconnect :: "os \<Rightarrow> vsock \<Rightarrow> vsock" where
  "vsock_disconnect sys s =
     (if sys = Macos \<and> \<not> connected s then s
      else let s = s\<lparr>recv_thrd_flag := False, joinable := False, send_access := False\<rparr>;
               s = (case sock_fd s of
                      None \<Rightarrow> s
                    | Some fd \<Rightarrow> if sys = Linux then close_fd fd s else (close_fd fd s)\<lparr>sock_fd := None\<rparr>)
           in s\<lparr>connected := False\<rparr>)"

definition vsock_set_recv :: "bool \<Rightarrow> vsock \<Rightarrow> vsock" where
  "vsock_set_recv r s = s\<lparr>recv_set := r\<rparr>"

text \<open>A step of the thread \<open>i\<close>; \<open>cnt\<close> is what \<^verbatim>\<open>recv\<close> returns.  A call of \<^verbatim>\<open>value\<close>
  on an empty socket throws, which ends the program.\<close>

definition thread_step :: "nat \<Rightarrow> bytes option \<Rightarrow> vsock \<Rightarrow> vsock result" where
  "thread_step i cnt s =
     (case threads s ! i of
        At_test \<Rightarrow>
          Inr (if recv_thrd_flag s then s\<lparr>threads := (threads s)[i := Before_recv]\<rparr>
               else s\<lparr>threads := take i (threads s) @ drop (i + 1) (threads s)\<rparr>)
      | Before_recv \<Rightarrow>
          (case sock_fd s of None \<Rightarrow> Inl Aborted | Some fd \<Rightarrow> Inr (s\<lparr>threads := (threads s)[i := In_recv fd]\<rparr>))
      | In_recv fd \<Rightarrow>
          (let s = s\<lparr>threads := (threads s)[i := At_test]\<rparr>
           in Inr (case cnt of
                None \<Rightarrow> s
              | Some data \<Rightarrow> if data \<noteq> [] \<and> recv_set s then s\<lparr>given := given s @ [take 0x1000 data]\<rparr> else s)))"

section \<open>Runs\<close>

text \<open>The system gives a descriptor that is not in use.  The program connects only when it is not connected.\<close>

inductive vsock_run :: "os \<Rightarrow> vsock \<Rightarrow> bool" for sys :: os where
  new: "vsock_run sys new_vsock"
| connect: "vsock_run sys s \<Longrightarrow> \<not> connected s \<Longrightarrow> (\<forall>fd. c = Not_bound fd \<or> c = Bound fd \<longrightarrow> fd \<notin> open_fds s)
    \<Longrightarrow> vsock_connect sys c s = Inr s' \<Longrightarrow> vsock_run sys s'"
| disconnect: "vsock_run sys s \<Longrightarrow> vsock_run sys (vsock_disconnect sys s)"
| set_recv: "vsock_run sys s \<Longrightarrow> vsock_run sys (vsock_set_recv r s)"
| thread: "vsock_run sys s \<Longrightarrow> i < length (threads s) \<Longrightarrow> thread_step i cnt s = Inr s' \<Longrightarrow> vsock_run sys s'"

inductive_cases vsock_runE: "vsock_run sys s"

text \<open>What holds of the object on macOS: it has the one descriptor in its field open while it is connected, and none else.\<close>

definition macos_inv :: "vsock \<Rightarrow> bool" where
  "macos_inv s \<longleftrightarrow> bad_closes s = [] \<and> open_fds s = set_option (sock_fd s) \<and> (connected s \<longleftrightarrow> sock_fd s \<noteq> None)
     \<and> (connected s \<longleftrightarrow> send_access s) \<and> (connected s \<longleftrightarrow> joinable s) \<and> (connected s \<longleftrightarrow> recv_thrd_flag s)"

lemma thread_step_fields:
  "thread_step i cnt s = Inr s' \<Longrightarrow> sock_fd s' = sock_fd s \<and> open_fds s' = open_fds s \<and> bad_closes s' = bad_closes s
     \<and> connected s' = connected s \<and> send_access s' = send_access s \<and> joinable s' = joinable s \<and> recv_thrd_flag s' = recv_thrd_flag s"
  by (auto simp: thread_step_def Let_def split: recv_thread.splits option.splits if_splits)

lemma macos_run_inv: "vsock_run Macos s \<Longrightarrow> macos_inv s"
proof (induction rule: vsock_run.induct)
  case (connect s c s')
  then show ?case by (cases c) (auto simp: macos_inv_def close_fd_def Let_def)
next
  case (disconnect s)
  then show ?case
    by (auto simp: macos_inv_def vsock_disconnect_def close_fd_def Let_def split: option.splits)
next
  case (set_recv s r)
  then show ?case unfolding macos_inv_def vsock_set_recv_def by simp metis
next
  case (thread s i cnt s')
  then have "macos_inv s" by blast
  then show ?case using thread_step_fields [OF thread(3)] unfolding macos_inv_def by metis
qed (simp add: macos_inv_def new_vsock_def)

lemma thread_given: "thread_step i cnt s = Inr s' \<Longrightarrow> \<exists>ds. given s' = given s @ ds \<and> (\<forall>d \<in> set ds. d \<noteq> [] \<and> length d \<le> 0x1000)"
  by (auto simp: thread_step_def Let_def split: recv_thread.splits option.splits if_splits)

lemma vsock_given: "vsock_run sys s \<Longrightarrow> \<forall>d \<in> set (given s). d \<noteq> [] \<and> length d \<le> 0x1000"
proof (induction rule: vsock_run.induct)
  case (connect s c s')
  then show ?case by (cases c) (auto simp: close_fd_def Let_def split: if_splits)
next
  case (disconnect s)
  then show ?case by (auto simp: vsock_disconnect_def close_fd_def Let_def split: option.splits)
next
  case (thread s i cnt s')
  then show ?case using thread_given [OF thread(3)] by auto
qed (simp_all add: new_vsock_def vsock_set_recv_def)

section \<open>Names of files\<close>

lemma to_dec_eq [simp]: "to_dec m = to_dec n \<longleftrightarrow> m = n"
  by (metis dec_value_to_dec)

text \<open>The path of an entry of a directory.\<close>

definition in_dir :: "string \<Rightarrow> string" where
  "in_dir dir = (if dir = [] \<or> last dir = CHR ''/'' then dir else dir @ ''/'')"

lemma path_join_in_dir: "take 1 b \<noteq> ''/'' \<Longrightarrow> path_join a b = in_dir a @ b"
  by (auto simp: path_join_def in_dir_def)

lemma to_dec_start: "\<exists>c cs. to_dec n = c # cs \<and> is_digit c"
  using to_dec_digits [of n] by (cases "to_dec n") auto

lemma my_file_path: "my_file net n = in_dir (net_dir net) @ to_dec n @ ''.file''"
proof -
  have "take 1 (to_dec n @ ''.file'') \<noteq> ''/''" using to_dec_start [of n] by (auto simp: is_digit_def)
  then show ?thesis by (simp add: my_file_def path_join_in_dir)
qed

lemma net_lockfile_path: "net_lockfile net = in_dir (net_dir net) @ ''lock.file''"
  by (simp add: net_lockfile_def path_join_in_dir)

lemma my_file_eq [simp]: "my_file net m = my_file net n \<longleftrightarrow> m = n"
  by (simp add: my_file_path)

lemma my_file_not_lockfile [simp]: "my_file net n \<noteq> net_lockfile net"
  using to_dec_start [of n] by (auto simp: my_file_path net_lockfile_path is_digit_def)

lemma send_to_peers_filter:
  "send_to_peers sys (Some sock) lockfile own entries = Inr (map (sun_path sys) (filter (\<lambda>p. p \<noteq> lockfile \<and> p \<noteq> own) entries))"
  by (induction entries) (auto simp: opt_value_def)

lemma send_without_socket:
  "send_to_peers sys None lockfile own entries = (if set entries \<subseteq> {lockfile, own} then Inr [] else Inl Thrown)"
  by (induction entries) (auto simp: opt_value_def)

lemma sun_path_whole: "length path \<le> (if sys = Linux then 107 else 103) \<Longrightarrow> sun_path sys path = path"
  by (auto simp: sun_path_def)

section \<open>Properties\<close>

text \<open>C36: On macOS the object closes what it has opened and nothing else, however connecting fails and the steps of its
  threads interleave: it has the descriptor of its socket open exactly while it is connected, and its sender is
  not null exactly then; its receiver is given datagrams that are not empty and fit the buffer.\<close>

theorem vnet_closes_own_socket:
  assumes "vsock_run Macos s"
  shows "bad_closes s = [] \<and> open_fds s = set_option (sock_fd s) \<and> (connected s \<longleftrightarrow> sock_fd s \<noteq> None)
      \<and> (connected s \<longleftrightarrow> send_access s) \<and> (\<forall>d \<in> set (given s). d \<noteq> [] \<and> length d \<le> 0x1000)"
  using macos_run_inv [OF assms] vsock_given [OF assms] unfolding macos_inv_def by blast

text \<open>A run: binding fails, then a connection, a datagram, and disconnecting while the thread is in \<^verbatim>\<open>recv\<close>.\<close>

definition macos_session :: vsock where
  "macos_session = \<lparr>sock_fd = None, recv_thrd_flag = False, joinable = False, threads = [In_recv 3], send_access = False,
     connected = False, recv_set = True, given = [[7]], open_fds = {}, bad_closes = []\<rparr>"

lemma macos_session_run: "vsock_run Macos macos_session"
proof -
  let ?new = "\<lambda>f thr giv fds r. \<lparr>sock_fd = (if f then Some 3 else None), recv_thrd_flag = f, joinable = f, threads = thr,
     send_access = f, connected = f, recv_set = r, given = giv, open_fds = fds, bad_closes = []\<rparr> :: vsock"
  have 0: "vsock_run Macos (?new False [] [] {} False)" using vsock_run.new [of Macos] by (simp add: new_vsock_def)
  have 1: "vsock_run Macos (?new False [] [] {} False)"
    by (rule vsock_run.connect [OF 0, of "Not_bound 3"]) (simp_all add: close_fd_def)
  have 2: "vsock_run Macos (?new True [At_test] [] {3} False)"
    by (rule vsock_run.connect [OF 1, of "Bound 3"]) simp_all
  have 3: "vsock_run Macos (?new True [At_test] [] {3} True)"
    using vsock_run.set_recv [OF 2, of True] by (simp add: vsock_set_recv_def)
  have 4: "vsock_run Macos (?new True [Before_recv] [] {3} True)"
    by (rule vsock_run.thread [OF 3, of 0 None]) (simp_all add: thread_step_def)
  have 5: "vsock_run Macos (?new True [In_recv 3] [] {3} True)"
    by (rule vsock_run.thread [OF 4, of 0 None]) (simp_all add: thread_step_def)
  have 6: "vsock_run Macos (?new True [At_test] [[7]] {3} True)"
    by (rule vsock_run.thread [OF 5, of 0 "Some [7]"]) (simp_all add: thread_step_def)
  have 7: "vsock_run Macos (?new True [Before_recv] [[7]] {3} True)"
    by (rule vsock_run.thread [OF 6, of 0 None]) (simp_all add: thread_step_def)
  have 8: "vsock_run Macos (?new True [In_recv 3] [[7]] {3} True)"
    by (rule vsock_run.thread [OF 7, of 0 None]) (simp_all add: thread_step_def)
  show ?thesis using vsock_run.disconnect [OF 8] by (simp add: vsock_disconnect_def macos_session_def close_fd_def)
qed

theorem vnet_closes_own_socket_witness: "bad_closes macos_session = [] \<and> open_fds macos_session = {}"
  using vnet_closes_own_socket [OF macos_session_run] by (simp add: macos_session_def)

text \<open>On Linux the next call of \<^verbatim>\<open>disconnect\<close>, which the destructor makes, closes the descriptor again,
  after every call of it and after binding has failed, whatever has been opened under this number meanwhile.\<close>

theorem linux_closes_twice:
  "map_sum id (\<lambda>s. bad_closes (vsock_disconnect Linux s)) (vsock_connect Linux (Not_bound fd) new_vsock) = Inr [fd]
   \<and> map_sum id (\<lambda>s. bad_closes (vsock_disconnect Linux (vsock_disconnect Linux s))) (vsock_connect Linux (Bound fd) new_vsock) = Inr [fd]"
  by (simp add: new_vsock_def vsock_disconnect_def close_fd_def Let_def)

text \<open>On macOS a thread that is about to receive when its object disconnects ends the program.\<close>

theorem macos_disconnect_race:
  assumes "sock_fd s = Some fd" and "connected s" and "i < length (threads s)" and "threads s ! i = Before_recv"
  shows "thread_step i cnt (vsock_disconnect Macos s) = Inl Aborted"
  using assms by (simp add: vsock_disconnect_def close_fd_def thread_step_def Let_def)

text \<open>C37: Sending on a connected object fails exactly when the directory cannot be locked; else a datagram goes to every
  entry of the directory but the lock file and the own file, once and in the iterator's order, under the first 107
  characters of its path (103 on macOS).  When no path is longer than that, it goes to the file of every other process
  that the iterator returns and never to the own one.  A sender that is kept after its object has disconnected: on
  macOS it throws, with the directory locked, as soon as the directory has an entry of somebody else, and else reports
  success; on Linux it does what it did before, with the descriptor that is closed.\<close>

theorem vnet_sends_to_others:
  shows "vnet_send_data sys opened flocked (Some fd) net pid entries =
      Inr (if opened = None \<or> \<not> flocked then (ERR, [])
       else (OK, map (sun_path sys) (filter (\<lambda>p. p \<noteq> net_lockfile net \<and> p \<noteq> my_file net pid) entries)))
    \<and> ((\<forall>p \<in> set entries. length p \<le> (if sys = Linux then 107 else 103)) \<longrightarrow> opened \<noteq> None \<longrightarrow> flocked \<longrightarrow>
         (\<exists>sent. vnet_send_data sys opened flocked (Some fd) net pid entries = Inr (OK, sent) \<and> my_file net pid \<notin> set sent
           \<and> (\<forall>p. p \<noteq> pid \<longrightarrow> (my_file net p \<in> set sent \<longleftrightarrow> my_file net p \<in> set entries))))
    \<and> (vsock_run Macos s \<longrightarrow> opened \<noteq> None \<longrightarrow> flocked \<longrightarrow>
         vnet_send_data Macos opened flocked (sock_fd (vsock_disconnect Macos s)) net pid entries
           = (if set entries \<subseteq> {net_lockfile net, my_file net pid} then Inr (OK, []) else Inl Thrown))
    \<and> vnet_send_data Linux opened flocked (sock_fd (vsock_disconnect Linux s)) net pid entries
        = vnet_send_data Linux opened flocked (sock_fd s) net pid entries"
proof -
  have e: "vnet_send_data sys opened flocked (Some fd) net pid entries =
      Inr (if opened = None \<or> \<not> flocked then (ERR, [])
       else (OK, map (sun_path sys) (filter (\<lambda>p. p \<noteq> net_lockfile net \<and> p \<noteq> my_file net pid) entries)))"
    by (auto simp: vnet_send_data_def lock_file_def send_to_peers_filter split: option.split)
  moreover have "\<exists>sent. vnet_send_data sys opened flocked (Some fd) net pid entries = Inr (OK, sent) \<and> my_file net pid \<notin> set sent
      \<and> (\<forall>p. p \<noteq> pid \<longrightarrow> (my_file net p \<in> set sent \<longleftrightarrow> my_file net p \<in> set entries))"
    if short: "\<forall>p \<in> set entries. length p \<le> (if sys = Linux then 107 else 103)" and "opened \<noteq> None" "flocked"
  proof -
    have "map (sun_path sys) (filter P entries) = filter P entries" for P
      using short by (intro map_idI) (auto intro!: sun_path_whole)
    with e that(2,3) show ?thesis by simp
  qed
  moreover have "vnet_send_data Macos opened flocked None net pid entries
      = (if set entries \<subseteq> {net_lockfile net, my_file net pid} then Inr (OK, []) else Inl Thrown)" if "opened \<noteq> None" "flocked"
    using that by (auto simp: vnet_send_data_def lock_file_def send_without_socket simp del: subset_insert_iff insert_subset split: option.split)
  moreover have "vsock_run Macos s \<Longrightarrow> sock_fd (vsock_disconnect Macos s) = None"
    using macos_run_inv [of s] by (cases "sock_fd s") (simp_all add: macos_inv_def vsock_disconnect_def Let_def)
  moreover have "sock_fd (vsock_disconnect Linux s) = sock_fd s"
    by (cases "sock_fd s") (simp_all add: vsock_disconnect_def close_fd_def Let_def)
  ultimately show ?thesis by (intro conjI impI) simp_all
qed

theorem vnet_sends_to_others_witness:
  "\<exists>sent. vnet_send_data Linux (Some 3) True (Some 4) ''a'' 1 [my_file ''a'' 1, net_lockfile ''a'', my_file ''a'' 2] = Inr (OK, sent)
     \<and> my_file ''a'' 2 \<in> set sent"
proof -
  have l: "\<forall>p \<in> set [my_file ''a'' 1, net_lockfile ''a'', my_file ''a'' 2]. length p \<le> (if Linux = Linux then 107 else 103)"
    by (simp add: my_file_def net_lockfile_def net_dir_def path_join_def to_dec.simps)
  note v = vnet_sends_to_others [of Linux "Some 3" True 4 "''a''" 1 "[my_file ''a'' 1, net_lockfile ''a'', my_file ''a'' 2]",
    THEN conjunct2, THEN conjunct1, THEN mp, OF l]
  then obtain sent where "vnet_send_data Linux (Some 3) True (Some 4) ''a'' 1 [my_file ''a'' 1, net_lockfile ''a'', my_file ''a'' 2] = Inr (OK, sent)"
    "my_file ''a'' 2 \<in> set sent \<longleftrightarrow> my_file ''a'' 2 \<in> set [my_file ''a'' 1, net_lockfile ''a'', my_file ''a'' 2]" by auto
  then show ?thesis by auto
qed

text \<open>Two processes of a network whose name is long have the same name of a socket.\<close>

lemma long_net_name:
  assumes "90 \<le> length net" and "take 1 net \<noteq> ''/''"
  shows "sun_path sys (my_file net p) = sun_path sys (my_file net q)"
proof -
  have "107 \<le> length (in_dir (net_dir net))"
    using assms by (auto simp: in_dir_def net_dir_def path_join_def)
  then show ?thesis by (simp add: sun_path_def my_file_path)
qed

end
