(* ===== verification/Virtual_Net.thy ===== *)
theory Virtual_Net
  imports Ideal_Net Vnet_Socket
begin

text \<open>
  The virtual network on Linux (\<^verbatim>\<open>src/lib/linux/virtual_net.h\<close>) with its processes: each has a datagram
  socket, bound to a file \<^verbatim>\<open><pid>.file\<close> in the directory of the network.  To send, a process locks
  the directory and sends a datagram to every entry but the lock file and the own file; a thread of every process
  receives.  The steps of the processes interleave: connecting and disconnecting take no lock, and receiving goes on
  meanwhile.  The names of sockets are cut to the size of \<^verbatim>\<open>sun_path\<close>, those of files are not.

  Of the operating system the model relies on the documented behaviour of \<^verbatim>\<open>flock\<close> (one holder at a
  time) and of local datagram sockets (binding fails when the name exists; a datagram up to the size \<open>max_dgram\<close>
  to a bound socket is queued behind those before it, any other is refused; reading takes the first).  A directory
  iterator returns each entry once that stays, and may return one that appears meanwhile.  \<open>R\<close> are the
  processes that set a receiver before connecting, \<open>P\<close> those that take part.  A process connects successfully
  once (after connecting again the thread that was detached may receive beside the new one), does not use the number of a
  closed descriptor again, and does not die while it sends; nobody else makes files in the directory.
\<close>

section \<open>State\<close>

text \<open>The processes that are connected and those that have been, the files in the file system, the sockets by
  their names, their queues, what each process has read and what its receiver was given since it connected, the message
  of the holder of the lock with the entries its iterator still has to return and those it has returned, and the messages
  sent.\<close>

record vnet =
  vn_open :: "nat set"
  vn_past :: "nat set"
  vn_files :: "string set"
  vn_bound :: "string \<rightharpoonup> nat"
  vn_queue :: "nat \<Rightarrow> bytes list"
  vn_read :: "nat \<Rightarrow> bytes list"
  vn_given :: "nat \<Rightarrow> bytes list"
  vn_lock :: "(vmsg \<times> string set \<times> string set) option"
  vn_log :: "vmsg list"

definition vnet_empty :: vnet where
  "vnet_empty = \<lparr>vn_open = {}, vn_past = {}, vn_files = {}, vn_bound = (\<lambda>_. None), vn_queue = (\<lambda>_. []), vn_read = (\<lambda>_. []),
     vn_given = (\<lambda>_. []), vn_lock = None, vn_log = []\<rparr>"

section \<open>Steps\<close>

definition unlink_file :: "string \<Rightarrow> vnet \<Rightarrow> vnet" where
  "unlink_file path s = s\<lparr>vn_files := vn_files s - {path}, vn_bound := (vn_bound s)(path := None)\<rparr>"

text \<open>\<open>works\<close> is whether the system gives a socket and can bind it to a name that is free.\<close>

definition vnet_connect :: "string \<Rightarrow> bool \<Rightarrow> nat \<Rightarrow> vnet \<Rightarrow> vnet" where
  "vnet_connect net works p s =
     (let s = unlink_file (my_file net p) s;
          name = sun_path Linux (my_file net p)
      in if \<not> works \<or> name \<in> vn_files s then s
         else s\<lparr>vn_open := insert p (vn_open s), vn_past := insert p (vn_past s), vn_files := insert name (vn_files s),
           vn_bound := (vn_bound s)(name \<mapsto> p), vn_queue := (vn_queue s)(p := []), vn_read := (vn_read s)(p := []),
           vn_given := (vn_given s)(p := [])\<rparr>)"

text \<open>The entries of the directory of the network.\<close>

definition net_entry :: "string \<Rightarrow> string \<Rightarrow> bool" where
  "net_entry net path = (let dir = in_dir (net_dir net); name = drop (length dir) path
     in take (length dir) path = dir \<and> name \<noteq> [] \<and> CHR ''/'' \<notin> set name)"

text \<open>\<^verbatim>\<open>my_send::send_data\<close> up to the loop, a round of the loop, and the rest.  Locking makes the lock
  file.\<close>

definition send_begin :: "string \<Rightarrow> nat \<Rightarrow> bytes \<Rightarrow> vnet \<Rightarrow> vnet" where
  "send_begin net p d s =
     (let files = insert (net_lockfile net) (vn_files s) in
      s\<lparr>vn_files := files, vn_lock := Some (\<lparr>vm_sender = p, vm_data = d, vm_reached = {}, vm_audience = vn_open s - {p}\<rparr>,
          {path \<in> files. net_entry net path}, {})\<rparr>)"

definition send_round :: "string \<Rightarrow> nat \<Rightarrow> string \<Rightarrow> vnet \<Rightarrow> vnet" where
  "send_round net max_dgram path s =
     (case vn_lock s of None \<Rightarrow> s
      | Some (m, left, seen) \<Rightarrow>
          let next = s\<lparr>vn_lock := Some (m, left - {path}, insert path seen)\<rparr> in
          if path = net_lockfile net then next
          else if path = my_file net (vm_sender m) then next
          else case vn_bound s (sun_path Linux path) of None \<Rightarrow> next
            | Some q \<Rightarrow>
                if vm_sender m \<in> vn_open s \<and> length (vm_data m) \<le> max_dgram
                then s\<lparr>vn_queue := (vn_queue s)(q := vn_queue s q @ [vm_data m]),
                       vn_lock := Some (m\<lparr>vm_reached := insert q (vm_reached m)\<rparr>, left - {path}, insert path seen)\<rparr>
                else next)"

definition send_end :: "vnet \<Rightarrow> vnet" where
  "send_end s = (case vn_lock s of None \<Rightarrow> s | Some (m, _) \<Rightarrow> s\<lparr>vn_lock := None, vn_log := vn_log s @ [m]\<rparr>)"

text \<open>A round of the receiving thread: an empty datagram is skipped, a long one is cut.\<close>

definition recv_round :: "nat set \<Rightarrow> nat \<Rightarrow> vnet \<Rightarrow> vnet" where
  "recv_round R p s =
     (case vn_queue s p of [] \<Rightarrow> s
      | d # ds \<Rightarrow> s\<lparr>vn_queue := (vn_queue s)(p := ds), vn_read := (vn_read s)(p := vn_read s p @ [d]),
          vn_given := (vn_given s)(p := vn_given s p
            @ (if d \<noteq> [] \<and> p \<in> R then [take VIRTUAL_NET_MSG_MAX_SZ d] else []))\<rparr>)"

text \<open>\<^verbatim>\<open>disconnect\<close> up to the closing of the socket, whose name stays, and its rest.\<close>

definition vnet_close :: "nat \<Rightarrow> vnet \<Rightarrow> vnet" where
  "vnet_close p s = s\<lparr>vn_open := vn_open s - {p},
     vn_bound := (\<lambda>path. if vn_bound s path = Some p then None else vn_bound s path), vn_queue := (vn_queue s)(p := []),
     vn_log := map (forget p) (vn_log s),
     vn_lock := (case vn_lock s of None \<Rightarrow> None
       | Some (m, left, seen) \<Rightarrow> Some (if vm_sender m = p then (forget p m)\<lparr>vm_audience := {}\<rparr> else forget p m, left, seen))\<rparr>"

definition vnet_unlink :: "string \<Rightarrow> nat \<Rightarrow> vnet \<Rightarrow> vnet" where
  "vnet_unlink net p s = unlink_file (my_file net p) s"

definition vnet_disconnect :: "string \<Rightarrow> nat \<Rightarrow> vnet \<Rightarrow> vnet" where
  "vnet_disconnect net p s = vnet_unlink net p (vnet_close p s)"

text \<open>The steps in any order; closing and unlinking are two.  The iterator returns an entry that is left, or one that
  has appeared and has not been returned; it ends when none is left.\<close>

inductive vnet_step :: "string \<Rightarrow> nat set \<Rightarrow> nat \<Rightarrow> nat set \<Rightarrow> vnet \<Rightarrow> vnet \<Rightarrow> bool"
  for net :: string and P :: "nat set" and max_dgram :: nat and R :: "nat set" where
  connect: "p \<in> P \<Longrightarrow> p \<notin> vn_past s \<Longrightarrow> vnet_step net P max_dgram R s (vnet_connect net works p s)"
| begin_send: "p \<in> vn_open s \<Longrightarrow> vn_lock s = None \<Longrightarrow> vnet_step net P max_dgram R s (send_begin net p d s)"
| round: "vn_lock s = Some (m, left, seen) \<Longrightarrow> path \<in> left \<or> path \<in> vn_files s \<and> net_entry net path \<and> path \<notin> seen
    \<Longrightarrow> vnet_step net P max_dgram R s (send_round net max_dgram path s)"
| end_send: "vn_lock s = Some (m, {}, seen) \<Longrightarrow> vnet_step net P max_dgram R s (send_end s)"
| receive: "p \<in> vn_open s \<Longrightarrow> vnet_step net P max_dgram R s (recv_round R p s)"
| close: "p \<in> vn_open s \<Longrightarrow> vnet_step net P max_dgram R s (vnet_close p s)"
| unlink: "p \<in> vn_past s - vn_open s \<Longrightarrow> vnet_step net P max_dgram R s (vnet_unlink net p s)"

inductive vnet_reach :: "string \<Rightarrow> nat set \<Rightarrow> nat \<Rightarrow> nat set \<Rightarrow> vnet \<Rightarrow> bool"
  for net :: string and P :: "nat set" and max_dgram :: nat and R :: "nat set" where
  start: "vnet_reach net P max_dgram R vnet_empty"
| more: "vnet_reach net P max_dgram R s \<Longrightarrow> vnet_step net P max_dgram R s s' \<Longrightarrow> vnet_reach net P max_dgram R s'"

lemma disconnect_reached:
  assumes "vnet_reach net P max_dgram R s" and "p \<in> vn_open s" "p \<in> vn_past s"
  shows "vnet_reach net P max_dgram R (vnet_disconnect net p s)"
  unfolding vnet_disconnect_def
  using vnet_reach.more [OF assms(1) vnet_step.close [OF assms(2)]] assms(3)
  by (intro vnet_reach.more [OF _ vnet_step.unlink]) (simp_all add: vnet_close_def)

text \<open>All messages, in the order in which their senders took the lock.\<close>

definition vnet_msgs :: "vnet \<Rightarrow> vmsg list" where
  "vnet_msgs s = vn_log s @ (case vn_lock s of None \<Rightarrow> [] | Some (m, _) \<Rightarrow> [m])"

section \<open>Refinement\<close>

definition fitting :: "string \<Rightarrow> nat set \<Rightarrow> bool" where
  "fitting net P \<longleftrightarrow> (\<forall>p \<in> P. length (my_file net p) \<le> 107)"

text \<open>The members of the ideal network are the connected processes; left are those whose file the iterator has still
  to return.\<close>

definition vnet_abs :: "string \<Rightarrow> vnet \<Rightarrow> ideal_net" where
  "vnet_abs net s = \<lparr>id_members = vn_open s, id_queue = vn_queue s, id_read = vn_read s, id_given = vn_given s,
     id_lock = (case vn_lock s of None \<Rightarrow> None
       | Some (m, left, seen) \<Rightarrow> Some (m, {q \<in> vn_open s. q \<noteq> vm_sender m \<and> my_file net q \<in> left})),
     id_log = vn_log s\<rparr>"

definition known_files :: "string \<Rightarrow> nat set \<Rightarrow> string set" where
  "known_files net Q = insert (net_lockfile net) (my_file net ` Q)"

lemma known_files_simps [simp]:
  "my_file net p \<in> known_files net Q \<longleftrightarrow> p \<in> Q" "net_lockfile net \<in> known_files net Q"
  using my_file_not_lockfile [of net p] by (auto simp: known_files_def)

lemma known_files_mono: "A \<subseteq> known_files net Q \<Longrightarrow> Q \<subseteq> Q' \<Longrightarrow> A \<subseteq> known_files net Q'"
  by (auto simp: known_files_def)

definition files_inv :: "string \<Rightarrow> nat set \<Rightarrow> vnet \<Rightarrow> bool" where
  "files_inv net P s \<longleftrightarrow> vn_open s \<subseteq> P \<inter> vn_past s
   \<and> (\<forall>p \<in> vn_open s. my_file net p \<in> vn_files s)
   \<and> (\<forall>path q. vn_bound s path = Some q \<longleftrightarrow> q \<in> vn_open s \<and> path = my_file net q)
   \<and> vn_files s \<subseteq> known_files net (P \<inter> vn_past s)
   \<and> (case vn_lock s of None \<Rightarrow> True | Some (m, left, seen) \<Rightarrow>
        left \<inter> seen = {} \<and> left \<subseteq> known_files net (P \<inter> vn_past s) \<and> seen \<subseteq> known_files net (P \<inter> vn_past s) \<and> (\<forall>q \<in> vm_reached m. my_file net q \<in> seen))"

lemma lockfile_not_my_file [simp]: "net_lockfile net \<noteq> my_file net n"
  by (rule my_file_not_lockfile [symmetric])

lemma net_entry_append: "net_entry net (in_dir (net_dir net) @ name) \<longleftrightarrow> name \<noteq> [] \<and> CHR ''/'' \<notin> set name"
  by (simp add: net_entry_def)

lemma my_file_entry: "net_entry net (my_file net p)"
proof -
  have "CHR ''/'' \<notin> set (to_dec p)" using to_dec_digits [of p] by (auto simp: list_all_iff is_digit_def)
  then show ?thesis by (simp add: net_entry_def my_file_path)
qed

lemma fitting_sun_path: "fitting net P \<Longrightarrow> p \<in> P \<Longrightarrow> sun_path Linux (my_file net p) = my_file net p"
  by (auto simp: fitting_def intro!: sun_path_whole)

lemma connect_refines:
  assumes "files_inv net P s" "fitting net P" "p \<in> P" "p \<notin> vn_past s"
  shows "files_inv net P (vnet_connect net works p s)
    \<and> (vnet_abs net (vnet_connect net works p s) = vnet_abs net s
      \<or> ideal_step n R (vnet_abs net s) (vnet_abs net (vnet_connect net works p s)))"
proof -
  have k: "my_file net p \<notin> known_files net (P \<inter> vn_past s)" using assms(4) by simp
  then have p: "p \<notin> vn_open s" "my_file net p \<notin> vn_files s"
    using assms(1,4) by (auto simp: files_inv_def)
  then have b: "vn_bound s (my_file net p) = None"
    using assms(1) by (cases "vn_bound s (my_file net p)") (auto simp: files_inv_def)
  have u: "unlink_file (my_file net p) s = s" using p b by (simp add: unlink_file_def fun_upd_idem)
  show ?thesis
  proof (cases works)
    case True
    let ?s = "s\<lparr>vn_open := insert p (vn_open s), vn_past := insert p (vn_past s), vn_files := insert (my_file net p) (vn_files s),
      vn_bound := (vn_bound s)(my_file net p \<mapsto> p), vn_queue := (vn_queue s)(p := []), vn_read := (vn_read s)(p := []),
      vn_given := (vn_given s)(p := [])\<rparr>"
    have e: "vnet_connect net works p s = ?s"
      using p(2) True by (simp add: vnet_connect_def u fitting_sun_path [OF assms(2,3)] Let_def)
    have left: "my_file net p \<notin> left" if "vn_lock s = Some (m, left, seen)" for m left seen
      using assms(1) k that by (auto simp: files_inv_def)
    have "vnet_abs net ?s = ideal_join p (vnet_abs net s)"
      using left by (auto simp: vnet_abs_def ideal_join_def split: option.split)
    moreover have "ideal_step n R (vnet_abs net s) (ideal_join p (vnet_abs net s))"
      using p(1) by (intro ideal_step.join) (simp add: vnet_abs_def)
    moreover have "files_inv net P ?s"
      using assms(1,3) p(1) b by (auto simp: files_inv_def elim!: known_files_mono split: option.splits)
    moreover note e
    ultimately show ?thesis by simp
  next
    case False
    then have "vnet_connect net works p s = s" by (simp add: vnet_connect_def u)
    then show ?thesis using assms(1) by simp
  qed
qed

lemma begin_refines:
  assumes "files_inv net P s" "p \<in> vn_open s" "vn_lock s = None"
  shows "files_inv net P (send_begin net p d s) \<and> ideal_step n R (vnet_abs net s) (vnet_abs net (send_begin net p d s))"
proof
  have "vnet_abs net (send_begin net p d s) = ideal_begin p d (vnet_abs net s)"
    using assms(1) by (auto simp: vnet_abs_def send_begin_def ideal_begin_def Let_def files_inv_def my_file_entry)
  then show "ideal_step n R (vnet_abs net s) (vnet_abs net (send_begin net p d s))"
    using assms(2,3) by (simp add: ideal_step.begin_send vnet_abs_def)
  show "files_inv net P (send_begin net p d s)"
    using assms(1,3) by (auto simp: files_inv_def send_begin_def Let_def)
qed

lemma end_refines:
  assumes "files_inv net P s" "vn_lock s = Some (m, {}, seen)"
  shows "files_inv net P (send_end s) \<and> ideal_step n R (vnet_abs net s) (vnet_abs net (send_end s))"
proof
  have "vnet_abs net (send_end s) = ideal_end (vnet_abs net s)"
    using assms(2) by (simp add: vnet_abs_def send_end_def ideal_end_def)
  then show "ideal_step n R (vnet_abs net s) (vnet_abs net (send_end s))"
    using assms(2) by (simp add: ideal_step.end_send vnet_abs_def)
  show "files_inv net P (send_end s)"
    using assms by (simp add: files_inv_def send_end_def)
qed

lemma receive_refines:
  assumes "files_inv net P s" "p \<in> vn_open s"
  shows "files_inv net P (recv_round R p s) \<and> ideal_step n R (vnet_abs net s) (vnet_abs net (recv_round R p s))"
proof
  have "vnet_abs net (recv_round R p s) = ideal_receive R p (vnet_abs net s)"
    by (simp add: vnet_abs_def recv_round_def ideal_receive_def split: list.split option.split)
  then show "ideal_step n R (vnet_abs net s) (vnet_abs net (recv_round R p s))"
    using assms(2) by (simp add: ideal_step.receive vnet_abs_def)
  show "files_inv net P (recv_round R p s)"
    using assms by (auto simp: files_inv_def recv_round_def split: list.split option.splits)
qed

lemma close_refines:
  assumes "files_inv net P s" "p \<in> vn_open s"
  shows "files_inv net P (vnet_close p s) \<and> ideal_step n R (vnet_abs net s) (vnet_abs net (vnet_close p s))"
proof
  have "vnet_abs net (vnet_close p s) = ideal_leave p (vnet_abs net s)"
    by (auto simp: vnet_abs_def vnet_close_def ideal_leave_def split: option.split)
  then show "ideal_step n R (vnet_abs net s) (vnet_abs net (vnet_close p s))"
    using assms(2) by (simp add: ideal_step.leave vnet_abs_def)
  show "files_inv net P (vnet_close p s)"
    using assms by (auto simp: files_inv_def vnet_close_def split: option.splits)
qed

lemma unlink_refines:
  assumes "files_inv net P s" "p \<notin> vn_open s"
  shows "files_inv net P (vnet_unlink net p s) \<and> vnet_abs net (vnet_unlink net p s) = vnet_abs net s"
  using assms by (auto simp: files_inv_def vnet_unlink_def unlink_file_def vnet_abs_def split: option.splits)

lemma round_refines:
  assumes "files_inv net P s" "fitting net P" and l: "vn_lock s = Some (m, left, seen)"
    and path: "path \<in> left \<or> path \<in> vn_files s \<and> net_entry net path \<and> path \<notin> seen"
  shows "files_inv net P (send_round net n path s)
    \<and> (vnet_abs net (send_round net n path s) = vnet_abs net s
      \<or> ideal_step n R (vnet_abs net s) (vnet_abs net (send_round net n path s)))"
proof (cases "\<exists>q \<in> vn_open s. q \<noteq> vm_sender m \<and> path = my_file net q")
  case True
  then obtain q where q: "q \<in> vn_open s" "q \<noteq> vm_sender m" "path = my_file net q" by blast
  have "q \<in> P" and b: "vn_bound s path = Some q" and "path \<notin> seen"
    using assms(1) q l path by (auto simp: files_inv_def)
  then have r: "send_round net n path s = (if vm_sender m \<in> vn_open s \<and> length (vm_data m) \<le> n
      then s\<lparr>vn_queue := (vn_queue s)(q := vn_queue s q @ [vm_data m]),
             vn_lock := Some (m\<lparr>vm_reached := insert q (vm_reached m)\<rparr>, left - {path}, insert path seen)\<rparr>
      else s\<lparr>vn_lock := Some (m, left - {path}, insert path seen)\<rparr>)"
    using q fitting_sun_path [OF assms(2)] by (simp add: send_round_def l Let_def)
  have "vnet_abs net (send_round net n path s) = ideal_round n q (vnet_abs net s)"
    unfolding r using q by (auto simp: vnet_abs_def ideal_round_def l)
  moreover have "ideal_step n R (vnet_abs net s) (ideal_round n q (vnet_abs net s))"
    using assms(1) q \<open>path \<notin> seen\<close> l
    by (intro ideal_step.round [where m = m]) (auto simp: vnet_abs_def files_inv_def)
  moreover have "files_inv net P (send_round net n path s)"
    using assms(1) q path l unfolding r by (auto simp: files_inv_def)
  ultimately show ?thesis by simp
next
  case False
  have "send_round net n path s = s\<lparr>vn_lock := Some (m, left - {path}, insert path seen)\<rparr>"
  proof (cases "vn_bound s (sun_path Linux path)")
    case (Some q)
    then have q: "q \<in> vn_open s" "sun_path Linux path = my_file net q" using assms(1) by (auto simp: files_inv_def)
    have "path \<in> known_files net (P \<inter> vn_past s)" using assms(1) l path by (auto simp: files_inv_def)
    then have "path = net_lockfile net \<or> path = my_file net q"
      using q(2) fitting_sun_path [OF assms(2)] by (auto simp: known_files_def)
    then show ?thesis using False q(1) by (auto simp: send_round_def l Let_def)
  qed (simp add: send_round_def l Let_def)
  then show ?thesis using assms(1) l path False
    by (auto simp: files_inv_def known_files_def vnet_abs_def)
qed

lemma step_refines:
  assumes "vnet_step net P n R s s'" "files_inv net P s" "fitting net P"
  shows "files_inv net P s' \<and> (vnet_abs net s' = vnet_abs net s \<or> ideal_step n R (vnet_abs net s) (vnet_abs net s'))"
  using assms(1)
proof (cases rule: vnet_step.cases)
  case (connect p works)
  then show ?thesis using connect_refines [OF assms(2,3)] by simp
next
  case (begin_send p d)
  then show ?thesis using begin_refines [OF assms(2)] by simp
next
  case (round m left seen path)
  then show ?thesis using round_refines [OF assms(2,3)] by simp
next
  case (end_send m seen)
  then show ?thesis using end_refines [OF assms(2)] by simp
next
  case (receive p)
  then show ?thesis using receive_refines [OF assms(2)] by simp
next
  case (close p)
  then show ?thesis using close_refines [OF assms(2)] by simp
next
  case (unlink p)
  then show ?thesis using unlink_refines [OF assms(2)] by simp
qed

lemma reach_refines:
  assumes "vnet_reach net P n R s" "fitting net P"
  shows "files_inv net P s \<and> ideal_reach n R (vnet_abs net s)"
  using assms(1)
proof induction
  case start
  have "vnet_abs net vnet_empty = ideal_empty" by (simp add: vnet_abs_def vnet_empty_def ideal_empty_def)
  then show ?case by (simp add: ideal_reach.start files_inv_def vnet_empty_def)
next
  case (more s s')
  then show ?case using step_refines [OF more(2) _ assms(2)] ideal_reach.more by metis
qed

lemma vnet_abs_msgs: "ideal_msgs (vnet_abs net s) = vnet_msgs s"
  by (simp add: ideal_msgs_def vnet_msgs_def vnet_abs_def split: option.split)

section \<open>Property\<close>

text \<open>C10: When the paths of the sockets fit \<^verbatim>\<open>sun_path\<close>, the processes of the network, which connect
  once each, see one order of messages, however their steps interleave: what a connected process has read, with what is queued for it, are the
  messages that reached it, whole and in the order in which their senders took the lock, never its own; a message within
  the limit of a datagram has reached, when its sending ends, every other process that was connected when it began and
  has stayed, unless its sender has disconnected meanwhile; and the receiver of a process has been given the non-empty
  messages it has read, cut to the size of the buffer.\<close>

theorem vnet_total_order:
  assumes "vnet_reach net P max_dgram R s" and "\<forall>p \<in> P. length (my_file net p) \<le> 107"
  shows "(\<forall>p \<in> vn_open s. vn_read s p @ vn_queue s p = for_process p (vnet_msgs s)
      \<and> vn_given s p = given_of R p (vn_read s p))
    \<and> (\<forall>m \<in> set (vnet_msgs s). vm_sender m \<notin> vm_reached m)
    \<and> (\<forall>m \<in> set (vn_log s). length (vm_data m) \<le> max_dgram \<longrightarrow> vm_audience m \<subseteq> vm_reached m)"
proof -
  have "ideal_inv max_dgram R (vnet_abs net s)"
    using reach_refines [OF assms(1)] assms(2) ideal_reach_inv unfolding fitting_def by blast
  then show ?thesis
    unfolding ideal_inv_def vnet_abs_msgs by (simp add: vnet_abs_def msg_ok_def)
qed

text \<open>A run of three processes: \<open>4\<close> sends to \<open>2\<close> and \<open>3\<close>, and \<open>2\<close> receives.\<close>

definition vnet_run :: vnet where
  "vnet_run = (let r = send_round ''a'' 100 in recv_round {2} 2 (send_end (r (net_lockfile ''a'')
     (r (my_file ''a'' 3) (r (my_file ''a'' 4) (r (my_file ''a'' 2) (send_begin ''a'' 4 [7]
       (vnet_connect ''a'' True 4 (vnet_connect ''a'' True 3 (vnet_connect ''a'' True 2 vnet_empty))))))))))"

lemma short_paths: "length (my_file ''a'' 2) \<le> 107" "length (my_file ''a'' 3) \<le> 107" "length (my_file ''a'' 4) \<le> 107"
  by (simp_all add: my_file_def net_dir_def path_join_def to_dec.simps)

lemma short_sun_paths: "sun_path Linux (my_file ''a'' 2) = my_file ''a'' 2" "sun_path Linux (my_file ''a'' 3) = my_file ''a'' 3"
  "sun_path Linux (my_file ''a'' 4) = my_file ''a'' 4"
  using short_paths by (simp_all add: sun_path_whole)

lemma net_lockfile_entry: "net_entry net (net_lockfile net)"
  by (simp add: net_entry_def net_lockfile_path)

text \<open>The states of the run.\<close>

definition run_state :: "nat set \<Rightarrow> string set \<Rightarrow> (nat \<Rightarrow> bytes list) \<Rightarrow> (vmsg \<times> string set \<times> string set) option \<Rightarrow> vnet" where
  "run_state ps extra queues held = \<lparr>vn_open = ps, vn_past = ps, vn_files = my_file ''a'' ` ps \<union> extra,
     vn_bound = (\<lambda>path. if path = my_file ''a'' 2 \<and> 2 \<in> ps then Some 2 else if path = my_file ''a'' 3 \<and> 3 \<in> ps then Some 3
       else if path = my_file ''a'' 4 \<and> 4 \<in> ps then Some 4 else None),
     vn_queue = queues, vn_read = (\<lambda>_. []), vn_given = (\<lambda>_. []), vn_lock = held, vn_log = []\<rparr>"

lemma run_connects:
  "vnet_connect ''a'' True 2 vnet_empty = run_state {2} {} (\<lambda>_. []) None"
  "vnet_connect ''a'' True 3 (run_state {2} {} (\<lambda>_. []) None) = run_state {2, 3} {} (\<lambda>_. []) None"
  "vnet_connect ''a'' True 4 (run_state {2, 3} {} (\<lambda>_. []) None) = run_state {2, 3, 4} {} (\<lambda>_. []) None"
  by (auto simp: vnet_connect_def unlink_file_def run_state_def vnet_empty_def Let_def short_sun_paths fun_eq_iff)

definition run_msg :: "nat set \<Rightarrow> vmsg" where
  "run_msg reached = \<lparr>vm_sender = 4, vm_data = [7], vm_reached = reached, vm_audience = {2, 3}\<rparr>"

definition run_sends :: "nat set \<Rightarrow> string set \<Rightarrow> string set \<Rightarrow> vnet" where
  "run_sends reached left seen = run_state {2, 3, 4} {net_lockfile ''a''} (\<lambda>p. if p \<in> reached then [[7]] else [])
     (Some (run_msg reached, left, seen))"

lemma run_begins:
  "send_begin ''a'' 4 [7] (run_state {2, 3, 4} {} (\<lambda>_. []) None)
     = run_sends {} {my_file ''a'' 2, my_file ''a'' 3, my_file ''a'' 4, net_lockfile ''a''} {}"
  by (auto simp: send_begin_def run_sends_def run_state_def run_msg_def Let_def my_file_entry net_lockfile_entry)

lemma run_rounds:
  "send_round ''a'' 100 (my_file ''a'' 2) (run_sends {} left seen) = run_sends {2} (left - {my_file ''a'' 2}) (insert (my_file ''a'' 2) seen)"
  "send_round ''a'' 100 (my_file ''a'' 3) (run_sends {2} left seen) = run_sends {2, 3} (left - {my_file ''a'' 3}) (insert (my_file ''a'' 3) seen)"
  "send_round ''a'' 100 (my_file ''a'' 4) (run_sends ps left seen) = run_sends ps (left - {my_file ''a'' 4}) (insert (my_file ''a'' 4) seen)"
  "send_round ''a'' 100 (net_lockfile ''a'') (run_sends ps left seen) = run_sends ps (left - {net_lockfile ''a''}) (insert (net_lockfile ''a'') seen)"
  by (auto simp: send_round_def run_sends_def run_state_def run_msg_def short_sun_paths fun_eq_iff)

lemma vnet_run_state:
  "vnet_run = recv_round {2} 2 (send_end (run_sends {2, 3} {} {net_lockfile ''a'', my_file ''a'' 3, my_file ''a'' 4, my_file ''a'' 2}))"
  by (simp add: vnet_run_def Let_def run_connects run_begins run_rounds insert_Diff_if insert_commute)

lemma vnet_run_reach: "vnet_reach ''a'' {2, 3, 4} 100 {2} vnet_run"
proof -
  let ?reach = "vnet_reach ''a'' {2, 3, 4} 100 {2}" and ?f = "my_file ''a''" and ?l = "net_lockfile ''a''"
  have "?reach (run_state {2} {} (\<lambda>_. []) None)"
    using vnet_reach.more [OF vnet_reach.start vnet_step.connect, of 2 "{2, 3, 4}" "''a''" 100 "{2}" True] by (simp add: run_connects) (simp add: vnet_empty_def)
  then have "?reach (run_state {2, 3} {} (\<lambda>_. []) None)"
    using vnet_reach.more [OF _ vnet_step.connect, of "''a''" "{2, 3, 4}" 100 "{2}" "run_state {2} {} (\<lambda>_. []) None" 3 True]
    by (simp add: run_connects) (simp add: run_state_def)
  then have "?reach (run_state {2, 3, 4} {} (\<lambda>_. []) None)"
    using vnet_reach.more [OF _ vnet_step.connect, of "''a''" "{2, 3, 4}" 100 "{2}" "run_state {2, 3} {} (\<lambda>_. []) None" 4 True]
    by (simp add: run_connects) (simp add: run_state_def)
  then have "?reach (run_sends {} {?f 2, ?f 3, ?f 4, ?l} {})"
    using vnet_reach.more [OF _ vnet_step.begin_send, of "''a''" "{2, 3, 4}" 100 "{2}" "run_state {2, 3, 4} {} (\<lambda>_. []) None" 4 "[7]"]
    by (simp add: run_begins) (simp add: run_state_def)
  moreover have round: "?reach (send_round ''a'' 100 path (run_sends ps left seen))"
    if "?reach (run_sends ps left seen)" "path \<in> left" for ps left seen path
    using that vnet_reach.more [OF that(1) vnet_step.round [of _ "run_msg ps" left seen path]] by (simp add: run_sends_def run_state_def)
  ultimately have "?reach (send_round ''a'' 100 (?f 2) (run_sends {} {?f 2, ?f 3, ?f 4, ?l} {}))" by simp
  then have "?reach (run_sends {2} {?f 3, ?f 4, ?l} {?f 2})" by (simp add: run_rounds insert_Diff_if)
  then have "?reach (send_round ''a'' 100 (?f 4) (run_sends {2} {?f 3, ?f 4, ?l} {?f 2}))" using round by simp
  then have "?reach (run_sends {2} {?f 3, ?l} {?f 4, ?f 2})" by (simp add: run_rounds insert_Diff_if)
  then have "?reach (send_round ''a'' 100 (?f 3) (run_sends {2} {?f 3, ?l} {?f 4, ?f 2}))" using round by simp
  then have "?reach (run_sends {2, 3} {?l} {?f 3, ?f 4, ?f 2})" by (simp add: run_rounds insert_Diff_if)
  then have "?reach (send_round ''a'' 100 ?l (run_sends {2, 3} {?l} {?f 3, ?f 4, ?f 2}))" using round by simp
  then have "?reach (run_sends {2, 3} {} {?l, ?f 3, ?f 4, ?f 2})" by (simp add: run_rounds insert_Diff_if)
  then have "?reach (send_end (run_sends {2, 3} {} {?l, ?f 3, ?f 4, ?f 2}))"
    by (rule vnet_reach.more [OF _ vnet_step.end_send]) (simp add: run_sends_def run_state_def)
  then show ?thesis unfolding vnet_run_state
    by (rule vnet_reach.more [OF _ vnet_step.receive]) (simp add: run_sends_def run_state_def send_end_def)
qed

theorem vnet_total_order_witness:
  "vnet_reach ''a'' {2, 3, 4} 100 {2} vnet_run \<and> vn_given vnet_run 2 = [[7]] \<and> vn_queue vnet_run 3 = [[7]] \<and> vn_queue vnet_run 4 = []
   \<and> vn_read vnet_run 2 @ vn_queue vnet_run 2 = for_process 2 (vnet_msgs vnet_run)"
proof -
  have "\<forall>p \<in> {2, 3, 4}. length (my_file ''a'' p) \<le> 107" using short_paths by simp
  from vnet_total_order [OF vnet_run_reach this, THEN conjunct1]
  have order: "\<forall>p \<in> vn_open vnet_run. vn_read vnet_run p @ vn_queue vnet_run p = for_process p (vnet_msgs vnet_run)" by blast
  have "2 \<in> vn_open vnet_run" by (simp add: vnet_run_state run_sends_def run_state_def send_end_def recv_round_def)
  with order have "vn_read vnet_run 2 @ vn_queue vnet_run 2 = for_process 2 (vnet_msgs vnet_run)" by blast
  moreover have "vn_given vnet_run 2 = [[7]] \<and> vn_queue vnet_run 3 = [[7]] \<and> vn_queue vnet_run 4 = []"
    by (simp add: vnet_run_state run_sends_def run_state_def run_msg_def send_end_def recv_round_def VIRTUAL_NET_MSG_MAX_SZ_def)
  ultimately show ?thesis
    using vnet_run_reach by blast
qed

text \<open>With a longer path the entry of the process is not its own file any more, and it sends to itself.\<close>

lemma long_path_sends_to_itself:
  assumes "length (in_dir (net_dir net)) < 107" "107 < length (my_file net p)" "length d \<le> n" and "p \<in> P"
  shows "\<exists>s path. vnet_reach net P n R s \<and> vn_lock s = None \<and> vn_open s = {p} \<and> vn_queue s p = []
    \<and> vnet_reach net P n R (send_round net n path (send_begin net p d s))
    \<and> vn_queue (send_round net n path (send_begin net p d s)) p = [d]"
proof (intro exI conjI)
  let ?s = "vnet_connect net True p vnet_empty" and ?path = "sun_path Linux (my_file net p)"
  let ?dir = "in_dir (net_dir net)"
  have path: "?path = ?dir @ take (107 - length ?dir) (to_dec p @ ''.file'')"
    using assms(1) by (simp add: sun_path_def my_file_path)
  have own: "?path \<noteq> my_file net p" using assms(2) by (auto simp: sun_path_def dest!: arg_cong [of _ _ length])
  obtain c cs where c: "to_dec p = c # cs" "is_digit c" using to_dec_start by blast
  obtain k where k: "107 - length ?dir = Suc k" using assms(1) by (cases "107 - length ?dir") auto
  have lock: "?path \<noteq> net_lockfile net" using c by (auto simp: path net_lockfile_path k is_digit_def)
  have "CHR ''/'' \<notin> set (to_dec p @ ''.file'')" using to_dec_digits [of p] by (auto simp: list_all_iff is_digit_def)
  then have slash: "CHR ''/'' \<notin> set (take (107 - length ?dir) (to_dec p @ ''.file''))" by (meson in_set_takeD)
  have "take (107 - length ?dir) (to_dec p @ ''.file'') \<noteq> []" by (simp add: k c)
  with slash have entry: "net_entry net ?path" unfolding path by (rule net_entry_append [THEN iffD2, OF conjI, rotated])
  have again: "sun_path Linux ?path = ?path" by (simp add: sun_path_def)
  have s: "?s = \<lparr>vn_open = {p}, vn_past = {p}, vn_files = {?path}, vn_bound = [?path \<mapsto> p], vn_queue = (\<lambda>_. []), vn_read = (\<lambda>_. []),
     vn_given = (\<lambda>_. []), vn_lock = None, vn_log = []\<rparr>"
    by (simp add: vnet_connect_def unlink_file_def vnet_empty_def Let_def fun_eq_iff)
  show reach: "vnet_reach net P n R ?s"
    using assms(4) by (intro vnet_reach.more [OF vnet_reach.start vnet_step.connect]) (simp_all add: vnet_empty_def)
  show "vn_lock ?s = None" "vn_open ?s = {p}" "vn_queue ?s p = []" by (simp_all add: s)
  have "vnet_reach net P n R (send_begin net p d ?s)"
    by (rule vnet_reach.more [OF reach vnet_step.begin_send]) (simp_all add: s)
  then show "vnet_reach net P n R (send_round net n ?path (send_begin net p d ?s))"
    by (rule vnet_reach.more [OF _ vnet_step.round]) (auto simp: send_begin_def Let_def s entry)
  show "vn_queue (send_round net n ?path (send_begin net p d ?s)) p = [d]"
    using own lock assms(3) by (simp add: send_round_def send_begin_def Let_def s again)
qed

end
