(* ===== verification/Dns_Print.thy ===== *)
theory Dns_Print
  imports Dns_Tool
begin

text \<open>
  Printing of DNS messages (\<^verbatim>\<open>print_dns_message\<close> of \<^verbatim>\<open>src/protocols/dns/dns.cpp\<close>), as
  the text that is written.  The loops run to the counts of the header and index the sections with them; names are printed
  as C strings.  The property says for which messages this reads beyond a vector, and what is printed for the others.
\<close>

section \<open>Printing\<close>

text \<open>\<^verbatim>\<open>v[i]\<close> of a vector.\<close>

definition at_index :: "'a list \<Rightarrow> nat \<Rightarrow> 'a result" where
  "at_index xs i = (if i < length xs then Inr (xs ! i) else Inl Overread)"

definition print_name :: "bytes \<Rightarrow> string result" where
  "print_name name = bind_r (c_string name) (\<lambda>s. Inr (''name: '' @ s @ '', ''))"

definition print_query :: "dns_query \<Rightarrow> string result" where
  "print_query q = bind_r (print_name (q_name q)) (\<lambda>n.
     Inr (n @ (case dns_record_type_to_str (q_type q) of Some t \<Rightarrow> ''type: '' @ t | None \<Rightarrow> ''type: unknown'') @ endl))"

definition print_ip4_rdata :: "bytes \<Rightarrow> string result" where
  "print_ip4_rdata dat = bind_r (extract_ip4_addr dat) (\<lambda>(addr, _). Inr (''has ip4 addr: '' @ ip4_addr_to_str addr))"

text \<open>An answer or an additional answer; other types print only the name.\<close>

definition print_answer :: "dns_answer \<Rightarrow> string result" where
  "print_answer a = bind_r (print_name (ans_name a)) (\<lambda>n.
     bind_r (if ans_type a = type_a then print_ip4_rdata (rdata a) else Inr []) (\<lambda>t. Inr (n @ t @ endl)))"

definition print_authority :: "dns_answer \<Rightarrow> string result" where
  "print_authority a = bind_r (print_name (ans_name a)) (\<lambda>n.
     bind_r (if ans_type a = type_ns then bind_r (c_string (rdata a)) (\<lambda>s. Inr (''has nameserver: '' @ s)) else Inr []) (\<lambda>t.
     Inr (n @ t @ endl)))"

fun print_loop :: "('a \<Rightarrow> string result) \<Rightarrow> 'a list \<Rightarrow> nat list \<Rightarrow> string result" where
  "print_loop f xs [] = Inr []"
| "print_loop f xs (i # is) = bind_r (at_index xs i) (\<lambda>x. bind_r (f x) (\<lambda>t. bind_r (print_loop f xs is) (\<lambda>ts. Inr (t @ ts))))"

definition print_section :: "string \<Rightarrow> u16 \<Rightarrow> bool \<Rightarrow> ('a \<Rightarrow> string result) \<Rightarrow> 'a list \<Rightarrow> string result" where
  "print_section title cnt shown f xs =
     (if 0 < cnt \<and> shown then bind_r (print_loop f xs [0..<unat cnt]) (\<lambda>t. Inr (title @ endl @ t)) else Inr [])"

definition print_dns_message :: "dns_message \<Rightarrow> bool \<Rightarrow> bool \<Rightarrow> string result" where
  "print_dns_message msg print_queries print_ans =
     (let h = msg_header msg;
          counts = ''number of queries: '' @ to_dec (unat (query_count h)) @ endl
            @ ''number of answer: '' @ to_dec (unat (ans_count h)) @ endl
            @ ''number of authoritative answers: '' @ to_dec (unat (auth_count h)) @ endl
            @ ''number of additional ans: '' @ to_dec (unat (add_count h)) @ endl
      in bind_r (print_section ''queries:'' (query_count h) print_queries print_query (queries msg)) (\<lambda>q.
         bind_r (print_section ''answers:'' (ans_count h) print_ans print_answer (ans msg)) (\<lambda>a.
         bind_r (print_section ''authoritative answers:'' (auth_count h) print_ans print_authority (ans_auth msg)) (\<lambda>u.
         bind_r (print_section ''additional answers:'' (add_count h) print_ans print_answer (ans_addit msg)) (\<lambda>d.
         Inr (counts @ q @ a @ u @ d))))))"

section \<open>What is printed\<close>

definition name_text :: "bytes \<Rightarrow> string" where
  "name_text bs = map (\<lambda>b. char_of (unat b)) (takeWhile (\<lambda>b. b \<noteq> 0) bs)"

definition query_line :: "dns_query \<Rightarrow> string" where
  "query_line q = ''name: '' @ name_text (q_name q) @ '', type: '' @
     (case dns_record_type_to_str (q_type q) of Some t \<Rightarrow> t | None \<Rightarrow> ''unknown'') @ endl"

definition answer_line :: "dns_answer \<Rightarrow> string" where
  "answer_line a = ''name: '' @ name_text (ans_name a) @ '', ''
     @ (if ans_type a = type_a then ''has ip4 addr: '' @ ip4_addr_to_str (fst (projr (extract_ip4_addr (rdata a)))) else []) @ endl"

definition authority_line :: "dns_answer \<Rightarrow> string" where
  "authority_line a = ''name: '' @ name_text (ans_name a) @ '', ''
     @ (if ans_type a = type_ns then ''has nameserver: '' @ name_text (rdata a) else []) @ endl"

definition query_printable :: "dns_query \<Rightarrow> bool" where
  "query_printable q \<longleftrightarrow> 0 \<in> set (q_name q)"

definition answer_printable :: "dns_answer \<Rightarrow> bool" where
  "answer_printable a \<longleftrightarrow> 0 \<in> set (ans_name a) \<and> \<not> (ans_type a = type_a \<and> length (rdata a) < 4)"

definition authority_printable :: "dns_answer \<Rightarrow> bool" where
  "authority_printable a \<longleftrightarrow> 0 \<in> set (ans_name a) \<and> \<not> (ans_type a = type_ns \<and> 0 \<notin> set (rdata a))"

definition section_lines :: "string \<Rightarrow> bool \<Rightarrow> ('a \<Rightarrow> string) \<Rightarrow> 'a list \<Rightarrow> string" where
  "section_lines title shown l xs = (if xs \<noteq> [] \<and> shown then title @ endl @ concat (map l xs) else [])"

lemma print_query_line: "print_query q = (if query_printable q then Inr (query_line q) else Inl Overread)"
  by (simp add: print_query_def print_name_def c_string_def query_printable_def query_line_def name_text_def split: option.split)

lemma print_answer_line: "print_answer a = (if answer_printable a then Inr (answer_line a) else Inl Overread)"
proof (cases "length (rdata a) < 4")
  case True
  then have "extract_ip4_addr (rdata a) = Inl Overread" by (simp add: extract_ip4_addr_fault)
  then show ?thesis
    using True by (simp add: print_answer_def print_name_def c_string_def print_ip4_rdata_def answer_printable_def answer_line_def name_text_def)
next
  case False
  then obtain ip n where "extract_ip4_addr (rdata a) = Inr (ip, n)"
    using extract_ip4_addr_fault [of "rdata a"] by (cases "extract_ip4_addr (rdata a)") auto
  then show ?thesis
    using False by (simp add: print_answer_def print_name_def c_string_def print_ip4_rdata_def answer_printable_def answer_line_def name_text_def)
qed

lemma print_authority_line: "print_authority a = (if authority_printable a then Inr (authority_line a) else Inl Overread)"
  by (simp add: print_authority_def print_name_def c_string_def authority_printable_def authority_line_def name_text_def)

lemma print_loop_lines:
  assumes "\<And>x. f x = (if ok x then Inr (l x) else Inl Overread)"
  shows "\<forall>i \<in> set is. i < length xs \<Longrightarrow> print_loop f xs is
    = (if \<forall>i \<in> set is. ok (xs ! i) then Inr (concat (map (\<lambda>i. l (xs ! i)) is)) else Inl Overread)"
  by (induction "is") (simp_all add: assms at_index_def)

lemma print_section_lines:
  assumes "\<And>x. f x = (if ok x then Inr (l x) else Inl Overread)" and "unat cnt = length xs"
  shows "print_section title cnt shown f xs
    = (if shown \<and> \<not> list_all ok xs then Inl Overread else Inr (section_lines title shown l xs))"
proof -
  have e: "(0 < cnt) = (xs \<noteq> [])" using assms(2) by (metis length_greater_0_conv word_neq_0_conv unat_gt_0)
  have m: "map (\<lambda>i. l (xs ! i)) [0..<length xs] = map l xs" by (rule nth_equalityI) simp_all
  have "print_loop f xs [0..<length xs] = (if list_all ok xs then Inr (concat (map l xs)) else Inl Overread)"
    using print_loop_lines [OF assms(1), of "[0..<length xs]" xs] by (simp add: m list_all_length)
  then show ?thesis by (auto simp: print_section_def section_lines_def e assms(2))
qed

lemma print_dns_message_lines:
  assumes "unat (query_count (msg_header msg)) = length (queries msg)" and "unat (ans_count (msg_header msg)) = length (ans msg)"
    and "unat (auth_count (msg_header msg)) = length (ans_auth msg)" and "unat (add_count (msg_header msg)) = length (ans_addit msg)"
  shows "print_dns_message msg pq pa =
    (if pq \<and> \<not> list_all query_printable (queries msg)
        \<or> pa \<and> \<not> (list_all answer_printable (ans msg) \<and> list_all authority_printable (ans_auth msg) \<and> list_all answer_printable (ans_addit msg))
     then Inl Overread
     else Inr (''number of queries: '' @ to_dec (length (queries msg)) @ endl @ ''number of answer: '' @ to_dec (length (ans msg)) @ endl
       @ ''number of authoritative answers: '' @ to_dec (length (ans_auth msg)) @ endl
       @ ''number of additional ans: '' @ to_dec (length (ans_addit msg)) @ endl
       @ section_lines ''queries:'' pq query_line (queries msg) @ section_lines ''answers:'' pa answer_line (ans msg)
       @ section_lines ''authoritative answers:'' pa authority_line (ans_auth msg)
       @ section_lines ''additional answers:'' pa answer_line (ans_addit msg)))"
  unfolding print_dns_message_def Let_def
    print_section_lines [OF print_query_line assms(1)] print_section_lines [OF print_answer_line assms(2)]
    print_section_lines [OF print_authority_line assms(3)] print_section_lines [OF print_answer_line assms(4)]
  by (auto simp: assms)

section \<open>Property\<close>

text \<open>Printing a message whose counts are the lengths of its sections writes the counts and a line for each item that
  is asked for, with its name, and its type, address or name server; and it reads beyond a vector exactly when a
  name that is printed has no null byte, an address record is shorter than an address, or the text of
  a name server has no null byte.\<close>

theorem dns_message_printed:
  assumes "unat (query_count (msg_header msg)) = length (queries msg)" and "unat (ans_count (msg_header msg)) = length (ans msg)"
    and "unat (auth_count (msg_header msg)) = length (ans_auth msg)" and "unat (add_count (msg_header msg)) = length (ans_addit msg)"
  shows "print_dns_message msg pq pa =
    (if pq \<and> \<not> list_all query_printable (queries msg)
        \<or> pa \<and> \<not> (list_all answer_printable (ans msg) \<and> list_all authority_printable (ans_auth msg) \<and> list_all answer_printable (ans_addit msg))
     then Inl Overread
     else Inr (''number of queries: '' @ to_dec (length (queries msg)) @ endl @ ''number of answer: '' @ to_dec (length (ans msg)) @ endl
       @ ''number of authoritative answers: '' @ to_dec (length (ans_auth msg)) @ endl
       @ ''number of additional ans: '' @ to_dec (length (ans_addit msg)) @ endl
       @ section_lines ''queries:'' pq query_line (queries msg) @ section_lines ''answers:'' pa answer_line (ans msg)
       @ section_lines ''authoritative answers:'' pa authority_line (ans_auth msg)
       @ section_lines ''additional answers:'' pa answer_line (ans_addit msg)))"
  by (rule print_dns_message_lines [OF assms])

theorem dns_message_printed_witness:
  "\<forall>u. let q = make_dns_query [0x61] type_a class_in in
     print_dns_message (address_reply u 1 q (Ip4_addr 1 2 3 4)) False True
       = Inr (''number of queries: 1'' @ endl @ ''number of answer: 1'' @ endl @ ''number of authoritative answers: 0'' @ endl
         @ ''number of additional ans: 0'' @ endl @ ''answers:'' @ endl @ ''name: a, has ip4 addr: 1.2.3.4'' @ endl)"
proof (intro allI)
  fix u
  let ?q = "make_dns_query [0x61] type_a class_in" and ?m = "address_reply u 1 (make_dns_query [0x61] type_a class_in) (Ip4_addr 1 2 3 4)"
  have c: "unat (query_count (msg_header ?m)) = length (queries ?m)" "unat (ans_count (msg_header ?m)) = length (ans ?m)"
    "unat (auth_count (msg_header ?m)) = length (ans_auth ?m)" "unat (add_count (msg_header ?m)) = length (ans_addit ?m)"
    by (simp_all add: address_reply_def)
  have t: "to_dec 1 = ''1''" "to_dec 0 = ''0''" "ip4_addr_to_str (Ip4_addr 1 2 3 4) = ''1.2.3.4''" "name_text [0x61, 0] = ''a''"
    by code_simp+
  have "answer_printable (answer_a ?q (Ip4_addr 1 2 3 4))" "answer_line (answer_a ?q (Ip4_addr 1 2 3 4)) = ''name: a, has ip4 addr: 1.2.3.4'' @ endl"
    using extract_write_ip4_addr [of "Ip4_addr 1 2 3 4" "[]"] t
    by (simp_all add: answer_printable_def answer_line_def answer_a_def make_dns_query_def)
  then show "let q = ?q in print_dns_message (address_reply u 1 q (Ip4_addr 1 2 3 4)) False True
       = Inr (''number of queries: 1'' @ endl @ ''number of answer: 1'' @ endl @ ''number of authoritative answers: 0'' @ endl
         @ ''number of additional ans: 0'' @ endl @ ''answers:'' @ endl @ ''name: a, has ip4 addr: 1.2.3.4'' @ endl)"
    unfolding Let_def dns_message_printed [OF c]
    by (simp add: address_reply_def section_lines_def t t(1) [unfolded One_nat_def])
qed

end
