(* ===== verification/Packets.thy ===== *)
theory Packets
  imports Prelude
begin

text \<open>
  The packet buffer of \<^verbatim>\<open>abstract/constructive_packet/constructive_packet.h\<close>: a deque of bytes
  with operations that put data before it, behind it, inside it and around it.  Positions outside the deque are
  undefined behaviour.
\<close>

definition append_data :: "bytes \<Rightarrow> bytes \<Rightarrow> bytes" where
  "append_data dat buff = fold (\<lambda>b buff. buff @ [b]) dat buff"

definition prepend_data :: "bytes \<Rightarrow> bytes \<Rightarrow> bytes" where
  "prepend_data dat buff = fold (\<lambda>b buff. b # buff) dat buff"

text \<open>\<^verbatim>\<open>deque::insert\<close> at an index.\<close>

definition insert_at :: "nat \<Rightarrow> bytes \<Rightarrow> bytes \<Rightarrow> bytes result" where
  "insert_at i dat buff = (if i \<le> length buff then Inr (take i buff @ dat @ drop i buff) else Inl Undefined)"

definition encapsulate_inside_packet :: "bytes \<Rightarrow> nat \<Rightarrow> bytes \<Rightarrow> bytes result" where
  "encapsulate_inside_packet dat offset buff = insert_at offset dat buff"

text \<open>The second position is \<^verbatim>\<open>--buff.end()\<close>, which an empty deque does not have.\<close>

definition encapsulate_the_packet :: "bytes \<Rightarrow> nat \<Rightarrow> bytes \<Rightarrow> bytes result" where
  "encapsulate_the_packet dat offset buff =
     (if length dat < offset then Inl Undefined
      else bind_r (insert_at 0 (take offset dat) buff) (\<lambda>buff.
        if buff = [] then Inl Undefined else insert_at (length buff - 1) (drop offset dat) buff))"

text \<open>Appending is right, but prepending reverses the data, and putting a packet inside data leaves its last byte
  behind the data: the rest of the data goes before the last byte of what is there.\<close>

theorem constructive_packet_results:
  "append_data dat buff = buff @ dat \<and> prepend_data dat buff = rev dat @ buff
   \<and> (offset \<le> length buff \<longrightarrow> encapsulate_inside_packet dat offset buff = Inr (take offset buff @ dat @ drop offset buff))
   \<and> (offset \<le> length dat \<and> buff \<noteq> [] \<longrightarrow>
        encapsulate_the_packet dat offset buff = Inr (take offset dat @ butlast buff @ drop offset dat @ [last buff]))"
proof -
  have "append_data dat buff = buff @ dat" unfolding append_data_def by (induction dat arbitrary: buff) simp_all
  moreover have "prepend_data dat buff = rev dat @ buff" unfolding prepend_data_def by (induction dat arbitrary: buff) simp_all
  moreover have "encapsulate_the_packet dat offset buff = Inr (take offset dat @ butlast buff @ drop offset dat @ [last buff])"
    if o: "offset \<le> length dat" "buff \<noteq> []"
  proof -
    obtain xs x where b: "buff = xs @ [x]" using o(2) by (cases buff rule: rev_cases) simp
    show ?thesis using o(1) by (simp add: encapsulate_the_packet_def insert_at_def b)
  qed
  ultimately show ?thesis by (simp add: encapsulate_inside_packet_def insert_at_def)
qed

theorem constructive_packet_results_witness:
  "prepend_data [1, 2] [9] = [2, 1, 9] \<and> encapsulate_the_packet [1, 2] 1 [8, 9] = Inr [1, 8, 2, 9]"
  using constructive_packet_results [of "[1, 2]" "[9]" 0] constructive_packet_results [of "[1, 2]" "[8, 9]" 1] by simp

end
