(* ===== verification/Commands.thy ===== *)
theory Commands
  imports Dns_Database Dns Mac_Addr Ptp_Text
begin

text \<open>
  The command lines of the programs that the build file builds: \<^verbatim>\<open>main\<close> of
  \<^verbatim>\<open>src/main/ping/ping.cpp\<close>, \<^verbatim>\<open>arp_scanner.cpp\<close>,
  \<^verbatim>\<open>arp_spoofer.cpp\<close>, \<^verbatim>\<open>dns_client.cpp\<close>, \<^verbatim>\<open>dns_server.cpp\<close>,
  the three \<^verbatim>\<open>netcat_local\<close> programs and \<^verbatim>\<open>net_analyzer.cpp\<close>, from the
  options to the call that starts the tool.  The parser of \<^verbatim>\<open>boost::program_options\<close> is not
  part of the repository: its result, the \<^verbatim>\<open>variables_map\<close>, is an argument, and what is relied
  on is that it only holds options of the program's table, with values of the declared types
  (\<open>well_parsed\<close>).  \<^verbatim>\<open>as<T>()\<close> throws when the value has another type or is absent.
\<close>

section \<open>Variables\<close>

datatype any =
    Any_string string
  | Any_strings "string list"
  | Any_int u32
  | Any_size "64 word"

type_synonym variables = "(string \<times> any) list"

datatype option_kind = Switch | Takes_string | Takes_strings | Takes_int | Takes_size

text \<open>An option without a declared type stores the empty string.\<close>

fun has_kind :: "option_kind \<Rightarrow> any \<Rightarrow> bool" where
  "has_kind Switch (Any_string s) = (s = [])"
| "has_kind Takes_string (Any_string s) = True"
| "has_kind Takes_strings (Any_strings ss) = True"
| "has_kind Takes_int (Any_int i) = True"
| "has_kind Takes_size (Any_size n) = True"
| "has_kind _ _ = False"

type_synonym options = "(string \<times> option_kind) list"

definition well_parsed :: "options \<Rightarrow> variables \<Rightarrow> bool" where
  "well_parsed opts vm \<longleftrightarrow>
     list_all (\<lambda>(name, v). case map_of opts name of None \<Rightarrow> False | Some k \<Rightarrow> has_kind k v) vm"

text \<open>\<^verbatim>\<open>vm.count(name)\<close> and \<^verbatim>\<open>vm[name].as<T>()\<close>.\<close>

definition given :: "variables \<Rightarrow> string \<Rightarrow> bool" where
  "given vm name \<longleftrightarrow> map_of vm name \<noteq> None"

definition as_string :: "variables \<Rightarrow> string \<Rightarrow> string result" where
  "as_string vm name = (case map_of vm name of Some (Any_string s) \<Rightarrow> Inr s | _ \<Rightarrow> Inl Thrown)"

definition as_strings :: "variables \<Rightarrow> string \<Rightarrow> string list result" where
  "as_strings vm name = (case map_of vm name of Some (Any_strings ss) \<Rightarrow> Inr ss | _ \<Rightarrow> Inl Thrown)"

definition as_int :: "variables \<Rightarrow> string \<Rightarrow> u32 result" where
  "as_int vm name = (case map_of vm name of Some (Any_int i) \<Rightarrow> Inr i | _ \<Rightarrow> Inl Thrown)"

definition as_size :: "variables \<Rightarrow> string \<Rightarrow> 64 word result" where
  "as_size vm name = (case map_of vm name of Some (Any_size n) \<Rightarrow> Inr n | _ \<Rightarrow> Inl Thrown)"

text \<open>What a \<^verbatim>\<open>main\<close> comes to: it prints the options, or a complaint, and returns 1, or it
  starts the tool on its arguments.\<close>

datatype 'a run = Usage | Complain string | Run 'a

text \<open>\<^verbatim>\<open>if (auto tmp = str_to_...(...); tmp.has_value()) ... else \<close> complain.\<close>

definition parsed_or :: "string \<Rightarrow> 'd option result \<Rightarrow> ('d \<Rightarrow> 'a run result) \<Rightarrow> 'a run result" where
  "parsed_or msg p k = bind_r p (\<lambda>tmp. case tmp of Some d \<Rightarrow> k d | None \<Rightarrow> Inr (Complain (msg @ endl)))"

text \<open>The common start: \<^verbatim>\<open>help\<close> and \<^verbatim>\<open>iface\<close>.\<close>

definition with_iface :: "variables \<Rightarrow> (string \<Rightarrow> 'a run result) \<Rightarrow> 'a run result" where
  "with_iface vm k =
     (if given vm ''help'' then Inr Usage
      else if \<not> given vm ''iface'' then Inr Usage
      else bind_r (as_string vm ''iface'') k)"

section \<open>The programs\<close>

subsection \<open>ping\<close>

definition ping_options :: options where
  "ping_options = [(''help'', Switch), (''iface'', Takes_string), (''dest'', Takes_string),
     (''interval'', Takes_size), (''count'', Takes_size)]"

definition ping_command ::
  "variables \<Rightarrow> (string \<times> ip4_addr \<times> 64 word option \<times> 64 word) run result" where
  "ping_command vm =
     with_iface vm (\<lambda>interface.
     if \<not> given vm ''dest'' then Inr Usage
     else bind_r (as_string vm ''dest'') (\<lambda>s. parsed_or ''invalid dest ip'' (str_to_ip4_addr s) (\<lambda>dest.
       bind_r (if given vm ''count'' then bind_r (as_size vm ''count'') (\<lambda>n. Inr (Some n)) else Inr None) (\<lambda>count.
       bind_r (if \<not> given vm ''interval'' then Inr 1000 else bind_r (as_int vm ''interval'') (\<lambda>i. Inr (scast i)))
         (\<lambda>interval. Inr (Run (interface, dest, count, interval)))))))"

subsection \<open>arp\_scanner\<close>

datatype arp_scan = Scan_single string ip4_addr | Scan_subnet string ip4_subnet_mask "64 word"

definition arp_scanner_options :: options where
  "arp_scanner_options = [(''help'', Switch), (''iface'', Takes_string), (''ip'', Takes_string),
     (''subnet'', Takes_string), (''delay'', Takes_int)]"

definition arp_scanner_command :: "variables \<Rightarrow> arp_scan run result" where
  "arp_scanner_command vm =
     with_iface vm (\<lambda>iface.
     if given vm ''ip'' then
       bind_r (as_string vm ''ip'') (\<lambda>s. parsed_or ''invalid ip'' (str_to_ip4_addr s) (\<lambda>addr.
         Inr (Run (Scan_single iface addr))))
     else if given vm ''subnet'' then
       bind_r (if \<not> given vm ''delay'' then Inr 5 else as_int vm ''ip'') (\<lambda>delay.
       bind_r (as_string vm ''subnet'') (\<lambda>s. parsed_or ''invalid subnet'' (str_to_ip4_subnet_mask s) (\<lambda>subnet.
         Inr (Run (Scan_subnet iface subnet (scast delay))))))
     else Inr Usage)"

subsection \<open>arp\_spoofer\<close>

definition arp_spoofer_options :: options where
  "arp_spoofer_options = [(''help'', Switch), (''iface'', Takes_string), (''victims'', Takes_strings),
     (''dest'', Takes_string), (''block'', Switch)]"

fun parse_victims :: "ip4_addr list \<Rightarrow> string list \<Rightarrow> ip4_addr list run result" where
  "parse_victims victims [] = Inr (Run victims)"
| "parse_victims victims (ip_addr # rest) =
     parsed_or ''invalid victim ip'' (str_to_ip4_addr ip_addr) (\<lambda>a. parse_victims (victims @ [a]) rest)"

definition then_run :: "'b run result \<Rightarrow> ('b \<Rightarrow> 'a run result) \<Rightarrow> 'a run result" where
  "then_run m k = bind_r m (\<lambda>r. case r of Usage \<Rightarrow> Inr Usage | Complain msg \<Rightarrow> Inr (Complain msg) | Run x \<Rightarrow> k x)"

definition arp_spoofer_command ::
  "variables \<Rightarrow> (string \<times> ip4_addr list \<times> ip4_addr \<times> bool) run result" where
  "arp_spoofer_command vm =
     with_iface vm (\<lambda>iface.
     if \<not> given vm ''dest'' then Inr Usage
     else bind_r (as_string vm ''dest'') (\<lambda>s. parsed_or ''invalid dest ip'' (str_to_ip4_addr s) (\<lambda>dest.
       let block = given vm ''block'' in
       then_run (if given vm ''victims'' then bind_r (as_strings vm ''victims'') (parse_victims []) else Inr (Run []))
         (\<lambda>victims. Inr (Run (iface, victims, dest, block))))))"

subsection \<open>dns\_client\<close>

definition dns_client_options :: options where
  "dns_client_options = [(''help'', Switch), (''iface'', Takes_string), (''server'', Takes_string),
     (''key'', Takes_string), (''type'', Takes_string), (''class'', Takes_string)]"

definition dns_client_command ::
  "variables \<Rightarrow> (string \<times> string \<times> dns_type \<times> dns_class \<times> ip4_addr) run result" where
  "dns_client_command vm =
     with_iface vm (\<lambda>iface.
     if \<not> given vm ''server'' then Inr Usage
     else bind_r (as_string vm ''server'') (\<lambda>s. parsed_or ''invalid dest ip'' (str_to_ip4_addr s) (\<lambda>server_ip.
       if \<not> given vm ''key'' then Inr Usage
       else bind_r (as_string vm ''key'') (\<lambda>key.
       then_run (if \<not> given vm ''type'' then Inr (Run type_a)
                 else bind_r (as_string vm ''type'') (\<lambda>t. parsed_or ''invalid type'' (Inr (str_to_dns_record_type t)) (\<lambda>ty. Inr (Run ty)))) (\<lambda>ty.
       then_run (if \<not> given vm ''class'' then Inr (Run class_in)
                 else bind_r (as_string vm ''class'') (\<lambda>c. parsed_or ''invalid class'' (Inr (str_to_dns_record_class c)) (\<lambda>cl. Inr (Run cl)))) (\<lambda>cl.
         Inr (Run (iface, key, ty, cl, server_ip))))))))"

subsection \<open>dns\_server\<close>

text \<open>The files that can be opened are an argument; \<open>u\<close> is the uninitialised key of a new node.\<close>

definition dns_server_options :: options where
  "dns_server_options = [(''help'', Switch), (''iface'', Takes_string), (''db_a'', Takes_string), (''db_mx'', Takes_string)]"

definition dns_server_command ::
  "(string \<Rightarrow> string option) \<Rightarrow> ip4_addr \<Rightarrow> variables \<Rightarrow> (string \<times> dns_database) run result" where
  "dns_server_command files u vm =
     with_iface vm (\<lambda>iface.
     bind_r (if given vm ''db_a''
             then bind_r (as_string vm ''db_a'') (\<lambda>db_path.
               bind_r (dns_parse_records_a (files db_path)) (load_records_a u (empty_database u)))
             else Inr (empty_database u)) (\<lambda>database.
     bind_r (if given vm ''db_mx''
             then bind_r (as_string vm ''db_mx'') (\<lambda>db_path.
               load_records_mx database (dns_parse_records_mx (files db_path)))
             else Inr database) (\<lambda>database.
     Inr (Run (iface, database)))))"

subsection \<open>netcat\_local\_ether2, netcat\_local\_ip4, netcat\_local\_ptp\<close>

datatype 'd netcat = As_server string | As_client string 'd

definition netcat_options :: options where
  "netcat_options = [(''help'', Switch), (''iface'', Takes_string), (''client'', Switch), (''server'', Switch),
     (''dest'', Takes_string)]"

definition netcat_ether2_command :: "variables \<Rightarrow> mac_addr netcat run result" where
  "netcat_ether2_command vm =
     with_iface vm (\<lambda>iface.
     if given vm ''server'' then Inr (Run (As_server iface))
     else if given vm ''client'' then
       (if \<not> given vm ''dest'' then Inr Usage
        else bind_r (as_string vm ''dest'') (\<lambda>s. parsed_or ''invalid mac addr'' (str_to_mac_addr s) (\<lambda>dest.
          Inr (Run (As_client iface dest)))))
     else Inr Usage)"

definition netcat_ip4_command :: "variables \<Rightarrow> ip4_addr netcat run result" where
  "netcat_ip4_command vm =
     with_iface vm (\<lambda>iface.
     if given vm ''server'' then Inr (Run (As_server iface))
     else if given vm ''client'' then
       (if \<not> given vm ''dest'' then Inr Usage
        else bind_r (as_string vm ''dest'') (\<lambda>s. parsed_or ''invalid ip4 addr'' (str_to_ip4_addr s) (\<lambda>dest.
          Inr (Run (As_client iface dest)))))
     else Inr Usage)"

text \<open>The parser of action lists cuts text in a loop; \<open>None\<close> is that it does not return.\<close>

definition netcat_ptp_command :: "variables \<Rightarrow> ptp_action_list netcat run result option" where
  "netcat_ptp_command vm =
     (if given vm ''help'' then Some (Inr Usage)
      else if \<not> given vm ''iface'' then Some (Inr Usage)
      else bind_ro (Some (as_string vm ''iface'')) (\<lambda>iface.
        if given vm ''server'' then Some (Inr (Run (As_server iface)))
        else if given vm ''client'' then
          (if \<not> given vm ''dest'' then Some (Inr Usage)
           else bind_ro (Some (as_string vm ''dest'')) (\<lambda>s.
             map_option (\<lambda>tmp. parsed_or ''invalid action list'' (Inr tmp) (\<lambda>action_list.
               Inr (Run (As_client iface action_list)))) (str_to_ptp_action_list s)))
        else Some (Inr Usage)))"

subsection \<open>net\_analyzer\<close>

definition net_analyzer_options :: options where
  "net_analyzer_options = [(''help'', Switch), (''iface'', Takes_string)]"

definition net_analyzer_command :: "variables \<Rightarrow> string run result" where
  "net_analyzer_command vm = with_iface vm (\<lambda>iface. Inr (Run iface))"

section \<open>Reading the variables\<close>

lemma well_parsed_kind:
  assumes "well_parsed opts vm" and "map_of vm name = Some v"
  shows "\<exists>k. map_of opts name = Some k \<and> has_kind k v"
  using assms map_of_SomeD [OF assms(2)]
  by (auto simp: well_parsed_def list_all_iff split: option.splits dest!: bspec [of _ _ "(name, v)"])

lemma has_kind_cases:
  "has_kind Switch v \<longleftrightarrow> v = Any_string []"
  "has_kind Takes_string v \<longleftrightarrow> (\<exists>s. v = Any_string s)"
  "has_kind Takes_strings v \<longleftrightarrow> (\<exists>ss. v = Any_strings ss)"
  "has_kind Takes_int v \<longleftrightarrow> (\<exists>i. v = Any_int i)"
  "has_kind Takes_size v \<longleftrightarrow> (\<exists>n. v = Any_size n)"
  by (cases v; simp)+

lemma given_string:
  assumes "well_parsed opts vm" and "map_of opts name = Some Takes_string"
  shows "given vm name \<longleftrightarrow> (\<exists>s. map_of vm name = Some (Any_string s))"
  using well_parsed_kind [OF assms(1)] assms(2) by (fastforce simp: given_def has_kind_cases)

lemma given_strings:
  assumes "well_parsed opts vm" and "map_of opts name = Some Takes_strings"
  shows "given vm name \<longleftrightarrow> (\<exists>ss. map_of vm name = Some (Any_strings ss))"
  using well_parsed_kind [OF assms(1)] assms(2) by (fastforce simp: given_def has_kind_cases)

lemma given_size:
  assumes "well_parsed opts vm" and "map_of opts name = Some Takes_size"
  shows "given vm name \<longleftrightarrow> (\<exists>n. map_of vm name = Some (Any_size n))"
  using well_parsed_kind [OF assms(1)] assms(2) by (fastforce simp: given_def has_kind_cases)

lemma as_Inr:
  "as_string vm name = Inr s \<longleftrightarrow> map_of vm name = Some (Any_string s)"
  "as_strings vm name = Inr ss \<longleftrightarrow> map_of vm name = Some (Any_strings ss)"
  "as_int vm name = Inr i \<longleftrightarrow> map_of vm name = Some (Any_int i)"
  "as_size vm name = Inr n \<longleftrightarrow> map_of vm name = Some (Any_size n)"
  by (auto simp: as_string_def as_strings_def as_int_def as_size_def split: option.splits any.splits)

lemma parsed_or_Run:
  "parsed_or msg p k = Inr (Run x) \<longleftrightarrow> (\<exists>d. p = Inr (Some d) \<and> k d = Inr (Run x))"
  by (auto simp: parsed_or_def bind_r_eq_Inr split: option.splits)

lemma with_iface_Run:
  "with_iface vm k = Inr (Run x) \<longleftrightarrow>
     \<not> given vm ''help'' \<and> (\<exists>i. map_of vm ''iface'' = Some (Any_string i) \<and> k i = Inr (Run x))"
  by (auto simp: with_iface_def given_def bind_r_eq_Inr as_Inr)

lemma then_run_Run:
  "then_run m k = Inr (Run x) \<longleftrightarrow> (\<exists>y. m = Inr (Run y) \<and> k y = Inr (Run x))"
  by (cases m; cases "projr m") (auto simp: then_run_def)

lemma parse_victims_print:
  "parse_victims victims (map ip4_addr_to_str as) = Inr (Run (victims @ as))"
  by (induction as arbitrary: victims) (simp_all add: parsed_or_def str_to_ip4_addr_print)

section \<open>Properties\<close>

text \<open>C40: When ping is started, whatever the options on its command line: exactly when help is not asked for, there is
  an interface and a destination that parses, and \<^verbatim>\<open>--interval\<close> is absent.  The option is declared
  with a value of type \<^verbatim>\<open>size_t\<close> and read as an \<^verbatim>\<open>int\<close>, so that giving it where ping would
  start ends the program with an exception, and every ping that is sent uses 1000 ms.\<close>

theorem ping_starts:
  assumes "well_parsed ping_options vm"
  shows "(ping_command vm = Inr (Run (iface, d, cnt, ms)) \<longleftrightarrow>
    \<not> given vm ''help'' \<and> map_of vm ''iface'' = Some (Any_string iface)
    \<and> (\<exists>s. map_of vm ''dest'' = Some (Any_string s) \<and> str_to_ip4_addr s = Inr (Some d))
    \<and> map_of vm ''count'' = map_option Any_size cnt \<and> \<not> given vm ''interval'' \<and> ms = 1000)
    \<and> (\<not> given vm ''help'' \<and> map_of vm ''iface'' = Some (Any_string iface)
        \<and> map_of vm ''dest'' = Some (Any_string s) \<and> str_to_ip4_addr s = Inr (Some d) \<and> given vm ''interval''
      \<longrightarrow> ping_command vm = Inl Thrown)"
proof -
  have interval: "as_int vm ''interval'' = Inl Thrown" if "given vm ''interval''"
    using that given_size [OF assms, of "''interval''"] by (auto simp: ping_options_def as_int_def)
  have count: "(if given vm ''count'' then bind_r (as_size vm ''count'') (\<lambda>n. Inr (Some n)) else Inr None)
      = Inr (map_option (\<lambda>v. case v of Any_size n \<Rightarrow> n) (map_of vm ''count''))"
    using given_size [OF assms, of "''count''"] by (auto simp: ping_options_def as_size_def given_def)
  have same: "map_option (\<lambda>v. case v of Any_size n \<Rightarrow> n) (map_of vm ''count'') = cnt
      \<longleftrightarrow> map_of vm ''count'' = map_option Any_size cnt"
    using given_size [OF assms, of "''count''"] by (cases cnt) (auto simp: ping_options_def given_def)
  have starts: "ping_command vm = Inr (Run (iface, d, cnt, ms)) \<longleftrightarrow>
    \<not> given vm ''help'' \<and> map_of vm ''iface'' = Some (Any_string iface)
    \<and> (\<exists>s. map_of vm ''dest'' = Some (Any_string s) \<and> str_to_ip4_addr s = Inr (Some d))
    \<and> map_of vm ''count'' = map_option Any_size cnt \<and> \<not> given vm ''interval'' \<and> ms = 1000"
    unfolding ping_command_def count
    by (auto simp: with_iface_Run parsed_or_Run bind_r_eq_Inr as_Inr interval same [symmetric] given_def)
  have throws: "\<not> given vm ''help'' \<Longrightarrow> map_of vm ''iface'' = Some (Any_string iface) \<Longrightarrow> map_of vm ''dest'' = Some (Any_string s)
      \<Longrightarrow> str_to_ip4_addr s = Inr (Some d) \<Longrightarrow> given vm ''interval'' \<Longrightarrow> ping_command vm = Inl Thrown"
    unfolding ping_command_def count
    by (simp add: with_iface_def as_string_def parsed_or_def then_run_def given_def interval [unfolded given_def])
  show ?thesis using starts throws by blast
qed

theorem ping_starts_witness:
  "ping_command [(''iface'', Any_string ''eth0''), (''dest'', Any_string ''10.0.0.7'')]
       = Inr (Run (''eth0'', Ip4_addr 10 0 0 7, None, 1000))
   \<and> ping_command [(''iface'', Any_string ''eth0''), (''dest'', Any_string ''10.0.0.7''), (''interval'', Any_size 500)] = Inl Thrown"
proof -
  have w: "well_parsed ping_options [(''iface'', Any_string ''eth0''), (''dest'', Any_string ''10.0.0.7'')]"
    "well_parsed ping_options [(''iface'', Any_string ''eth0''), (''dest'', Any_string ''10.0.0.7''), (''interval'', Any_size 500)]"
    by (simp_all add: well_parsed_def ping_options_def)
  have "str_to_ip4_addr ''10.0.0.7'' = Inr (Some (Ip4_addr 10 0 0 7))" by code_simp
  then show ?thesis using ping_starts [OF w(1)] ping_starts [OF w(2), of "''eth0''" "Ip4_addr 10 0 0 7" _ _ "''10.0.0.7''"]
    by (simp add: given_def)
qed

text \<open>When the scan of a subnet is started: \<^verbatim>\<open>--delay\<close> is looked up under \<^verbatim>\<open>ip\<close>,
  which is absent in this branch, so that giving it ends the program with an exception.\<close>

theorem arp_scanner_starts:
  "arp_scanner_command vm = Inr (Run (Scan_subnet iface subnet delay)) \<longleftrightarrow>
    \<not> given vm ''help'' \<and> map_of vm ''iface'' = Some (Any_string iface) \<and> \<not> given vm ''ip''
    \<and> (\<exists>s. map_of vm ''subnet'' = Some (Any_string s) \<and> str_to_ip4_subnet_mask s = Inr (Some subnet))
    \<and> \<not> given vm ''delay'' \<and> delay = 5"
proof -
  have five: "(scast (5 :: 32 word) :: 64 word) = 5" by simp
  have "as_int vm ''ip'' \<noteq> Inr i" if "\<not> given vm ''ip''" for i
    using that by (simp add: as_int_def given_def)
  then show ?thesis
    by (auto simp: arp_scanner_command_def with_iface_Run parsed_or_Run bind_r_eq_Inr as_Inr five given_def)
qed

text \<open>The spoofer starts on the victims whose printed forms are on its command line, in their order.\<close>

theorem arp_spoofer_on_printed_victims:
  assumes "\<not> given vm ''help''" and "map_of vm ''iface'' = Some (Any_string iface)"
    and "map_of vm ''dest'' = Some (Any_string (ip4_addr_to_str d))"
    and "map_of vm ''victims'' = Some (Any_strings (map ip4_addr_to_str vs))"
  shows "arp_spoofer_command vm = Inr (Run (iface, vs, d, given vm ''block''))"
  using assms parse_victims_print [of "[]" vs] str_to_ip4_addr_print
  by (simp add: arp_spoofer_command_def with_iface_def given_def as_string_def as_strings_def
      parsed_or_def then_run_def)

theorem arp_spoofer_on_printed_victims_witness:
  "arp_spoofer_command [(''iface'', Any_string ''eth0''), (''dest'', Any_string (ip4_addr_to_str (Ip4_addr 10 0 0 1))),
      (''victims'', Any_strings (map ip4_addr_to_str [Ip4_addr 10 0 0 7, Ip4_addr 10 0 0 9])), (''block'', Any_string [])]
    = Inr (Run (''eth0'', [Ip4_addr 10 0 0 7, Ip4_addr 10 0 0 9], Ip4_addr 10 0 0 1, True))"
  by (subst arp_spoofer_on_printed_victims [of _ "''eth0''" "Ip4_addr 10 0 0 1" "[Ip4_addr 10 0 0 7, Ip4_addr 10 0 0 9]"])
    (simp_all add: given_def)

text \<open>The three netcat clients start on the server whose printed address, or whose printed path, is on the
  command line; \<^verbatim>\<open>--server\<close> takes precedence over \<^verbatim>\<open>--client\<close>.\<close>

theorem netcat_on_printed_server:
  assumes "\<not> given vm ''help''" and "map_of vm ''iface'' = Some (Any_string iface)" and "given vm ''client''"
    and "map_of vm ''dest'' = Some (Any_string s)"
  shows "(s = mac_addr_to_str m \<longrightarrow>
        netcat_ether2_command vm = Inr (Run (if given vm ''server'' then As_server iface else As_client iface m)))
    \<and> (s = ip4_addr_to_str d \<longrightarrow>
        netcat_ip4_command vm = Inr (Run (if given vm ''server'' then As_server iface else As_client iface d)))
    \<and> (list_all printable as \<and> as \<noteq> [] \<and> ptp_action_list_to_str as = Inr (Some s) \<longrightarrow>
        netcat_ptp_command vm = Some (Inr (Run (if given vm ''server'' then As_server iface else As_client iface as))))"
  using assms ptp_action_list_print [of as] str_to_ip4_addr_print [of d] str_to_mac_addr_print [of m]
  by (auto simp: netcat_ether2_command_def netcat_ip4_command_def netcat_ptp_command_def with_iface_def given_def
      as_string_def parsed_or_def)

theorem netcat_on_printed_server_witness:
  "netcat_ip4_command [(''iface'', Any_string ''eth0''), (''client'', Any_string []), (''dest'', Any_string (ip4_addr_to_str (Ip4_addr 10 0 0 1)))]
    = Inr (Run (As_client ''eth0'' (Ip4_addr 10 0 0 1)))"
  using netcat_on_printed_server [of "[(''iface'', Any_string ''eth0''), (''client'', Any_string []),
    (''dest'', Any_string (ip4_addr_to_str (Ip4_addr 10 0 0 1)))]" "''eth0''" "ip4_addr_to_str (Ip4_addr 10 0 0 1)" _ "Ip4_addr 10 0 0 1"]
  by (simp add: given_def)

text \<open>The DNS server started on a file of address records answers every name of it with its last address, and no
  other name.\<close>

theorem dns_server_loads_records:
  assumes "list_all (\<lambda>(n, _). token n \<and> ascii_name n) entries" and "ascii_name w"
    and "\<not> given vm ''help''" and "map_of vm ''iface'' = Some (Any_string iface)"
    and "map_of vm ''db_a'' = Some (Any_string path)" and "files path = Some (records_file (a_lines entries))"
    and "\<not> given vm ''db_mx''"
  shows "\<exists>db. dns_server_command files u vm = Inr (Run (iface, db)) \<and> wf_database db
    \<and> search_record_a db w = Inr (map_of (rev entries) w)"
  using load_printed_records [OF assms(1,2), of u] assms(3-)
  by (auto simp: dns_server_command_def with_iface_def given_def as_string_def)

theorem dns_server_loads_records_witness:
  "\<exists>db. dns_server_command [''a.db'' \<mapsto> records_file (a_lines [(''b'', Ip4_addr 1 2 3 4), (''b'', Ip4_addr 9 9 9 9)])] (Ip4_addr 0 0 0 0)
      [(''iface'', Any_string ''eth0''), (''db_a'', Any_string ''a.db'')] = Inr (Run (''eth0'', db))
    \<and> search_record_a db ''b'' = Inr (Some (Ip4_addr 9 9 9 9))"
  using dns_server_loads_records [of "[(''b'', Ip4_addr 1 2 3 4), (''b'', Ip4_addr 9 9 9 9)]" "''b''"
      "[(''iface'', Any_string ''eth0''), (''db_a'', Any_string ''a.db'')]" "''eth0''" "''a.db''"
      "[''a.db'' \<mapsto> records_file (a_lines [(''b'', Ip4_addr 1 2 3 4), (''b'', Ip4_addr 9 9 9 9)])]" "Ip4_addr 0 0 0 0"]
  by (auto simp: token_def is_space_def ascii_name_def ascii_char_def given_def)

end
