(* ===== verification/Netcat.thy ===== *)
theory Netcat
  imports Net_Conversation
begin

text \<open>
  The text programs over one layer (\<^verbatim>\<open>src/main/netcat/netcat_local_ether2.cpp\<close> and
  \<^verbatim>\<open>netcat_local_ip4.cpp\<close>): a server that prints what its clients send, and a client that sends
  the lines of its standard input.  The device is the object 0 and the receiver, which both programs keep in a
  \<^verbatim>\<open>static\<close> variable, the object 1; the address of the interface, which the operating system
  gives, is an argument, and \<^verbatim>\<open>.value()\<close> throws when there is none.  The loop of a client is taken
  for a number of rounds; its input is the text that is left to read.  The loop of a server reads lines and
  drops them.
\<close>

section \<open>Printing and reading lines\<close>

text \<open>\<^verbatim>\<open>cout << prefix << (char*) data.data() << endl\<close>.\<close>

definition print_line :: "string \<Rightarrow> bytes \<Rightarrow> string result" where
  "print_line pre data = bind_r (c_string data) (\<lambda>s. Inr (pre @ s @ endl))"

text \<open>A receiver that prints, and sends nothing.\<close>

definition show_message :: "string \<Rightarrow> bytes \<Rightarrow> bytes list result option" where
  "show_message pre data = Some (bind_r (print_line pre data) (\<lambda>_. Inr []))"

text \<open>\<^verbatim>\<open>getline(cin, str)\<close> into an empty string: the line, which is empty at the end of the input,
  and the rest of the input.\<close>

definition cin_getline :: "string \<Rightarrow> string \<times> string" where
  "cin_getline inp = (takeWhile (\<lambda>c. c \<noteq> CHR 0x0A) inp, drop 1 (dropWhile (\<lambda>c. c \<noteq> CHR 0x0A) inp))"

definition line_bytes :: "string \<Rightarrow> bytes" where
  "line_bytes str = string_bytes str @ [0]"

fun netcat_client_loop :: "nat \<Rightarrow> string \<Rightarrow> ref \<Rightarrow> world \<Rightarrow> world result option" where
  "netcat_client_loop 0 inp n w = Some (Inr w)"
| "netcat_client_loop (Suc k) inp n w =
     (let (str, inp) = cin_getline inp in bind_ro (send_data n (line_bytes str) w) (netcat_client_loop k inp n))"

text \<open>The line that is read in a round.\<close>

fun typed_line :: "nat \<Rightarrow> string \<Rightarrow> string" where
  "typed_line 0 inp = fst (cin_getline inp)"
| "typed_line (Suc i) inp = typed_line i (snd (cin_getline inp))"

lemma typed_line_lines:
  "\<forall>l \<in> set ls. CHR 0x0A \<notin> set l \<Longrightarrow> typed_line i (concat (map (\<lambda>l. l @ [CHR 0x0A]) ls)) = (if i < length ls then ls ! i else [])"
proof (induction i arbitrary: ls)
  case 0
  then show ?case by (cases ls) (auto simp: cin_getline_def takeWhile_append)
next
  case (Suc i)
  have tl: "snd (cin_getline (concat (map (\<lambda>l. l @ [CHR 0x0A]) ls))) = concat (map (\<lambda>l. l @ [CHR 0x0A]) (tl ls))"
    using Suc.prems by (cases ls) (auto simp: cin_getline_def dropWhile_append)
  have "\<forall>l \<in> set (tl ls). CHR 0x0A \<notin> set l" using Suc.prems by (cases ls) auto
  from Suc.IH [OF this] show ?case unfolding typed_line.simps tl by (cases ls) auto
qed

lemma c_string_line: "c_string (line_bytes str) = Inr (takeWhile (\<lambda>c. c \<noteq> CHR 0x00) str)"
proof -
  have "takeWhile (\<lambda>b. b \<noteq> 0) (line_bytes str) = string_bytes (takeWhile (\<lambda>c. c \<noteq> CHR 0x00) str)"
    by (induction str) (auto simp: line_bytes_def string_bytes_def)
  then show ?thesis by (simp add: c_string_def string_bytes_def comp_def) (simp add: line_bytes_def)
qed

lemma print_line_typed: "print_line pre (line_bytes str) = Inr (pre @ takeWhile (\<lambda>c. c \<noteq> CHR 0x00) str @ endl)"
  by (simp add: print_line_def c_string_line)

section \<open>The programs\<close>

text \<open>The access to the device, and the static receiver.\<close>

definition netcat_world :: "string \<Rightarrow> world" where
  "netcat_world pre = \<lparr>objs = [0 \<mapsto> Base None, 1 \<mapsto> Replier 0 (show_message pre)], unused = 2, received = [], sent = []\<rparr>"

definition server_prefix :: string where "server_prefix = ''a client sent: ''"

definition client_prefix :: string where "client_prefix = ''the server sent: ''"

definition ethertype_unsed_prot :: ethertype where "ethertype_unsed_prot = 0x1234"

definition netcat_ether2_server :: "mac_addr option \<Rightarrow> world result" where
  "netcat_ether2_server own = bind_r (opt_value own) (\<lambda>a.
     ethernet2_connect_generator 0 (Some a) (Some ethertype_unsed_prot) (Some (Static_receiver 1)) (netcat_world server_prefix))"

definition netcat_ether2_client :: "mac_addr option \<Rightarrow> mac_addr \<Rightarrow> (ref \<times> world) result" where
  "netcat_ether2_client own server_addr = bind_r (opt_value own) (\<lambda>a.
     bind_r (ethernet2_net_access_single 0 server_addr (Some a) (Some ethertype_unsed_prot) (netcat_world client_prefix)) (\<lambda>(n, w).
     bind_r (set_recv_access n 1 w) (\<lambda>w. Inr (n, w))))"

definition ip4_unsed_prot :: ip_prot where "ip4_unsed_prot = 0xa0"

definition netcat_ip4_server :: "ip4_addr option \<Rightarrow> world result" where
  "netcat_ip4_server own = bind_r (opt_value own) (\<lambda>a.
     ip4_connect_generator 0 (Some a) (Some ip4_unsed_prot) (Some (Static_receiver 1)) (netcat_world server_prefix))"

definition netcat_ip4_client :: "ip4_addr option \<Rightarrow> ip4_addr \<Rightarrow> (ref \<times> world) result" where
  "netcat_ip4_client own server_addr = bind_r (opt_value own) (\<lambda>a.
     bind_r (ip4_net_access_single 0 server_addr (Some a) (Some ip4_unsed_prot) (netcat_world client_prefix)) (\<lambda>(n, w).
     bind_r (set_recv_access n 1 w) (\<lambda>w. Inr (n, w))))"

section \<open>A static receiver above a stack of generators\<close>

lemma static_frame:
  assumes "stacked_on (Static_receiver s) (c # cs) w" and "objs w s = Some (Replier n (show_message pre))"
    and "stack_filter (c # cs) [] d = Inr v" and "\<forall>acc e. v = Some (acc, e) \<longrightarrow> 0 \<in> set e"
  shows "\<exists>w'. (case recv_access w 0 of None \<Rightarrow> Some (Inr w) | Some l \<Rightarrow> exec addr (Handle l d) w) = Some (Inr w')
    \<and> stacked_on (Static_receiver s) (c # cs) w' \<and> objs w' s = Some (Replier n (show_message pre))
    \<and> received w' = received w @ map (Pair s) (payload (c # cs) d) \<and> sent w' = sent w"
proof (cases v)
  case None
  then show ?thesis using frame_reaches [OF assms(1), of addr d] assms(3) extends_keeps [OF _ assms(2)] stacked_extends [OF assms(1)]
    by (auto simp: reaches_def payload_def simp del: stack_filter.simps)
next
  case (Some x)
  obtain acc e where x: "x = (acc, e)" by fastforce
  obtain w' where w': "(case recv_access w 0 of None \<Rightarrow> Some (Inr w) | Some l \<Rightarrow> exec addr (Handle l d) w) = exec addr (Handle s e) w'"
    "wf_world w'" "extends w w'" "received w' = received w" "sent w' = sent w"
    using frame_reaches [OF assms(1), of addr d] by (auto simp: assms(3) Some x reaches_def top_receiver_def simp del: stack_filter.simps)
  have o: "objs w' s = Some (Replier n (show_message pre))" using extends_keeps [OF w'(3) assms(2)] by simp
  define w2 where "w2 = w'\<lparr>received := received w' @ [(s, e)]\<rparr>"
  have "0 \<in> set e" using assms(4) Some x by simp
  then have "exec addr (Handle s e) w' = Some (Inr w2)"
    using o by (simp add: exec.simps [of addr "Handle s e"] show_message_def print_line_def c_string_def w2_def)
  moreover have "extends w w2" "wf_world w2" using w'(2,3) by (simp_all add: w2_def wf_world_def)
  moreover have "payload (c # cs) d = [e]" by (simp add: payload_def assms(3) Some x del: stack_filter.simps)
  ultimately show ?thesis using stacked_extends [OF assms(1)] w' o by (simp add: w2_def)
qed

lemma static_frames:
  assumes "stacked_on (Static_receiver s) (c # cs) w" and "objs w s = Some (Replier n (show_message pre))"
    and "\<forall>d \<in> set ds. \<exists>v. stack_filter (c # cs) [] d = Inr v \<and> (\<forall>acc e. v = Some (acc, e) \<longrightarrow> 0 \<in> set e)"
  shows "\<exists>w'. run_frames addr ds w = Some (Inr w') \<and> received w' = received w @ map (Pair s) (concat (map (payload (c # cs)) ds))
    \<and> sent w' = sent w"
  using assms
proof (induction ds arbitrary: w)
  case (Cons d ds)
  obtain v where v: "stack_filter (c # cs) [] d = Inr v" "\<forall>acc e. v = Some (acc, e) \<longrightarrow> 0 \<in> set e" using Cons.prems(3) by auto
  obtain w1 where w1: "(case recv_access w 0 of None \<Rightarrow> Some (Inr w) | Some l \<Rightarrow> exec addr (Handle l d) w) = Some (Inr w1)"
    "stacked_on (Static_receiver s) (c # cs) w1" "objs w1 s = Some (Replier n (show_message pre))"
    "received w1 = received w @ map (Pair s) (payload (c # cs) d)" "sent w1 = sent w"
    using static_frame [OF Cons.prems(1,2) v] by blast
  have "\<forall>d \<in> set ds. \<exists>v. stack_filter (c # cs) [] d = Inr v \<and> (\<forall>acc e. v = Some (acc, e) \<longrightarrow> 0 \<in> set e)"
    using Cons.prems(3) by simp
  from Cons.IH [OF w1(2,3) this] show ?case using w1 by auto
qed simp

lemma static_frame_unterminated:
  assumes "stacked_on (Static_receiver s) (c # cs) w" and "objs w s = Some (Replier n (show_message pre))"
    and "stack_filter (c # cs) [] d = Inr (Some (acc, e))" and "0 \<notin> set e"
  shows "run_frames addr (d # ds) w = Some (Inl Overread)"
proof -
  obtain w' where w': "(case recv_access w 0 of None \<Rightarrow> Some (Inr w) | Some l \<Rightarrow> exec addr (Handle l d) w) = exec addr (Handle s e) w'"
    "extends w w'"
    using frame_reaches [OF assms(1), of addr d] by (auto simp: assms(3) reaches_def top_receiver_def simp del: stack_filter.simps)
  have o: "objs w' s = Some (Replier n (show_message pre))" using extends_keeps [OF w'(2) assms(2)] by simp
  show ?thesis using w'(1) o assms(4)
    by (simp add: exec.simps [of addr "Handle s e"] show_message_def print_line_def c_string_def bind_ro_def)
qed

text \<open>A frame that can be printed: it does not pass the filter, or it has a null byte behind the header.\<close>

definition printable_frame :: "conditions \<Rightarrow> bytes \<Rightarrow> bool" where
  "printable_frame c d = (case run_filter c d of Inl _ \<Rightarrow> False | Inr None \<Rightarrow> True | Inr (Some (_, e)) \<Rightarrow> 0 \<in> set e)"

lemma static_frames_any:
  assumes "stacked_on (Static_receiver s) [c] w" and "objs w s = Some (Replier n (show_message pre))"
    and "\<And>d e. run_filter c d = Inl e \<Longrightarrow> e = Overread"
  shows "if list_all (printable_frame c) ds
    then \<exists>w'. run_frames addr ds w = Some (Inr w') \<and> received w' = received w @ map (Pair s) (concat (map (payload [c]) ds)) \<and> sent w' = sent w
    else run_frames addr ds w = Some (Inl Overread)"
  using assms(1,2)
proof (induction ds arbitrary: w)
  case (Cons d ds)
  show ?case
  proof (cases "printable_frame c d")
    case True
    then obtain v where v: "stack_filter [c] [] d = Inr v" "\<forall>acc e. v = Some (acc, e) \<longrightarrow> 0 \<in> set e"
      by (auto simp: printable_frame_def split: sum.splits option.splits)
    obtain w1 where w1: "(case recv_access w 0 of None \<Rightarrow> Some (Inr w) | Some l \<Rightarrow> exec addr (Handle l d) w) = Some (Inr w1)"
      "stacked_on (Static_receiver s) [c] w1" "objs w1 s = Some (Replier n (show_message pre))"
      "received w1 = received w @ map (Pair s) (payload [c] d)" "sent w1 = sent w"
      using static_frame [OF Cons.prems v] by blast
    show ?thesis using Cons.IH [OF w1(2,3)] w1 True by (auto split: if_splits)
  next
    case False
    show ?thesis
    proof (cases "run_filter c d")
      case (Inl e)
      then have "run_frames addr (d # ds) w = Some (Inl e)"
        using frame_reaches [OF Cons.prems(1), of addr d] by (simp add: reaches_def bind_ro_def)
      then show ?thesis using False assms(3) [OF Inl] by simp
    next
      case (Inr r)
      then obtain q e where "r = Some (q, e)" "0 \<notin> set e"
        using False by (cases r) (auto simp: printable_frame_def)
      then show ?thesis
        using False static_frame_unterminated [OF Cons.prems, of d _ e addr ds] Inr by simp
    qed
  qed
qed simp

section \<open>The loop of a client\<close>

lemma client_loop_sends:
  assumes "ok w" and "\<And>w d. ok w \<Longrightarrow> send_data n d w = Some (bind_r (frame d) (\<lambda>f. Inr (w\<lparr>sent := sent w @ [(b, f)]\<rparr>)))"
    and "\<And>w x. ok w \<Longrightarrow> ok (w\<lparr>sent := x\<rparr>)" and "\<forall>i<k. frame (line_bytes (typed_line i inp)) = Inr (fs i)"
  shows "netcat_client_loop k inp n w = Some (Inr (w\<lparr>sent := sent w @ map (\<lambda>i. (b, fs i)) [0..<k]\<rparr>))"
  using assms(1,4)
proof (induction k arbitrary: inp w fs)
  case (Suc k)
  have f0: "frame (line_bytes (fst (cin_getline inp))) = Inr (fs 0)" using Suc.prems(2) by force
  define w1 where "w1 = w\<lparr>sent := sent w @ [(b, fs 0)]\<rparr>"
  have s: "send_data n (line_bytes (fst (cin_getline inp))) w = Some (Inr w1)"
    using assms(2) [OF Suc.prems(1)] f0 by (simp add: w1_def)
  have "ok w1" using assms(3) [OF Suc.prems(1)] by (simp add: w1_def)
  moreover have "\<forall>i<k. frame (line_bytes (typed_line i (snd (cin_getline inp)))) = Inr (fs (Suc i))"
    using Suc.prems(2) by fastforce
  ultimately show ?case using Suc.IH [of w1 "snd (cin_getline inp)" "\<lambda>i. fs (Suc i)"] s
    by (simp add: case_prod_unfold w1_def upt_conv_Cons map_Suc_upt [symmetric] comp_def del: upt_Suc)
qed simp

section \<open>The service of a layer\<close>

text \<open>What the programs rely on in a layer: the generator of the server listens under the conditions that the access of
  a client with the address \<open>a\<close> is sent for, from any source.\<close>

locale line_service =
  fixes server_layer :: conditions and client_layer :: "'a \<Rightarrow> conditions"
    and server :: "world result" and client :: "'a \<Rightarrow> (ref \<times> world) result"
  assumes listening: "listens server_layer"
    and opposite: "any_source (mirror (client_layer a)) = server_layer" "addressed (client_layer a)"
      "access_conditions (client_layer a)" "client_layer a \<noteq> Ptp_layer path"
    and server_def: "server = connect_layer 0 server_layer (Some (Static_receiver 1)) (netcat_world server_prefix)"
    and client_def: "client a = bind_r (make_access 0 (client_layer a) (netcat_world client_prefix)) (\<lambda>(n, w).
      bind_r (set_recv_access n 1 w) (\<lambda>w. Inr (n, w)))"
begin

lemma accepts:
  assumes "access_frame (client_layer a) d = Inr f"
  shows "\<exists>p. run_filter server_layer f = Inr (Some (p, d))"
  using mirror_accepts [OF assms] opposite by metis

lemma server_starts:
  "\<exists>w. server = Inr w \<and> stacked_on (Static_receiver 1) [server_layer] w
    \<and> objs w 1 = Some (Replier 0 (show_message server_prefix)) \<and> received w = [] \<and> sent w = []"
proof -
  have "wf_world (netcat_world server_prefix)" by (simp add: netcat_world_def wf_world_def)
  moreover have "objs (netcat_world server_prefix) 0 = Some (Base None)" by (simp add: netcat_world_def)
  ultimately show ?thesis
    using connect_layer_stacked [of "netcat_world server_prefix" None server_layer "[]" "Static_receiver 1"] listening
    by (auto simp: server_def netcat_world_def)
qed

text \<open>The frames the server does not reject are those of clients that send lines.\<close>

lemma payloads:
  assumes "list_all2 (\<lambda>d (a, str). access_frame (client_layer a) (line_bytes str) = Inr d) (filter (\<lambda>d. run_filter server_layer d \<noteq> Inr None) ds) evs"
  shows "concat (map (payload [server_layer]) ds) = map (\<lambda>(a, str). line_bytes str) evs
    \<and> (\<forall>d \<in> set ds. \<exists>v. stack_filter [server_layer] [] d = Inr v \<and> (\<forall>acc e. v = Some (acc, e) \<longrightarrow> 0 \<in> set e))"
  using assms
proof (induction ds arbitrary: evs)
  case (Cons d ds)
  show ?case
  proof (cases "run_filter server_layer d = Inr None")
    case True
    then show ?thesis using Cons by (auto simp: payload_def)
  next
    case False
    then obtain a str evs' where evs: "evs = (a, str) # evs'" "access_frame (client_layer a) (line_bytes str) = Inr d"
      "list_all2 (\<lambda>d (a, str). access_frame (client_layer a) (line_bytes str) = Inr d) (filter (\<lambda>d. run_filter server_layer d \<noteq> Inr None) ds) evs'"
      using Cons.prems by (auto simp: list_all2_Cons1)
    obtain p where "run_filter server_layer d = Inr (Some (p, line_bytes str))" using accepts [OF evs(2)] by blast
    then show ?thesis using Cons.IH [OF evs(3)] by (auto simp: payload_def evs(1) line_bytes_def)
  qed
qed simp

lemma server_prints:
  assumes "list_all2 (\<lambda>d (a, str). access_frame (client_layer a) (line_bytes str) = Inr d) (filter (\<lambda>d. run_filter server_layer d \<noteq> Inr None) ds) evs"
  shows "\<exists>w w'. server = Inr w \<and> run_frames addr ds w = Some (Inr w') \<and> received w' = map (\<lambda>(a, str). (1, line_bytes str)) evs \<and> sent w' = []"
proof -
  obtain w where w: "server = Inr w" "stacked_on (Static_receiver 1) [server_layer] w"
    "objs w 1 = Some (Replier 0 (show_message server_prefix))" "received w = []" "sent w = []"
    using server_starts by blast
  note p = payloads [OF assms]
  obtain w' where "run_frames addr ds w = Some (Inr w')" "sent w' = sent w"
    "received w' = received w @ map (Pair 1) (concat (map (payload [server_layer]) ds))"
    using static_frames [OF w(2,3) conjunct2 [OF p], of addr] by blast
  then show ?thesis using w conjunct1 [OF p] by (auto simp: case_prod_unfold)
qed

lemma server_overreads:
  assumes "run_filter server_layer d = Inr (Some (p, e))" and "0 \<notin> set e"
  shows "\<exists>w. server = Inr w \<and> run_frames addr (d # ds) w = Some (Inl Overread)"
  using server_starts static_frame_unterminated [of 1 server_layer "[]" _ 0 server_prefix d _ e addr ds] assms by fastforce

text \<open>Whatever frames arrive.\<close>

lemma server_shows:
  assumes "\<And>d e. run_filter server_layer d = Inl e \<Longrightarrow> e = Overread"
  shows "\<exists>w. server = Inr w \<and>
    (if list_all (printable_frame server_layer) ds
     then \<exists>w'. run_frames addr ds w = Some (Inr w') \<and> received w' = map (Pair 1) (concat (map (payload [server_layer]) ds)) \<and> sent w' = []
     else run_frames addr ds w = Some (Inl Overread))"
proof -
  obtain w where w: "server = Inr w" "stacked_on (Static_receiver 1) [server_layer] w"
    "objs w 1 = Some (Replier 0 (show_message server_prefix))" "received w = []" "sent w = []"
    using server_starts by blast
  have "run_filter server_layer d = Inl e \<Longrightarrow> e = Overread" for d e by (rule assms)
  from static_frames_any [OF w(2,3) this, where ds = ds and addr = addr] show ?thesis using w(1,4,5) by auto
qed

lemma client_line_shown:
  assumes "access_frame (client_layer a) (line_bytes str) = Inr d"
  shows "printable_frame server_layer d \<and> payload [server_layer] d = [line_bytes str]"
  using accepts [OF assms] by (auto simp: printable_frame_def payload_def line_bytes_def)

lemma client_starts:
  "\<exists>n w. client a = Inr (n, w) \<and> send_path w n [client_layer a] 0 \<and> sent w = [] \<and> received w = []"
  by (simp add: client_def world_defs netcat_world_def Let_def through_def)

lemma client_rounds:
  assumes "send_path w n [client_layer a] 0"
    and "\<forall>i<k. access_frame (client_layer a) (line_bytes (typed_line i inp)) = Inr (fs i)"
  shows "netcat_client_loop k inp n w = Some (Inr (w\<lparr>sent := sent w @ map (\<lambda>i. (0, fs i)) [0..<k]\<rparr>))"
proof (rule client_loop_sends [where ok = "\<lambda>w. send_path w n [client_layer a] 0" and frame = "access_frame (client_layer a)", OF assms(1) _ _ assms(2)])
  show "send_path w n [client_layer a] 0 \<Longrightarrow> send_data n d w = Some (bind_r (access_frame (client_layer a) d)
      (\<lambda>f. Inr (w\<lparr>sent := sent w @ [(0, f)]\<rparr>)))" for w d
    using send_along_path [of w n "[client_layer a]" 0 d] by (cases "access_frame (client_layer a) d") simp_all
  show "send_path w n [client_layer a] 0 \<Longrightarrow> send_path (w\<lparr>sent := x\<rparr>) n [client_layer a] 0" for w x
    by (rule send_path_extends [of w]) (simp_all add: extends_def)
qed

end

definition ether2_server_layer :: "mac_addr \<Rightarrow> conditions" where
  "ether2_server_layer server = Ether2_layer \<lparr>cond_src = None, cond_dest = Some server, cond_type = Some ethertype_unsed_prot\<rparr>"

definition ether2_client_layer :: "mac_addr \<Rightarrow> mac_addr \<Rightarrow> conditions" where
  "ether2_client_layer server a = Ether2_layer \<lparr>cond_src = Some server, cond_dest = Some a, cond_type = Some ethertype_unsed_prot\<rparr>"

definition ip4_server_layer :: "ip4_addr \<Rightarrow> conditions" where
  "ip4_server_layer server = Ip4_layer \<lparr>ip_cond_src = None, ip_cond_dest = Some server, ip_cond_prot = Some ip4_unsed_prot\<rparr>"

definition ip4_client_layer :: "ip4_addr \<Rightarrow> ip4_addr \<Rightarrow> conditions" where
  "ip4_client_layer server a = Ip4_layer \<lparr>ip_cond_src = Some server, ip_cond_dest = Some a, ip_cond_prot = Some ip4_unsed_prot\<rparr>"

interpretation over_ether2: line_service "ether2_server_layer server_addr" "ether2_client_layer server_addr"
    "netcat_ether2_server (Some server_addr)" "\<lambda>a. netcat_ether2_client (Some a) server_addr" for server_addr
  by unfold_locales (simp_all add: ether2_server_layer_def ether2_client_layer_def netcat_ether2_server_def netcat_ether2_client_def
      opt_value_def access_defs)

interpretation over_ip4: line_service "ip4_server_layer server_addr" "ip4_client_layer server_addr"
    "netcat_ip4_server (Some server_addr)" "\<lambda>a. netcat_ip4_client (Some a) server_addr" for server_addr
  by unfold_locales (simp_all add: ip4_server_layer_def ip4_client_layer_def netcat_ip4_server_def netcat_ip4_client_def
      opt_value_def access_defs)

section \<open>Properties\<close>

lemma ether2_filter_fault: "run_filter (ether2_server_layer server_addr) d = Inl e \<Longrightarrow> e = Overread"
  by (auto simp: ether2_server_layer_def with_peer_def ethernet2_recv_def result_simps extract_ethernet2_header_fault
      split: if_splits sum.splits option.splits prod.splits)

lemma print_any: "print_line pre e = (if 0 \<in> set e then Inr (pre @ map (\<lambda>b. char_of (unat b)) (takeWhile (\<lambda>b. b \<noteq> 0) e) @ endl) else Inl Overread)"
  by (simp add: print_line_def c_string_def)

lemma payload_printable:
  "list_all (printable_frame c) ds \<Longrightarrow> \<forall>e \<in> set (concat (map (payload [c]) ds)). 0 \<in> set e"
proof (induction ds)
  case (Cons d ds)
  then have "printable_frame c d" by simp
  then have "\<forall>e \<in> set (payload [c] d). 0 \<in> set e"
    by (auto simp: printable_frame_def payload_def split: sum.splits option.splits)
  with Cons show ?case by auto
qed simp

text \<open>C22: On any frames whatsoever the Ethernet server prints, for each that passes its filter, in the order of arrival
  and once, the bytes behind the header up to the first null byte, and it sends nothing; unless some frame is shorter
  than a header or passes the filter without a null byte, and then it reads beyond that frame.  The frame of a client's
  line is not such a frame, and passes with the line.\<close>

theorem netcat_ether2_prints_lines:
  "(\<exists>w. netcat_ether2_server (Some server_addr) = Inr w \<and>
     (if list_all (printable_frame (ether2_server_layer server_addr)) ds
      then \<exists>w'. run_frames addr ds w = Some (Inr w') \<and> sent w' = []
        \<and> map (\<lambda>(_, e). print_line server_prefix e) (received w')
          = map (\<lambda>e. Inr (''a client sent: '' @ map (\<lambda>b. char_of (unat b)) (takeWhile (\<lambda>b. b \<noteq> 0) e) @ endl))
              (concat (map (payload [ether2_server_layer server_addr]) ds))
      else run_frames addr ds w = Some (Inl Overread)))
   \<and> (access_frame (ether2_client_layer server_addr a) (line_bytes str) = Inr d \<longrightarrow>
        printable_frame (ether2_server_layer server_addr) d \<and> payload [ether2_server_layer server_addr] d = [line_bytes str])"
proof -
  obtain w where w: "netcat_ether2_server (Some server_addr) = Inr w"
    "if list_all (printable_frame (ether2_server_layer server_addr)) ds
     then \<exists>w'. run_frames addr ds w = Some (Inr w') \<and> received w' = map (Pair 1) (concat (map (payload [ether2_server_layer server_addr]) ds)) \<and> sent w' = []
     else run_frames addr ds w = Some (Inl Overread)"
    using over_ether2.server_shows [where server_addr = server_addr and ds = ds and addr = addr] ether2_filter_fault by blast
  moreover have "map (\<lambda>(_, e). print_line server_prefix e) (map (Pair x) es)
      = map (\<lambda>e. Inr (''a client sent: '' @ map (\<lambda>b. char_of (unat b)) (takeWhile (\<lambda>b. b \<noteq> 0) e) @ endl)) es"
    if "\<forall>e \<in> set es. 0 \<in> set e" for es and x :: ref
    using that by (simp add: print_any server_prefix_def)
  ultimately have "if list_all (printable_frame (ether2_server_layer server_addr)) ds
      then \<exists>w'. run_frames addr ds w = Some (Inr w') \<and> sent w' = []
        \<and> map (\<lambda>(_, e). print_line server_prefix e) (received w')
          = map (\<lambda>e. Inr (''a client sent: '' @ map (\<lambda>b. char_of (unat b)) (takeWhile (\<lambda>b. b \<noteq> 0) e) @ endl))
              (concat (map (payload [ether2_server_layer server_addr]) ds))
      else run_frames addr ds w = Some (Inl Overread)"
    using payload_printable [of "ether2_server_layer server_addr" ds] by (smt (verit, ccfv_threshold))
  with w(1) show ?thesis
    using over_ether2.client_line_shown [where server_addr = server_addr and a = a and str = str and d = d] by blast
qed

theorem netcat_ether2_prints_lines_witness:
  "\<exists>w w'. netcat_ether2_server (Some (Mac_addr 2 0 0 0 0 1)) = Inr w
    \<and> run_frames id [[2,0,0,0,0,1, 2,0,0,0,0,2, 0x08,0x06, 9], [2,0,0,0,0,1, 2,0,0,0,0,2, 0x12,0x34, 104,105,0]] w = Some (Inr w')
    \<and> sent w' = [] \<and> map (\<lambda>(_, d). print_line server_prefix d) (received w') = [Inr (''a client sent: hi'' @ endl)]"
proof -
  let ?s = "Mac_addr 2 0 0 0 0 1" and ?a = "Mac_addr 2 0 0 0 0 2"
  let ?arp = "[2,0,0,0,0,1, 2,0,0,0,0,2, 0x08,0x06, 9] :: bytes" and ?f = "[2,0,0,0,0,1, 2,0,0,0,0,2, 0x12,0x34, 104,105,0] :: bytes"
  have r: "run_filter (ether2_server_layer ?s) ?arp = Inr None" by code_simp
  have f: "access_frame (ether2_client_layer ?s ?a) (line_bytes ''hi'') = Inr ?f" by code_simp
  note any = netcat_ether2_prints_lines [of ?s "[?arp, ?f]" id ?a "''hi''" ?f]
  then have p: "printable_frame (ether2_server_layer ?s) ?f" "payload [ether2_server_layer ?s] ?f = [line_bytes ''hi'']" using f by blast+
  have l: "line_bytes ''hi'' = [104, 105, 0]" by code_simp
  have q: "list_all (printable_frame (ether2_server_layer ?s)) [?arp, ?f]" using r p(1) by (simp add: printable_frame_def)
  have c: "concat (map (payload [ether2_server_layer ?s]) [?arp, ?f]) = [[104, 105, 0]]" using r p(2) l by (simp add: payload_def)
  have t: "map (\<lambda>e. Inr (''a client sent: '' @ map (\<lambda>b. char_of (unat b)) (takeWhile (\<lambda>b. b \<noteq> 0) e) @ endl)) [[104, 105, 0 :: u8]]
      = [Inr (''a client sent: hi'' @ endl) :: string result]" by code_simp
  show ?thesis using any [THEN conjunct1] unfolding if_P [OF q] c t by (elim exE conjE, intro exI conjI)
qed

text \<open>A client sends one frame a round, with the line of the round; when its input has ended it sends empty lines,
  without end.\<close>

theorem netcat_ip4_client_sends:
  assumes "\<forall>l \<in> set ls. CHR 0x0A \<notin> set l"
    and "\<forall>i<k. access_frame (ip4_client_layer server_addr a) (line_bytes (if i < length ls then ls ! i else [])) = Inr (fs i)"
  shows "\<exists>n w w'. netcat_ip4_client (Some a) server_addr = Inr (n, w)
    \<and> netcat_client_loop k (concat (map (\<lambda>l. l @ [CHR 0x0A]) ls)) n w = Some (Inr w')
    \<and> sent w' = map (\<lambda>i. (0, fs i)) [0..<k]"
proof -
  obtain n w where w: "netcat_ip4_client (Some a) server_addr = Inr (n, w)" "send_path w n [ip4_client_layer server_addr a] 0" "sent w = []"
    using over_ip4.client_starts by blast
  have "\<forall>i<k. access_frame (ip4_client_layer server_addr a) (line_bytes (typed_line i (concat (map (\<lambda>l. l @ [CHR 0x0A]) ls)))) = Inr (fs i)"
    using assms by (simp add: typed_line_lines)
  from over_ip4.client_rounds [OF w(2) this] show ?thesis using w by simp
qed

theorem netcat_ip4_client_sends_witness:
  "\<exists>n w w'. netcat_ip4_client (Some (Ip4_addr 10 0 0 2)) (Ip4_addr 10 0 0 1) = Inr (n, w)
    \<and> netcat_client_loop 2 [CHR ''h'', CHR 0x0A] n w = Some (Inr w')
    \<and> map snd (sent w') = [projr (access_frame (ip4_client_layer (Ip4_addr 10 0 0 1) (Ip4_addr 10 0 0 2)) [104, 0]),
        projr (access_frame (ip4_client_layer (Ip4_addr 10 0 0 1) (Ip4_addr 10 0 0 2)) [0])]"
proof -
  let ?l = "ip4_client_layer (Ip4_addr 10 0 0 1) (Ip4_addr 10 0 0 2)" and ?ls = "[''h'']"
  let ?f = "\<lambda>i::nat. projr (access_frame ?l (if i = 0 then [104, 0] else [0]))"
  have b: "line_bytes ''h'' = [104, 0]" "line_bytes [] = [0]" by code_simp+
  have ok: "\<exists>f. access_frame ?l (if i = 0 then [104, 0] else [0]) = Inr f" for i :: nat
    by (simp add: ip4_client_layer_def send_defs)
  have "Inr (?f i) = access_frame ?l (if i = 0 then [104, 0] else [0])" for i
    using ok [of i] by (metis sum.sel(2))
  then have "\<forall>i<2. access_frame ?l (line_bytes (if i < length ?ls then ?ls ! i else [])) = Inr (?f i)"
    by (simp add: b less_2_cases_iff all_conj_distrib)
  from netcat_ip4_client_sends [OF _ this] show ?thesis by (auto simp: upt_rec [of _ "Suc _"] numeral_2_eq_2)
qed

text \<open>A frame for the server whose data have no null byte makes it read beyond the data.\<close>

theorem netcat_ip4_server_overreads:
  assumes "run_filter (ip4_server_layer server_addr) d = Inr (Some (p, e))" and "0 \<notin> set e"
  shows "\<exists>w. netcat_ip4_server (Some server_addr) = Inr w \<and> run_frames addr (d # ds) w = Some (Inl Overread)"
  by (rule over_ip4.server_overreads [OF assms])


theorem netcat_ip4_server_overreads_witness:
  "\<exists>w. netcat_ip4_server (Some (Ip4_addr 10 0 0 1)) = Inr w
    \<and> run_frames id [[0x45,0,0,21, 0,0,0,0, 64,0xa0,0,0, 10,0,0,2, 10,0,0,1, 104]] w = Some (Inl Overread)"
proof -
  let ?d = "[0x45,0,0,21, 0,0,0,0, 64,0xa0,0,0, 10,0,0,2, 10,0,0,1, 104] :: bytes"
  have "run_filter (ip4_server_layer (Ip4_addr 10 0 0 1)) ?d = Inr (Some (Ip4_peer (Ip4_addr 10 0 0 2), [104]))" by code_simp
  from netcat_ip4_server_overreads [OF this, of id "[]"] show ?thesis by simp
qed

end
