(* ===== verification/Netcat_Ptp.thy ===== *)
theory Netcat_Ptp
  imports Netcat Ptp_Net
begin

text \<open>
  The text program over PTP (\<^verbatim>\<open>src/main/netcat/netcat_local_ptp.cpp\<close>).  Both ends put a
  \<^verbatim>\<open>multi_net_access\<close> on the device, a \<^verbatim>\<open>node\<close> on one of its accesses, and the rest on
  the node's end of paths: the server a generator whose receivers print and answer, the client one access
  for the path to the server.  The node's address, which the code assigns after the constructor, is an argument of
  the constructor here.  The server's application does not keep the accesses it is given (its receivers have weak
  pointers to them), so that each is destroyed when the generator has handled the packet it was made for,
  while its filter stays in the listener set.  The properties say what that comes to.
\<close>

section \<open>Building blocks\<close>

definition generate_net_access :: "ref \<Rightarrow> ref \<Rightarrow> world \<Rightarrow> ref \<times> world" where
  "generate_net_access a m w = alloc (Child a m None) w"

definition make_node :: "ref \<Rightarrow> ptp_addr \<Rightarrow> world \<Rightarrow> (ref \<times> world) result" where
  "make_node surface own w = (let (k, w) = alloc (Node own None) w in bind_r (set_recv_access surface k w) (\<lambda>w. Inr (k, w)))"

definition get_recv_endpoint_end :: "ref \<Rightarrow> world \<Rightarrow> ref \<times> world" where
  "get_recv_endpoint_end k w = alloc (Node_end k) w"

section \<open>The programs\<close>

definition hello_response :: string where "hello_response = ''hello back from the server''"

text \<open>\<^verbatim>\<open>my_client_listener::handle_recv\<close> of the server.\<close>

definition answer_hello :: "bytes \<Rightarrow> bytes list result option" where
  "answer_hello data = Some (bind_r (print_line server_prefix data) (\<lambda>_. Inr [line_bytes hello_response]))"

definition device_start :: world where
  "device_start = \<lparr>objs = [0 \<mapsto> Base None], unused = 1, received = [], sent = []\<rparr>"

definition netcat_ptp_server :: "world result" where
  "netcat_ptp_server =
     bind_r (make_multi_net_access 0 device_start) (\<lambda>(m, w).
     let (ch, w) = generate_net_access 0 m w in
     bind_r (opt_value (str_to_ptp_addr ''33.44.55'')) (\<lambda>own.
     bind_r (make_node ch own w) (\<lambda>(k, w).
     let (endp, w) = get_recv_endpoint_end k w; (sd, w) = generate_net_access 0 m w
     in ptp_connect_generator endp sd (Some (Responder False answer_hello)) w)))"


definition server_addr :: ptp_addr where "server_addr = Ptp_addr [0x33, 0x44, 0x55]"

definition client_addr :: ptp_addr where "client_addr = Ptp_addr [0x11, 0x22]"

lemma netcat_addrs: "str_to_ptp_addr ''33.44.55'' = Some server_addr" "str_to_ptp_addr ''11.22'' = Some client_addr"
  by code_simp+

section \<open>The server\<close>

abbreviation hello :: app where "hello \<equiv> Responder False answer_hello"

text \<open>The part of the server below its listener set (\<open>6\<close>), and the server before the first message.\<close>

definition server_front :: "world \<Rightarrow> bool" where
  "server_front w \<longleftrightarrow> objs w 0 = Some (Base (Some 1)) \<and> objs w 1 = Some (Multi [3]) \<and> objs w 3 = Some (Node server_addr (Some 6))"

definition server_fresh :: "world \<Rightarrow> bool" where
  "server_fresh w \<longleftrightarrow> server_front w \<and> unused w = 11 \<and> ptp_shared w hello 6 8 9 10 5 0 None"

text \<open>After a message: the filter (\<open>14\<close>) of the access (\<open>12\<close>) that was made for it is in the set, and the access is gone.\<close>

definition server_stale :: "world \<Rightarrow> bool" where
  "server_stale w \<longleftrightarrow> server_front w \<and> objs w 6 = Some (Multi [10, 14])
     \<and> (\<exists>path. objs w 14 = Some (Filter (Ptp_layer path) 13)) \<and> objs w 13 = Some (Forward 12) \<and> objs w 12 = None"

lemma responder_exists [simp]: "\<exists>keep respond. Responder k r = Responder keep respond"
  by blast

lemma netcat_ptp_server_starts:
  "\<exists>w. netcat_ptp_server = Inr w \<and> server_fresh w \<and> received w = [] \<and> sent w = []"
  by (simp add: netcat_ptp_server_def netcat_addrs opt_value_def device_start_def generate_net_access_def make_node_def
      get_recv_endpoint_end_def ptp_connect_generator_def multi_net_access_recv_split_def world_defs Let_def numeral_eq_Suc
      server_fresh_def server_front_def ptp_shared_def to_device_def through_def wf_world_def add_recv_listener_def del: app.inject)

lemma exec_multi_single:
  assumes "objs w m = Some (Multi [k])" and "exec addr (Handle k d) w = Some (Inr w')" and "objs w' m = Some (Multi [k])"
  shows "exec addr (Handle m d) w = Some (Inr w')"
proof -
  have "next_listener addr None [k] = Some k" "next_listener addr (Some k) [k] = None" by simp_all
  then have "exec addr (Iterate m None d) w = Some (Inr w')"
    using iterate_step(1) [OF assms(1) _ assms(2), of None] iterate_step(2) [OF assms(3), of addr "Some k"] by simp
  then show ?thesis using assms(1) by (simp add: exec.simps [of addr "Handle m d"])
qed

lemma exec_multi_fault:
  assumes "objs w m = Some (Multi ls)" and "next_listener addr None ls = Some k" and "exec addr (Handle k d) w = Some (Inl e)"
  shows "exec addr (Handle m d) w = Some (Inl e)"
  using assms by (simp add: exec.simps [of addr "Handle m d"] exec.simps [of addr "Iterate m None d"])

text \<open>A frame for another node, and a frame that the node passes on.\<close>

lemma server_drops:
  assumes "server_front w" and "node_handle_recv \<lparr>my_addr = server_addr, recv_endpoint_end = Some (6 :: ref)\<rparr> d = Some (Inr [])"
  shows "run_frames addr (d # ds) w = run_frames addr ds w"
proof -
  have m: "objs w 1 = Some (Multi [3])" using assms(1) by (simp add: server_front_def)
  have "exec addr (Handle 3 d) w = Some (Inr w)"
    using assms by (simp add: server_front_def exec.simps [of addr "Handle 3 d"])
  from exec_multi_single [OF m this m] have "exec addr (Handle 1 d) w = Some (Inr w)" .
  then show ?thesis using assms(1) by (simp add: server_front_def recv_access_def)
qed

lemma server_passes:
  assumes "server_front w" and "node_handle_recv \<lparr>my_addr = server_addr, recv_endpoint_end = Some (6 :: ref)\<rparr> d = Some (Inr [(6, packet)])"
  shows "exec addr (Handle 6 packet) w = Some (Inr w') \<Longrightarrow> server_front w' \<Longrightarrow> run_frames addr (d # ds) w = run_frames addr ds w'"
    and "exec addr (Handle 6 packet) w = Some (Inl e) \<Longrightarrow> run_frames addr (d # ds) w = Some (Inl e)"
proof -
  have m: "objs w 1 = Some (Multi [3])" and r: "recv_access w 0 = Some 1"
    using assms(1) by (simp_all add: server_front_def recv_access_def)
  have three: "exec addr (Handle 3 d) w = exec addr (Handle 6 packet) w"
    using assms by (simp add: server_front_def exec.simps [of addr "Handle 3 d"])
  show "run_frames addr (d # ds) w = run_frames addr ds w'" if "exec addr (Handle 6 packet) w = Some (Inr w')" "server_front w'"
    using exec_multi_single [OF m, of addr d w'] that three r by (simp add: server_front_def)
  show "run_frames addr (d # ds) w = Some (Inl e)" if "exec addr (Handle 6 packet) w = Some (Inl e)"
    using exec_multi_fault [OF m, of addr 3 d e] that three r by simp
qed

text \<open>A packet that reaches the filter of an access that is gone.\<close>

lemma stale_filter:
  assumes "objs w f = Some (Filter (Ptp_layer path) fw)" and "objs w fw = Some (Forward n)" and "objs w n = None"
    and "ptp_recv ptp_is_endpoint_end packet = Inr (Some (h, e))"
  shows "exec addr (Handle f packet) w = Some (Inl Undefined)"
  using assms by (simp add: exec.simps [of addr "Handle f packet"] exec.simps [of addr "Deliver fw (Ptp_peer h) e"] with_peer_def)

lemma server_first:
  assumes "server_fresh w" and "inj addr"
    and "node_handle_recv \<lparr>my_addr = server_addr, recv_endpoint_end = Some (6 :: ref)\<rparr> d = Some (Inr [(6, packet)])"
    and "ptp_recv ptp_is_endpoint_end packet = Inr (Some (h, e))" and "ptp_reply_path h = Inr path" and "answerable hello path e"
  shows "if addr 14 < addr 10
    then \<exists>w'. (\<forall>ds. run_frames addr (d # ds) w = run_frames addr ds w') \<and> server_stale w'
      \<and> received w' = received w @ [(15, e)] \<and> sent w' = sent w @ answers hello 0 path e
    else run_frames addr (d # ds) w = Some (Inl Undefined)"
proof -
  have s: "ptp_shared w hello 6 8 9 10 5 0 None" and u: "unused w = 11" and fr: "server_front w"
    using assms(1) by (simp_all add: server_fresh_def)
  have flt: "run_filter (Ptp_layer []) packet = Inr (Some (Ptp_peer h, e))" using assms(4) by (simp add: with_peer_def)
  define w' where "w' = release hello 12 (give [(15, e)] (answers hello 0 path e) (ptp_made w hello 6 8 10 5 path))"
  have o: "objs w' 6 = Some (Multi [10, 14])" "objs w' 14 = Some (Filter (Ptp_layer path) 13)" "objs w' 13 = Some (Forward 12)" "objs w' 12 = None"
    by (simp_all add: w'_def release_def ptp_made_def Let_def u)
  have front: "server_front w'" using fr by (simp add: server_front_def w'_def release_def ptp_made_def Let_def u)
  have ls: "objs w 6 = Some (Multi [10])" using s by (simp add: ptp_shared_def)
  have gen: "exec addr (Handle 10 packet) w = Some (Inr w')"
    using generator_handles [OF s flt assms(5,6)] by (simp add: w'_def u)
  have step: "exec addr (Handle 6 packet) w = exec addr (Iterate 6 (Some 10) packet) w'"
    using iterate_step(1) [OF ls _ gen, of None] ls by (simp add: exec.simps [of addr "Handle 6 packet"])
  show ?thesis
  proof (cases "addr 14 < addr 10")
    case True
    then have "next_listener addr (Some 10) [10, 14] = None" by simp
    from iterate_step(2) [OF o(1) this] have "exec addr (Handle 6 packet) w = Some (Inr w')" using step by simp
    from server_passes(1) [OF fr assms(3) this front] have "run_frames addr (d # ds) w = run_frames addr ds w'" for ds .
    moreover have "received w' = received w @ [(15, e)]" "sent w' = sent w @ answers hello 0 path e"
      by (simp_all add: w'_def release_def ptp_made_def Let_def)
    moreover have "server_stale w'" using o front by (simp add: server_stale_def)
    ultimately show ?thesis using True by auto
  next
    case False
    have "addr 14 \<noteq> addr 10" using inj_eq [OF assms(2), of 14 10] by simp
    then have nx: "next_listener addr (Some 10) [10, 14] = Some 14" using False by simp
    have "exec addr (Iterate 6 (Some 10) packet) w' = Some (Inl Undefined)"
      using stale_filter [OF o(2-4) assms(4)] o(1) nx by (simp add: exec.simps [of addr "Iterate 6 (Some 10) packet"])
    then have "run_frames addr (d # ds) w = Some (Inl Undefined)" using server_passes(2) [OF fr assms(3)] step by simp
    then show ?thesis using False by simp
  qed
qed

lemma server_second:
  assumes "server_stale w" and "addr 14 < addr 10"
    and "node_handle_recv \<lparr>my_addr = server_addr, recv_endpoint_end = Some (6 :: ref)\<rparr> d = Some (Inr [(6, packet)])"
    and "ptp_recv ptp_is_endpoint_end packet = Inr (Some (h, e))"
  shows "run_frames addr (d # ds) w = Some (Inl Undefined)"
proof -
  obtain path where o: "objs w 6 = Some (Multi [10, 14])" "objs w 14 = Some (Filter (Ptp_layer path) 13)" "objs w 13 = Some (Forward 12)" "objs w 12 = None"
    and fr: "server_front w" using assms(1) by (auto simp: server_stale_def)
  have "next_listener addr None [10, 14] = Some 14" using assms(2) by simp
  from exec_multi_fault [OF o(1) this stale_filter [OF o(2-4) assms(4)]] server_passes(2) [OF fr assms(3)]
  show ?thesis by simp
qed

text \<open>Whether a node drops a packet does not depend on who listens at its end of paths.\<close>

lemma node_drops:
  "node_handle_recv \<lparr>my_addr = a, recv_endpoint_end = Some l\<rparr> d = Some (Inr [])
    \<longleftrightarrow> node_handle_recv \<lparr>my_addr = a, recv_endpoint_end = Some ()\<rparr> d = Some (Inr [])"
  by (auto simp: node_handle_recv_spec node_spec_def Let_def bind_r_eq_Inr split: sum.splits list.splits prod.splits)

lemma ptp_access_frame:
  "access_frame (Ptp_layer (direct_path a b)) e = Inr f \<Longrightarrow> direct_size a b + length e \<le> 65536"
  using direct_path_written [of a b 1 1]
  by (auto simp: ptp_send_def ptp_single_header_def ptp_write_packet_def sent_frame_def fixed_frame_eq split: if_splits)

lemma frame_delivers:
  assumes "access_frame (Ptp_layer (direct_path a b)) e = Inr d"
  shows "\<exists>packet h. node_handle_recv \<lparr>my_addr = b, recv_endpoint_end = Some l\<rparr> d = Some (Inr [(l, packet)])
    \<and> ptp_recv ptp_is_endpoint_end packet = Inr (Some (h, e)) \<and> ptp_reply_path h = Inr (direct_path b a)"
proof -
  obtain f packet h where "ptp_send (Some ()) (ptp_single_header (direct_path a b)) e = Inr [((), f)]"
    "node_handle_recv \<lparr>my_addr = b, recv_endpoint_end = Some l\<rparr> f = Some (Inr [(l, packet)])"
    "ptp_recv ptp_is_endpoint_end packet = Inr (Some (h, e))" "ptp_reply_path h = Inr (direct_path b a)"
    using path_delivers [OF ptp_access_frame [OF assms], of "()" l] by blast
  moreover from this(1) have "f = d" using assms by (simp add: sent_frame_def)
  ultimately show ?thesis by blast
qed

lemma hello_answers:
  assumes "access_frame (Ptp_layer path) (line_bytes hello_response) = Inr f"
  shows "answers hello 0 path (line_bytes str) = [(0, f)]" "answerable hello path (line_bytes str)"
  using assms by (simp_all add: answers_def answerable_def answer_hello_def print_line_typed)

text \<open>The frames of clients, between frames that the node drops.\<close>

definition message_frames :: "bytes list \<Rightarrow> (ptp_addr \<times> string) list \<Rightarrow> bool" where
  "message_frames ds evs \<longleftrightarrow> list_all2 (\<lambda>d (a, str). access_frame (Ptp_layer (direct_path a server_addr)) (line_bytes str) = Inr d)
     (filter (\<lambda>d. node_handle_recv \<lparr>my_addr = server_addr, recv_endpoint_end = Some ()\<rparr> d \<noteq> Some (Inr [])) ds) evs"

lemma message_frames_Cons:
  assumes "message_frames (d # ds) evs"
  shows "node_handle_recv \<lparr>my_addr = server_addr, recv_endpoint_end = Some (6 :: ref)\<rparr> d = Some (Inr []) \<and> message_frames ds evs
    \<or> (\<exists>a str evs' packet h. evs = (a, str) # evs' \<and> message_frames ds evs'
        \<and> node_handle_recv \<lparr>my_addr = server_addr, recv_endpoint_end = Some (6 :: ref)\<rparr> d = Some (Inr [(6, packet)])
        \<and> ptp_recv ptp_is_endpoint_end packet = Inr (Some (h, line_bytes str)) \<and> ptp_reply_path h = Inr (direct_path server_addr a))"
proof (cases "node_handle_recv \<lparr>my_addr = server_addr, recv_endpoint_end = Some ()\<rparr> d = Some (Inr [])")
  case True
  then show ?thesis using assms by (simp add: message_frames_def node_drops [of _ "6 :: ref"])
next
  case False
  then obtain a str evs' where evs: "evs = (a, str) # evs'" "message_frames ds evs'"
    and f: "access_frame (Ptp_layer (direct_path a server_addr)) (line_bytes str) = Inr d"
    using assms by (auto simp: message_frames_def list_all2_Cons1)
  show ?thesis using frame_delivers [OF f, of "6 :: ref"] evs by blast
qed

lemma stale_run:
  assumes "server_stale w" and "addr 14 < addr 10" and "message_frames ds evs"
  shows "run_frames addr ds w = Some (if evs = [] then Inr w else Inl Undefined)"
  using assms(3)
proof (induction ds)
  case Nil
  then show ?case by (simp add: message_frames_def)
next
  case (Cons d ds)
  from message_frames_Cons [OF Cons.prems] show ?case
  proof (elim disjE conjE exE)
    assume "node_handle_recv \<lparr>my_addr = server_addr, recv_endpoint_end = Some (6 :: ref)\<rparr> d = Some (Inr [])" "message_frames ds evs"
    then have "run_frames addr (d # ds) w = run_frames addr ds w"
      using assms(1) by (intro server_drops) (simp_all add: server_stale_def)
    then show ?case using Cons.IH [OF \<open>message_frames ds evs\<close>] by (simp only:)
  next
    fix a str evs' packet h
    assume "evs = (a, str) # evs'"
      and p: "node_handle_recv \<lparr>my_addr = server_addr, recv_endpoint_end = Some (6 :: ref)\<rparr> d = Some (Inr [(6, packet)])"
        "ptp_recv ptp_is_endpoint_end packet = Inr (Some (h, line_bytes str))"
    then show ?case using server_second [OF assms(1,2) p] by simp
  qed
qed

lemma fresh_run:
  assumes "server_fresh w" and "inj addr" and "message_frames ds evs"
    and "\<forall>a \<in> fst ` set evs. access_frame (Ptp_layer (direct_path server_addr a)) (line_bytes hello_response) = Inr (reply a)"
  shows "case evs of [] \<Rightarrow> run_frames addr ds w = Some (Inr w)
    | (a, str) # evs' \<Rightarrow> if evs' = [] \<and> addr 14 < addr 10
        then \<exists>w'. run_frames addr ds w = Some (Inr w') \<and> received w' = received w @ [(15, line_bytes str)] \<and> sent w' = sent w @ [(0, reply a)]
        else run_frames addr ds w = Some (Inl Undefined)"
  using assms(3)
proof (induction ds)
  case Nil
  then show ?case by (simp add: message_frames_def)
next
  case (Cons d ds)
  from message_frames_Cons [OF Cons.prems] show ?case
  proof (elim disjE conjE exE)
    assume "node_handle_recv \<lparr>my_addr = server_addr, recv_endpoint_end = Some (6 :: ref)\<rparr> d = Some (Inr [])" "message_frames ds evs"
    then have "run_frames addr (d # ds) w = run_frames addr ds w"
      using assms(1) by (intro server_drops) (simp_all add: server_fresh_def)
    then show ?case using Cons.IH [OF \<open>message_frames ds evs\<close>] by (simp only:)
  next
    fix a str evs' packet h
    assume evs: "evs = (a, str) # evs'" and rest: "message_frames ds evs'"
      and p: "node_handle_recv \<lparr>my_addr = server_addr, recv_endpoint_end = Some (6 :: ref)\<rparr> d = Some (Inr [(6, packet)])"
        "ptp_recv ptp_is_endpoint_end packet = Inr (Some (h, line_bytes str))" "ptp_reply_path h = Inr (direct_path server_addr a)"
    have f: "access_frame (Ptp_layer (direct_path server_addr a)) (line_bytes hello_response) = Inr (reply a)"
      using assms(4) by (simp add: evs)
    note first = server_first [OF assms(1,2) p hello_answers(2) [OF f], of ds]
    show ?case
    proof (cases "addr 14 < addr 10")
      case True
      then obtain w' where w': "run_frames addr (d # ds) w = run_frames addr ds w'" "server_stale w'"
        "received w' = received w @ [(15, line_bytes str)]" "sent w' = sent w @ [(0, reply a)]"
        using first hello_answers(1) [OF f] by auto
      then show ?thesis using stale_run [OF w'(2) True rest] True by (simp add: evs)
    qed (use first in \<open>simp add: evs\<close>)
  qed
qed

section \<open>The client\<close>

definition client_inv :: "ptp_action_list \<Rightarrow> world \<Rightarrow> bool" where
  "client_inv path w \<longleftrightarrow> objs w 0 = Some (Base (Some 1)) \<and> objs w 1 = Some (Multi [3]) \<and> objs w 3 = Some (Node client_addr (Some 9))
     \<and> to_device w 5 0 \<and> objs w 6 = Some (Paired 5 4) \<and> objs w 7 = Some (Access (Ptp_layer path) 6 (Some 10))
     \<and> objs w 8 = Some (Forward 7) \<and> objs w 9 = Some (Filter (Ptp_layer path) 8) \<and> objs w 10 = Some (Replier 7 (show_message client_prefix))"


lemma client_inv_keeps [simp]: "client_inv path (w\<lparr>sent := x\<rparr>) = client_inv path w" "client_inv path (w\<lparr>received := y\<rparr>) = client_inv path w"
  by (simp_all add: client_inv_def to_device_def through_def)




section \<open>A conversation\<close>

lemma ptp_framed:
  assumes "direct_size a b + length e \<le> 65536"
  shows "\<exists>f. access_frame (Ptp_layer (direct_path a b)) e = Inr f"
  using path_delivers [OF assms, of "()" "()" a] by (auto simp: sent_frame_def)

lemma netcat_sizes: "direct_size client_addr server_addr < 100" "direct_size server_addr client_addr < 100"
  "length (line_bytes hello_response) < 100" "length (line_bytes str) = length str + 1"
  by (simp_all add: direct_size_def client_addr_def server_addr_def write_ptp_addr_def escape_defs hello_response_def
      line_bytes_def string_bytes_def)

section \<open>Properties\<close>

text \<open>C25: The PTP server answers at most one message.  Given the messages of any clients on the direct path, in any order and
  between any packets that its node drops, it prints and answers the first one when the filter of the access made for
  it (\<open>14\<close>) comes before the generator's (\<open>10\<close>) in the listener set; otherwise, and on every second message, the
  packet reaches the filter of the access that is gone, and the server uses freed memory.\<close>

theorem netcat_ptp_server_answers_once:
  assumes "inj addr" and "message_frames ds evs"
    and "\<forall>a \<in> fst ` set evs. access_frame (Ptp_layer (direct_path server_addr a)) (line_bytes hello_response) = Inr (reply a)"
  shows "\<exists>w. netcat_ptp_server = Inr w \<and> (case evs of
      [] \<Rightarrow> run_frames addr ds w = Some (Inr w)
    | (a, str) # evs' \<Rightarrow> if evs' = [] \<and> addr 14 < addr 10
        then \<exists>w'. run_frames addr ds w = Some (Inr w') \<and> sent w' = [(0, reply a)]
          \<and> map (\<lambda>(_, d). print_line server_prefix d) (received w') = [Inr (''a client sent: '' @ takeWhile (\<lambda>c. c \<noteq> CHR 0x00) str @ endl)]
        else run_frames addr ds w = Some (Inl Undefined))"
proof -
  obtain w where w: "netcat_ptp_server = Inr w" "server_fresh w" "received w = []" "sent w = []"
    using netcat_ptp_server_starts by blast
  from fresh_run [OF w(2) assms] w(3,4) show ?thesis
    by (intro exI [of _ w]) (auto simp: w(1) print_line_typed server_prefix_def split: list.splits)
qed

theorem netcat_ptp_server_answers_once_witness:
  "\<exists>d1 d2 r w w'. netcat_ptp_server = Inr w
    \<and> run_frames (\<lambda>r. if r = 10 then 14 else if r = 14 then 10 else r) [d1] w = Some (Inr w') \<and> sent w' = [(0, r)]
    \<and> run_frames id [d1] w = Some (Inl Undefined)
    \<and> run_frames (\<lambda>r. if r = 10 then 14 else if r = 14 then 10 else r) [d1, d2] w = Some (Inl Undefined)"
proof -
  let ?addr = "\<lambda>r :: ref. if r = 10 then 14 else if r = 14 then 10 else r"
  let ?to = "\<lambda>a. Ptp_layer (direct_path a server_addr)" and ?home = "Ptp_layer (direct_path server_addr client_addr)"
  have "\<exists>f. access_frame (?to client_addr) (line_bytes [c]) = Inr f" for c
    using netcat_sizes(1) by (intro ptp_framed) (simp add: netcat_sizes(4))
  then obtain f where f: "\<And>c. access_frame (?to client_addr) (line_bytes [c]) = Inr (f c)" by metis
  obtain r where r: "access_frame ?home (line_bytes hello_response) = Inr r"
    using ptp_framed [of server_addr client_addr "line_bytes hello_response"] netcat_sizes(2,3) by fastforce
  have inj: "inj ?addr" by (auto simp: inj_def split: if_splits)
  have keep: "node_handle_recv \<lparr>my_addr = server_addr, recv_endpoint_end = Some ()\<rparr> (f c) \<noteq> Some (Inr [])" for c
    using frame_delivers [OF f, of "()" c] by auto
  have one: "message_frames [f CHR ''a''] [(client_addr, ''a'')]"
    and two: "message_frames [f CHR ''a'', f CHR ''b''] [(client_addr, ''a''), (client_addr, ''b'')]"
    using f by (simp_all add: message_frames_def keep del: access_frame.simps)
  have reps: "\<forall>a \<in> fst ` set [(client_addr, s)]. access_frame (Ptp_layer (direct_path server_addr a)) (line_bytes hello_response) = Inr r"
    "\<forall>a \<in> fst ` set [(client_addr, s), (client_addr, s')]. access_frame (Ptp_layer (direct_path server_addr a)) (line_bytes hello_response) = Inr r"
    for s s' :: string using r by (simp_all del: access_frame.simps)
  obtain w where w: "netcat_ptp_server = Inr w" using netcat_ptp_server_starts by blast
  have "\<exists>w'. run_frames ?addr [f CHR ''a''] w = Some (Inr w') \<and> sent w' = [(0, r)]"
    using netcat_ptp_server_answers_once [OF inj one reps(1), unfolded w] by (auto simp del: run_frames.simps)
  moreover have "run_frames id [f CHR ''a''] w = Some (Inl Undefined)"
    using netcat_ptp_server_answers_once [OF inj_on_id one reps(1), unfolded w] by (auto simp del: run_frames.simps)
  moreover have "run_frames ?addr [f CHR ''a'', f CHR ''b''] w = Some (Inl Undefined)"
    using netcat_ptp_server_answers_once [OF inj two reps(2), unfolded w] by (auto simp del: run_frames.simps)
  ultimately show ?thesis using w by blast
qed



end
