(* ===== verification/Net_Service.thy ===== *)
theory Net_Service
  imports Net_Conversation
begin

text \<open>
  Servers: a stack of generators on a device, under an application that puts on every access a receiver which
  answers on it, and keeps the access.  Whatever accesses, filters and listener sets the stack builds, it does
  to the frames that arrive what a function from frames to frames does (\<open>served\<close>): unwrap, answer, wrap for the
  peers of the frame.
\<close>

section \<open>The service as a function\<close>

fun wraps :: "conditions list \<Rightarrow> bytes list \<Rightarrow> bytes list result" where
  "wraps acc [] = Inr []"
| "wraps acc (m # ms) = bind_r (wrap acc m) (\<lambda>f. bind_r (wraps acc ms) (\<lambda>fs. Inr (f # fs)))"

definition served :: "(bytes \<Rightarrow> bytes list result option) \<Rightarrow> conditions list \<Rightarrow> bytes \<Rightarrow> bytes list result option" where
  "served respond layers f = (case stack_filter layers [] f of
     Inl e \<Rightarrow> Some (Inl e)
   | Inr None \<Rightarrow> Some (Inr [])
   | Inr (Some (acc, d)) \<Rightarrow> bind_ro (respond d) (\<lambda>ms. Some (wraps acc ms)))"

fun serve_all :: "(bytes \<Rightarrow> bytes list result option) \<Rightarrow> bytes list \<Rightarrow> bytes list result option" where
  "serve_all f [] = Some (Inr [])"
| "serve_all f (d # ds) = bind_ro (f d) (\<lambda>fs. bind_ro (serve_all f ds) (\<lambda>gs. Some (Inr (fs @ gs))))"

text \<open>A world does what the function says.\<close>

definition implements :: "world \<Rightarrow> bytes list result option \<Rightarrow> world result option \<Rightarrow> (world \<Rightarrow> bool) \<Rightarrow> bool" where
  "implements w v res P \<longleftrightarrow> (case v of
     None \<Rightarrow> res = None
   | Some (Inl e) \<Rightarrow> res = Some (Inl e)
   | Some (Inr fs) \<Rightarrow> \<exists>w'. res = Some (Inr w') \<and> P w' \<and> sent w' = sent w @ map (Pair 0) fs)"

section \<open>One frame\<close>

lemma send_all_wraps:
  assumes "send_path w n acc b"
  shows "send_all n ms w = Some (bind_r (wraps acc ms) (\<lambda>fs. Inr (w\<lparr>sent := sent w @ map (Pair b) fs\<rparr>)))"
  using assms
proof (induction ms arbitrary: w)
  case (Cons m ms)
  show ?case
  proof (cases "wrap acc m")
    case (Inr f)
    let ?w = "w\<lparr>sent := sent w @ [(b, f)]\<rparr>"
    have "send_path ?w n acc b" by (rule send_path_extends [OF _ Cons.prems]) (simp add: extends_def)
    from Cons.IH [OF this] show ?thesis
      using send_along_path [OF Cons.prems, of m] Inr by (cases "wraps acc ms") simp_all
  qed (use send_along_path [OF Cons.prems, of m] in simp)
qed simp

lemma frame_served:
  assumes "stacked_on (Responder keep respond) (c # cs) w"
  shows "implements w (served respond (c # cs) f)
    (case recv_access w 0 of None \<Rightarrow> Some (Inr w) | Some l \<Rightarrow> exec addr (Handle l f) w)
    (stacked_on (Responder keep respond) (c # cs))"
proof -
  let ?step = "case recv_access w 0 of None \<Rightarrow> Some (Inr w) | Some l \<Rightarrow> exec addr (Handle l f) w"
  note r = frame_reaches [OF assms, of addr f]
  show ?thesis
  proof (cases "stack_filter (c # cs) [] f")
    case (Inl e)
    then show ?thesis using r by (simp add: served_def implements_def reaches_def del: stack_filter.simps)
  next
    case (Inr v)
    show ?thesis
    proof (cases v)
      case None
      then show ?thesis using r Inr stacked_extends [OF assms]
        by (auto simp: served_def implements_def reaches_def simp del: stack_filter.simps)
    next
      case (Some x)
      obtain acc d where x: "x = (acc, d)" by fastforce
      obtain w1 s n where w1: "?step = exec addr (Handle s d) w1" "wf_world w1" "extends w w1" "sent w1 = sent w"
        "objs w1 s = Some (Replier n respond)" "recv_access w1 n = Some s" "send_path w1 n acc 0"
        using r by (auto simp: Inr Some x reaches_def top_receiver_def simp del: stack_filter.simps)
      let ?w1 = "w1\<lparr>received := received w1 @ [(s, d)]\<rparr>"
      have path: "send_path ?w1 n acc 0" using w1(7) by simp
      have "?step = bind_ro (respond d) (\<lambda>ms. send_all n ms ?w1)"
        using w1(1,5) by (simp add: exec.simps [of addr "Handle s d"])
      then have step: "?step = bind_ro (respond d) (\<lambda>ms. Some (bind_r (wraps acc ms)
          (\<lambda>fs. Inr (?w1\<lparr>sent := sent w @ map (Pair 0) fs\<rparr>))))"
        using send_all_wraps [OF path] w1(4) by simp
      have later: "stacked_on (Responder keep respond) (c # cs) (?w1\<lparr>sent := y\<rparr>)" for y
        using stacked_extends [OF assms, of "?w1\<lparr>sent := y\<rparr>"] w1(2,3) by (simp add: wf_world_def extends_def)
      show ?thesis
      proof (cases "respond d")
        case (Some rs)
        then show ?thesis using step later w1(4) \<open>v = Some x\<close>
          by (cases rs; cases "wraps acc (projr rs)")
            (simp_all add: served_def implements_def Inr x bind_ro_def del: stack_filter.simps)
      qed (use step \<open>v = Some x\<close> in \<open>simp add: served_def implements_def Inr x del: stack_filter.simps\<close>)
    qed
  qed
qed

lemma frames_served:
  assumes "stacked_on (Responder keep respond) (c # cs) w"
  shows "implements w (serve_all (served respond (c # cs)) ds) (run_frames addr ds w) (stacked_on (Responder keep respond) (c # cs))"
  using assms
proof (induction ds arbitrary: w)
  case (Cons d ds)
  note one = frame_served [OF Cons.prems, of d addr]
  show ?case
  proof (cases "served respond (c # cs) d")
    case (Some r)
    show ?thesis
    proof (cases r)
      case (Inr fs)
      then obtain w1 where w1: "(case recv_access w 0 of None \<Rightarrow> Some (Inr w) | Some l \<Rightarrow> exec addr (Handle l d) w) = Some (Inr w1)"
        "stacked_on (Responder keep respond) (c # cs) w1" "sent w1 = sent w @ map (Pair 0) fs"
        using one Some by (auto simp: implements_def)
      show ?thesis using Cons.IH [OF w1(2)] w1 Some Inr
        by (cases "serve_all (served respond (c # cs)) ds")
          (auto simp: implements_def bind_ro_def split: sum.splits)
    qed (use one Some in \<open>simp add: implements_def\<close>)
  qed (use one in \<open>simp add: implements_def\<close>)
qed (simp add: implements_def)

section \<open>Property\<close>

text \<open>C9: A device with a stack of generators under an answering application refines the function: for all frames that arrive it
  returns if and only if the function does, faults if and only if the function does and then with its fault, and
  sends exactly the frames the function gives, in order.\<close>

theorem service_refines_function:
  assumes "\<forall>c \<in> set (c # cs). listens c"
  shows "\<exists>w. device_world c (app_on (Responder keep respond) cs) = Inr w \<and>
    (case serve_all (served respond (c # cs)) ds of
       None \<Rightarrow> run_frames addr ds w = None
     | Some (Inl e) \<Rightarrow> run_frames addr ds w = Some (Inl e)
     | Some (Inr fs) \<Rightarrow> \<exists>w'. run_frames addr ds w = Some (Inr w') \<and> sent w' = map (Pair 0) fs)"
proof -
  let ?w0 = "\<lparr>objs = [0 \<mapsto> Base None], unused = 1, received = [], sent = []\<rparr>"
  obtain w where w: "device_world c (app_on (Responder keep respond) cs) = Inr w"
    "stacked_on (Responder keep respond) (c # cs) w" "sent w = []"
    using connect_layer_stacked [of ?w0 None c cs "Responder keep respond"] assms
    by (auto simp: device_world_def wf_world_def)
  from frames_served [OF w(2), of ds addr] w(1,3) show ?thesis
    by (cases "serve_all (served respond (c # cs)) ds") (auto simp: implements_def split: sum.splits)
qed

theorem service_refines_function_witness:
  "\<exists>w w'. device_world (Udp_layer \<lparr>udp_cond_src = None, udp_cond_dest = Some 7\<rparr>) (Responder True (\<lambda>d. Some (Inr [d, rev d]))) = Inr w
    \<and> run_frames id [[0,1, 0,7, 0,10, 0,0, 42,43]] w = Some (Inr w')
    \<and> sent w' = [(0, [0,7, 0,1, 0,10, 0,0, 42,43]), (0, [0,7, 0,1, 0,10, 0,0, 43,42])]"
proof -
  let ?c = "Udp_layer \<lparr>udp_cond_src = None, udp_cond_dest = Some 7\<rparr>" and ?f = "\<lambda>d :: bytes. Some (Inr [d, rev d])"
  have "serve_all (served ?f [?c]) [[0,1, 0,7, 0,10, 0,0, 42,43]]
      = Some (Inr [[0,7, 0,1, 0,10, 0,0, 42,43], [0,7, 0,1, 0,10, 0,0, 43,42]])" by code_simp
  then show ?thesis
    using service_refines_function [of ?c "[]" True ?f id "[[0,1, 0,7, 0,10, 0,0, 42,43]]"] by auto
qed

end
