(* ===== verification/Dns_Net.thy ===== *)
theory Dns_Net
  imports Net_Service Dns_Print
begin

text \<open>
  The DNS server on the network (\<^verbatim>\<open>dns_server_main\<close> of \<^verbatim>\<open>src/main/dns/dns_server.cpp\<close>):
  a generator of UDP accesses on the IPv4 surface, on each of them a generator of DNS accesses, on each of them the
  handler of messages.  The surface, which the code builds with a function that is declared nowhere, is the
  device of the model.  The handler keeps the access it answers on.  What it prints is left out, but for the
  faults of printing.  The properties carry questions and answers through all layers.
\<close>

section \<open>The server\<close>

definition DNS_SERVER_PORT :: udp_port where "DNS_SERVER_PORT = 53"

text \<open>\<^verbatim>\<open>my_dns_handler::handle_recv\<close>.\<close>

definition dns_handler :: "dns_header \<Rightarrow> dns_database \<Rightarrow> dns_message \<Rightarrow> bytes list result" where
  "dns_handler u db msg =
     bind_r (print_dns_message msg True False) (\<lambda>_.
     bind_r (handle_query u db msg) (\<lambda>reply.
     bind_r (print_dns_message reply False True) (\<lambda>_.
     bind_r (write_dns_message reply) (\<lambda>bs.
     bind_r (store_at 0 bs (replicate 0x1000 0)) (\<lambda>tmp_buff. Inr [take (length bs) tmp_buff])))))"

text \<open>The receiver that \<^verbatim>\<open>dns_protocol::connect_recv\<close> sets; the parser of messages may not return.\<close>

definition dns_respond :: "dns_header \<Rightarrow> dns_database \<Rightarrow> bytes \<Rightarrow> bytes list result option" where
  "dns_respond u db data = bind_ro (dns_recv data) (\<lambda>msg. Some (dns_handler u db msg))"

definition dns_server_main :: "dns_header \<Rightarrow> ip4_addr option \<Rightarrow> dns_database \<Rightarrow> world result" where
  "dns_server_main u own db =
     (case own of None \<Rightarrow> Inl Thrown
      | Some a \<Rightarrow> ip4_connect_generator 0 (Some a) (Some ip_prot_udp)
          (Some (Layer (Udp_layer \<lparr>udp_cond_src = None, udp_cond_dest = Some DNS_SERVER_PORT\<rparr>) (Responder True (dns_respond u db))))
          \<lparr>objs = [0 \<mapsto> Base None], unused = 1, received = [], sent = []\<rparr>)"

section \<open>The layers\<close>

text \<open>Of the server, and of a client with an address and a port of its own, the lowest first.\<close>

definition dns_server_layers :: "ip4_addr \<Rightarrow> conditions list" where
  "dns_server_layers server = [Ip4_layer \<lparr>ip_cond_src = None, ip_cond_dest = Some server, ip_cond_prot = Some ip_prot_udp\<rparr>,
     Udp_layer \<lparr>udp_cond_src = None, udp_cond_dest = Some DNS_SERVER_PORT\<rparr>]"

definition dns_client_layers :: "ip4_addr \<Rightarrow> ip4_addr \<Rightarrow> udp_port \<Rightarrow> conditions list" where
  "dns_client_layers server own port = [Ip4_layer \<lparr>ip_cond_src = Some server, ip_cond_dest = Some own, ip_cond_prot = Some ip_prot_udp\<rparr>,
     Udp_layer \<lparr>udp_cond_src = Some DNS_SERVER_PORT, udp_cond_dest = Some port\<rparr>]"

lemma dns_server_world:
  "dns_server_main u (Some a) db = device_world (hd (dns_server_layers a)) (app_on (Responder True (dns_respond u db)) (tl (dns_server_layers a)))"
  by (simp add: dns_server_main_def device_world_def dns_server_layers_def)

lemma dns_server_starts:
  "\<exists>w. dns_server_main u (Some a) db = Inr w \<and> stacked_on (Responder True (dns_respond u db)) (dns_server_layers a) w \<and> sent w = []"
  unfolding dns_server_world dns_server_layers_def
  using connect_layer_stacked [of "\<lparr>objs = [0 \<mapsto> Base None], unused = 1, received = [], sent = []\<rparr>" None
      "hd (dns_server_layers a)" "tl (dns_server_layers a)" "Responder True (dns_respond u db)"]
  by (auto simp: device_world_def wf_world_def dns_server_layers_def)

lemma dns_layers_opposite:
  "map (\<lambda>c. any_source (mirror c)) (dns_client_layers server own port) = dns_server_layers server"
  "\<forall>c \<in> set (rev (dns_client_layers server own port)). addressed c"
  "\<forall>c \<in> set (rev (dns_client_layers server own port)). \<forall>path. c \<noteq> Ptp_layer path"
  "\<forall>c \<in> set (dns_client_layers server own port). access_conditions c"
  by (simp_all add: dns_client_layers_def dns_server_layers_def)

text \<open>Neither of the layers limits the data.\<close>

lemma dns_layers_frame: "\<exists>f. wrap (rev (dns_client_layers server own port)) d = Inr f"
  "\<exists>f. wrap (map mirror (rev (dns_client_layers server own port))) d = Inr f"
  by (simp_all add: dns_client_layers_def send_defs)

section \<open>A question\<close>

text \<open>What the handler does with a question for an address.\<close>

lemma dns_handler_question:
  assumes "wf_database db" and "ascii_query q" and "q_type q = type_a"
    and "search_record_a db (query_text q) = Inr (Some a)" and "name_ok (q_name q)" and "length (q_name q) \<le> 256"
  shows "dns_respond u db (message_bytes (request_message u' q)) = Some (Inr [message_bytes (address_reply u 0x8950 q a)])"
proof -
  have "dns_recv (message_bytes (request_message u' q)) = Some (Inr (request_message u' q))"
    using extract_message_bytes [OF request_ok(1) [OF assms(5)], of u' "[]"] by (simp add: dns_recv_def)
  moreover have "dns_handler u db (request_message u' q) = Inr [message_bytes (address_reply u 0x8950 q a)]"
  proof -
    have nul: "0 \<in> set (q_name q)" using assms(2) by (auto simp: ascii_query_def)
    have "found db q = [answer_a q a]" using assms by (simp add: found_def lookup_a_def)
    then have h: "handle_query u db (request_message u' q) = Inr (address_reply u 0x8950 q a)"
      using answer_query_found [OF assms(1,2)]
      by (simp add: handle_query_def request_message_def address_reply_def)
    have "\<exists>s. print_dns_message (request_message u' q) True False = Inr s"
      using nul by (subst print_dns_message_lines) (simp_all add: request_message_def query_printable_def)
    moreover have "\<exists>s. print_dns_message (address_reply u 0x8950 q a) False True = Inr s"
      using nul by (subst print_dns_message_lines) (simp_all add: address_reply_def answer_printable_def answer_a_def)
    ultimately show ?thesis
      using h address_reply_ok [OF assms(5), of u "0x8950" a] assms(6)
      by (auto simp: dns_handler_def write_message_ok store_at_def)
  qed
  ultimately show ?thesis by (simp add: dns_respond_def)
qed

text \<open>The frame of a question on the device of the server, and the frame of its answer.\<close>

definition question_frame :: "ip4_addr \<Rightarrow> ip4_addr \<Rightarrow> udp_port \<Rightarrow> dns_header \<Rightarrow> dns_query \<Rightarrow> bytes result" where
  "question_frame server own port u q =
     bind_r (write_dns_message (request_message u q)) (wrap (rev (dns_client_layers server own port)))"

definition answer_frame :: "dns_header \<Rightarrow> ip4_addr \<Rightarrow> ip4_addr \<Rightarrow> udp_port \<Rightarrow> dns_query \<Rightarrow> ip4_addr \<Rightarrow> bytes result" where
  "answer_frame u server own port q a =
     bind_r (write_dns_message (address_reply u 0x8950 q a)) (wrap (map mirror (rev (dns_client_layers server own port))))"

text \<open>A question with an answer in the database.\<close>

definition answerable_question :: "dns_database \<Rightarrow> dns_query \<Rightarrow> ip4_addr \<Rightarrow> bool" where
  "answerable_question db q a \<longleftrightarrow> ascii_query q \<and> q_type q = type_a \<and> search_record_a db (query_text q) = Inr (Some a)
     \<and> name_ok (q_name q) \<and> length (q_name q) \<le> 256"

lemma question_served:
  assumes "wf_database db" and "answerable_question db q a" and "question_frame server own port u' q = Inr f"
  shows "\<exists>g. answer_frame u server own port q a = Inr g \<and> served (dns_respond u db) (dns_server_layers server) f = Some (Inr [g])"
proof -
  note q = assms(2) [unfolded answerable_question_def]
  have ok: "name_ok (q_name q)" using q by simp
  let ?up = "rev (dns_client_layers server own port)" and ?down = "map mirror (rev (dns_client_layers server own port))"
  have "wrap ?up (message_bytes (request_message u' q)) = Inr f"
    using assms(3) request_ok(1) [OF ok] by (simp add: question_frame_def write_message_ok)
  from wrap_accepted [OF this dns_layers_opposite(3)] dns_layers_opposite(2)
  have flt: "stack_filter (dns_server_layers server) [] f = Inr (Some (?down, message_bytes (request_message u' q)))"
    using dns_layers_opposite(1) [of server own port] by simp
  obtain g where g: "wrap ?down (message_bytes (address_reply u 0x8950 q a)) = Inr g"
    using dns_layers_frame(2) [of server own port] by blast
  have "answer_frame u server own port q a = Inr g"
    using g address_reply_ok(1) [OF ok] by (simp add: answer_frame_def write_message_ok)
  moreover have "served (dns_respond u db) (dns_server_layers server) f = Some (Inr [g])"
    using q g by (simp add: served_def flt dns_handler_question [OF assms(1)] del: stack_filter.simps)
  ultimately show ?thesis by blast
qed

lemma questions_served:
  assumes "wf_database db"
    and "list_all2 (\<lambda>d (own, port, u', q, a). answerable_question db q a \<and> question_frame server own port u' q = Inr d)
      (filter (\<lambda>d. stack_filter (dns_server_layers server) [] d \<noteq> Inr None) ds) evs"
  shows "\<exists>fs. serve_all (served (dns_respond u db) (dns_server_layers server)) ds = Some (Inr fs)
    \<and> map Inr fs = map (\<lambda>(own, port, u', q, a). answer_frame u server own port q a) evs"
  using assms(2)
proof (induction ds arbitrary: evs)
  case (Cons d ds)
  show ?case
  proof (cases "stack_filter (dns_server_layers server) [] d = Inr None")
    case True
    then have "served (dns_respond u db) (dns_server_layers server) d = Some (Inr [])" by (simp add: served_def)
    then show ?thesis using Cons.IH [of evs] Cons.prems True by (auto simp: bind_ro_def)
  next
    case False
    then obtain own port u' q a evs' where evs: "evs = (own, port, u', q, a) # evs'"
      and q: "answerable_question db q a" "question_frame server own port u' q = Inr d"
      and rest: "list_all2 (\<lambda>d (own, port, u', q, a). answerable_question db q a \<and> question_frame server own port u' q = Inr d)
        (filter (\<lambda>d. stack_filter (dns_server_layers server) [] d \<noteq> Inr None) ds) evs'"
      using Cons.prems by (auto simp: list_all2_Cons1)
    obtain g where "answer_frame u server own port q a = Inr g" "served (dns_respond u db) (dns_server_layers server) d = Some (Inr [g])"
      using question_served [OF assms(1) q, of u] by blast
    then show ?thesis using Cons.IH [OF rest] by (auto simp: evs bind_ro_def)
  qed
qed simp

section \<open>Properties\<close>

text \<open>C16: The DNS server on its IPv4 surface answers every question for an address that its database has: each frame of a
  client with any address and any port is answered by one frame, in the order of the questions, through all layers to
  the address and the port that asked; frames that the layers reject come to nothing.\<close>

theorem dns_server_answers_all:
  assumes "wf_database db"
    and "list_all2 (\<lambda>d (own, port, u', q, a). answerable_question db q a \<and> question_frame server own port u' q = Inr d)
      (filter (\<lambda>d. stack_filter (dns_server_layers server) [] d \<noteq> Inr None) ds) evs"
  shows "\<exists>w w' fs. dns_server_main u (Some server) db = Inr w \<and> run_frames addr ds w = Some (Inr w')
    \<and> sent w' = map (Pair 0) fs \<and> map Inr fs = map (\<lambda>(own, port, u', q, a). answer_frame u server own port q a) evs"
proof -
  obtain w where w: "dns_server_main u (Some server) db = Inr w"
    "stacked_on (Responder True (dns_respond u db)) (dns_server_layers server) w" "sent w = []"
    using dns_server_starts by blast
  obtain fs where fs: "serve_all (served (dns_respond u db) (dns_server_layers server)) ds = Some (Inr fs)"
    "map Inr fs = map (\<lambda>(own, port, u', q, a). answer_frame u server own port q a) evs"
    using questions_served [OF assms] by blast
  have "implements w (serve_all (served (dns_respond u db) (dns_server_layers server)) ds) (run_frames addr ds w)
      (stacked_on (Responder True (dns_respond u db)) (dns_server_layers server))"
    using w(2) unfolding dns_server_layers_def by (rule frames_served)
  then show ?thesis using w fs by (auto simp: implements_def)
qed

lemma sample_question:
  "\<exists>db. wf_database db \<and> answerable_question db (make_dns_query [0x61] type_a class_in) (Ip4_addr 1 2 3 4)"
proof -
  let ?q = "make_dns_query [0x61] type_a class_in"
  obtain db where db: "wf_database db" "search_record_a db ''a'' = Inr (Some (Ip4_addr 1 2 3 4))" using sample_database by blast
  have "query_text ?q = ''a''" by (simp add: query_text_def make_dns_query_def) code_simp
  moreover have "ascii_query ?q" unfolding ascii_query_def by (rule exI [of _ "[0x61]"]) (simp add: make_dns_query_def)
  ultimately have "answerable_question db ?q (Ip4_addr 1 2 3 4)"
    using db sample_name by (simp add: answerable_question_def make_dns_query_def)
  with db(1) show ?thesis by blast
qed

theorem dns_server_answers_all_witness:
  "\<forall>u u'. \<exists>db f g w w'. question_frame (Ip4_addr 10 0 0 1) (Ip4_addr 10 0 0 2) 1234 u' (make_dns_query [0x61] type_a class_in) = Inr f
    \<and> dns_server_main u (Some (Ip4_addr 10 0 0 1)) db = Inr w \<and> run_frames id [f, f] w = Some (Inr w') \<and> sent w' = [(0, g), (0, g)]
    \<and> answer_frame u (Ip4_addr 10 0 0 1) (Ip4_addr 10 0 0 2) 1234 (make_dns_query [0x61] type_a class_in) (Ip4_addr 1 2 3 4) = Inr g"
proof (intro allI)
  fix u u'
  let ?q = "make_dns_query [0x61] type_a class_in" and ?s = "Ip4_addr 10 0 0 1" and ?c = "Ip4_addr 10 0 0 2"
  obtain db where db: "wf_database db" "answerable_question db ?q (Ip4_addr 1 2 3 4)" using sample_question by blast
  then have ok: "name_ok (q_name ?q)" by (simp add: answerable_question_def)
  obtain f where "wrap (rev (dns_client_layers ?s ?c 1234)) (message_bytes (request_message u' ?q)) = Inr f"
    using dns_layers_frame(1) by blast
  then have f: "question_frame ?s ?c 1234 u' ?q = Inr f"
    using request_ok(1) [OF ok] by (simp add: question_frame_def write_message_ok)
  have "stack_filter (dns_server_layers ?s) [] f \<noteq> Inr None"
  proof
    assume "stack_filter (dns_server_layers ?s) [] f = Inr None"
    then have "served (dns_respond u db) (dns_server_layers ?s) f = Some (Inr [])" by (simp add: served_def)
    then show False using question_served [OF db f, of u] by auto
  qed
  then have all: "list_all2 (\<lambda>d (own, port, u', q, a). answerable_question db q a \<and> question_frame ?s own port u' q = Inr d)
      (filter (\<lambda>d. stack_filter (dns_server_layers ?s) [] d \<noteq> Inr None) [f, f]) [(?c, 1234, u', ?q, Ip4_addr 1 2 3 4), (?c, 1234, u', ?q, Ip4_addr 1 2 3 4)]"
    using db(2) f by (simp del: stack_filter.simps)
  obtain w w' fs where w: "dns_server_main u (Some ?s) db = Inr w" "run_frames id [f, f] w = Some (Inr w')" "sent w' = map (Pair 0) fs"
    "map Inr fs = map (\<lambda>(own, port, u', q, a). answer_frame u ?s own port q a) [(?c, 1234, u', ?q, Ip4_addr 1 2 3 4), (?c, 1234, u', ?q, Ip4_addr 1 2 3 4)]"
    using dns_server_answers_all [OF db(1) all, of u id] by blast
  obtain g where g: "answer_frame u ?s ?c 1234 ?q (Ip4_addr 1 2 3 4) = Inr g" using question_served [OF db f, of u] by blast
  then have "fs = [g, g]" using w(4) by (auto simp: map_eq_Cons_conv)
  with g f w(1-3) show "\<exists>db f g w w'. question_frame ?s ?c 1234 u' ?q = Inr f
    \<and> dns_server_main u (Some ?s) db = Inr w \<and> run_frames id [f, f] w = Some (Inr w') \<and> sent w' = [(0, g), (0, g)]
    \<and> answer_frame u ?s ?c 1234 ?q (Ip4_addr 1 2 3 4) = Inr g" by auto
qed

text \<open>C6: A client that asks for an address the server has, over UDP and IPv4 on both sides, is given a message that ends its
  loop, and the only answer in it is the stored address.\<close>

theorem dns_question_over_network:
  assumes "wf_database db" and "answerable_question db q a"
  shows "\<exists>server w client top sink request frame frame' client' reply.
      dns_server_main u (Some server_ip) db = Inr server
    \<and> client_world (dns_client_layers server_ip own port) = Inr (top, sink, client)
    \<and> dns_send (Some top) (request_message u' q) = Inr [(top, request)]
    \<and> send_data top request client = Some (Inr (client\<lparr>sent := [(0, frame)]\<rparr>))
    \<and> run_frames addr [frame] server = Some (Inr w) \<and> sent w = [(0, frame')]
    \<and> run_frames addr' [frame'] (client\<lparr>sent := [(0, frame)]\<rparr>) = Some (Inr client')
    \<and> (\<exists>d. received client' = [(sink, d)] \<and> dns_recv d = Some (Inr reply))
    \<and> send_requests (request_message u' q) [Some reply] = (Some reply, 1) \<and> ans reply = [answer_a q a]"
proof -
  note q = assms(2) [unfolded answerable_question_def]
  have ok: "name_ok (q_name q)" using q by simp
  let ?cs = "dns_client_layers server_ip own port"
  let ?m = "request_message u' q" and ?r = "address_reply u 0x8950 q a"
  have send: "dns_send (Some s) ?m = Inr [(s, message_bytes ?m)]" for s :: ref
    using request_ok [OF ok, of u'] q by (simp add: dns_send_def write_message_ok store_at_def)
  have recv: "dns_recv (message_bytes ?r) = Some (Inr ?r)"
    using extract_message_bytes [OF address_reply_ok(1) [OF ok], of u "0x8950" a "[]"] by (simp add: dns_recv_def)
  obtain top sink client l where c: "client_world ?cs = Inr (top, sink, client)" "recv_access client 0 = Some l"
    "recv_path client l ?cs sink" "send_path client top (rev ?cs) 0" "received client = []" "sent client = []"
    using client_world_facts [OF dns_layers_opposite(4), of server_ip own port] by blast
  obtain f where f: "wrap (rev ?cs) (message_bytes ?m) = Inr f" using dns_layers_frame(1) by blast
  have up: "send_data top (message_bytes ?m) client = Some (Inr (client\<lparr>sent := [(0, f)]\<rparr>))"
    using send_along_path [OF c(4)] f c(6) by simp
  have qf: "question_frame server_ip own port u' q = Inr f"
    using f request_ok(1) [OF ok] by (simp add: question_frame_def write_message_ok)
  obtain g where g: "answer_frame u server_ip own port q a = Inr g"
    "served (dns_respond u db) (dns_server_layers server_ip) f = Some (Inr [g])"
    using question_served [OF assms qf] by blast
  obtain server where s: "dns_server_main u (Some server_ip) db = Inr server"
    "stacked_on (Responder True (dns_respond u db)) (dns_server_layers server_ip) server" "sent server = []"
    using dns_server_starts by blast
  have "implements server (serve_all (served (dns_respond u db) (dns_server_layers server_ip)) [f]) (run_frames addr [f] server)
      (stacked_on (Responder True (dns_respond u db)) (dns_server_layers server_ip))"
    using s(2) unfolding dns_server_layers_def by (rule frames_served)
  then obtain w where w: "run_frames addr [f] server = Some (Inr w)" "sent w = [(0, g)]"
    using g(2) s(3) by (auto simp: implements_def bind_ro_def simp del: run_frames.simps)
  have "wrap (map mirror (rev ?cs)) (message_bytes ?r) = Inr g"
    using g(1) address_reply_ok(1) [OF ok] by (simp add: answer_frame_def write_message_ok)
  moreover have "\<forall>c \<in> set (map mirror (rev ?cs)). \<forall>path. c \<noteq> Ptp_layer path" by (simp add: dns_client_layers_def)
  ultimately obtain ls where "stack_filter (map mirror (rev (map mirror (rev ?cs)))) [] g = Inr (Some (ls, message_bytes ?r))"
    using wrap_accepted [of "map mirror (rev ?cs)" "message_bytes ?r" g] by blast
  then have home: "stack_filter ?cs [] g = Inr (Some (ls, message_bytes ?r))" by (simp add: rev_map comp_def del: stack_filter.simps)
  let ?c = "client\<lparr>sent := [(0, f)]\<rparr>"
  have "run_frames addr' [g] ?c = Some (Inr (?c\<lparr>received := received ?c @ [(sink, message_bytes ?r)]\<rparr>))"
    by (rule client_receives [OF _ _ home]) (use c(2,3) in simp_all)
  moreover have "received (?c\<lparr>received := received ?c @ [(sink, message_bytes ?r)]\<rparr>) = [(sink, message_bytes ?r)]" using c(5) by simp
  moreover have "send_requests ?m [Some ?r] = (Some ?r, 1)" "ans ?r = [answer_a q a]"
    by (simp_all add: send_requests_def request_message_def address_reply_def)
  ultimately show ?thesis using s(1) c(1) send up w recv by blast
qed


theorem dns_question_over_network_witness:
  "\<forall>u u'. \<exists>db server w client top sink request frame frame' client' reply.
      dns_server_main u (Some (Ip4_addr 10 0 0 1)) db = Inr server
    \<and> client_world (dns_client_layers (Ip4_addr 10 0 0 1) (Ip4_addr 10 0 0 2) 1234) = Inr (top, sink, client)
    \<and> dns_send (Some top) (request_message u' (make_dns_query [0x61] type_a class_in)) = Inr [(top, request)]
    \<and> send_data top request client = Some (Inr (client\<lparr>sent := [(0, frame)]\<rparr>))
    \<and> run_frames id [frame] server = Some (Inr w) \<and> sent w = [(0, frame')]
    \<and> run_frames id [frame'] (client\<lparr>sent := [(0, frame)]\<rparr>) = Some (Inr client')
    \<and> (\<exists>d. received client' = [(sink, d)] \<and> dns_recv d = Some (Inr reply))
    \<and> ans reply = [answer_a (make_dns_query [0x61] type_a class_in) (Ip4_addr 1 2 3 4)]"
proof (intro allI)
  fix u u'
  obtain db where db: "wf_database db" "answerable_question db (make_dns_query [0x61] type_a class_in) (Ip4_addr 1 2 3 4)"
    using sample_question by blast
  from dns_question_over_network [OF db, of u "Ip4_addr 10 0 0 1" "Ip4_addr 10 0 0 2" 1234 u' id id]
  show "\<exists>db server w client top sink request frame frame' client' reply.
      dns_server_main u (Some (Ip4_addr 10 0 0 1)) db = Inr server
    \<and> client_world (dns_client_layers (Ip4_addr 10 0 0 1) (Ip4_addr 10 0 0 2) 1234) = Inr (top, sink, client)
    \<and> dns_send (Some top) (request_message u' (make_dns_query [0x61] type_a class_in)) = Inr [(top, request)]
    \<and> send_data top request client = Some (Inr (client\<lparr>sent := [(0, frame)]\<rparr>))
    \<and> run_frames id [frame] server = Some (Inr w) \<and> sent w = [(0, frame')]
    \<and> run_frames id [frame'] (client\<lparr>sent := [(0, frame)]\<rparr>) = Some (Inr client')
    \<and> (\<exists>d. received client' = [(sink, d)] \<and> dns_recv d = Some (Inr reply))
    \<and> ans reply = [answer_a (make_dns_query [0x61] type_a class_in) (Ip4_addr 1 2 3 4)]"
    by blast
qed

end
