(* ===== verification/Arp_Programs.thy ===== *)
theory Arp_Programs
  imports Arp_Tool Ether2 Circular_Queue Text
begin

text \<open>
  The programs \<^verbatim>\<open>src/main/arp_scanner/arp_scanner.cpp\<close> and
  \<^verbatim>\<open>src/main/arp_spoofer/arp_spoofer.cpp\<close> below their command lines: the tools of
  \<^verbatim>\<open>Arp_Tool\<close> on accesses of the Ethernet protocol.  A surface is given by the header its sender
  puts before a packet; the queue of a search is filled with what its access and the ARP receiver let
  through.  What the interface is asked for (its own addresses) is a parameter, and so are the frames that
  arrive: one list for every read of the queue, of those that arrive between the previous read and this one.
\<close>

section \<open>What the programs do\<close>

datatype arp_act = Frame bytes | Prints string | System string

text \<open>\<^verbatim>\<open>send_data\<close> of the accesses, on what a tool has sent.\<close>

fun through :: "(ethernet2_header \<times> bytes) list \<Rightarrow> arp_act list result" where
  "through [] = Inr []"
| "through ((header, data) # packets) =
     bind_r (ethernet2_send (Some ()) header data) (\<lambda>fs.
     bind_r (through packets) (\<lambda>rest. Inr (map (\<lambda>(_, f). Frame f) fs @ rest)))"

definition broadcast_surface :: "mac_addr \<Rightarrow> ethernet2_header" where
  "broadcast_surface my_mac = ethernet2_broadcast_header (Some my_mac) (Some ethertype_arp)"

definition single_surface :: "mac_addr \<Rightarrow> mac_addr \<Rightarrow> ethernet2_header" where
  "single_surface peer my_mac = ethernet2_single_header peer (Some my_mac) (Some ethertype_arp)"

text \<open>What the queue of a search is given of a frame.\<close>

definition reply_in :: "mac_addr \<Rightarrow> bytes \<Rightarrow> arp_header option result" where
  "reply_in my_mac frame =
     bind_r (ethernet2_recv \<lparr>cond_src = None, cond_dest = Some my_mac, cond_type = Some ethertype_arp\<rparr> frame) (\<lambda>r.
       case r of None \<Rightarrow> Inr None | Some (_, data) \<Rightarrow> arp_recv (Some arp_op_reply) data)"

definition fill_queue :: "mac_addr \<Rightarrow> bytes list \<Rightarrow> arp_header circular_queue \<Rightarrow> arp_header circular_queue result" where
  "fill_queue my_mac frames q = fill_with (reply_in my_mac) frames q"

text \<open>The reads of the queue by the loop of a search.\<close>

fun queue_reads :: "mac_addr \<Rightarrow> arp_header circular_queue \<Rightarrow> bytes list list \<Rightarrow> arp_header option list result" where
  "queue_reads my_mac q [] = Inr []"
| "queue_reads my_mac q (fs # fss) =
     bind_r (fill_queue my_mac fs q) (\<lambda>q.
       case front [q] of
         None \<Rightarrow> bind_r (queue_reads my_mac q fss) (\<lambda>evs. Inr (None # evs))
       | Some reply \<Rightarrow> bind_r (queue_reads my_mac (snd (pop_front q)) fss) (\<lambda>evs. Inr (Some reply # evs)))"

definition new_queue :: "arp_header \<Rightarrow> arp_header circular_queue" where
  "new_queue uninit = empty_queue (replicate 2000 uninit)"

text \<open>A search on the broadcast surface: the address, if it has returned, and what it has sent.\<close>

definition search_on_surface ::
  "arp_header \<Rightarrow> ip4_addr \<Rightarrow> mac_addr \<Rightarrow> ip4_addr \<Rightarrow> bytes list list \<Rightarrow> (mac_addr option \<times> arp_act list) result" where
  "search_on_surface uninit ip my_mac my_ip fss =
     bind_r (queue_reads my_mac (new_queue uninit) fss) (\<lambda>evs.
     bind_r (search_for_mac_addr (Some (broadcast_surface my_mac)) ip my_mac my_ip evs) (\<lambda>(res, packets).
     bind_r (through packets) (\<lambda>acts. Inr (res, acts))))"

section \<open>The scanner\<close>

record hardware =
  get_mac_addr_of_iface :: "string \<Rightarrow> mac_addr option"
  get_ip4_addr_of_iface :: "string \<Rightarrow> ip4_addr option"

definition own_addrs :: "hardware \<Rightarrow> string \<Rightarrow> (mac_addr \<times> ip4_addr) result" where
  "own_addrs hw iface_name =
     bind_r (opt_value (get_mac_addr_of_iface hw iface_name)) (\<lambda>my_mac.
     bind_r (opt_value (get_ip4_addr_of_iface hw iface_name)) (\<lambda>my_ip. Inr (my_mac, my_ip)))"

definition arp_scan_single_main ::
  "hardware \<Rightarrow> arp_header \<Rightarrow> string \<Rightarrow> ip4_addr \<Rightarrow> bytes list list \<Rightarrow> arp_act list result" where
  "arp_scan_single_main hw uninit iface_name ip fss =
     bind_r (own_addrs hw iface_name) (\<lambda>(my_mac, my_ip).
     bind_r (search_on_surface uninit ip my_mac my_ip fss) (\<lambda>(res, acts).
       Inr (Prints (''scanning for '' @ ip4_addr_to_str ip @ endl) # acts
         @ (case res of None \<Rightarrow> [] | Some m \<Rightarrow> [Prints (''associated mac addr: '' @ mac_addr_to_str m @ endl)]))))"

text \<open>The lines of the map that a scan of a subnet returns, in the order of the addresses.\<close>

definition entry_line :: "ip4_addr \<times> mac_addr \<Rightarrow> string" where
  "entry_line e = ip4_addr_to_str (fst e) @ '' is '' @ mac_addr_to_str (snd e) @ endl"

definition print_entries :: "(ip4_addr \<rightharpoonup> mac_addr) \<Rightarrow> arp_act list" where
  "print_entries entries = map (\<lambda>ip. Prints (entry_line (ip, the (entries ip)))) (sorted_list_of_set (dom entries))"

definition arp_scan_subnet_main ::
  "hardware \<Rightarrow> arp_header \<Rightarrow> string \<Rightarrow> ip4_subnet_mask \<Rightarrow> bytes list \<Rightarrow> arp_act list result option" where
  "arp_scan_subnet_main hw uninit iface_name subnet frames =
     bind_ro (Some (own_addrs hw iface_name)) (\<lambda>(my_mac, my_ip).
     bind_ro (Some (fill_queue my_mac frames (new_queue uninit))) (\<lambda>q.
     bind_ro (scan_entire_subnet (Some (broadcast_surface my_mac)) subnet {my_ip} my_mac my_ip (contents q)) (\<lambda>(packets, entries).
     bind_ro (Some (through packets)) (\<lambda>acts.
       Some (Inr (Prints (''scanning the subnet '' @ ip4_subnet_mask_to_str subnet @ endl) # acts @ print_entries entries))))))"

section \<open>The spoofer\<close>

fun victims_line :: "ip4_addr list \<Rightarrow> string" where
  "victims_line [] = ''all broadcast''"
| "victims_line [v] = ip4_addr_to_str v"
| "victims_line (v # vs) = ip4_addr_to_str v @ '', '' @ victims_line vs"

text \<open>The loop over the victims: what has been sent, and the targets unless a search has not returned.\<close>

type_synonym target = "ethernet2_header option \<times> mac_addr \<times> ip4_addr"

fun find_targets ::
  "arp_header \<Rightarrow> mac_addr \<Rightarrow> ip4_addr \<Rightarrow> (ip4_addr \<times> bytes list list) list \<Rightarrow> (arp_act list \<times> target list option) result" where
  "find_targets uninit my_mac my_ip [] = Inr ([], Some [])"
| "find_targets uninit my_mac my_ip ((victim_ip, fss) # victims) =
     bind_r (search_on_surface uninit victim_ip my_mac my_ip fss) (\<lambda>(res, acts).
       case res of
         None \<Rightarrow> Inr (acts, None)
       | Some victim_mac \<Rightarrow>
           bind_r (find_targets uninit my_mac my_ip victims) (\<lambda>(rest, targets).
             Inr (acts @ rest, map_option ((#) (Some (single_surface victim_mac my_mac), victim_mac, victim_ip)) targets)))"

definition forwarding :: "bool \<Rightarrow> string" where
  "forwarding block =
     (if block then ''echo 0 | sudo tee /proc/sys/net/ipv4/ip_forward > /dev/null''
      else ''echo 1 | sudo tee /proc/sys/net/ipv4/ip_forward > /dev/null'')"

text \<open>The rounds of the attack, of which \<open>n\<close> are taken.\<close>

fun attack_rounds :: "target list \<Rightarrow> ip4_addr \<Rightarrow> mac_addr \<Rightarrow> nat \<Rightarrow> nat \<Rightarrow> arp_act list result" where
  "attack_rounds targets dest_ip src_mac cnt 0 = Inr []"
| "attack_rounds targets dest_ip src_mac cnt (Suc n) =
     bind_r (spoof_round targets dest_ip src_mac) (\<lambda>packets.
     bind_r (through packets) (\<lambda>acts.
     bind_r (attack_rounds targets dest_ip src_mac (cnt + 1) n) (\<lambda>rest.
       Inr (acts @ Prints (''spoofed data num '' @ to_dec (cnt mod 2 ^ 64) @ '' sent'' @ endl) # rest))))"

definition spoofing_attack :: "target list \<Rightarrow> ip4_addr \<Rightarrow> mac_addr \<Rightarrow> bool \<Rightarrow> nat \<Rightarrow> arp_act list result" where
  "spoofing_attack targets dest_ip src_mac block n =
     bind_r (attack_rounds targets dest_ip src_mac 0 n) (\<lambda>acts. Inr (System (forwarding block) # acts))"

definition arp_spoof ::
  "hardware \<Rightarrow> arp_header \<Rightarrow> string \<Rightarrow> (ip4_addr \<times> bytes list list) list \<Rightarrow> ip4_addr \<Rightarrow> bool \<Rightarrow> nat \<Rightarrow> arp_act list result" where
  "arp_spoof hw uninit iface_name victims dest block n =
     bind_r (own_addrs hw iface_name) (\<lambda>(my_mac, my_ip).
       let shown = Prints (''victims: '' @ victims_line (map fst victims) @ endl) in
       if victims = [] then
         bind_r (spoofing_attack [(Some (broadcast_surface my_mac), mac_addr_empty, ip4_addr_empty)] dest my_mac block n) (\<lambda>acts.
           Inr (shown # Prints (''spoofing entire network'' @ endl) # acts))
       else
         bind_r (find_targets uninit my_mac my_ip victims) (\<lambda>(acts, found).
           case found of
             None \<Rightarrow> Inr (shown # acts)
           | Some targets \<Rightarrow>
               bind_r (spoofing_attack targets dest my_mac block n) (\<lambda>rest.
                 Inr (shown # acts @ Prints (''spoofing all victims'' @ endl) # rest))))"

section \<open>Frames\<close>

text \<open>The frame of a packet on a surface.\<close>

definition frame_of :: "ethernet2_header \<Rightarrow> bytes \<Rightarrow> bytes" where
  "frame_of h d = write_ethernet2_header h @ d"

lemma ethernet2_send_frame: "ethernet2_send (Some s) h d = Inr [(s, frame_of h d)]"
  by (simp add: ethernet2_send_def frame_of_def)

lemma through_frames [simp]: "through ps = Inr (map (\<lambda>(h, d). Frame (frame_of h d)) ps)"
  by (induction ps rule: through.induct) (simp_all add: ethernet2_send_frame)

lemma ethernet2_recv_frame: "ethernet2_recv c (frame_of h d) = Inr (if ethernet2_sel c h then Some (h, d) else None)"
  using ethernet2.rcv_frame [of h "write_ethernet2_header h" c d] by (simp add: frame_of_def)

lemma reply_in_frame:
  "reply_in my_mac (frame_of h d) = (if eth_dest_addr h = my_mac \<and> eth_prot h = ethertype_arp then arp_recv (Some arp_op_reply) d else Inr None)"
  by (auto simp: reply_in_def ethernet2_recv_frame ethernet2_sel_def opt_sel_def)

lemma surfaces [simp]:
  "eth_dest_addr (broadcast_surface a) = mac_addr_broadcast" "eth_prot (broadcast_surface a) = ethertype_arp"
  "eth_dest_addr (single_surface p a) = p" "eth_prot (single_surface p a) = ethertype_arp"
  by (simp_all add: broadcast_surface_def single_surface_def ethernet2_broadcast_header_def ethernet2_single_header_def)

section \<open>Reading the queue\<close>

text \<open>The replies among the frames that arrive.\<close>

abbreviation replies_in :: "mac_addr \<Rightarrow> bytes list \<Rightarrow> arp_header list" where
  "replies_in my_mac \<equiv> received_by (reply_in my_mac)"

abbreviation readable :: "mac_addr \<Rightarrow> bytes list \<Rightarrow> bool" where
  "readable my_mac \<equiv> accepts_all (reply_in my_mac)"

lemma fill_queue_simps [simp]:
  "fill_queue my_mac [] q = Inr q"
  "fill_queue my_mac (f # fs) q = bind_r (reply_in my_mac f) (\<lambda>r.
     fill_queue my_mac fs (case r of None \<Rightarrow> q | Some h \<Rightarrow> recv_queue_handle_recv h q))"
  by (simp_all add: fill_queue_def)

lemmas fill_queue_spec = fill_with_spec [of "reply_in my_mac" for my_mac, folded fill_queue_def]

lemma new_queue_simps [simp]: "cq_inv (new_queue u)" "BUFF_SZ (new_queue u) = 2000" "contents (new_queue u) = []" "count (new_queue u) = 0"
  by (simp_all add: new_queue_def cq_inv_def) (simp_all add: empty_queue_def)

text \<open>When the queue does not overflow and is read often enough, all the replies are read, in order.\<close>

definition reads_of :: "'a option list \<Rightarrow> 'a list" where
  "reads_of evs = concat (map (\<lambda>ev. case ev of None \<Rightarrow> [] | Some x \<Rightarrow> [x]) evs)"

lemma reads_of_simps [simp]: "reads_of [] = []" "reads_of (None # evs) = reads_of evs" "reads_of (Some x # evs) = x # reads_of evs"
  by (simp_all add: reads_of_def)

lemma queue_reads_rest:
  "cq_inv q \<Longrightarrow> count q \<le> n \<Longrightarrow> \<exists>evs. queue_reads my_mac q (replicate n []) = Inr evs \<and> reads_of evs = contents q"
proof (induction n arbitrary: q)
  case (Suc n)
  from Suc.prems(1) show ?case
  proof (cases rule: front_cases)
    case empty
    then have "count q \<le> n" by (metis length_contents le0 list.size(3))
    with Suc empty show ?thesis by fastforce
  next
    case some
    then have "count (snd (pop_front q)) \<le> n" using Suc.prems(2) by (metis Suc_le_mono length_Cons length_contents)
    with Suc.IH [OF some(4)] some show ?thesis by fastforce
  qed
next
  case 0
  then have "contents q = []" by (simp add: contents_Nil_iff is_empty_def)
  then show ?case by simp
qed

lemma queue_reads_all:
  "cq_inv q \<Longrightarrow> readable my_mac (concat fss) \<Longrightarrow> count q + length (replies_in my_mac (concat fss)) \<le> BUFF_SZ q \<Longrightarrow>
   count q + length (replies_in my_mac (concat fss)) \<le> n \<Longrightarrow>
   \<exists>evs. queue_reads my_mac q (fss @ replicate n []) = Inr evs \<and> reads_of evs = contents q @ replies_in my_mac (concat fss)"
proof (induction fss arbitrary: q)
  case Nil
  then show ?case using queue_reads_rest [of q n] by simp
next
  case (Cons fs fss)
  have rd: "readable my_mac fs" "readable my_mac (concat fss)" using Cons.prems(2) by simp_all
  from fill_queue_spec [OF rd(1) Cons.prems(1)] obtain q1 where q1: "fill_queue my_mac fs q = Inr q1" "cq_inv q1"
    "BUFF_SZ q1 = BUFF_SZ q" "contents q1 = contents q @ replies_in my_mac fs" using Cons.prems(3) by auto
  then have n1: "count q1 = count q + length (replies_in my_mac fs)" by (metis length_append length_contents)
  from q1(2) show ?case
  proof (cases rule: front_cases)
    case empty
    with Cons.IH [OF q1(2) rd(2)] Cons.prems(3,4) n1 q1(3) obtain evs where
      "queue_reads my_mac q1 (fss @ replicate n []) = Inr evs" "reads_of evs = contents q1 @ replies_in my_mac (concat fss)" by auto
    then show ?thesis using q1 empty by simp
  next
    case (some x xs)
    then have n2: "count q1 = Suc (count (snd (pop_front q1)))" by (metis length_Cons length_contents)
    with Cons.IH [OF some(4) rd(2)] Cons.prems(3,4) n1 q1(3) some(5) obtain evs where
      "queue_reads my_mac (snd (pop_front q1)) (fss @ replicate n []) = Inr evs" "reads_of evs = xs @ replies_in my_mac (concat fss)"
      using some(3) by auto
    then show ?thesis using q1 some(1,2) by simp
  qed
qed

section \<open>A search\<close>

lemma search_loop_first:
  "list_all2 (\<lambda>r p. reply_pair r = Inr p) (reads_of evs) pairs \<Longrightarrow> map_of pairs ip = Some m \<Longrightarrow>
   \<exists>k \<le> length evs. search_loop ip evs n = Inr (Some m, n + k) \<and> 0 < k"
proof (induction ip evs n arbitrary: pairs rule: search_loop.induct)
  case (2 ip evs n)
  then show ?case using "2.IH" [of pairs] by force
next
  case (3 ip reply evs n)
  then obtain p ps where p: "pairs = p # ps" "reply_pair reply = Inr p" "list_all2 (\<lambda>r p. reply_pair r = Inr p) (reads_of evs) ps"
    by (auto simp: list_all2_Cons1)
  then obtain a b r1 r2 where ab: "p = (a, b)" "extract_ip4_addr (sender_prot_addr reply) = Inr (a, r1)"
    "extract_mac_addr (sender_hard_addr reply) = Inr (b, r2)" by (auto simp: reply_pair_def bind_r_eq_Inr)
  show ?case
  proof (cases "a = ip")
    case True
    then show ?thesis using 3 p(1) ab by (intro exI [of _ 1]) simp
  next
    case False
    then obtain k where "k \<le> length evs" "search_loop ip evs (n + 1) = Inr (Some m, n + 1 + k)"
      using "3.IH" [OF ab(2) refl, of ps] "3.prems"(2) p ab(1) by auto
    then show ?thesis using ab False by (intro exI [of _ "k + 1"]) simp
  qed
qed simp

text \<open>What arrives during a search: readable frames whose replies, no more than the queue holds, announce the
  pairs; and then at least as many reads of the queue.\<close>

definition heard :: "mac_addr \<Rightarrow> bytes list list \<Rightarrow> (ip4_addr \<times> mac_addr) list \<Rightarrow> bool" where
  "heard my_mac fss pairs \<longleftrightarrow> (\<exists>fss' n. fss = fss' @ replicate n [] \<and> readable my_mac (concat fss')
     \<and> list_all2 (\<lambda>r p. reply_pair r = Inr p) (replies_in my_mac (concat fss')) pairs
     \<and> length pairs \<le> 2000 \<and> length pairs \<le> n)"

definition request_frame :: "mac_addr \<Rightarrow> ip4_addr \<Rightarrow> ip4_addr \<Rightarrow> bytes" where
  "request_frame my_mac my_ip ip = frame_of (broadcast_surface my_mac) (arp_packet (arp_request my_mac my_ip ip))"

lemma concat_replicate_single: "concat (replicate n [x]) = replicate n x"
  by (induction n) simp_all

lemma search_heard:
  assumes "heard my_mac fss pairs" and "map_of pairs ip = Some m"
  shows "\<exists>k. search_on_surface u ip my_mac my_ip fss = Inr (Some m, replicate k (Frame (request_frame my_mac my_ip ip)))
    \<and> 0 < k \<and> k \<le> length fss"
proof -
  obtain fss' n where h: "fss = fss' @ replicate n []" "readable my_mac (concat fss')"
    "list_all2 (\<lambda>r p. reply_pair r = Inr p) (replies_in my_mac (concat fss')) pairs"
    "length pairs \<le> 2000" "length pairs \<le> n" using assms(1) by (auto simp: heard_def)
  have l: "length (replies_in my_mac (concat fss')) = length pairs" using h(3) by (rule list_all2_lengthD)
  obtain evs where evs: "queue_reads my_mac (new_queue u) fss = Inr evs" "reads_of evs = replies_in my_mac (concat fss')"
    using queue_reads_all [of "new_queue u" my_mac fss' n] h l by auto
  have "length evs = length fss" if "queue_reads my_mac q fss = Inr evs" for q fss evs
    using that by (induction my_mac q fss arbitrary: evs rule: queue_reads.induct) (auto simp: bind_r_eq_Inr split: option.splits)
  with evs(1) have le: "length evs = length fss" by blast
  obtain k where k: "search_loop ip evs 0 = Inr (Some m, k)" "0 < k" "k \<le> length evs"
    using search_loop_first [of evs pairs ip m 0] h(3) evs(2) assms(2) by auto
  show ?thesis
    using k evs(1) le by (intro exI [of _ k])
      (simp add: search_on_surface_def search_for_mac_addr_def request_sent concat_replicate_single request_frame_def)
qed

text \<open>One frame that brings a reply ends the search.\<close>

lemma queue_reads_single:
  assumes "reply_in my_mac f = Inr (Some h)"
  shows "queue_reads my_mac (new_queue u) [[f]] = Inr [Some h]"
proof -
  have "readable my_mac [f]" using assms by simp
  from fill_queue_spec [OF this new_queue_simps(1)] assms obtain q where
    q: "fill_queue my_mac [f] (new_queue u) = Inr q" "cq_inv q" "contents q = [h]" by auto
  from q(2) show ?thesis by (cases rule: front_cases) (use q assms in simp_all)
qed

lemma search_told:
  assumes "reply_in my_mac f = Inr (Some (pair_header ope m ip tm ti))"
  shows "search_on_surface u ip my_mac my_ip [[f]] = Inr (Some m, [Frame (request_frame my_mac my_ip ip)])"
  using search_answered [of "[]" ip "broadcast_surface my_mac" my_mac my_ip ope m tm ti "[]"] queue_reads_single [OF assms]
  by (simp add: search_on_surface_def request_frame_def)

section \<open>An attack\<close>

definition spoof_packet :: "mac_addr \<Rightarrow> ip4_addr \<Rightarrow> mac_addr \<Rightarrow> ip4_addr \<Rightarrow> bytes" where
  "spoof_packet my_mac dest m ip = arp_packet (pair_header arp_op_reply my_mac dest m ip)"

definition spoof_frame :: "mac_addr \<Rightarrow> ip4_addr \<Rightarrow> ip4_addr \<times> mac_addr \<Rightarrow> bytes" where
  "spoof_frame my_mac dest v = frame_of (single_surface (snd v) my_mac) (spoof_packet my_mac dest (snd v) (fst v))"

lemma spoof_frame_received:
  "reply_in m (spoof_frame my_mac dest v)
     = Inr (if m = snd v then Some (pair_header arp_op_reply my_mac dest (snd v) (fst v)) else None)"
  by (auto simp: spoof_frame_def spoof_packet_def reply_in_frame pair_received)

lemma spoof_round_packets:
  "spoof_round (map (\<lambda>(h, m, ip). (Some h, m, ip)) ts) dest my_mac = Inr (map (\<lambda>(h, m, ip). (h, spoof_packet my_mac dest m ip)) ts)"
  by (induction ts) (auto simp: pair_sent spoof_packet_def)

definition round_line :: "nat \<Rightarrow> arp_act" where
  "round_line k = Prints (''spoofed data num '' @ to_dec (k mod 2 ^ 64) @ '' sent'' @ endl)"

lemma attack_rounds_acts:
  "attack_rounds (map (\<lambda>(h, m, ip). (Some h, m, ip)) ts) dest my_mac cnt n
     = Inr (concat (map (\<lambda>k. map (\<lambda>(h, m, ip). Frame (frame_of h (spoof_packet my_mac dest m ip))) ts @ [round_line k]) [cnt..<cnt + n]))"
proof (induction n arbitrary: cnt)
  case (Suc n)
  have "[cnt..<cnt + Suc n] = cnt # [cnt + 1..<cnt + 1 + n]" by (simp add: upt_conv_Cons)
  then show ?case
    unfolding attack_rounds.simps spoof_round_packets bind_r_Inr through_frames Suc [of "cnt + 1"]
    by (simp add: round_line_def case_prod_beta' del: upt_Suc)
qed simp

lemma find_targets_heard:
  "list_all2 (\<lambda>(v, fss) m. \<exists>pairs. heard my_mac fss pairs \<and> map_of pairs v = Some m) victims macs \<Longrightarrow>
   \<exists>acts. find_targets u my_mac my_ip victims
       = Inr (acts, Some (map (\<lambda>(v, m). (Some (single_surface m my_mac), m, v)) (zip (map fst victims) macs)))
     \<and> set acts \<subseteq> (\<lambda>v. Frame (request_frame my_mac my_ip v)) ` fst ` set victims"
proof (induction rule: list_all2_induct)
  case (Cons x xs m ms)
  obtain v fss where x: "x = (v, fss)" by (cases x)
  with Cons obtain pairs where "heard my_mac fss pairs" "map_of pairs v = Some m" by auto
  from search_heard [OF this] obtain k where
    "search_on_surface u v my_mac my_ip fss = Inr (Some m, replicate k (Frame (request_frame my_mac my_ip v)))" by blast
  with Cons show ?case by (fastforce simp: x)
qed simp

section \<open>Properties\<close>

definition scanning :: "ip4_addr \<Rightarrow> arp_act" where
  "scanning ip = Prints (''scanning for '' @ ip4_addr_to_str ip @ endl)"

definition associated :: "mac_addr \<Rightarrow> arp_act" where
  "associated m = Prints (''associated mac addr: '' @ mac_addr_to_str m @ endl)"

text \<open>C28: The scanner for one address prints the hardware address of the first reply for it, whatever else arrives
  before, when it has gone on reading long enough and no more than the 2000 replies that its queue holds have
  arrived; up to then it has sent requests for this address only, one for each read.\<close>

theorem arp_scanner_finds:
  assumes "own_addrs hw iface = Inr (my_mac, my_ip)" and "heard my_mac fss pairs" and "map_of pairs ip = Some m"
  shows "\<exists>k. arp_scan_single_main hw u iface ip fss
      = Inr (scanning ip # replicate k (Frame (request_frame my_mac my_ip ip)) @ [associated m]) \<and> 0 < k \<and> k \<le> length fss"
  using search_heard [OF assms(2,3), of u my_ip] assms(1)
  by (auto simp: arp_scan_single_main_def scanning_def associated_def)

text \<open>A machine, and the frame of a reply to it.\<close>

definition machine :: "mac_addr \<Rightarrow> ip4_addr \<Rightarrow> hardware" where
  "machine m ip = \<lparr>get_mac_addr_of_iface = (\<lambda>_. Some m), get_ip4_addr_of_iface = (\<lambda>_. Some ip)\<rparr>"

definition reply_frame :: "mac_addr \<Rightarrow> ip4_addr \<Rightarrow> mac_addr \<Rightarrow> ip4_addr \<Rightarrow> bytes" where
  "reply_frame m ip my_mac my_ip = frame_of (single_surface my_mac m) (arp_packet (pair_header arp_op_reply m ip my_mac my_ip))"

lemma own_addrs_machine [simp]: "own_addrs (machine m ip) iface = Inr (m, ip)"
  by (simp add: own_addrs_def machine_def opt_value_def)

lemma reply_in_reply_frame [simp]:
  "reply_in my_mac (reply_frame m ip my_mac my_ip) = Inr (Some (pair_header arp_op_reply m ip my_mac my_ip))"
  by (simp add: reply_frame_def reply_in_frame pair_received)

lemma reply_pair_header [simp]: "reply_pair (pair_header ope m ip tm ti) = Inr (ip, m)"
  by (simp add: reply_pair_def)

lemma heard_reply: "heard my_mac [[], [reply_frame m ip my_mac my_ip], []] [(ip, m)]"
  unfolding heard_def
  by (rule exI [of _ "[[], [reply_frame m ip my_mac my_ip]]"], rule exI [of _ 1]) simp

theorem arp_scanner_finds_witness:
  "\<exists>k. arp_scan_single_main (machine mac_addr_empty (Ip4_addr 10 0 0 7)) (arp_request mac_addr_empty ip4_addr_empty ip4_addr_empty) ''eth0''
      (Ip4_addr 10 0 0 9) [[], [reply_frame mac_addr_broadcast (Ip4_addr 10 0 0 9) mac_addr_empty (Ip4_addr 10 0 0 7)], []]
    = Inr (scanning (Ip4_addr 10 0 0 9) # replicate k (Frame (request_frame mac_addr_empty (Ip4_addr 10 0 0 7) (Ip4_addr 10 0 0 9)))
        @ [associated mac_addr_broadcast]) \<and> 0 < k \<and> k \<le> 3"
proof -
  have "map_of [(Ip4_addr 10 0 0 9, mac_addr_broadcast)] (Ip4_addr 10 0 0 9) = Some mac_addr_broadcast" by simp
  from arp_scanner_finds [OF own_addrs_machine heard_reply this] show ?thesis by (simp add: numeral_3_eq_3)
qed

text \<open>The scanner for a subnet asks for every address of it but its own, in ascending order, and prints a line
  for each address of the subnet that is among the first 2000 replies, with the hardware address of the first,
  in ascending order.\<close>

theorem arp_scanner_lists_subnet:
  assumes "no_mask_bits m \<in> {8, 16, 24}" and "own_addrs hw iface = Inr (my_mac, my_ip)"
    and "readable my_mac frames" and "list_all2 (\<lambda>r p. reply_pair r = Inr p) (replies_in my_mac frames) pairs"
  shows "\<exists>ips found. arp_scan_subnet_main hw u iface m frames
      = Some (Inr (Prints (''scanning the subnet '' @ ip4_subnet_mask_to_str m @ endl)
          # map (\<lambda>ip. Frame (request_frame my_mac my_ip ip)) ips
          @ map (\<lambda>ip. Prints (entry_line (ip, the (map_of (take 2000 pairs) ip)))) found))
    \<and> sorted_wrt (<) ips \<and> set ips = {ip. cidr_block m ip \<and> ip \<noteq> my_ip}
    \<and> sorted_wrt (<) found \<and> set found = {ip. cidr_block m ip \<and> ip \<in> fst ` set (take 2000 pairs)}"
proof -
  from fill_queue_spec [OF assms(3) new_queue_simps(1), of u] obtain q where
    q: "fill_queue my_mac frames (new_queue u) = Inr q" "contents q = take 2000 (replies_in my_mac frames)" by auto
  have "list_all2 (\<lambda>r p. reply_pair r = Inr p) (contents q) (take 2000 pairs)"
    unfolding q(2) using assms(4) by (rule list_all2_takeI)
  from scan_subnet_whole [OF assms(1) this, of "broadcast_surface my_mac" "{my_ip}" my_mac my_ip] obtain ips where
    s: "scan_entire_subnet (Some (broadcast_surface my_mac)) m {my_ip} my_mac my_ip (contents q)
      = Some (Inr (requests (broadcast_surface my_mac) my_mac my_ip ips, \<lambda>ip. if cidr_block m ip then map_of (take 2000 pairs) ip else None))"
      "sorted_wrt (<) ips" "set ips = {ip. cidr_block m ip \<and> ip \<notin> {my_ip}}" by blast
  let ?res = "\<lambda>ip. if cidr_block m ip then map_of (take 2000 pairs) ip else None"
  have d: "dom ?res = {ip. cidr_block m ip \<and> ip \<in> fst ` set (take 2000 pairs)}"
    unfolding dom_map_of_conv_image_fst [symmetric] by (auto simp: dom_def split: if_splits)
  have f: "finite (dom ?res)" unfolding d by (rule finite_subset [of _ "fst ` set (take 2000 pairs)"]) auto
  let ?found = "sorted_list_of_set (dom ?res)"
  have "print_entries ?res = map (\<lambda>ip. Prints (entry_line (ip, the (map_of (take 2000 pairs) ip)))) ?found"
    unfolding print_entries_def by (rule map_cong [OF refl]) (use f in \<open>auto simp: domIff split: if_splits\<close>)
  moreover have "sorted_wrt (<) ?found" "set ?found = {ip. cidr_block m ip \<and> ip \<in> fst ` set (take 2000 pairs)}"
    using f d by (simp_all only: strict_sorted_list_of_set set_sorted_list_of_set)
  ultimately show ?thesis
    using q(1) s assms(2)
    by (intro exI [of _ ips] exI [of _ ?found])
      (simp add: arp_scan_subnet_main_def requests_def request_frame_def comp_def)
qed

theorem arp_scanner_lists_subnet_witness:
  "\<exists>ips. arp_scan_subnet_main (machine mac_addr_empty (Ip4_addr 10 0 0 7)) (arp_request mac_addr_empty ip4_addr_empty ip4_addr_empty) ''eth0''
      \<lparr>base_addr = Ip4_addr 10 0 0 7, no_mask_bits = 24\<rparr> [reply_frame mac_addr_broadcast (Ip4_addr 10 0 0 9) mac_addr_empty (Ip4_addr 10 0 0 7)]
    = Some (Inr (Prints (''scanning the subnet '' @ ip4_subnet_mask_to_str \<lparr>base_addr = Ip4_addr 10 0 0 7, no_mask_bits = 24\<rparr> @ endl)
        # map (\<lambda>ip. Frame (request_frame mac_addr_empty (Ip4_addr 10 0 0 7) ip)) ips
        @ [Prints (entry_line (Ip4_addr 10 0 0 9, mac_addr_broadcast))]))
    \<and> Ip4_addr 10 0 0 9 \<in> set ips"
proof -
  let ?m = "\<lparr>base_addr = Ip4_addr 10 0 0 7, no_mask_bits = 24\<rparr>" and ?ip = "Ip4_addr 10 0 0 9"
    and ?f = "reply_frame mac_addr_broadcast (Ip4_addr 10 0 0 9) mac_addr_empty (Ip4_addr 10 0 0 7)"
  have c: "cidr_block ?m ?ip" by code_simp
  have l: "list_all2 (\<lambda>r p. reply_pair r = Inr p) (replies_in mac_addr_empty [?f]) [(?ip, mac_addr_broadcast)]" by simp
  have rd: "readable mac_addr_empty [?f]" by simp
  have t: "take 2000 [(?ip, mac_addr_broadcast)] = [(?ip, mac_addr_broadcast)]" by simp
  have bits: "no_mask_bits ?m \<in> {8, 16, 24}" by simp
  obtain ips found where
    r: "arp_scan_subnet_main (machine mac_addr_empty (Ip4_addr 10 0 0 7)) (arp_request mac_addr_empty ip4_addr_empty ip4_addr_empty) ''eth0'' ?m [?f]
      = Some (Inr (Prints (''scanning the subnet '' @ ip4_subnet_mask_to_str ?m @ endl)
          # map (\<lambda>ip. Frame (request_frame mac_addr_empty (Ip4_addr 10 0 0 7) ip)) ips
          @ map (\<lambda>ip. Prints (entry_line (ip, the (map_of [(?ip, mac_addr_broadcast)] ip)))) found))"
      "set ips = {ip. cidr_block ?m ip \<and> ip \<noteq> Ip4_addr 10 0 0 7}" "sorted_wrt (<) found"
      "set found = {ip. cidr_block ?m ip \<and> ip \<in> fst ` set [(?ip, mac_addr_broadcast)]}"
    using arp_scanner_lists_subnet [OF bits own_addrs_machine rd l, unfolded t,
        of "Ip4_addr 10 0 0 7" "arp_request mac_addr_empty ip4_addr_empty ip4_addr_empty" "''eth0''"] by blast
  have s: "set found = {?ip}" using r(4) c by auto
  have "found = [?ip]"
  proof (cases found)
    case (Cons x xs)
    then have "x = ?ip" "\<forall>y \<in> set xs. y = ?ip \<and> x < y" using r(3) s by auto
    then have "set xs = {}" by (metis less_irrefl equals0I)
    then show ?thesis using Cons \<open>x = ?ip\<close> by simp
  qed (use s in simp)
  then show ?thesis using r(1,2) c by (intro exI [of _ ips]) simp
qed

text \<open>C17: When every victim has answered, each round of the attack sends one frame to each of them and none to
  anybody else, and such a frame makes a scanner on the victim's machine, asked for the destination, print the
  attacker's hardware address; nobody else is given a reply by it.\<close>

theorem arp_spoof_deceives_victims:
  assumes "own_addrs hw iface = Inr (my_mac, my_ip)" and "victims \<noteq> []"
    and "list_all2 (\<lambda>(v, fss) m. \<exists>pairs. heard my_mac fss pairs \<and> map_of pairs v = Some m) victims macs"
  shows "\<exists>acts. arp_spoof hw u iface victims dest block n
      = Inr (Prints (''victims: '' @ victims_line (map fst victims) @ endl) # acts
          @ Prints (''spoofing all victims'' @ endl) # System (forwarding block)
          # concat (map (\<lambda>k. map (\<lambda>v. Frame (spoof_frame my_mac dest v)) (zip (map fst victims) macs) @ [round_line k]) [0..<n]))
    \<and> set acts \<subseteq> (\<lambda>v. Frame (request_frame my_mac my_ip v)) ` fst ` set victims
    \<and> (\<forall>v ip m his_ip his_hw his_iface. own_addrs his_hw his_iface = Inr (m, his_ip) \<longrightarrow>
         (if m = snd v
          then arp_scan_single_main his_hw u his_iface dest [[spoof_frame my_mac dest v]]
            = Inr [scanning dest, Frame (request_frame m his_ip dest), associated my_mac]
          else reply_in m (spoof_frame my_mac dest v) = Inr None))"
proof -
  obtain acts where acts: "find_targets u my_mac my_ip victims
       = Inr (acts, Some (map (\<lambda>(v, m). (Some (single_surface m my_mac), m, v)) (zip (map fst victims) macs)))"
     "set acts \<subseteq> (\<lambda>v. Frame (request_frame my_mac my_ip v)) ` fst ` set victims"
    using find_targets_heard [OF assms(3)] by blast
  have t: "map (\<lambda>(v, m). (Some (single_surface m my_mac), m, v)) zs
      = map (\<lambda>(h, m, ip). (Some h, m, ip)) (map (\<lambda>(v, m). (single_surface m my_mac, m, v)) zs)" for zs
    by (simp add: case_prod_beta)
  have att: "attack_rounds (map (\<lambda>(v, m). (Some (single_surface m my_mac), m, v)) zs) dest my_mac 0 n
      = Inr (concat (map (\<lambda>k. map (\<lambda>v. Frame (spoof_frame my_mac dest v)) zs @ [round_line k]) [0..<n]))" for zs
    unfolding t attack_rounds_acts by (simp add: spoof_frame_def comp_def case_prod_beta')
  have "arp_spoof hw u iface victims dest block n
      = Inr (Prints (''victims: '' @ victims_line (map fst victims) @ endl) # acts
          @ Prints (''spoofing all victims'' @ endl) # System (forwarding block)
          # concat (map (\<lambda>k. map (\<lambda>v. Frame (spoof_frame my_mac dest v)) (zip (map fst victims) macs) @ [round_line k]) [0..<n]))"
    using assms(1,2) acts(1) att by (simp add: arp_spoof_def spoofing_attack_def)
  moreover have "arp_scan_single_main his_hw u his_iface dest [[spoof_frame my_mac dest v]]
      = Inr [scanning dest, Frame (request_frame m his_ip dest), associated my_mac]"
    if "own_addrs his_hw his_iface = Inr (m, his_ip)" "m = snd v" for his_hw his_iface his_ip m v
    using search_told [of m "spoof_frame my_mac dest v"] that
    by (simp add: arp_scan_single_main_def spoof_frame_received scanning_def associated_def)
  ultimately show ?thesis using acts(2) by (auto simp: spoof_frame_received)
qed

theorem arp_spoof_deceives_victims_witness:
  "\<exists>acts. arp_spoof (machine mac_addr_empty (Ip4_addr 10 0 0 7)) (arp_request mac_addr_empty ip4_addr_empty ip4_addr_empty) ''eth0''
      [(Ip4_addr 10 0 0 9, [[], [reply_frame mac_addr_broadcast (Ip4_addr 10 0 0 9) mac_addr_empty (Ip4_addr 10 0 0 7)], []])]
      (Ip4_addr 10 0 0 1) True 1
    = Inr (Prints (''victims: '' @ victims_line [Ip4_addr 10 0 0 9] @ endl) # acts @ [Prints (''spoofing all victims'' @ endl),
        System (forwarding True), Frame (spoof_frame mac_addr_empty (Ip4_addr 10 0 0 1) (Ip4_addr 10 0 0 9, mac_addr_broadcast)), round_line 0])"
proof -
  let ?ip = "Ip4_addr 10 0 0 9"
  let ?vs = "[(?ip, [[], [reply_frame mac_addr_broadcast ?ip mac_addr_empty (Ip4_addr 10 0 0 7)], []])]"
  have "map_of [(?ip, mac_addr_broadcast)] ?ip = Some mac_addr_broadcast" by simp
  then have "list_all2 (\<lambda>(v, fss) m. \<exists>pairs. heard mac_addr_empty fss pairs \<and> map_of pairs v = Some m) ?vs [mac_addr_broadcast]"
    using heard_reply [of mac_addr_empty mac_addr_broadcast ?ip "Ip4_addr 10 0 0 7"] by auto
  from arp_spoof_deceives_victims [OF own_addrs_machine _ this, of "Ip4_addr 10 0 0 7"
      "arp_request mac_addr_empty ip4_addr_empty ip4_addr_empty" "''eth0''" "Ip4_addr 10 0 0 1" True 1]
  show ?thesis by (auto simp del: victims_line.simps)
qed

text \<open>An attack on the whole network sends one frame a round, to the broadcast address, and no search of this
  framework is given a reply by it: the access that receives for a search takes frames for its own address only.\<close>

theorem arp_spoof_broadcast_unheard:
  assumes "own_addrs hw iface = Inr (my_mac, my_ip)"
  shows "\<exists>f. arp_spoof hw u iface [] dest block n
      = Inr ([Prints (''victims: all broadcast'' @ endl), Prints (''spoofing entire network'' @ endl), System (forwarding block)]
          @ concat (map (\<lambda>k. [Frame f, round_line k]) [0..<n]))
    \<and> reply_in mac_addr_broadcast f = Inr (Some (pair_header arp_op_reply my_mac dest mac_addr_empty ip4_addr_empty))
    \<and> (\<forall>m. m \<noteq> mac_addr_broadcast \<longrightarrow> reply_in m f = Inr None)"
proof -
  let ?f = "frame_of (broadcast_surface my_mac) (spoof_packet my_mac dest mac_addr_empty ip4_addr_empty)"
  show ?thesis
    using assms attack_rounds_acts [of "[(broadcast_surface my_mac, mac_addr_empty, ip4_addr_empty)]" dest my_mac 0 n]
    by (intro exI [of _ ?f])
      (auto simp: arp_spoof_def spoofing_attack_def reply_in_frame spoof_packet_def pair_received)
qed

theorem arp_spoof_broadcast_unheard_witness:
  "\<exists>f. arp_spoof (machine mac_addr_empty (Ip4_addr 10 0 0 7)) (arp_request mac_addr_empty ip4_addr_empty ip4_addr_empty) ''eth0'' []
      (Ip4_addr 10 0 0 1) False 1
    = Inr [Prints (''victims: all broadcast'' @ endl), Prints (''spoofing entire network'' @ endl), System (forwarding False), Frame f, round_line 0]
    \<and> reply_in mac_addr_empty f = Inr None"
proof -
  have "mac_addr_empty \<noteq> mac_addr_broadcast" by code_simp
  then show ?thesis
    using arp_spoof_broadcast_unheard [OF own_addrs_machine, of mac_addr_empty "Ip4_addr 10 0 0 7"
        "arp_request mac_addr_empty ip4_addr_empty ip4_addr_empty" "''eth0''" "Ip4_addr 10 0 0 1" False 1] by auto
qed

end
