(* ===== verification/Hardware.thy ===== *)
theory Hardware
  imports Text Ip4_Addr Mac_Addr Arp_Programs
begin

text \<open>
  What the programs ask the system about an interface: \<^verbatim>\<open>src/lib/linux/hardware.cpp\<close> and
  \<^verbatim>\<open>src/lib/macos/hardware.cpp\<close>.  The answers of the system (of \<^verbatim>\<open>ioctl\<close>,
  \<^verbatim>\<open>getifaddrs\<close> and \<^verbatim>\<open>sysctl\<close>, and the text of \<^verbatim>\<open>/proc/net/route\<close>)
  are arguments.
\<close>

section \<open>C strings and lines\<close>

definition c_str :: "string \<Rightarrow> string" where
  "c_str s = takeWhile (\<lambda>c. c \<noteq> CHR 0x00) s"

text \<open>\<^verbatim>\<open>fgets\<close>: the line, up to one character less than the size, and what is left of the file.\<close>

definition fgets :: "nat \<Rightarrow> string \<Rightarrow> (string \<times> string) option" where
  "fgets sz file =
     (if file = [] then None
      else let l = takeWhile (\<lambda>c. c \<noteq> CHR 0x0A) file;
               n = min (sz - 1) (if length l < length file then length l + 1 else length l)
           in Some (take n file, drop n file))"

text \<open>\<^verbatim>\<open>%s\<close> and \<^verbatim>\<open>%x\<close> of \<^verbatim>\<open>sscanf\<close>, with the rest of the text.  A value
  that does not fit the variable is undefined; it is taken modulo its size.\<close>

definition scan_s :: "string \<Rightarrow> (string \<times> string) option" where
  "scan_s s =
     (let s1 = dropWhile is_space s; w = takeWhile (\<lambda>c. \<not> is_space c) s1
      in if w = [] then None else Some (w, dropWhile (\<lambda>c. \<not> is_space c) s1))"

definition scan_x :: "string \<Rightarrow> (u32 \<times> string) option" where
  "scan_x s =
     (let s1 = dropWhile is_space s;
          neg = (s1 \<noteq> [] \<and> hd s1 = CHR ''-'');
          s2 = (if s1 \<noteq> [] \<and> (hd s1 = CHR ''-'' \<or> hd s1 = CHR ''+'') then tl s1 else s1);
          s3 = (case s2 of z # x # h # _ \<Rightarrow> if z = CHR ''0'' \<and> (x = CHR ''x'' \<or> x = CHR ''X'') \<and> is_hex h
                                               then drop 2 s2 else s2
                | _ \<Rightarrow> s2);
          ds = takeWhile is_hex s3
      in if ds = [] then None
         else Some (word_of_int (if neg then - int (hex_value ds) else int (hex_value ds)), dropWhile is_hex s3))"

section \<open>Linux\<close>

record linux_os =
  siocgifhwaddr :: "string \<Rightarrow> bytes option"  \<comment> \<open>\<^verbatim>\<open>sa_data\<close> of the hardware address\<close>
  siocgifaddr :: "string \<Rightarrow> bytes option"    \<comment> \<open>\<^verbatim>\<open>s_addr\<close> of the address\<close>
  proc_net_route :: "string option"

text \<open>The name in an \<^verbatim>\<open>ifreq\<close>, of which \<^verbatim>\<open>IFNAMSIZ\<close> is 16.\<close>

definition ifr_name :: "string \<Rightarrow> string" where
  "ifr_name iface = take 15 (c_str iface)"

definition linux_get_mac_addr_of_iface :: "linux_os \<Rightarrow> string \<Rightarrow> mac_addr option result" where
  "linux_get_mac_addr_of_iface os iface =
     (case siocgifhwaddr os (ifr_name iface) of
        None \<Rightarrow> Inr None
      | Some sa_data \<Rightarrow> bind_r (extract_mac_addr sa_data) (\<lambda>(a, _). Inr (Some a)))"

text \<open>The request: the name, the family and the first bytes of the address.\<close>

definition linux_set_mac_addr_for_iface :: "string \<Rightarrow> mac_addr \<Rightarrow> string \<times> u16 \<times> bytes" where
  "linux_set_mac_addr_for_iface iface new_addr = (ifr_name iface, 1, mac_octets new_addr @ replicate 8 0)"

definition linux_get_ip4_addr_of_iface :: "linux_os \<Rightarrow> string \<Rightarrow> ip4_addr option result" where
  "linux_get_ip4_addr_of_iface os iface =
     (case siocgifaddr os (ifr_name iface) of
        None \<Rightarrow> Inr None
      | Some s_addr \<Rightarrow> bind_r (extract_ip4_addr s_addr) (\<lambda>(a, _). Inr (Some a)))"

text \<open>A line of the routing table: the interface, whose buffer has 16 characters, the destination and the
  gateway; \<open>None\<close> when there are not three fields.\<close>

definition scan_route :: "string \<Rightarrow> (string \<times> u32 \<times> u32) option result" where
  "scan_route buffer =
     (case scan_s buffer of
        None \<Rightarrow> Inr None
      | Some (curr_iface, s) \<Rightarrow>
          if 16 \<le> length curr_iface then Inl Overwrite
          else (case scan_x s of
                  None \<Rightarrow> Inr None
                | Some (dest, s) \<Rightarrow> (case scan_x s of None \<Rightarrow> Inr None | Some (gw, _) \<Rightarrow> Inr (Some (curr_iface, dest, gw)))))"

text \<open>The bytes of a variable, read as an address.\<close>

definition ip4_in_memory :: "u32 \<Rightarrow> ip4_addr" where
  "ip4_in_memory w = Ip4_addr (ucast w) (ucast (drop_bit 8 w)) (ucast (drop_bit 16 w)) (ucast (drop_bit 24 w))"

lemma fgets_shorter: "fgets 2000 file = Some (l, rest) \<Longrightarrow> length rest < length file"
  by (auto simp: fgets_def Let_def length_greater_0_conv [symmetric] simp del: length_greater_0_conv split: if_splits)

function gateway_loop :: "string \<Rightarrow> string \<Rightarrow> ip4_addr option result" where
  "gateway_loop iface file =
     (case fgets 2000 file of
        None \<Rightarrow> Inr None
      | Some (buffer, rest) \<Rightarrow>
          (case scan_route (c_str buffer) of
             Inl e \<Rightarrow> Inl e
           | Inr None \<Rightarrow> gateway_loop iface rest
           | Inr (Some (curr_iface, dest, gw)) \<Rightarrow>
               if curr_iface \<noteq> c_str iface \<or> dest \<noteq> 0 then gateway_loop iface rest
               else Inr (Some (ip4_in_memory gw))))"
  by pat_completeness auto

termination
  by (relation "measure (length \<circ> snd)") (auto dest: fgets_shorter)

declare gateway_loop.simps [simp del]

definition linux_get_default_gateway_of_iface :: "linux_os \<Rightarrow> string \<Rightarrow> ip4_addr option result" where
  "linux_get_default_gateway_of_iface os iface =
     (case proc_net_route os of
        None \<Rightarrow> Inr None
      | Some file \<Rightarrow> (case fgets 2000 file of None \<Rightarrow> Inr None | Some (_, rest) \<Rightarrow> gateway_loop iface rest))"

text \<open>The answers as the programs see them.\<close>

definition linux_hardware :: "linux_os \<Rightarrow> hardware" where
  "linux_hardware os =
     \<lparr>get_mac_addr_of_iface = (\<lambda>iface. case linux_get_mac_addr_of_iface os iface of Inr r \<Rightarrow> r | Inl _ \<Rightarrow> None),
      get_ip4_addr_of_iface = (\<lambda>iface. case linux_get_ip4_addr_of_iface os iface of Inr r \<Rightarrow> r | Inl _ \<Rightarrow> None)\<rparr>"

section \<open>macOS\<close>

text \<open>An entry of \<^verbatim>\<open>getifaddrs\<close>; its address may be a null pointer.  \<open>Af_link\<close> has the bytes of the
  hardware address.\<close>

datatype sockaddr = Af_link bytes | Af_inet bytes | Af_other

record ifaddr =
  ifa_name :: string
  ifa_addr :: "sockaddr option"

fun find_link_addr :: "string \<Rightarrow> ifaddr list \<Rightarrow> mac_addr option result" where
  "find_link_addr iface [] = Inr None"
| "find_link_addr iface (i # is) =
     (case ifa_addr i of
        None \<Rightarrow> Inl Null_deref
      | Some (Af_link lladdr) \<Rightarrow>
          if ifa_name i = c_str iface \<and> length lladdr = 6 then bind_r (extract_mac_addr lladdr) (\<lambda>(a, _). Inr (Some a))
          else find_link_addr iface is
      | Some _ \<Rightarrow> find_link_addr iface is)"

definition macos_get_mac_addr_of_iface :: "ifaddr list option \<Rightarrow> string \<Rightarrow> mac_addr option result" where
  "macos_get_mac_addr_of_iface ifap iface = (case ifap of None \<Rightarrow> Inr None | Some is \<Rightarrow> find_link_addr iface is)"

fun find_inet_addr :: "string \<Rightarrow> ifaddr list \<Rightarrow> ip4_addr option result" where
  "find_inet_addr iface [] = Inr None"
| "find_inet_addr iface (i # is) =
     (case ifa_addr i of
        None \<Rightarrow> Inl Null_deref
      | Some (Af_inet s_addr) \<Rightarrow>
          if ifa_name i = c_str iface then bind_r (extract_ip4_addr s_addr) (\<lambda>(a, _). Inr (Some a))
          else find_inet_addr iface is
      | Some _ \<Rightarrow> find_inet_addr iface is)"

definition macos_get_ip4_addr_of_iface :: "ifaddr list option \<Rightarrow> string \<Rightarrow> ip4_addr option result" where
  "macos_get_ip4_addr_of_iface ifap iface = (case ifap of None \<Rightarrow> Inr None | Some is \<Rightarrow> find_inet_addr iface is)"

text \<open>The command that is run.\<close>

definition macos_set_mac_addr_for_iface :: "string \<Rightarrow> mac_addr \<Rightarrow> string" where
  "macos_set_mac_addr_for_iface iface new_addr = c_str (''ifconfig '' @ iface @ '' ether '' @ mac_addr_to_str new_addr)"

text \<open>The messages of the routing table: the bits of the addresses they have, and the addresses (whether of
  the family of IPv4, the length, and \<^verbatim>\<open>s_addr\<close>).\<close>

record route_sockaddr =
  sin_inet :: bool
  sin_len :: nat
  sin_s_addr :: u32

record rt_msg =
  rtm_addrs :: u32
  rtm_sockaddrs :: "route_sockaddr list"

text \<open>The loop over the bits, with \<open>n\<close> of the \<^verbatim>\<open>RTAX_MAX\<close> (8) to go: the destination (bit 0) and the
  gateway (bit 1).\<close>

fun pick_addrs :: "nat \<Rightarrow> u32 \<Rightarrow> 'a list \<Rightarrow> 'a option \<times> 'a option \<Rightarrow> ('a option \<times> 'a option) result" where
  "pick_addrs 0 bits sas found = Inr found"
| "pick_addrs (Suc n) bits sas found =
     (let i = 8 - Suc n in
      if \<not> bit bits i then pick_addrs n bits sas found
      else case sas of
             [] \<Rightarrow> Inl Overread
           | sa # sas \<Rightarrow> pick_addrs n bits sas
               (if i = 0 then Some sa else fst found, if i = 1 then Some sa else snd found))"

fun find_gateway :: "rt_msg list \<Rightarrow> ip4_addr option result" where
  "find_gateway [] = Inr None"
| "find_gateway (m # ms) =
     (if \<not> bit (rtm_addrs m) 1 then find_gateway ms
      else bind_r (pick_addrs 8 (rtm_addrs m) (rtm_sockaddrs m) (None, None)) (\<lambda>found.
        case found of
          (Some dest, Some gateway) \<Rightarrow>
            if sin_inet dest \<and> 0 < sin_len dest \<and> sin_s_addr dest = 0 then Inr (Some (ip4_in_memory (sin_s_addr gateway)))
            else find_gateway ms
        | _ \<Rightarrow> find_gateway ms))"

definition macos_get_default_gateway_of_iface :: "rt_msg list option \<Rightarrow> string \<Rightarrow> ip4_addr option result" where
  "macos_get_default_gateway_of_iface dump iface = (case dump of None \<Rightarrow> Inr None | Some ms \<Rightarrow> find_gateway ms)"

section \<open>The text of the routing table\<close>

text \<open>How the kernel writes a line: the name, and the two addresses as the hexadecimal number of their four bytes
  in memory, least byte last.\<close>

definition hex_upper :: "nat \<Rightarrow> char" where
  "hex_upper d = (if d < 10 then char_of (48 + d) else char_of (55 + d))"

definition hex2_upper :: "u8 \<Rightarrow> string" where
  "hex2_upper x = [hex_upper (unat x div 16), hex_upper (unat x mod 16)]"

definition route_hex :: "ip4_addr \<Rightarrow> string" where
  "route_hex ip = concat (map hex2_upper (rev (octets ip)))"

type_synonym route_entry = "string \<times> ip4_addr \<times> ip4_addr \<times> string"

definition route_line :: "route_entry \<Rightarrow> string" where
  "route_line = (\<lambda>(name, dest, gw, extra). name @ CHR 0x09 # route_hex dest @ CHR 0x09 # route_hex gw @ extra)"

definition good_route :: "route_entry \<Rightarrow> bool" where
  "good_route = (\<lambda>(name, dest, gw, extra). name \<noteq> [] \<and> length name < 16 \<and> (\<forall>c \<in> set name. \<not> is_space c \<and> c \<noteq> CHR 0x00)
     \<and> CHR 0x0A \<notin> set extra \<and> CHR 0x00 \<notin> set extra \<and> (extra = [] \<or> is_space (hd extra)) \<and> length extra \<le> 1900)"

definition route_text :: "string \<Rightarrow> route_entry list \<Rightarrow> string" where
  "route_text header rs = header @ CHR 0x0A # concat (map (\<lambda>r. route_line r @ [CHR 0x0A]) rs)"

lemma hex_upper_digit [simp]: "d < 16 \<Longrightarrow> is_hex (hex_upper d)" "d < 16 \<Longrightarrow> hex_val (hex_upper d) = d"
  by (auto simp: is_hex_def hex_val_def hex_upper_def is_digit_def)

lemma nibbles_u8 [simp]: "unat (x :: u8) div 16 < 16" "unat (x :: u8) mod 16 < 16"
  using unat_u8_less [of x] by (simp_all add: less_mult_imp_div_less)

lemma route_hex_digits: "list_all is_hex (route_hex ip) \<and> length (route_hex ip) = 8"
  by (cases ip) (simp add: route_hex_def hex2_upper_def)

fun ip4_word :: "ip4_addr \<Rightarrow> u32" where
  "ip4_word (Ip4_addr a b c d) = join32 a b c d"

lemma ip4_in_memory_word [simp]: "ip4_in_memory (ip4_word ip) = ip"
  by (cases ip) (simp add: ip4_in_memory_def)

lemma ip4_word_zero: "ip4_word ip = 0 \<longleftrightarrow> ip = ip4_addr_empty"
proof
  assume "ip4_word ip = 0"
  then have "ip = ip4_in_memory 0" by (metis ip4_in_memory_word)
  then show "ip = ip4_addr_empty" by (simp add: ip4_in_memory_def ip4_addr_empty_def)
qed (simp add: ip4_addr_empty_def join32_def)

lemma route_hex_value: "word_of_int (int (hex_value (route_hex ip))) = ip4_word ip"
proof -
  obtain a b c d where ip: "ip = Ip4_addr a b c d" by (cases ip)
  have v: "16 * (16 * (16 * (16 * (16 * (16 * (16 * (16 * 0 + d1) + d0) + c1) + c0) + b1) + b0) + a1) + a0
      = (a1 * 16 + a0) + 256 * (b1 * 16 + b0) + 65536 * (c1 * 16 + c0) + 16777216 * (d1 * 16 + d0)"
    for a0 a1 b0 b1 c0 c1 d0 d1 :: nat by simp
  have h: "hex_value [hex_upper (unat d div 16), hex_upper (unat d mod 16), hex_upper (unat c div 16), hex_upper (unat c mod 16),
        hex_upper (unat b div 16), hex_upper (unat b mod 16), hex_upper (unat a div 16), hex_upper (unat a mod 16)]
      = unat a + 256 * unat b + 65536 * unat c + 16777216 * unat d"
    unfolding hex_value_def by (simp only: fold_simps hex_upper_digit nibbles_u8 v div_mult_mod_eq)
  have "hex_value (route_hex ip) = unat (join32 a b c d)"
    by (simp add: ip route_hex_def hex2_upper_def h unat_join32)
  then show ?thesis by (simp add: ip)
qed

lemma scan_x_route_hex:
  assumes "rest = [] \<or> \<not> is_hex (hd rest)"
  shows "scan_x (CHR 0x09 # route_hex ip @ rest) = Some (ip4_word ip, rest)"
proof -
  have h: "list_all is_hex (route_hex ip)" "length (route_hex ip) = 8" using route_hex_digits by auto
  then obtain x y z zs where x: "route_hex ip = x # y # z # zs" "is_hex x" "is_hex y"
    by (auto simp: length_Suc_conv eval_nat_numeral)
  have tw: "takeWhile is_hex (route_hex ip @ rest) = route_hex ip" "dropWhile is_hex (route_hex ip @ rest) = rest"
    using h assms by (auto simp: takeWhile_append dropWhile_append list_all_iff takeWhile_eq_Nil_iff dropWhile_eq_self_iff)
  have "is_space (CHR 0x09)" by (simp add: is_space_def)
  moreover have "y \<noteq> CHR ''x''" "y \<noteq> CHR ''X''" using x(3) by (auto simp: is_hex_def is_digit_def)
  ultimately have p: "scan_x (CHR 0x09 # route_hex ip @ rest)
      = (let ds = takeWhile is_hex (route_hex ip @ rest) in
         if ds = [] then None else Some (word_of_int (int (hex_value ds)), dropWhile is_hex (route_hex ip @ rest)))"
    using is_hex_not_space [OF x(2)] hex_not_special [OF x(2)] by (simp add: scan_x_def x(1))
  show ?thesis unfolding p tw using x(1) route_hex_value [of ip] by (simp add: Let_def)
qed

lemma scan_route_line:
  assumes "good_route (name, dest, gw, extra)"
  shows "scan_route (route_line (name, dest, gw, extra) @ [CHR 0x0A]) = Inr (Some (name, ip4_word dest, ip4_word gw))"
proof -
  have n: "name \<noteq> []" "length name < 16" "\<forall>c \<in> set name. \<not> is_space c" and m: "extra = [] \<or> is_space (hd extra)"
    using assms by (auto simp: good_route_def)
  have t: "is_space (CHR 0x09)" by (simp add: is_space_def)
  have "dropWhile is_space (name @ xs) = name @ xs" for xs using n by (cases name) auto
  then have s: "scan_s (name @ CHR 0x09 # xs) = Some (name, CHR 0x09 # xs)" for xs
    using n t by (simp add: scan_s_def Let_def takeWhile_append dropWhile_append)
  have a: "\<not> is_hex (CHR 0x09)" by (simp add: is_hex_def is_digit_def)
  have b: "\<not> is_hex (hd (extra @ [CHR 0x0A]))"
    using m is_hex_not_space by (cases extra) (auto simp: is_hex_def is_digit_def)
  have "scan_x (CHR 0x09 # route_hex gw @ extra @ [CHR 0x0A]) = Some (ip4_word gw, extra @ [CHR 0x0A])"
    by (rule scan_x_route_hex) (use b in simp)
  then show ?thesis
    using n(2) scan_x_route_hex [of "CHR 0x09 # route_hex gw @ extra @ [CHR 0x0A]" dest] a
    by (simp add: scan_route_def route_line_def s)
qed

lemma route_line_chars:
  assumes "good_route r"
  shows "CHR 0x0A \<notin> set (route_line r)" "CHR 0x00 \<notin> set (route_line r)" "length (route_line r) < 1999" "route_line r \<noteq> []"
proof -
  obtain name dest gw extra where r: "r = (name, dest, gw, extra)" by (cases r)
  have h: "CHR 0x0A \<notin> set (route_hex ip)" "CHR 0x00 \<notin> set (route_hex ip)" "length (route_hex ip) = 8" for ip
    using route_hex_digits [of ip] by (auto simp: list_all_iff is_hex_def is_digit_def)
  have "\<not> is_space c \<Longrightarrow> c \<noteq> CHR 0x0A" for c by (auto simp: is_space_def)
  then have n: "CHR 0x0A \<notin> set name" "CHR 0x00 \<notin> set name" using assms by (auto simp: r good_route_def)
  show "CHR 0x0A \<notin> set (route_line r)" "CHR 0x00 \<notin> set (route_line r)" "length (route_line r) < 1999" "route_line r \<noteq> []"
    using assms n h by (auto simp: r good_route_def route_line_def)
qed

lemma fgets_line:
  assumes "CHR 0x0A \<notin> set l" "length l < 1999"
  shows "fgets 2000 (l @ CHR 0x0A # rest) = Some (l @ [CHR 0x0A], rest)"
proof -
  have "takeWhile (\<lambda>c. c \<noteq> CHR 0x0A) (l @ CHR 0x0A # rest) = l"
    using assms(1) by (subst takeWhile_append2) auto
  then show ?thesis using assms(2) by (simp add: fgets_def Let_def)
qed

lemma c_str_line: "CHR 0x00 \<notin> set l \<Longrightarrow> c_str (l @ [CHR 0x0A]) = l @ [CHR 0x0A]"
  by (auto simp: c_str_def takeWhile_append)

lemma gateway_loop_routes:
  "\<forall>r \<in> set rs. good_route r \<Longrightarrow>
   gateway_loop iface (concat (map (\<lambda>r. route_line r @ [CHR 0x0A]) rs))
     = Inr (map_option (\<lambda>r. fst (snd (snd r))) (find (\<lambda>r. fst r = c_str iface \<and> fst (snd r) = ip4_addr_empty) rs))"
proof (induction rs)
  case Nil
  then show ?case by (simp add: gateway_loop.simps fgets_def)
next
  case (Cons r rs)
  obtain name dest gw extra where r: "r = (name, dest, gw, extra)" by (cases r)
  have g: "good_route r" using Cons.prems by simp
  note ch = route_line_chars [OF g]
  let ?rest = "concat (map (\<lambda>r. route_line r @ [CHR 0x0A]) rs)"
  have f: "fgets 2000 (route_line r @ CHR 0x0A # ?rest) = Some (route_line r @ [CHR 0x0A], ?rest)"
    by (rule fgets_line [OF ch(1,3)])
  have "scan_route (c_str (route_line r @ [CHR 0x0A])) = Inr (Some (name, ip4_word dest, ip4_word gw))"
    unfolding c_str_line [OF ch(2)] using scan_route_line g by (simp add: r)
  then have "gateway_loop iface (route_line r @ CHR 0x0A # ?rest)
      = (if name \<noteq> c_str iface \<or> dest \<noteq> ip4_addr_empty then gateway_loop iface ?rest else Inr (Some gw))"
    by (subst gateway_loop.simps) (simp add: f ip4_word_zero)
  then show ?case using Cons by (simp add: r)
qed

section \<open>Properties\<close>

text \<open>C31: On the text that the kernel writes for its routes, the default gateway of an interface is the gateway of the
  first route of that interface whose destination is empty, and there is none when there is no such route.\<close>

theorem default_gateway_found:
  assumes "\<forall>r \<in> set rs. good_route r" and "CHR 0x0A \<notin> set header" and "length header < 1999"
    and "proc_net_route os = Some (route_text header rs)"
  shows "linux_get_default_gateway_of_iface os iface
    = Inr (map_option (\<lambda>(name, dest, gw, extra). gw) (find (\<lambda>(name, dest, gw, extra). name = c_str iface \<and> dest = ip4_addr_empty) rs))"
  using gateway_loop_routes [OF assms(1), of iface] assms(4)
  by (simp add: linux_get_default_gateway_of_iface_def route_text_def fgets_line [OF assms(2,3)] case_prod_beta')

theorem default_gateway_found_witness:
  "linux_get_default_gateway_of_iface
     \<lparr>siocgifhwaddr = (\<lambda>_. None), siocgifaddr = (\<lambda>_. None), proc_net_route = Some (route_text ''Iface'' 
       [(''eth0'', Ip4_addr 10 0 0 0, ip4_addr_empty, []), (''eth1'', ip4_addr_empty, Ip4_addr 10 1 0 1, []),
        (''eth0'', ip4_addr_empty, Ip4_addr 10 0 0 1, [CHR 0x09])])\<rparr> ''eth0'' = Inr (Some (Ip4_addr 10 0 0 1))"
proof -
  let ?rs = "[(''eth0'', Ip4_addr 10 0 0 0, ip4_addr_empty, []), (''eth1'', ip4_addr_empty, Ip4_addr 10 1 0 1, []),
        (''eth0'', ip4_addr_empty, Ip4_addr 10 0 0 1, [CHR 0x09])]"
  have g: "\<forall>r \<in> set ?rs. good_route r" by (simp add: good_route_def is_space_def)
  have "find (\<lambda>(name, dest, gw, extra). name = c_str ''eth0'' \<and> dest = ip4_addr_empty) ?rs
      = Some (''eth0'', ip4_addr_empty, Ip4_addr 10 0 0 1, [CHR 0x09])"
    by (simp add: c_str_def ip4_addr_empty_def)
  then show ?thesis by (subst default_gateway_found [OF g, of "''Iface''"]) simp_all
qed

text \<open>A first field of 16 characters or extra is stored beyond its buffer, whatever the interface.\<close>

theorem long_route_overflows:
  assumes "w \<noteq> []" and "\<forall>c \<in> set w. \<not> is_space c" and "rest = [] \<or> is_space (hd rest)"
  shows "scan_route (w @ rest) = Inl Overwrite \<longleftrightarrow> 16 \<le> length w"
proof -
  have "dropWhile is_space (w @ rest) = w @ rest" using assms(1,2) by (cases w) auto
  moreover have "takeWhile (\<lambda>c. \<not> is_space c) (w @ rest) = w" "dropWhile (\<lambda>c. \<not> is_space c) (w @ rest) = rest"
    using assms(2,3) by (auto simp: takeWhile_append dropWhile_append takeWhile_eq_Nil_iff dropWhile_eq_self_iff)
  ultimately have "scan_s (w @ rest) = Some (w, rest)" using assms(1) by (simp add: scan_s_def Let_def)
  then show ?thesis by (auto simp: scan_route_def split: option.splits)
qed

text \<open>The hardware address that is set is the one that is read: on Linux when the system has stored the request
  under the name it was given, and on macOS the command ends with the text of the address, which parses back to
  it, when the name has no null character.\<close>

theorem mac_addr_set:
  assumes "linux_set_mac_addr_for_iface iface a = (name, family, sa_data)" and "siocgifhwaddr os name = Some sa_data"
    and "CHR 0x00 \<notin> set iface'"
  shows "linux_get_mac_addr_of_iface os iface = Inr (Some a)
    \<and> get_mac_addr_of_iface (linux_hardware os) iface = Some a
    \<and> (\<exists>text. macos_set_mac_addr_for_iface iface' a = ''ifconfig '' @ iface' @ '' ether '' @ text
         \<and> str_to_mac_addr text = Inr (Some a))"
proof -
  have l: "linux_get_mac_addr_of_iface os iface = Inr (Some a)"
    using assms(1,2) extract_write_mac_addr [of a "replicate 8 0"]
    by (auto simp: linux_get_mac_addr_of_iface_def linux_set_mac_addr_for_iface_def write_mac_addr_def)
  have "CHR 0x00 \<notin> set (hex2 x)" for x
    using hex2_pair [of x] by (auto simp: hex_pair_def list_all_iff is_hex_def is_digit_def)
  then have "CHR 0x00 \<notin> set (mac_addr_to_str a)" by (cases a) simp
  then have "macos_set_mac_addr_for_iface iface' a = ''ifconfig '' @ iface' @ '' ether '' @ mac_addr_to_str a"
    unfolding macos_set_mac_addr_for_iface_def c_str_def using assms(3) by (subst takeWhile_eq_all_conv) auto
  then show ?thesis using l str_to_mac_addr_print [of a] by (simp add: linux_hardware_def)
qed

end
