(* ===== verification/Iface.thy ===== *)
theory Iface
  imports Hardware Media
begin

text \<open>
  The interfaces that the programs run on: \<^verbatim>\<open>src/lib/linux/linux_iface.cpp\<close> and
  \<^verbatim>\<open>src/lib/macos/macos_iface.cpp\<close> (the same but for the system calls),
  \<^verbatim>\<open>src/lib/macos/bpf.cpp\<close> and \<^verbatim>\<open>src/lib/linux/tun_tap.cpp\<close>.  What the system
  answers to a call is an argument.  The thread that captures packets and the worker of the asynchronous
  listener are steps that interleave freely.
\<close>

section \<open>Opening\<close>

text \<open>The calls of the constructor; a call that fails makes it throw, but for the one that asks for the index.  The
  result is the bytes that name the interface to \<^verbatim>\<open>bind\<close>: the index, zero if it is not known.\<close>

record iface_calls =
  pcap_open_live :: bool
  packet_socket :: bool
  siocgifindex :: "u32 option"
  bind_packet :: "u32 \<Rightarrow> bool"

definition linux_iface_open :: "iface_calls \<Rightarrow> u32 result" where
  "linux_iface_open os =
     (if \<not> pcap_open_live os then Inl Thrown
      else if \<not> packet_socket os then Inl Thrown
      else let ifindex = (case siocgifindex os of None \<Rightarrow> 0 | Some i \<Rightarrow> i)
           in if \<not> bind_packet os ifindex then Inl Thrown else Inr ifindex)"

text \<open>\<^verbatim>\<open>open_free_bpf\<close>: the first of a hundred devices that opens.\<close>

fun bpf_loop :: "(nat \<Rightarrow> nat option) \<Rightarrow> nat \<Rightarrow> nat \<Rightarrow> nat option" where
  "bpf_loop opens i 0 = None"
| "bpf_loop opens i (Suc n) = (case opens i of Some fd \<Rightarrow> Some fd | None \<Rightarrow> bpf_loop opens (i + 1) n)"

definition open_free_bpf :: "(nat \<Rightarrow> nat option) \<Rightarrow> nat option" where
  "open_free_bpf opens = bpf_loop opens 0 100"

definition open_bpf_iface :: "(nat \<Rightarrow> nat option) \<Rightarrow> (nat \<Rightarrow> string \<Rightarrow> bool) \<Rightarrow> (nat \<Rightarrow> bool) \<Rightarrow> string \<Rightarrow> nat option" where
  "open_bpf_iface opens biocsetif biocshdrcmplt iface_name =
     (case open_free_bpf opens of
        None \<Rightarrow> None
      | Some fd \<Rightarrow>
          if \<not> biocsetif fd (ifr_name iface_name) then None
          else if \<not> biocshdrcmplt fd then None else Some fd)"

definition macos_iface_open ::
  "bool \<Rightarrow> (nat \<Rightarrow> nat option) \<Rightarrow> (nat \<Rightarrow> string \<Rightarrow> bool) \<Rightarrow> (nat \<Rightarrow> bool) \<Rightarrow> string \<Rightarrow> nat result" where
  "macos_iface_open pcap_opens opens biocsetif biocshdrcmplt iface =
     (if \<not> pcap_opens then Inl Thrown
      else case open_bpf_iface opens biocsetif biocshdrcmplt iface of None \<Rightarrow> Inl Thrown | Some fd \<Rightarrow> Inr fd)"

section \<open>Traffic\<close>

record 'l iface =
  async_recv :: "(bytes, 'l) async_recv_listener"
  sniff :: "'l option"
  sniffed :: "('l \<times> bytes) list"  \<comment> \<open>the calls of \<^verbatim>\<open>sniff->handle_recv\<close>\<close>

definition new_iface :: "'l iface" where
  "new_iface = \<lparr>async_recv = async_init (replicate 2000 []), sniff = None, sniffed = []\<rparr>"

text \<open>\<^verbatim>\<open>my_handler\<close>; the length is converted to \<^verbatim>\<open>int\<close>.\<close>

definition my_handler :: "bytes \<Rightarrow> 'l iface \<Rightarrow> 'l iface" where
  "my_handler data s =
     (if sint (word_of_nat (length data) :: u32) \<le> 0 then s
      else let s = s\<lparr>async_recv := async_handle_recv data (async_recv s)\<rparr>
           in case sniff s of None \<Rightarrow> s | Some l \<Rightarrow> s\<lparr>sniffed := sniffed s @ [(l, data)]\<rparr>)"

definition incoming_set_recv :: "'l option \<Rightarrow> 'l iface \<Rightarrow> 'l iface" where
  "incoming_set_recv recv s = s\<lparr>async_recv := async_set_recv_listener recv (async_recv s)\<rparr>"

definition set_sniff :: "'l option \<Rightarrow> 'l iface \<Rightarrow> 'l iface" where
  "set_sniff l s = s\<lparr>sniff := l\<rparr>"

text \<open>\<^verbatim>\<open>send_data\<close>, with what the system call returns, converted to \<^verbatim>\<open>int\<close>.\<close>

definition iface_send_data :: "(bytes \<Rightarrow> int) \<Rightarrow> bytes \<Rightarrow> err_t" where
  "iface_send_data os_send data =
     (let res = sint (word_of_int (os_send data) :: u32) in if res = -1 \<or> res = 0 then ERR else OK)"

text \<open>The steps of the threads and of the program.\<close>

datatype 'l iface_step = Captures bytes | Works | Sets_recv "'l option" | Sets_sniff "'l option"

fun iface_do :: "'l iface_step \<Rightarrow> 'l iface \<Rightarrow> 'l iface" where
  "iface_do (Captures data) s = my_handler data s"
| "iface_do Works s = s\<lparr>async_recv := async_worker (async_recv s)\<rparr>"
| "iface_do (Sets_recv l) s = incoming_set_recv l s"
| "iface_do (Sets_sniff l) s = set_sniff l s"

section \<open>Tunnels\<close>

text \<open>The name buffer of the request (16 bytes, the name cut but then not terminated), and the name in the
  buffer that the system gives back.\<close>

definition tun_name :: "string \<Rightarrow> bytes" where
  "tun_name iface_name = (let n = take 16 (string_bytes (c_str iface_name)) in n @ replicate (16 - length n) 0)"

definition open_tun_tap :: "nat option \<Rightarrow> (bytes \<Rightarrow> u16 \<Rightarrow> bytes option) \<Rightarrow> string \<Rightarrow> u16 \<Rightarrow> (nat \<times> string) result" where
  "open_tun_tap opened tunsetiff iface_name flags =
     (case opened of
        None \<Rightarrow> Inl Thrown
      | Some fd \<Rightarrow>
          (case tunsetiff (tun_name iface_name) flags of
             None \<Rightarrow> Inl Thrown
           | Some name \<Rightarrow> bind_r (c_string name) (\<lambda>s. Inr (fd, s))))"

text \<open>\<^verbatim>\<open>IFF_TAP | IFF_NO_PI\<close>.\<close>

definition open_raw_tap :: "nat option \<Rightarrow> (bytes \<Rightarrow> u16 \<Rightarrow> bytes option) \<Rightarrow> string \<Rightarrow> (nat \<times> string) result" where
  "open_raw_tap opened tunsetiff iface_name = open_tun_tap opened tunsetiff iface_name 0x1002"

definition set_up_tun_tap :: "string \<Rightarrow> string" where
  "set_up_tun_tap iface_name = ''sudo ip link set dev '' @ c_str iface_name @ '' up''"

definition set_down_tun_tap :: "string \<Rightarrow> string" where
  "set_down_tun_tap iface_name = ''sudo ip link set dev '' @ c_str iface_name @ '' down''"

section \<open>Runs\<close>

text \<open>The packets of a run that are handed on, and those that a sniffer was set for.\<close>

definition captured :: "'l iface_step list \<Rightarrow> bytes list" where
  "captured es = concat (map (\<lambda>e. case e of Captures d \<Rightarrow> if sint (word_of_nat (length d) :: u32) \<le> 0 then [] else [d] | _ \<Rightarrow> []) es)"

fun sniffable :: "'l option \<Rightarrow> 'l iface_step list \<Rightarrow> ('l \<times> bytes) list" where
  "sniffable l [] = []"
| "sniffable l (Sets_sniff l' # es) = sniffable l' es"
| "sniffable l (Captures d # es) =
     (case l of Some l' \<Rightarrow> if sint (word_of_nat (length d) :: u32) \<le> 0 then [] else [(l', d)] | None \<Rightarrow> []) @ sniffable l es"
| "sniffable l (_ # es) = sniffable l es"

lemma captured_simps [simp]:
  "captured [] = []" "captured (as @ bs) = captured as @ captured bs"
  "captured (Captures d # es) = (if sint (word_of_nat (length d) :: u32) \<le> 0 then captured es else d # captured es)"
  "captured (Works # es) = captured es" "captured (Sets_recv l # es) = captured es" "captured (Sets_sniff l # es) = captured es"
  by (simp_all add: captured_def)

lemma sniffed_run: "sniffed (fold iface_do es s) = sniffed s @ sniffable (sniff s) es"
proof (induction es arbitrary: s)
  case (Cons e es)
  then show ?case
    by (cases e) (simp_all add: my_handler_def Let_def incoming_set_recv_def set_sniff_def split: option.split)
qed simp

text \<open>Every run of an interface is a run of its asynchronous listener.\<close>

lemma iface_async_run:
  "async_run (async_recv s) acc taken \<Longrightarrow> \<not> stop_flag (async_recv s) \<Longrightarrow> subseq acc pre \<Longrightarrow>
   \<exists>acc' taken'. async_run (async_recv (fold iface_do es s)) acc' taken' \<and> subseq acc' (pre @ captured es)"
proof (induction es arbitrary: s acc taken pre)
  case (Cons e es)
  show ?case
  proof (cases e)
    case (Captures d)
    show ?thesis
    proof (cases "sint (word_of_nat (length d) :: u32) \<le> 0")
      case True
      then show ?thesis using Cons.IH [OF Cons.prems] Captures by (simp add: my_handler_def)
    next
      case False
      have r: "async_recv (my_handler d s) = async_handle_recv d (async_recv s)"
        using False by (auto simp: my_handler_def Let_def split: option.split)
      have "subseq (if is_full (queue (async_recv s)) then acc else acc @ [d]) (pre @ [d])"
        using Cons.prems(3) by (auto intro: list_emb_append_mono subseq_rev_drop_many)
      from Cons.IH [of "my_handler d s", unfolded r, OF async_run.recv [OF Cons.prems(1)] _ this] Cons.prems(2)
      show ?thesis using False by (simp add: Captures async_handle_recv_def)
    qed
  next
    case Works
    let ?a = "async_recv s"
    have "\<exists>taken'. async_run (async_worker ?a) acc taken'"
    proof (cases "front [queue ?a]")
      case None
      then have "async_worker ?a = ?a" by (auto simp: async_worker_def)
      then show ?thesis using Cons.prems(1) by auto
    next
      case (Some x)
      then show ?thesis using async_run.work [OF Cons.prems(1,2)] by blast
    qed
    then obtain taken' where w: "async_run (async_worker ?a) acc taken'" by blast
    have "\<not> stop_flag (async_worker ?a)"
      using Cons.prems(2) by (auto simp: async_worker_def Let_def split: option.split)
    with Cons.IH [of "s\<lparr>async_recv := async_worker ?a\<rparr>" acc taken' pre] w Cons.prems(3) show ?thesis by (simp add: Works)
  next
    case (Sets_recv l)
    have "\<not> stop_flag (async_set_recv_listener l (async_recv s))"
      using Cons.prems(2) by (auto simp: async_set_recv_listener_def split: option.split)
    with Cons.IH [of "incoming_set_recv l s" acc taken pre] async_run.set [OF Cons.prems(1), of l] Cons.prems(3)
    show ?thesis by (simp add: Sets_recv incoming_set_recv_def)
  next
    case (Sets_sniff l)
    with Cons.IH [of "set_sniff l s" acc taken pre] Cons.prems show ?thesis by (simp add: set_sniff_def)
  qed
qed auto

text \<open>While one listener is set, what it has been given and what is queued for it are the packets so far.\<close>

definition iface_inv :: "'l \<Rightarrow> bytes list \<Rightarrow> 'l iface \<Rightarrow> bool" where
  "iface_inv l ds s \<longleftrightarrow> (let a = async_recv s in listener a = Some l \<and> \<not> stop_flag a \<and> cq_inv (queue a) \<and> BUFF_SZ (queue a) = 2000
     \<and> (\<exists>don. forwarded a = map (Pair l) don \<and> don @ contents (queue a) = ds))"

lemma iface_inv_length:
  assumes "iface_inv l ds s"
  shows "length (contents (queue (async_recv s))) \<le> length ds"
proof -
  obtain don where "don @ contents (queue (async_recv s)) = ds" using assms by (auto simp: iface_inv_def Let_def)
  then show ?thesis by (metis length_append le_add2)
qed

lemma iface_inv_new: "iface_inv l [] (incoming_set_recv (Some l) new_iface)"
  by (simp add: iface_inv_def Let_def incoming_set_recv_def new_iface_def async_set_recv_listener_def async_init_def
      empty_queue_def cq_inv_def contents_def)

lemma iface_inv_captures:
  assumes "iface_inv l ds s" and "length ds < 2000"
  shows "iface_inv l (ds @ captured [Captures d]) (my_handler d s)"
proof -
  let ?a = "async_recv s" and ?q = "queue (async_recv s)"
  obtain don where h: "listener ?a = Some l" "\<not> stop_flag ?a" "cq_inv ?q" "BUFF_SZ ?q = 2000"
    "forwarded ?a = map (Pair l) don" "don @ contents ?q = ds" using assms(1) by (auto simp: iface_inv_def Let_def)
  have "length don + count ?q = length ds" using h(6) by (metis length_append length_contents)
  then have "\<not> is_full ?q" using h(4) assms(2) by (simp add: is_full_def)
  then show ?thesis
    using h contents_push_back [OF h(3), of d] cq_inv_ops(1) [OF h(3), of d]
    by (auto simp: iface_inv_def my_handler_def Let_def async_handle_recv_def split: option.split)
qed

lemma iface_inv_works:
  assumes "iface_inv l ds s"
  shows "iface_inv l ds (iface_do Works s)"
    and "contents (queue (async_recv (iface_do Works s))) = tl (contents (queue (async_recv s)))"
proof -
  let ?a = "async_recv s" and ?q = "queue (async_recv s)"
  obtain don where h: "listener ?a = Some l" "\<not> stop_flag ?a" "cq_inv ?q" "BUFF_SZ ?q = 2000"
    "forwarded ?a = map (Pair l) don" "don @ contents ?q = ds" using assms by (auto simp: iface_inv_def Let_def)
  have "iface_inv l ds (iface_do Works s) \<and> contents (queue (async_recv (iface_do Works s))) = tl (contents ?q)"
    using h(3)
  proof (cases rule: front_cases)
    case empty
    then have "is_empty ?q" by (simp add: contents_Nil_iff)
    then have "async_worker ?a = ?a" by (simp add: async_worker_def)
    then show ?thesis using assms empty by simp
  next
    case (some x xs)
    then have "\<not> is_empty ?q" by (auto simp: front_singleton)
    then have w: "async_worker ?a = ?a\<lparr>queue := snd (pop_front ?q), forwarded := map (Pair l) (don @ [x])\<rparr>"
      using h some(1) by (simp add: async_worker_def Let_def)
    show ?thesis
      using h some by (auto simp: iface_inv_def Let_def w intro!: exI [of _ "don @ [x]"])
  qed
  then show "iface_inv l ds (iface_do Works s)"
    and "contents (queue (async_recv (iface_do Works s))) = tl (contents ?q)" by blast+
qed

lemma iface_inv_run:
  "iface_inv l ds s \<Longrightarrow> \<forall>e \<in> set es. \<forall>l. e \<noteq> Sets_recv l \<Longrightarrow> length ds + length (captured es) \<le> 2000 \<Longrightarrow>
   iface_inv l (ds @ captured es) (fold iface_do es s)"
proof (induction es arbitrary: ds s)
  case (Cons e es)
  show ?case
  proof (cases e)
    case (Captures d)
    show ?thesis
    proof (cases "sint (word_of_nat (length d) :: u32) \<le> 0")
      case True
      then show ?thesis using Cons Captures by (simp add: my_handler_def)
    next
      case False
      then have "iface_inv l (ds @ [d]) (my_handler d s)"
        using iface_inv_captures [OF Cons.prems(1), of d] Cons.prems(3) Captures by simp
      from Cons.IH [OF this] Cons.prems(2,3) False show ?thesis by (simp add: Captures)
    qed
  next
    case Works
    then show ?thesis using Cons.IH [OF iface_inv_works(1) [OF Cons.prems(1)]] Cons.prems(2,3) by simp
  next
    case (Sets_sniff l')
    have "iface_inv l ds (set_sniff l' s)" using Cons.prems(1) by (simp add: iface_inv_def set_sniff_def)
    from Cons.IH [OF this] Cons.prems(2,3) show ?thesis by (simp add: Sets_sniff)
  qed (use Cons.prems(2) in simp)
qed simp

lemma iface_drained:
  "iface_inv l ds s \<Longrightarrow> length (contents (queue (async_recv s))) \<le> n \<Longrightarrow>
   forwarded (async_recv (fold iface_do (replicate n Works) s)) = map (Pair l) ds"
proof (induction n arbitrary: s)
  case 0
  then show ?case by (auto simp: iface_inv_def Let_def simp del: length_contents)
next
  case (Suc n)
  have "length (contents (queue (async_recv (iface_do Works s)))) \<le> n"
    using Suc.prems(2) unfolding iface_inv_works(2) [OF Suc.prems(1)] by (simp del: length_contents)
  from Suc.IH [OF iface_inv_works(1) [OF Suc.prems(1)] this] show ?case by simp
qed

section \<open>Properties\<close>

text \<open>C30: However the threads interleave, the listener of an interface is given packets that were captured, in
  order and none twice, and a sniffer is given every packet that was captured while it was set; and when no
  more packets come than the queue holds (2000), the listener is set before them and the worker is given
  time, the listener is given all of them.\<close>

theorem iface_delivers:
  shows "subseq (map snd (forwarded (async_recv (fold iface_do es new_iface)))) (captured es)
    \<and> sniffed (fold iface_do es new_iface) = sniffable None es
    \<and> ((\<forall>e \<in> set es. \<forall>l. e \<noteq> Sets_recv l) \<longrightarrow> length (captured es) \<le> 2000 \<longrightarrow> length (captured es) \<le> n \<longrightarrow>
         forwarded (async_recv (fold iface_do (Sets_recv (Some l) # es @ replicate n Works) new_iface)) = map (Pair l) (captured es))"
proof (intro conjI impI)
  have "async_run (async_recv new_iface) [] []" "\<not> stop_flag (async_recv (new_iface :: 'a iface))"
    using async_run.init [of "replicate 2000 []"] by (simp_all add: new_iface_def async_init_def)
  from iface_async_run [OF this, of "[]" es] obtain acc taken where
    r: "async_run (async_recv (fold iface_do es (new_iface :: 'a iface))) acc taken" "subseq acc (captured es)" by auto
  have "subseq (map snd (forwarded (async_recv (fold iface_do es (new_iface :: 'a iface))))) acc"
    using async_run_inv [OF r(1)] subseq_handed [of taken] by (auto simp: async_inv_def intro: list_emb_append2 subseq_order.order_trans)
  then show "subseq (map snd (forwarded (async_recv (fold iface_do es (new_iface :: 'a iface))))) (captured es)"
    using r(2) by (rule subseq_order.order_trans)
  show "sniffed (fold iface_do es (new_iface :: 'a iface)) = sniffable None es"
    by (simp add: sniffed_run) (simp add: new_iface_def)
next
  assume a: "\<forall>e \<in> set es. \<forall>l. e \<noteq> Sets_recv l" "length (captured es) \<le> 2000" "length (captured es) \<le> n"
  let ?s = "fold iface_do es (incoming_set_recv (Some l) new_iface)"
  have i: "iface_inv l (captured es) ?s" using iface_inv_run [OF iface_inv_new a(1)] a(2) by simp
  have "length (contents (queue (async_recv ?s))) \<le> n"
    using iface_inv_length [OF i] a(3) by simp
  from iface_drained [OF i this]
  show "forwarded (async_recv (fold iface_do (Sets_recv (Some l) # es @ replicate n Works) new_iface)) = map (Pair l) (captured es)" by simp
qed

theorem iface_delivers_witness:
  "forwarded (async_recv (fold iface_do (Sets_recv (Some (7 :: nat)) # [Captures [1], Works, Captures [], Captures [2, 3]] @ replicate 2 Works) new_iface))
     = [(7, [1]), (7, [2, 3])]"
proof -
  have c: "captured [Captures [1], Works, Captures [], Captures [2, 3] :: nat iface_step] = [[1], [2, 3]]" by simp
  from iface_delivers [of "[Captures [1], Works, Captures [], Captures [2, 3]]" 2 "7 :: nat", unfolded c] show ?thesis by auto
qed

text \<open>The name of a tunnel is lost from the sixteenth character on, and then it is not terminated: when the system
  gives the request back as it is, reading the name goes beyond it exactly when the name has 16 characters or more.\<close>

theorem tunnel_name_overreads:
  assumes "\<And>b f. tunsetiff b f = Some b"
  shows "open_raw_tap (Some fd) tunsetiff name
    = (if 16 \<le> length (c_str name) then Inl Overread else Inr (fd, c_str name))"
proof -
  let ?n = "c_str name"
  have z: "0 \<notin> set (string_bytes ?n)"
    by (auto simp: c_str_def string_bytes_def dest: set_takeWhileD)
  show ?thesis
  proof (cases "16 \<le> length ?n")
    case True
    then have "0 \<notin> set (tun_name name)" using z set_take_subset [of 16 "string_bytes ?n"]
      by (auto simp: tun_name_def Let_def string_bytes_def)
    then show ?thesis using True by (simp add: open_raw_tap_def open_tun_tap_def assms c_string_def)
  next
    case False
    then obtain k where "tun_name name = string_bytes ?n @ 0 # replicate k 0"
      by (auto simp: tun_name_def Let_def string_bytes_def simp flip: replicate_Suc intro: that [of "15 - length ?n"])
    moreover have "takeWhile (\<lambda>b. b \<noteq> 0) (string_bytes ?n @ 0 # replicate k 0) = string_bytes ?n"
      using z by (subst takeWhile_append2) auto
    ultimately show ?thesis
      using False by (simp add: open_raw_tap_def open_tun_tap_def assms c_string_def) (simp add: string_bytes_def comp_def)
  qed
qed

end
