(* ===== verification/Udata.thy ===== *)
theory Udata
  imports Var_Len
begin

text \<open>
  \<^verbatim>\<open>src/utils/udata.h\<close>: the older copies of the variable-length encodings, which write through a
  pointer into a buffer of the caller.  Here the buffer and the index of the pointer are explicit, as
  are the counters that the functions return, which are the numbers of an \<^verbatim>\<open>int\<close> as long as the data has
  fewer than \<open>2 ^ 30 - 1\<close> bytes (escaped and delimited it has twice as many and two at most); the lemmas show that they compute what \<open>Var_Len\<close> defines
  by recursion on the data, and which buffers they overflow.
\<close>

section \<open>The pointers\<close>

definition store_byte :: "nat \<Rightarrow> u8 \<Rightarrow> bytes \<Rightarrow> bytes result" where
  "store_byte i b buff = (if i < length buff then Inr (buff[i := b]) else Inl Overwrite)"

definition load_byte :: "nat \<Rightarrow> bytes \<Rightarrow> u8 result" where
  "load_byte i buff = (if i < length buff then Inr (buff ! i) else Inl Overread)"

section \<open>Byte strings\<close>

definition CODE_ESCAPE_BYTE :: u8 where "CODE_ESCAPE_BYTE = 0x00"
definition CODE_DELIMITER :: u8 where "CODE_DELIMITER = 0x01"

text \<open>The loop over the data, with \<^verbatim>\<open>curr_buff\<close> and \<^verbatim>\<open>total_bytes\<close>.\<close>

fun encode_data_loop :: "bytes \<Rightarrow> nat \<Rightarrow> nat \<Rightarrow> bytes \<Rightarrow> (nat \<times> nat \<times> bytes) result" where
  "encode_data_loop [] pos tot buff = Inr (pos, tot, buff)"
| "encode_data_loop (b # bs) pos tot buff =
     (if b = CODE_ESCAPE_BYTE then
        bind_r (store_byte pos CODE_ESCAPE_BYTE buff) (\<lambda>buff.
        bind_r (store_byte (pos + 1) b buff) (\<lambda>buff. encode_data_loop bs (pos + 2) (tot + 2) buff))
      else bind_r (store_byte pos b buff) (\<lambda>buff. encode_data_loop bs (pos + 1) (tot + 1) buff))"

definition encode_data :: "bytes \<Rightarrow> bytes \<Rightarrow> (nat \<times> bytes) result" where
  "encode_data src dest_buff =
     bind_r (encode_data_loop src 0 0 dest_buff) (\<lambda>(pos, tot, buff).
     bind_r (store_byte pos CODE_ESCAPE_BYTE buff) (\<lambda>buff.
     bind_r (store_byte (pos + 1) CODE_DELIMITER buff) (\<lambda>buff. Inr (tot + 2, buff))))"

function decode_data_loop :: "bytes \<Rightarrow> nat \<Rightarrow> nat \<Rightarrow> bytes \<Rightarrow> (nat \<times> bytes) result" where
  "decode_data_loop src i tot dest =
     (if \<not> i < length src then Inl Overread
      else if src ! i = CODE_ESCAPE_BYTE then
        (if \<not> i + 1 < length src then Inl Overread
         else if src ! (i + 1) = CODE_DELIMITER then Inr (tot + 2, dest)
         else decode_data_loop src (i + 2) (tot + 2) (dest @ [src ! (i + 1)]))
      else decode_data_loop src (i + 1) (tot + 1) (dest @ [src ! i]))"
  by pat_completeness auto

termination
  by (relation "measure (\<lambda>(src, i, _). length src - i)") auto

declare decode_data_loop.simps [simp del]

definition decode_data :: "bytes \<Rightarrow> (nat \<times> bytes) result" where
  "decode_data src = decode_data_loop src 0 0 []"

section \<open>Numbers\<close>

function encode_number_loop :: "'a::len word \<Rightarrow> nat \<Rightarrow> nat \<Rightarrow> bytes \<Rightarrow> (nat \<times> bytes) result" where
  "encode_number_loop num pos cnt buff =
     (if num = 0 then Inr (cnt, buff)
      else let next_byte = ucast num AND LOW7;
               num' = drop_bit 7 num;
               next_byte = (if num' \<noteq> 0 then next_byte OR HIGH1 else next_byte)
           in bind_r (store_byte pos next_byte buff) (\<lambda>buff. encode_number_loop num' (pos + 1) (cnt + 1) buff))"
  by pat_completeness auto

termination
proof (relation "measure (\<lambda>(num, _). unat num)")
  fix num num' :: "'a::len word" and pos cnt buff buff' x y
  assume "num \<noteq> 0" "num' = drop_bit 7 num"
  then have "unat num' < unat num"
    by (metis div_less_dividend drop_bit_eq_div one_less_numeral_iff one_less_power
        semiring_norm(76) unat_drop_bit_eq unat_gt_0 zero_less_numeral)
  then show "((num', pos + 1, cnt + 1, buff'), num, pos, cnt, buff) \<in> measure (\<lambda>(num, _). unat num)" by simp
qed simp

declare encode_number_loop.simps [simp del]

definition encode_number :: "'a::len word \<Rightarrow> bytes \<Rightarrow> (nat \<times> bytes) result" where
  "encode_number num buff =
     (if num = 0 then bind_r (store_byte 0 0 buff) (\<lambda>buff. Inr (1, buff)) else encode_number_loop num 0 0 buff)"

text \<open>As in \<open>Var_Len\<close>, the shift is one of \<^verbatim>\<open>int\<close>.\<close>

function decode_number_loop :: "bytes \<Rightarrow> nat \<Rightarrow> nat \<Rightarrow> nat \<Rightarrow> 'a::len word \<Rightarrow> ('a word \<times> nat) result" where
  "decode_number_loop buff i res_cnt bits_cnt res_num =
     (if \<not> i < length buff then Inl Overread
      else if 32 \<le> bits_cnt then Inl Undefined
      else let next_bits = (buff ! i) AND LOW7;
               res_num = res_num OR scast (push_bit bits_cnt (ucast next_bits :: 32 word))
           in if (buff ! i) AND HIGH1 = 0 then Inr (res_num, res_cnt + 1)
              else decode_number_loop buff (i + 1) (res_cnt + 1) (bits_cnt + 7) res_num)"
  by pat_completeness auto

termination
  by (relation "measure (\<lambda>(buff, i, _). length buff - i)") auto

declare decode_number_loop.simps [simp del]

definition decode_number :: "bytes \<Rightarrow> ('a::len word \<times> nat) result" where
  "decode_number buff =
     bind_r (load_byte 0 buff) (\<lambda>b. if b = 0 then Inr (0, 1) else decode_number_loop buff 0 0 0 0)"

section \<open>What they write and read\<close>

text \<open>\<open>store_at\<close> writes many bytes at once.\<close>

lemma store_at_Nil: "i \<le> length buff \<Longrightarrow> store_at i [] buff = Inr buff"
  by (simp add: store_at_def)

lemma store_at_Cons:
  "store_at i (b # bs) buff = bind_r (store_byte i b buff) (\<lambda>buff. store_at (i + 1) bs buff)"
  by (auto simp: store_at_def store_byte_def take_Suc_conv_app_nth drop_Cons' take_update_swap
      take_hd_drop hd_drop_conv_nth nth_append list_update_append upd_conv_take_nth_drop min_def add.commute)

lemma encode_data_loop_written:
  "pos \<le> length buff \<Longrightarrow>
   bind_r (encode_data_loop src pos tot buff) (\<lambda>(pos, tot, buff).
     bind_r (store_byte pos CODE_ESCAPE_BYTE buff) (\<lambda>buff.
     bind_r (store_byte (pos + 1) CODE_DELIMITER buff) (\<lambda>buff. Inr (tot + 2, buff))))
   = bind_r (store_at pos (var_len_encode_bytes src) buff) (\<lambda>b. Inr (tot + length (var_len_encode_bytes src), b))"
proof (induction src pos tot buff rule: encode_data_loop.induct)
  case (1 pos tot buff)
  then show ?case
    by (auto simp: store_at_Cons store_at_Nil bind_r_assoc escape_defs CODE_ESCAPE_BYTE_def CODE_DELIMITER_def store_byte_def)
next
  case (2 b bs pos tot buff)
  then show ?case
    by (auto simp: store_at_Cons escape_defs CODE_ESCAPE_BYTE_def store_byte_def)
qed

lemma decode_data_loop_eq:
  "i \<le> length src \<Longrightarrow>
   decode_data_loop src i tot dest = bind_r (var_len_decode_loop dest tot (drop i src)) (\<lambda>(d, n). Inr (n, d))"
proof (induction src i tot dest rule: decode_data_loop.induct)
  case (1 src i tot dest)
  note d = decode_data_loop.simps [of src i tot dest]
  show ?case
  proof (cases "i < length src")
    case i: True
    then have dr: "drop i src = src ! i # drop (i + 1) src" by (simp add: Cons_nth_drop_Suc)
    show ?thesis
    proof (cases "src ! i = CODE_ESCAPE_BYTE")
      case e: True
      show ?thesis
      proof (cases "i + 1 < length src")
        case i1: True
        then have dr1: "drop (i + 1) src = src ! (i + 1) # drop (i + 2) src"
          by (metis Cons_nth_drop_Suc add_2_eq_Suc' Suc_eq_plus1)
        show ?thesis
          using i e i1 1(1) unfolding d dr dr1
          by (simp add: escape_defs CODE_ESCAPE_BYTE_def CODE_DELIMITER_def)
      next
        case False
        then show ?thesis using i e unfolding d dr by (simp add: escape_defs CODE_ESCAPE_BYTE_def)
      qed
    next
      case False
      then show ?thesis using i 1(2) unfolding d dr by (simp add: escape_defs CODE_ESCAPE_BYTE_def)
    qed
  next
    case False
    then show ?thesis using 1(3) unfolding d by simp
  qed
qed

lemma encode_number_loop_written:
  "pos \<le> length buff \<Longrightarrow>
   encode_number_loop num pos cnt buff
     = bind_r (store_at pos (var_len_encode_num_loop num) buff) (\<lambda>b. Inr (cnt + length (var_len_encode_num_loop num), b))"
proof (induction num arbitrary: pos cnt buff rule: var_len_encode_num_loop.induct)
  case (1 num)
  show ?case
  proof (cases "num = 0")
    case True
    then show ?thesis using 1(2)
      by (simp add: encode_number_loop.simps [of 0] var_len_encode_num_loop.simps [of 0] store_at_Nil)
  next
    case False
    have s: "store_byte pos b buff = Inr x \<Longrightarrow> Suc pos \<le> length x" for b x
      by (auto simp: store_byte_def split: if_splits)
    show ?thesis
      using False 1(1) [OF False refl refl refl]
      by (auto simp: encode_number_loop.simps [of num] var_len_encode_num_loop.simps [of num] Let_def store_at_Cons
          bind_r_assoc s intro!: bind_r_cong)
  qed
qed

lemma decode_number_loop_eq:
  "i \<le> length buff \<Longrightarrow>
   decode_number_loop buff i res_cnt bits_cnt res_num = var_len_decode_num_loop res_num res_cnt bits_cnt (drop i buff)"
proof (induction buff i res_cnt bits_cnt res_num rule: decode_number_loop.induct)
  case (1 buff i res_cnt bits_cnt res_num)
  show ?case
  proof (cases "i < length buff")
    case True
    then have "drop i buff = buff ! i # drop (i + 1) buff" by (simp add: Cons_nth_drop_Suc)
    then show ?thesis using True 1(1)
      by (simp add: decode_number_loop.simps [of buff i] Let_def)
  next
    case False
    then show ?thesis using 1(2) by (simp add: decode_number_loop.simps [of buff "length buff"])
  qed
qed

section \<open>Properties\<close>

text \<open>C33: The encoders of \<^verbatim>\<open>udata.h\<close> write what those of \<^verbatim>\<open>var_len_encoding\<close> define, leave the rest
  of the buffer as it was, return the number of bytes they wrote, and overflow exactly the buffers that are
  shorter; the decoders agree with those of \<^verbatim>\<open>var_len_encoding\<close> on every buffer.\<close>

theorem udata_equals_var_len:
  shows "encode_data src dest =
      (let e = var_len_encode_bytes src in
       if length e \<le> length dest then Inr (length e, e @ drop (length e) dest) else Inl Overwrite)
    \<and> encode_number (num :: 'a::len word) dest =
      (let e = var_len_encode_num num in
       if length e \<le> length dest then Inr (length e, e @ drop (length e) dest) else Inl Overwrite)
    \<and> decode_data buff = bind_r (var_len_decode_bytes buff) (\<lambda>(d, n). Inr (n, d))
    \<and> (decode_number buff :: ('a word \<times> nat) result) = var_len_decode_num buff"
proof (intro conjI)
  show "encode_data src dest =
      (let e = var_len_encode_bytes src in
       if length e \<le> length dest then Inr (length e, e @ drop (length e) dest) else Inl Overwrite)"
    unfolding encode_data_def using encode_data_loop_written [of 0 dest src 0] by (simp add: store_at_def Let_def)
  show "encode_number num dest =
      (let e = var_len_encode_num num in
       if length e \<le> length dest then Inr (length e, e @ drop (length e) dest) else Inl Overwrite)"
    using encode_number_loop_written [of 0 dest num 0]
    by (cases dest) (auto simp: encode_number_def var_len_encode_num_def store_at_def Let_def store_byte_def)
  show "decode_data buff = bind_r (var_len_decode_bytes buff) (\<lambda>(d, n). Inr (n, d))"
    by (simp add: decode_data_def var_len_decode_bytes_def decode_data_loop_eq)
  show "(decode_number buff :: ('a word \<times> nat) result) = var_len_decode_num buff"
    by (cases buff) (auto simp: decode_number_def var_len_decode_num_def load_byte_def decode_number_loop_eq)
qed

end
