(* ===== verification/Net_Access.thy ===== *)
theory Net_Access
  imports Media
begin

text \<open>
  The accesses of \<^verbatim>\<open>abstract/net_access\<close> by themselves: an access is the pair of its two methods on
  the state \<open>'w\<close> of everything else, and \<^verbatim>\<open>net_access.cpp\<close> makes accesses from others.  Then one
  \<^verbatim>\<open>multi_net_access\<close> with the accesses it has generated, which share the set of listeners of
  \<^verbatim>\<open>multi_recv_listener.h\<close> and are destroyed in any order (\<open>Net_Stack\<close> has the objects of whole stacks, in
  which no access is destroyed).  Last the bodies of \<^verbatim>\<open>firewall_net_access\<close>, a class that does not compile as it is.
\<close>

section \<open>Accesses\<close>

text \<open>\<open>'m\<close> are the media that are sent to, \<open>'l\<close> the listeners; no value is a null pointer.\<close>

type_synonym ('m, 'w) net_access_send = "'w \<Rightarrow> 'm option"
type_synonym ('l, 'w) net_access_recv = "'l option \<Rightarrow> 'w \<Rightarrow> 'w"

record ('m, 'l, 'w) net_access =
  get_send_access :: "('m, 'w) net_access_send"
  set_recv :: "('l, 'w) net_access_recv"

definition net_access_send_empty :: "('m, 'w) net_access_send" where
  "net_access_send_empty w = None"

definition net_access_send_make_static :: "'m option \<Rightarrow> ('m, 'w) net_access_send" where
  "net_access_send_make_static static_send w = static_send"

definition net_access_recv_empty :: "('l, 'w) net_access_recv" where
  "net_access_recv_empty recv w = w"

definition net_access_make_empty :: "('m, 'l, 'w) net_access" where
  "net_access_make_empty = \<lparr>get_send_access = (\<lambda>w. None), set_recv = (\<lambda>recv w. w)\<rparr>"

definition make_from_send_recv :: "('m, 'w) net_access_send \<Rightarrow> ('l, 'w) net_access_recv \<Rightarrow> ('m, 'l, 'w) net_access" where
  "make_from_send_recv base_send base_recv =
     \<lparr>get_send_access = (\<lambda>w. base_send w), set_recv = (\<lambda>recv w. base_recv recv w)\<rparr>"

definition net_access_override_send ::
  "('m, 'l, 'w) net_access \<Rightarrow> ('m, 'w) net_access_send \<Rightarrow> ('m, 'l, 'w) net_access" where
  "net_access_override_send base_access overridden_send =
     \<lparr>get_send_access = (\<lambda>w. overridden_send w), set_recv = (\<lambda>recv w. set_recv base_access recv w)\<rparr>"

definition net_access_override_recv ::
  "('m, 'l, 'w) net_access \<Rightarrow> ('l, 'w) net_access_recv \<Rightarrow> ('m, 'l, 'w) net_access" where
  "net_access_override_recv base_access overridden_recv =
     \<lparr>get_send_access = (\<lambda>w. get_send_access base_access w), set_recv = (\<lambda>recv w. overridden_recv recv w)\<rparr>"

text \<open>\<^verbatim>\<open>multi_net_access_send::generate_net_access_send\<close>: the medium of now, for good.\<close>

definition generate_net_access_send :: "('m, 'w) net_access_send \<Rightarrow> 'w \<Rightarrow> ('m, 'w) net_access_send" where
  "generate_net_access_send send w = net_access_send_make_static (send w)"

section \<open>Sets of listeners\<close>

text \<open>Ordered by their addresses.\<close>

definition add_listener :: "('l \<Rightarrow> nat) \<Rightarrow> 'l option \<Rightarrow> 'l list \<Rightarrow> 'l list" where
  "add_listener addr l listeners =
     (case l of None \<Rightarrow> listeners | Some l \<Rightarrow> if l \<in> set listeners then listeners else insort_key addr l listeners)"

definition remove_all_recv_listeners :: "'l list \<Rightarrow> 'l list" where
  "remove_all_recv_listeners listeners = []"

definition remove_one_listener :: "'l option \<Rightarrow> 'l list \<Rightarrow> bool \<times> 'l list" where
  "remove_one_listener l listeners =
     (case l of None \<Rightarrow> (False, listeners)
      | Some l \<Rightarrow> if l \<notin> set listeners then (False, listeners) else (True, remove1 l listeners))"

definition multi_handle_recv :: "('l \<Rightarrow> ('a, 'w) receiver) \<Rightarrow> 'l list \<Rightarrow> ('a, 'w) receiver" where
  "multi_handle_recv handle_recv listeners data w = fold (\<lambda>l w. handle_recv l data w) listeners w"

section \<open>The accesses of a multi_net_access\<close>

text \<open>The listeners, and \<^verbatim>\<open>curr_recv\<close> of every access that was generated and not destroyed.\<close>

record 'l multi_access =
  multi_recv :: "'l list"
  children :: "nat \<rightharpoonup> 'l option"
  generated :: nat

definition new_multi_access :: "'l multi_access" where
  "new_multi_access = \<lparr>multi_recv = [], children = Map.empty, generated = 0\<rparr>"

definition generate_net_access :: "'l multi_access \<Rightarrow> nat \<times> 'l multi_access" where
  "generate_net_access s = (generated s, s\<lparr>children := (children s)(generated s \<mapsto> None), generated := generated s + 1\<rparr>)"

text \<open>Both the destructor and \<^verbatim>\<open>impl_set_recv_access\<close> remove \<^verbatim>\<open>curr_recv\<close> first.\<close>

definition drop_recv :: "'l option \<Rightarrow> 'l list \<Rightarrow> 'l list" where
  "drop_recv curr_recv listeners = (if curr_recv \<noteq> None then snd (remove_one_listener curr_recv listeners) else listeners)"

definition child_set_recv :: "('l \<Rightarrow> nat) \<Rightarrow> nat \<Rightarrow> 'l option \<Rightarrow> 'l multi_access \<Rightarrow> 'l multi_access result" where
  "child_set_recv addr c recv s =
     (case children s c of
        None \<Rightarrow> Inl Undefined
      | Some curr_recv \<Rightarrow>
          Inr (s\<lparr>multi_recv := add_listener addr recv (drop_recv curr_recv (multi_recv s)), children := (children s)(c \<mapsto> recv)\<rparr>))"

definition child_destroy :: "nat \<Rightarrow> 'l multi_access \<Rightarrow> 'l multi_access result" where
  "child_destroy c s =
     (case children s c of
        None \<Rightarrow> Inl Undefined
      | Some curr_recv \<Rightarrow> Inr (s\<lparr>multi_recv := drop_recv curr_recv (multi_recv s), children := (children s)(c := None)\<rparr>))"

datatype 'l multi_op = Generate | Set_recv nat "'l option" | Destroy nat

fun multi_do :: "('l \<Rightarrow> nat) \<Rightarrow> 'l multi_op \<Rightarrow> 'l multi_access \<Rightarrow> 'l multi_access result" where
  "multi_do addr Generate s = Inr (snd (generate_net_access s))"
| "multi_do addr (Set_recv c recv) s = child_set_recv addr c recv s"
| "multi_do addr (Destroy c) s = child_destroy c s"

fun multi_run :: "('l \<Rightarrow> nat) \<Rightarrow> 'l multi_op list \<Rightarrow> 'l multi_access \<Rightarrow> 'l multi_access result" where
  "multi_run addr [] s = Inr s"
| "multi_run addr (e # es) s = bind_r (multi_do addr e s) (multi_run addr es)"

section \<open>What the accesses promise\<close>

text \<open>The receivers that are set on accesses that exist; and the runs in which a receiver is only set on an
  access while no other access has it.\<close>

definition current :: "(nat \<rightharpoonup> 'l option) \<Rightarrow> 'l set" where
  "current cs = {l. \<exists>c. cs c = Some (Some l)}"

fun exclusive :: "('l \<Rightarrow> nat) \<Rightarrow> 'l multi_op list \<Rightarrow> 'l multi_access \<Rightarrow> bool" where
  "exclusive addr [] s = True"
| "exclusive addr (e # es) s =
     ((case e of Set_recv c (Some l) \<Rightarrow> l \<notin> current ((children s)(c := None)) | _ \<Rightarrow> True)
      \<and> (case multi_do addr e s of Inl _ \<Rightarrow> True | Inr s' \<Rightarrow> exclusive addr es s'))"

text \<open>The set is ordered by address, without repetition, and every listener in it is set on an access; in an
  exclusive run every receiver that is set is in it.\<close>

definition listeners_inv :: "('l \<Rightarrow> nat) \<Rightarrow> 'l multi_access \<Rightarrow> bool" where
  "listeners_inv addr s \<longleftrightarrow> sorted (map addr (multi_recv s)) \<and> distinct (multi_recv s) \<and> set (multi_recv s) \<subseteq> current (children s)
     \<and> (\<forall>c. generated s \<le> c \<longrightarrow> children s c = None)"

definition exclusive_inv :: "'l multi_access \<Rightarrow> bool" where
  "exclusive_inv s \<longleftrightarrow> current (children s) \<subseteq> set (multi_recv s)
     \<and> (\<forall>c d l. children s c = Some (Some l) \<longrightarrow> children s d = Some (Some l) \<longrightarrow> c = d)"

lemma add_listener_props:
  "sorted (map addr ls) \<Longrightarrow> sorted (map addr (add_listener addr l ls))"
  "distinct ls \<Longrightarrow> distinct (add_listener addr l ls)"
  "set (add_listener addr l ls) = set_option l \<union> set ls"
  by (auto simp: add_listener_def sorted_insort_key distinct_insort set_insort_key split: option.split)

lemma drop_recv_props:
  "sorted (map addr ls) \<Longrightarrow> sorted (map addr (drop_recv l ls))"
  "distinct ls \<Longrightarrow> distinct (drop_recv l ls)"
  "distinct ls \<Longrightarrow> set (drop_recv l ls) = set ls - set_option l"
  by (auto simp: drop_recv_def remove_one_listener_def sorted_remove1 split: option.split)

lemma current_fresh [simp]: "cs c = None \<Longrightarrow> current (cs(c \<mapsto> None)) = current cs"
  by (force simp: current_def)

lemma current_others:
  assumes "cs c = Some old"
  shows "current cs - set_option old \<subseteq> current (cs(c := r))"
proof
  fix l assume l: "l \<in> current cs - set_option old"
  then obtain d where d: "cs d = Some (Some l)" by (auto simp: current_def)
  then have "d \<noteq> c" using l assms by auto
  then show "l \<in> current (cs(c := r))" using d by (auto simp: current_def)
qed

lemma multi_do_inv:
  assumes "multi_do addr e s = Inr s'" and "listeners_inv addr s"
  shows "listeners_inv addr s'"
proof (cases e)
  case Generate
  then show ?thesis using assms by (auto simp: listeners_inv_def generate_net_access_def)
next
  case (Set_recv c recv)
  then obtain old where c: "children s c = Some old"
    and s': "s' = s\<lparr>multi_recv := add_listener addr recv (drop_recv old (multi_recv s)), children := (children s)(c \<mapsto> recv)\<rparr>"
    using assms(1) by (auto simp: child_set_recv_def split: option.splits)
  have "set (multi_recv s) - set_option old \<subseteq> current ((children s)(c \<mapsto> recv))"
    using assms(2) current_others [of "children s", OF c] by (auto simp: listeners_inv_def)
  moreover have "set_option recv \<subseteq> current ((children s)(c \<mapsto> recv))" by (auto simp: current_def)
  moreover have "c < generated s" using assms(2) c by (metis listeners_inv_def linorder_not_le option.distinct(1))
  ultimately show ?thesis using assms(2) by (auto simp: s' listeners_inv_def add_listener_props drop_recv_props)
next
  case (Destroy c)
  then obtain old where c: "children s c = Some old"
    and s': "s' = s\<lparr>multi_recv := drop_recv old (multi_recv s), children := (children s)(c := None)\<rparr>"
    using assms(1) by (auto simp: child_destroy_def split: option.splits)
  have "set (multi_recv s) - set_option old \<subseteq> current ((children s)(c := None))"
    using assms(2) current_others [of "children s", OF c] by (auto simp: listeners_inv_def)
  then show ?thesis using assms(2) by (auto simp: s' listeners_inv_def drop_recv_props)
qed

lemma multi_do_exclusive:
  assumes "multi_do addr e s = Inr s'" and "listeners_inv addr s" and "exclusive_inv s" and "exclusive addr (e # es) s"
  shows "exclusive_inv s'"
proof (cases e)
  case Generate
  then show ?thesis using assms by (auto simp: exclusive_inv_def listeners_inv_def generate_net_access_def split: if_splits)
next
  case (Set_recv c recv)
  then obtain old where c: "children s c = Some old"
    and s': "s' = s\<lparr>multi_recv := add_listener addr recv (drop_recv old (multi_recv s)), children := (children s)(c \<mapsto> recv)\<rparr>"
    using assms(1) by (auto simp: child_set_recv_def split: option.splits)
  have "recv \<noteq> None \<Longrightarrow> the recv \<notin> current ((children s)(c := None))" using assms(4) Set_recv by auto
  then show ?thesis using assms(2,3) c
    by (auto simp: s' listeners_inv_def exclusive_inv_def current_def add_listener_props drop_recv_props split: if_splits)
next
  case (Destroy c)
  then obtain old where c: "children s c = Some old"
    and s': "s' = s\<lparr>multi_recv := drop_recv old (multi_recv s), children := (children s)(c := None)\<rparr>"
    using assms(1) by (auto simp: child_destroy_def split: option.splits)
  then show ?thesis using assms(2,3) c
    by (auto simp: s' listeners_inv_def exclusive_inv_def current_def drop_recv_props split: if_splits)
qed

lemma multi_run_inv:
  "multi_run addr es s = Inr s' \<Longrightarrow> listeners_inv addr s \<Longrightarrow> exclusive_inv s \<Longrightarrow>
   listeners_inv addr s' \<and> (exclusive addr es s \<longrightarrow> exclusive_inv s')"
proof (induction es arbitrary: s)
  case (Cons e es)
  then obtain s1 where s1: "multi_do addr e s = Inr s1" "multi_run addr es s1 = Inr s'" by (auto simp: bind_r_eq_Inr)
  have i: "listeners_inv addr s1" using multi_do_inv [OF s1(1) Cons.prems(2)] .
  show ?case
  proof (cases "exclusive addr (e # es) s")
    case True
    then have "exclusive_inv s1" using multi_do_exclusive [OF s1(1) Cons.prems(2,3)] by blast
    then show ?thesis using Cons.IH [OF s1(2) i] True s1(1) by simp
  next
    case False
    have "listeners_inv addr s'" if "multi_run addr es t = Inr s'" "listeners_inv addr t" for t
      using that
    proof (induction es arbitrary: t)
      case (Cons e es)
      then show ?case by (auto simp: bind_r_eq_Inr dest: multi_do_inv)
    qed simp
    then show ?thesis using False s1(2) i by blast
  qed
qed simp

section \<open>The firewall around an access\<close>

text \<open>\<^verbatim>\<open>my_recv::handle_recv\<close> and \<^verbatim>\<open>my_send::send_data\<close> of \<^verbatim>\<open>firewall_net_access\<close>.  The medium that
  the wrapped access gives is asked for at every send, and is dereferenced even when it is null.\<close>

definition fw_access_recv :: "('w \<Rightarrow> 'w) \<Rightarrow> ('a, 'w) firewall_filter list \<Rightarrow> ('a, 'w) receiver option \<Rightarrow> ('a, 'w) receiver" where
  "fw_access_recv sleep filters_recv recv =
     firewall_recv sleep filters_recv (\<lambda>data w. case recv of None \<Rightarrow> w | Some handle_recv \<Rightarrow> handle_recv data w)"

fun fw_access_send ::
  "('w \<Rightarrow> 'w) \<Rightarrow> ('a, 'w) firewall_filter list \<Rightarrow> (('a, 'w) medium, 'w) net_access_send \<Rightarrow> 'a \<Rightarrow> 'w \<Rightarrow> (err_t \<times> 'w) result" where
  "fw_access_send sleep [] send data w = (case send w of None \<Rightarrow> Inl Null_deref | Some send_data \<Rightarrow> Inr (send_data data w))"
| "fw_access_send sleep (calc_policy # filters) send data w =
     (case calc_policy data w of
        (ALLOW, w) \<Rightarrow> fw_access_send sleep filters send data w
      | (BLOCK, w) \<Rightarrow> Inr (ERR, w)
      | (DELAY, w) \<Rightarrow> fw_access_send sleep filters send data (sleep w))"

lemma fw_access_send_static:
  "fw_access_send sleep fs (net_access_send_make_static m) data w =
     (case m of Some m \<Rightarrow> Inr (firewall_send sleep fs m data w)
      | None \<Rightarrow> (case firewall_send sleep fs (\<lambda>_ w. (OK, w)) data w of (OK, _) \<Rightarrow> Inl Null_deref | (ERR, w) \<Rightarrow> Inr (ERR, w)))"
proof (induction fs arbitrary: w)
  case (Cons f fs)
  then show ?case by (cases "f data w" rule: prod.exhaust; cases "fst (f data w)") (auto split: option.split)
qed (auto simp: net_access_send_make_static_def split: option.split)

section \<open>Properties\<close>

text \<open>C34: Whatever accesses a multi access has generated, whatever receivers have been set on them and in whatever order they
  are destroyed, what arrives is handed, once each and in the order of their addresses, to receivers that are set on an
  access that still exists; to all of these, when no receiver was set on an access while another had it.\<close>

theorem multi_access_delivers:
  assumes "multi_run addr es new_multi_access = Inr s" and "inj addr"
  shows "\<exists>ls. multi_handle_recv (\<lambda>l data w. w @ [(l, data)]) (multi_recv s) data w = w @ map (\<lambda>l. (l, data)) ls
    \<and> distinct ls \<and> sorted (map addr ls) \<and> set ls \<subseteq> current (children s)
    \<and> (exclusive addr es new_multi_access \<longrightarrow> set ls = current (children s))"
proof -
  have "listeners_inv addr (new_multi_access :: 'a multi_access)" "exclusive_inv (new_multi_access :: 'a multi_access)"
    by (simp_all add: listeners_inv_def exclusive_inv_def new_multi_access_def current_def)
  note i = multi_run_inv [OF assms(1) this]
  have "fold (\<lambda>l w. w @ [(l, data)]) ls w = w @ map (\<lambda>l. (l, data)) ls" for ls :: "'a list" and w
    by (induction ls arbitrary: w) simp_all
  then show ?thesis using i
    by (intro exI [of _ "multi_recv s"]) (auto simp: multi_handle_recv_def listeners_inv_def exclusive_inv_def)
qed

theorem multi_access_delivers_witness:
  "multi_handle_recv (\<lambda>l data w. w @ [(l, data)])
     (multi_recv (case multi_run id [Generate, Generate, Set_recv 0 (Some 9), Set_recv 1 (Some 5), Set_recv 0 (Some 3), Destroy 1, Generate, Set_recv 2 (Some (1 :: nat))] new_multi_access
        of Inr s \<Rightarrow> s)) ''a'' [] = [(1, ''a''), (3, ''a'')]"
proof -
  let ?es = "[Generate, Generate, Set_recv 0 (Some 9), Set_recv 1 (Some 5), Set_recv 0 (Some 3), Destroy 1, Generate, Set_recv 2 (Some (1 :: nat))]"
  let ?s = "\<lparr>multi_recv = [1, 3], children = [0 \<mapsto> Some 3, 2 \<mapsto> Some 1], generated = 3\<rparr> :: nat multi_access"
  note d = new_multi_access_def generate_net_access_def child_set_recv_def child_destroy_def drop_recv_def remove_one_listener_def add_listener_def
  have r: "multi_run id ?es new_multi_access = Inr ?s" by (simp add: d fun_upd_def fun_eq_iff)
  have e: "exclusive id ?es new_multi_access" by (simp add: d current_def)
  have c: "current (children ?s) = {1, 3}" by (auto simp: current_def split: if_splits)
  obtain ls where ls: "multi_handle_recv (\<lambda>l data w. w @ [(l, data)]) (multi_recv ?s) ''a'' [] = map (\<lambda>l. (l, ''a'')) ls"
    "distinct ls" "sorted ls" "set ls = {1, 3}"
    using multi_access_delivers [OF r, of "''a''" "[]"] e c by auto
  have "ls = [1, 3]" using ls(2-4) by (metis (no_types) sorted_distinct_set_unique list.simps(15) distinct_length_2_or_more distinct_singleton empty_set numeral_eq_one_iff one_le_numeral semiring_norm(84) sorted1 sorted2)
  then show ?thesis using ls(1) r by simp
qed

text \<open>A receiver that is set on two accesses gets nothing more when one of them is destroyed.\<close>

theorem shared_receiver_lost:
  "multi_run addr [Generate, Generate, Set_recv 0 (Some l), Set_recv 1 (Some l), Destroy 0] new_multi_access
     = Inr \<lparr>multi_recv = [], children = [1 \<mapsto> Some l], generated = 2\<rparr>"
  by (simp add: new_multi_access_def generate_net_access_def child_set_recv_def child_destroy_def drop_recv_def
      remove_one_listener_def add_listener_def fun_upd_def fun_eq_iff)

text \<open>Overriding takes each method from one of the two accesses, and replaces an override before it.\<close>

lemma overrides:
  "net_access_override_send (net_access_override_recv a r) s = make_from_send_recv s r"
  "net_access_override_recv (net_access_override_send a s) r = make_from_send_recv s r"
  "net_access_override_send (net_access_override_send a s) s' = net_access_override_send a s'"
  "net_access_override_send net_access_make_empty net_access_send_empty = net_access_make_empty"
  by (simp_all add: net_access_override_send_def net_access_override_recv_def make_from_send_recv_def
      net_access_make_empty_def net_access_send_empty_def)

end
