(* ===== verification/Ping_Net.thy ===== *)
theory Ping_Net
  imports Ping Ip4 Arp_Programs
begin

text \<open>
  The program \<^verbatim>\<open>src/main/ping/ping.cpp\<close> below its command line: the ping tool on an ICMP surface over
  IPv4, which sends through a routing table whose only route is the gateway of the program's text, and
  receives what comes to the own addresses.  The access with the sender of the table, which the code makes with a
  function that is declared nowhere, is the one \<^verbatim>\<open>net_access_override_send\<close> makes.  The frames that
  arrive are arguments: for each echo those before its queue is cleared, and for each read of the queue those
  between the read before it and this one, with the milliseconds since the echo was started.
\<close>

section \<open>The surfaces\<close>

definition gateway_text :: string where "gateway_text = ''c4:eb:42:ed:c5:b7''"

definition ping_table :: "mac_addr \<Rightarrow> mac_addr \<Rightarrow> ethernet2_header ip4_routing_table" where
  "ping_table gateway my_mac =
     \<lparr>rules = [], default_gateway = Some (ethernet2_single_header gateway (Some my_mac) (Some ethertype_ip4))\<rparr>"

text \<open>What the queue of the tool is given of a frame.\<close>

definition icmp_in :: "mac_addr \<Rightarrow> ip4_addr \<Rightarrow> ip4_addr \<Rightarrow> bytes \<Rightarrow> (icmp_header \<times> bytes) option result" where
  "icmp_in my_mac my_ip dest_ip frame =
     bind_r (ethernet2_recv \<lparr>cond_src = None, cond_dest = Some my_mac, cond_type = Some ethertype_ip4\<rparr> frame) (\<lambda>r.
       case r of
         None \<Rightarrow> Inr None
       | Some (_, packet) \<Rightarrow>
           bind_r (ip4_recv \<lparr>ip_cond_src = Some dest_ip, ip_cond_dest = Some my_ip, ip_cond_prot = Some ip_prot_icmp\<rparr> packet) (\<lambda>r.
             case r of None \<Rightarrow> Inr None | Some (_, message) \<Rightarrow> icmp_recv None message))"

text \<open>What is sent through the table, and the frames of what the tool sends.\<close>

fun through_table :: "'r ip4_routing_table \<Rightarrow> (unit \<times> bytes) list \<Rightarrow> ('r \<times> bytes) list result" where
  "through_table t [] = Inr []"
| "through_table t ((_, packet) # packets) =
     bind_r (ip4_route_send_data t packet) (\<lambda>(_, routed). bind_r (through_table t packets) (\<lambda>rest. Inr (routed @ rest)))"

definition icmp_out :: "mac_addr \<Rightarrow> mac_addr \<Rightarrow> ip4_addr \<Rightarrow> ip4_addr \<Rightarrow> bytes \<Rightarrow> arp_act list result" where
  "icmp_out gateway my_mac my_ip dest_ip message =
     bind_r (ip4_send (Some ()) (ip4_single_header dest_ip (Some my_ip) (Some ip_prot_icmp) (length message)) message) (\<lambda>packets.
     bind_r (through_table (ping_table gateway my_mac) packets) through)"

fun ping_out :: "(bytes \<Rightarrow> arp_act list result) \<Rightarrow> unit ping_act list \<Rightarrow> arp_act list result" where
  "ping_out send [] = Inr []"
| "ping_out send (Sent (_, message) # acts) =
     bind_r (send message) (\<lambda>fs. bind_r (ping_out send acts) (\<lambda>rest. Inr (fs @ rest)))"
| "ping_out send (Says line # acts) = bind_r (ping_out send acts) (\<lambda>rest. Inr (Prints line # rest))"

section \<open>The queue\<close>

type_synonym icmp_queue = "(icmp_header \<times> bytes) circular_queue"

fun echo_reads ::
  "(bytes \<Rightarrow> (icmp_header \<times> bytes) option result) \<Rightarrow> icmp_queue \<Rightarrow> (bytes list \<times> nat) list \<Rightarrow> (ping_read list \<times> icmp_queue) result" where
  "echo_reads rcv q [] = Inr ([], q)"
| "echo_reads rcv q ((frames, ms) # rds) =
     bind_r (fill_with rcv frames q) (\<lambda>q.
       case front [q] of
         None \<Rightarrow> bind_r (echo_reads rcv q rds) (\<lambda>(evs, q). Inr (Timeout # evs, q))
       | Some reply \<Rightarrow> bind_r (echo_reads rcv (snd (pop_front q)) rds) (\<lambda>(evs, q). Inr (Reply reply ms # evs, q)))"

text \<open>All echos.  A read after the answer of an echo does not take place, and what it would take is cleared before
  the next.\<close>

type_synonym arrivals = "bytes list \<times> (bytes list \<times> nat) list"

fun ping_reads ::
  "(bytes \<Rightarrow> (icmp_header \<times> bytes) option result) \<Rightarrow> icmp_queue \<Rightarrow> arrivals list \<Rightarrow> ping_read list list result" where
  "ping_reads rcv q [] = Inr []"
| "ping_reads rcv q ((before, rds) # echos) =
     bind_r (fill_with rcv before q) (\<lambda>q.
     bind_r (echo_reads rcv (clear q) rds) (\<lambda>(evs, q).
     bind_r (ping_reads rcv q echos) (\<lambda>rest. Inr (evs # rest))))"

section \<open>The program\<close>

definition ping_main ::
  "hardware \<Rightarrow> icmp_header \<times> bytes \<Rightarrow> u16 \<Rightarrow> string \<Rightarrow> ip4_addr \<Rightarrow> nat option \<Rightarrow> arrivals list \<Rightarrow> (bool \<times> arp_act list) result" where
  "ping_main hw cell uninit iface_name dest_ip cnt echos =
     bind_r (str_to_mac_addr gateway_text) (\<lambda>g.
     bind_r (opt_value g) (\<lambda>gateway.
     bind_r (own_addrs hw iface_name) (\<lambda>(my_mac, my_ip).
     bind_r (ping_reads (icmp_in my_mac my_ip dest_ip) (empty_queue (replicate 2000 cell)) echos) (\<lambda>evss.
     bind_r (ping (Some ()) cnt uninit evss) (\<lambda>(fin, acts).
     bind_r (ping_out (icmp_out gateway my_mac my_ip dest_ip) acts) (\<lambda>acts. Inr (fin, acts)))))))"

section \<open>Frames\<close>

definition gateway_mac :: mac_addr where
  "gateway_mac = Mac_addr 0xc4 0xeb 0x42 0xed 0xc5 0xb7"

lemma gateway_parsed: "str_to_mac_addr gateway_text = Inr (Some gateway_mac)"
  by code_simp

text \<open>A message in a packet in a frame, as the senders of the framework build them, and with padding behind it.\<close>

definition icmp_frame :: "mac_addr \<Rightarrow> mac_addr \<Rightarrow> ip4_addr \<Rightarrow> ip4_addr \<Rightarrow> bytes \<Rightarrow> bytes" where
  "icmp_frame src_mac dest_mac src_ip dest_ip message =
     frame_of (ethernet2_single_header dest_mac (Some src_mac) (Some ethertype_ip4))
       (write_ip4_header (checksummed (ip4_single_header dest_ip (Some src_ip) (Some ip_prot_icmp) (length message))) @ message)"

lemma icmp_out_frame: "icmp_out gateway my_mac my_ip dest_ip message = Inr [Frame (icmp_frame my_mac gateway my_ip dest_ip message)]"
proof -
  have "ip_dest_addr (ip4_single_header dest_ip (Some my_ip) (Some ip_prot_icmp) (length message)) = dest_ip"
    by (simp add: ip4_single_header_def)
  then show ?thesis
    by (simp add: icmp_out_def ip4_send_frame ip4_route_send_data_def ping_table_def ip4_find_route_def find_route_def
        ip4_impl_find_route_def icmp_frame_def)
qed

lemma frame_of_append: "frame_of h d @ pad = frame_of h (d @ pad)"
  by (simp add: frame_of_def)

lemma icmp_in_frame:
  "icmp_in m i d (icmp_frame sm m d i message @ pad) = icmp_recv None (message @ pad)"
proof -
  let ?h = "ip4_single_header i (Some d) (Some ip_prot_icmp) (length message)"
    and ?c = "\<lparr>ip_cond_src = Some d, ip_cond_dest = Some i, ip_cond_prot = Some ip_prot_icmp\<rparr>"
  have "ip4_sel ?c ?h" "flags ?h = 0" by (simp_all add: ip4_sel_def ip4_single_header_def opt_sel_def)
  then have s: "ip4_sel ?c (checksummed ?h)" "flags (checksummed ?h) = 0" by simp_all
  have "ip4_recv ?c (write_ip4_header (checksummed ?h) @ message @ pad) = Inr (Some (checksummed ?h, message @ pad))"
    using ip4.rcv_frame [of "checksummed ?h" "write_ip4_header (checksummed ?h)" ?c "message @ pad"] s by simp
  then show ?thesis
    by (simp add: icmp_in_def icmp_frame_def frame_of_append ethernet2_recv_frame ethernet2_sel_def opt_sel_def ethernet2_single_header_def)
qed

text \<open>What the destination and the gateway are given of a frame of the program.\<close>

lemma icmp_frame_received:
  "ethernet2_recv \<lparr>cond_src = Some sm, cond_dest = Some dm, cond_type = Some ethertype_ip4\<rparr> (icmp_frame sm dm si di message)
     = Inr (Some (ethernet2_single_header dm (Some sm) (Some ethertype_ip4),
         write_ip4_header (checksummed (ip4_single_header di (Some si) (Some ip_prot_icmp) (length message))) @ message))"
  by (simp add: icmp_frame_def ethernet2_recv_frame ethernet2_sel_def opt_sel_def ethernet2_single_header_def)

lemma icmp_packet_received:
  "ip4_recv \<lparr>ip_cond_src = Some si, ip_cond_dest = Some di, ip_cond_prot = Some ip_prot_icmp\<rparr>
     (write_ip4_header (checksummed (ip4_single_header di (Some si) (Some ip_prot_icmp) n)) @ message)
   = Inr (Some (checksummed (ip4_single_header di (Some si) (Some ip_prot_icmp) n), message))"
proof -
  let ?h = "ip4_single_header di (Some si) (Some ip_prot_icmp) n"
    and ?c = "\<lparr>ip_cond_src = Some si, ip_cond_dest = Some di, ip_cond_prot = Some ip_prot_icmp\<rparr>"
  have "ip4_sel ?c ?h" "flags ?h = 0" by (simp_all add: ip4_sel_def ip4_single_header_def opt_sel_def)
  then have s: "ip4_sel ?c (checksummed ?h)" "flags (checksummed ?h) = 0" by simp_all
  then show ?thesis using ip4.rcv_frame [of "checksummed ?h" "write_ip4_header (checksummed ?h)" ?c message] by simp
qed

section \<open>Rounds\<close>

text \<open>What the reads of an echo find, from an empty queue, when no message is dropped: for each the oldest message that
  has come and not been taken.\<close>

fun readings :: "(bytes \<Rightarrow> (icmp_header \<times> bytes) option result) \<Rightarrow> (icmp_header \<times> bytes) list \<Rightarrow> (bytes list \<times> nat) list \<Rightarrow> ping_read list" where
  "readings rcv pend [] = []"
| "readings rcv pend ((frames, ms) # rds) =
     (case pend @ received_by rcv frames of
        [] \<Rightarrow> Timeout # readings rcv [] rds
      | reply # rest \<Rightarrow> Reply reply ms # readings rcv rest rds)"

text \<open>An echo that is answered sometime: the frames before it and during it can be read, no more messages pass the filters
  than the queue holds, and a read finds an answer.\<close>

definition answered_echo :: "(bytes \<Rightarrow> (icmp_header \<times> bytes) option result) \<Rightarrow> arrivals \<Rightarrow> bool" where
  "answered_echo rcv = (\<lambda>(before, rds).
     accepts_all rcv (before @ concat (map fst rds)) \<and> length (received_by rcv (concat (map fst rds))) \<le> 2000
     \<and> list_ex is_answer (readings rcv [] rds))"

text \<open>How often it is sent, and the milliseconds of its answer.\<close>

definition times_sent :: "ping_read list \<Rightarrow> nat" where
  "times_sent evs = 1 + length (filter resends (takeWhile (\<lambda>e. \<not> is_answer e) evs))"

definition answer_delay :: "ping_read list \<Rightarrow> nat" where
  "answer_delay evs = (case dropWhile (\<lambda>e. \<not> is_answer e) evs of Reply _ ms # _ \<Rightarrow> ms | _ \<Rightarrow> 0)"

lemma echo_reads_readings:
  assumes "cq_inv q" and "accepts_all rcv (concat (map fst rds))"
    and "count q + length (received_by rcv (concat (map fst rds))) \<le> BUFF_SZ q"
  shows "\<exists>q'. echo_reads rcv q rds = Inr (readings rcv (contents q) rds, q') \<and> cq_inv q' \<and> BUFF_SZ q' = BUFF_SZ q"
  using assms
proof (induction rds arbitrary: q)
  case (Cons rd rds)
  obtain fs ms where rd: "rd = (fs, ms)" by (cases rd)
  have acc: "accepts_all rcv fs" "accepts_all rcv (concat (map fst rds))" using Cons.prems(2) by (simp_all add: rd)
  from fill_with_spec [OF acc(1) Cons.prems(1)] obtain q1 where q1: "fill_with rcv fs q = Inr q1" "cq_inv q1" "BUFF_SZ q1 = BUFF_SZ q"
    "contents q1 = contents q @ received_by rcv fs"
    using Cons.prems(3) by (auto simp: rd)
  have room: "count q1 + length (received_by rcv (concat (map fst rds))) \<le> BUFF_SZ q1"
    using Cons.prems(3) arg_cong [OF q1(4), of length] q1(3) by (simp add: rd)
  show ?case
    using q1(2)
  proof (cases rule: front_cases)
    case empty
    from Cons.IH [OF q1(2) acc(2) room] show ?thesis
      using empty q1 by (auto simp: rd simp del: front.simps)
  next
    case (some x xs)
    have "count (snd (pop_front q1)) + length (received_by rcv (concat (map fst rds))) \<le> BUFF_SZ (snd (pop_front q1))"
      using room some(5) arg_cong [OF some(2), of length] arg_cong [OF some(3), of length] by simp
    from Cons.IH [OF some(4) acc(2) this] show ?thesis
      using some q1 by (auto simp: rd simp del: front.simps)
  qed
qed simp

lemma ping_reads_readings:
  "cq_inv q \<Longrightarrow> BUFF_SZ q = 2000 \<Longrightarrow> \<forall>r \<in> set echos. answered_echo rcv r \<Longrightarrow>
   ping_reads rcv q echos = Inr (map (\<lambda>(before, rds). readings rcv [] rds) echos)"
proof (induction echos arbitrary: q)
  case (Cons r echos)
  obtain before rds where r: "r = (before, rds)" by (cases r)
  have a: "accepts_all rcv before" "accepts_all rcv (concat (map fst rds))" "length (received_by rcv (concat (map fst rds))) \<le> 2000"
    using Cons.prems(3) by (simp_all add: r answered_echo_def)
  from fill_with_spec [OF a(1) Cons.prems(1)] obtain q1 where q1: "fill_with rcv before q = Inr q1" "cq_inv q1" "BUFF_SZ q1 = BUFF_SZ q" by auto
  have cl: "contents (clear q1) = []" "cq_inv (clear q1)" "BUFF_SZ (clear q1) = 2000" "count (clear q1) = 0"
    using cq_inv_ops(5) [OF q1(2)] q1(3) Cons.prems(2) contents_clear [of q1] by (simp_all add: clear_def)
  from echo_reads_readings [OF cl(2) a(2)] a(3) cl obtain q2 where q2: "echo_reads rcv (clear q1) rds = Inr (readings rcv [] rds, q2)"
    "cq_inv q2" "BUFF_SZ q2 = 2000" by auto
  show ?case using q1(1) q2 Cons by (simp add: r)
qed simp

text \<open>The readings as rounds of the tool.\<close>

definition ping_round_of :: "ping_read list \<Rightarrow> ping_round" where
  "ping_round_of evs = (case dropWhile (\<lambda>e. \<not> is_answer e) evs of
     Reply r ms # post \<Rightarrow> (takeWhile (\<lambda>e. \<not> is_answer e) evs, r, ms, post)
   | _ \<Rightarrow> ([], (nth_echo 0, []), 0, []))"

lemma answered_readings:
  assumes "list_ex is_answer evs"
  shows "round_reads (ping_round_of evs) = evs" "good_round (ping_round_of evs)"
    "round_frames s i (ping_round_of evs) = replicate (times_sent evs) (s, echo_frame i)"
    "round_report i (ping_round_of evs) = report i (answer_delay evs)"
proof -
  let ?d = "dropWhile (\<lambda>e. \<not> is_answer e) evs"
  have "?d \<noteq> []" using assms by (auto simp: list_ex_iff dropWhile_eq_Nil_conv)
  then obtain e post where d: "?d = e # post" by (cases ?d) auto
  then have "is_answer e" using hd_dropWhile [of "\<lambda>e. \<not> is_answer e" evs] by simp
  then obtain r ms where e: "e = Reply r ms" by (cases e) (auto simp: is_answer_def)
  have p: "ping_round_of evs = (takeWhile (\<lambda>e. \<not> is_answer e) evs, r, ms, post)" by (simp add: ping_round_of_def d e)
  show "round_reads (ping_round_of evs) = evs"
    using takeWhile_dropWhile_id [of "\<lambda>e. \<not> is_answer e" evs] by (simp add: p round_reads_def d e)
  show "good_round (ping_round_of evs)"
    using \<open>is_answer e\<close> by (auto simp: p good_round_def e dest: set_takeWhileD)
  show "round_frames s i (ping_round_of evs) = replicate (times_sent evs) (s, echo_frame i)"
    by (simp add: p round_frames_def times_sent_def)
  show "round_report i (ping_round_of evs) = report i (answer_delay evs)"
    by (simp add: p round_report_def answer_delay_def d e)
qed

text \<open>The frames and the lines of what the tool has done.\<close>

definition frames_sent :: "arp_act list \<Rightarrow> bytes list" where
  "frames_sent acts = concat (map (\<lambda>a. case a of Frame f \<Rightarrow> [f] | _ \<Rightarrow> []) acts)"

definition replies_shown :: "arp_act list \<Rightarrow> string list" where
  "replies_shown acts = concat (map (\<lambda>a. case a of Prints l \<Rightarrow> if take 14 l = ''received reply'' then [l] else [] | _ \<Rightarrow> []) acts)"

lemma ping_out_acts:
  assumes "\<And>m. send m = Inr [Frame (fr m)]"
  shows "\<exists>out. ping_out send acts = Inr out \<and> frames_sent out = map (fr \<circ> snd) (sents acts) \<and> replies_shown out = reports acts"
proof (induction acts)
  case (Cons a acts)
  then show ?case by (cases a) (auto simp: assms frames_sent_def replies_shown_def)
qed (simp add: frames_sent_def replies_shown_def)

lemma frames_of_echos:
  "\<forall>evs \<in> set evss. list_ex is_answer evs \<Longrightarrow>
   concat (map (\<lambda>(i, r). round_frames () i r) (enumerate n (map ping_round_of evss)))
     = concat (map (\<lambda>(i, evs). replicate (times_sent evs) ((), echo_frame i)) (enumerate n evss))"
  by (induction evss arbitrary: n) (auto simp: answered_readings)

lemma reports_of_echos:
  "\<forall>evs \<in> set evss. list_ex is_answer evs \<Longrightarrow>
   map (\<lambda>(i, r). round_report i r) (enumerate n (map ping_round_of evss))
     = map (\<lambda>(i, evs). report i (answer_delay evs)) (enumerate n evss)"
  by (induction evss arbitrary: n) (auto simp: answered_readings)

lemma enumerate_map: "enumerate n (map f xs) = map (\<lambda>(i, x). (i, f x)) (enumerate n xs)"
  by (induction xs arbitrary: n) simp_all

section \<open>Properties\<close>

text \<open>A reply that a host builds with this framework, whatever its gateway, and with padding behind it.\<close>

lemma framework_reply:
  assumes "icmp_type h = icmp_echoreply" and "echo_id (icmp_raw h) = 0x1234"
  shows "\<exists>reply. icmp_in my_mac my_ip dest (icmp_frame gw my_mac dest my_ip (write_icmp_header (icmp_checksummed h d) @ d) @ pad) = Inr (Some reply)
    \<and> is_answer (Reply reply ms)"
proof -
  have "extract_icmp_header ((write_icmp_header (icmp_checksummed h d) @ d) @ pad) = Inr (icmp_checksummed h d, sizeof_icmp_header)"
    using icmp.ex_wr [of "icmp_checksummed h d" "write_icmp_header (icmp_checksummed h d)" "d @ pad"] by simp
  then show ?thesis
    using assms by (simp add: icmp_in_frame icmp_recv_def is_answer_def icmp_checksummed_def opt_sel_def)
qed

text \<open>C18: Whatever frames arrive that are long enough to be read, and no more than 2000 messages for the tool during an echo:
  when every echo is answered sometime, the program pings to its end.  It sends each echo once, once more for each
  time-out and once more for each message from the destination that carries its identifier and is no reply, before
  the answer, in a frame from the own address to the gateway, which holds a
  valid packet from the own address to the destination, which holds a valid echo request with the number of
  the echo; and every answer is reported with this number.\<close>

theorem ping_over_network:
  assumes "get_mac_addr_of_iface hw iface = Some my_mac" and "get_ip4_addr_of_iface hw iface = Some my_ip"
    and "\<forall>r \<in> set echos. answered_echo (icmp_in my_mac my_ip dest) r"
  shows "\<exists>acts. ping_main hw cell uninit iface dest (Some (length echos)) echos = Inr (True, acts)
    \<and> frames_sent acts = concat (map (\<lambda>(i, _, rds). replicate (times_sent (readings (icmp_in my_mac my_ip dest) [] rds))
         (icmp_frame my_mac gateway_mac my_ip dest (echo_frame i))) (enumerate 0 echos))
    \<and> replies_shown acts = map (\<lambda>(i, _, rds). report i (answer_delay (readings (icmp_in my_mac my_ip dest) [] rds))) (enumerate 0 echos)
    \<and> (\<forall>i. \<exists>e packet ip echo.
         ethernet2_recv \<lparr>cond_src = Some my_mac, cond_dest = Some gateway_mac, cond_type = Some ethertype_ip4\<rparr> (icmp_frame my_mac gateway_mac my_ip dest (echo_frame i)) = Inr (Some (e, packet))
         \<and> internet_checksum (take sizeof_ip4_header packet) = 0
         \<and> ip4_recv \<lparr>ip_cond_src = Some my_ip, ip_cond_dest = Some dest, ip_cond_prot = Some ip_prot_icmp\<rparr> packet = Inr (Some (ip, echo_frame i))
         \<and> internet_checksum (echo_frame i) = 0 \<and> icmp_recv (Some icmp_echo) (echo_frame i) = Inr (Some (echo, echo_frame i))
         \<and> echo_id (icmp_raw echo) = 0x1234 \<and> unat (echo_sequence (icmp_raw echo)) = (10 + i) mod 65536)"
proof -
  let ?rcv = "icmp_in my_mac my_ip dest" and ?fr = "icmp_frame my_mac gateway_mac my_ip dest"
  let ?evss = "map (\<lambda>(before, rds). readings ?rcv [] rds) echos"
  have q: "cq_inv (empty_queue (replicate 2000 cell))" "BUFF_SZ (empty_queue (replicate 2000 cell)) = 2000"
    by (simp_all add: cq_inv_def empty_queue_def)
  note rd = ping_reads_readings [OF q assms(3)]
  have ans: "\<forall>evs \<in> set ?evss. list_ex is_answer evs" using assms(3) by (auto simp: answered_echo_def)
  then have g: "\<forall>r \<in> set (map ping_round_of ?evss). good_round r" using answered_readings(2) by auto
  have same: "map round_reads (map ping_round_of evss) = evss" if "\<forall>evs \<in> set evss. list_ex is_answer evs" for evss
    using that by (induction evss) (simp_all add: answered_readings(1))
  have "echo_header uninit = (nth_echo 0)\<lparr>icmp_checksum := uninit\<rparr>" by (simp add: echo_header_def nth_echo_def)
  with ping_loop_answered [OF g, of "()" 0 uninit] obtain acts where
    a: "ping_loop (Some ()) (Some (length echos)) 0 (echo_header uninit) ?evss = Inr (True, acts)"
      "sents acts = concat (map (\<lambda>(i, evs). replicate (times_sent evs) ((), echo_frame i)) (enumerate 0 ?evss))"
      "reports acts = map (\<lambda>(i, evs). report i (answer_delay evs)) (enumerate 0 ?evss)"
    unfolding same [OF ans] frames_of_echos [OF ans] reports_of_echos [OF ans] by auto
  obtain out where o: "ping_out (icmp_out gateway_mac my_mac my_ip dest) (Says (''starting pinging'' @ endl) # acts) = Inr out"
    "frames_sent out = map (?fr \<circ> snd) (sents acts)" "replies_shown out = reports acts"
    using ping_out_acts [of "icmp_out gateway_mac my_mac my_ip dest" ?fr "Says (''starting pinging'' @ endl) # acts", OF icmp_out_frame] by auto
  have main: "ping_main hw cell uninit iface dest (Some (length echos)) echos = Inr (True, out)"
    using a(1) o(1) by (simp add: ping_main_def gateway_parsed opt_value_def own_addrs_def assms(1,2) rd ping_def)
  have "frames_sent out = concat (map (\<lambda>(i, _, rds). replicate (times_sent (readings ?rcv [] rds)) (?fr (echo_frame i))) (enumerate 0 echos))"
    by (simp add: o(2) a(2) enumerate_map map_concat comp_def case_prod_beta')
  moreover have "replies_shown out = map (\<lambda>(i, _, rds). report i (answer_delay (readings ?rcv [] rds))) (enumerate 0 echos)"
    by (simp add: o(3) a(3) enumerate_map comp_def case_prod_beta')
  moreover have "internet_checksum (take sizeof_ip4_header (write_ip4_header (checksummed h) @ m)) = 0" for h m
    by (simp add: checksum_write_checksummed)
  ultimately show ?thesis
    using main echo_frame_received icmp_frame_received icmp_packet_received by (intro exI [of _ out] conjI allI) (blast | metis)+
qed

theorem ping_over_network_witness:
  "\<exists>acts. ping_main \<lparr>get_mac_addr_of_iface = (\<lambda>_. Some (Mac_addr 2 0 0 0 0 1)), get_ip4_addr_of_iface = (\<lambda>_. Some (Ip4_addr 10 0 0 1))\<rparr>
       (nth_echo 0, []) 7 ''eth0'' (Ip4_addr 10 0 0 9) (Some 1)
       [([], [([], 0), ([icmp_frame gateway_mac (Mac_addr 2 0 0 0 0 1) (Ip4_addr 10 0 0 9) (Ip4_addr 10 0 0 1)
          (write_icmp_header (icmp_checksummed \<lparr>icmp_type = icmp_echoreply, icmp_code = 0, icmp_checksum = 0, icmp_raw = echo_content 0x1234 10\<rparr> []) @ []) @ [0, 0]], 42)])]
     = Inr (True, acts) \<and> length (frames_sent acts) = 2 \<and> replies_shown acts = [report 0 42]"
proof -
  let ?m = "Mac_addr 2 0 0 0 0 1" and ?i = "Ip4_addr 10 0 0 1" and ?d = "Ip4_addr 10 0 0 9"
  let ?h = "\<lparr>icmp_type = icmp_echoreply, icmp_code = 0, icmp_checksum = 0, icmp_raw = echo_content 0x1234 10\<rparr>"
  let ?f = "icmp_frame gateway_mac ?m ?d ?i (write_icmp_header (icmp_checksummed ?h []) @ []) @ [0, 0]"
  let ?hw = "\<lparr>get_mac_addr_of_iface = (\<lambda>_. Some ?m), get_ip4_addr_of_iface = (\<lambda>_. Some ?i)\<rparr>"
  obtain reply where r: "icmp_in ?m ?i ?d ?f = Inr (Some reply)" "is_answer (Reply reply 42)"
    using framework_reply [of ?h ?m ?i ?d gateway_mac "[]" "[0, 0]" 42] by auto
  let ?e = "([], [([], 0), ([?f], 42)]) :: arrivals"
  have rd: "readings (icmp_in ?m ?i ?d) [] (snd ?e) = [Timeout, Reply reply 42]" using r(1) by simp
  have n: "\<not> is_answer Timeout" by (simp add: is_answer_def)
  have "\<forall>e \<in> set [?e]. answered_echo (icmp_in ?m ?i ?d) e" using r rd by (simp add: answered_echo_def)
  from ping_over_network [OF _ _ this, of ?hw "''eth0''" "(nth_echo 0, [])" 7] show ?thesis
    using rd r(2) n by (auto simp: times_sent_def answer_delay_def)
qed

end
