(* ===== verification/Onion.thy ===== *)
theory Onion
  imports Ip4 Udp
begin

text \<open>
  The onion network (\<^verbatim>\<open>src/tools/onion_network\<close>) and the proxies it is made of
  (\<^verbatim>\<open>src/tools/proxy\<close>): a client that wraps a packet once for every node of a chain, and nodes that
  unwrap it, put their own address for its source, and send what comes back to the client, with the client's
  address for its destination.  The UDP client and server are of the former interfaces of the repository, whose
  protocol classes it has no longer: the sending and receiving of datagrams over IPv4 is an argument, a
  \<open>udp_service\<close>, and the locale \<open>datagrams\<close> states what the nodes rely on.  The present protocols
  are shown to provide it.  The buffer of \<^verbatim>\<open>send_msg_t\<close>, of which nothing is left, is taken to be large enough.
\<close>

section \<open>Packets\<close>

text \<open>Changing the header of a packet in place, with a new checksum: the middle of both handlers of the proxy.\<close>

definition rewrite_packet :: "(ip4_header \<Rightarrow> ip4_header) \<Rightarrow> bytes \<Rightarrow> bytes result" where
  "rewrite_packet change buff =
     bind_r (extract_ip4_header buff) (\<lambda>(header, _).
       let header = (change header)\<lparr>ip_checksum := 0\<rparr>
       in bind_r (store_at 0 (write_ip4_header header) buff) (\<lambda>buff.
            store_at 10 (store16 (internet_checksum (take sizeof_ip4_header buff))) buff))"

section \<open>The proxy\<close>

text \<open>\<^verbatim>\<open>conn_source\<close> is \<^verbatim>\<open>my_source\<close> of the handler of the connection, or that there is none.\<close>

record ip_proxy_server =
  mappings :: "ip4_addr set"
  server_ip :: ip4_addr
  conn_source :: "ip4_addr option"

text \<open>A packet from the connection: what is sent to the network.\<close>

definition conn_side_handle :: "ip_proxy_server \<Rightarrow> bytes \<Rightarrow> (ip_proxy_server \<times> bytes list) result" where
  "conn_side_handle s buff =
     (if buff = [] then Inr (s, [])
      else bind_r (extract_ip4_header buff) (\<lambda>(header, _).
        let s = s\<lparr>conn_source := Some (ip_src_addr header), mappings := insert (ip_dest_addr header) (mappings s)\<rparr>
        in bind_r (rewrite_packet (\<lambda>header. header\<lparr>ip_src_addr := server_ip s\<rparr>) buff) (\<lambda>sent. Inr (s, [sent]))))"

text \<open>A packet from the network: what is sent to the connection.\<close>

definition network_side_handle :: "ip_proxy_server \<Rightarrow> bytes \<Rightarrow> bytes list result" where
  "network_side_handle s buff =
     (case conn_source s of
        None \<Rightarrow> Inr []
      | Some my_source \<Rightarrow>
          if my_source = ip4_addr_empty then Inr []
          else if buff = [] then Inr []
          else bind_r (rewrite_packet (\<lambda>header. header\<lparr>ip_dest_addr := my_source\<rparr>) buff) (\<lambda>sent. Inr [sent]))"

definition set_proxied_connection :: "ip_proxy_server \<Rightarrow> ip_proxy_server" where
  "set_proxied_connection s = s\<lparr>conn_source := Some ip4_addr_empty\<rparr>"

section \<open>The nodes\<close>

definition ONION_NETWORK_NODE_LISTEN_PORT :: udp_port where "ONION_NETWORK_NODE_LISTEN_PORT = 11081"

definition CLIENT_PORT :: udp_port where "CLIENT_PORT = 2001"

text \<open>Datagrams over IPv4: the packet for a source and a destination, their ports and the data; and what a receiver on a
  destination (if it requires one) and a port is given of a packet, with the source and its port.\<close>

record udp_service =
  us_wrap :: "ip4_addr \<Rightarrow> ip4_addr \<Rightarrow> udp_port \<Rightarrow> udp_port \<Rightarrow> bytes \<Rightarrow> bytes result"
  us_unwrap :: "ip4_addr option \<Rightarrow> udp_port \<Rightarrow> bytes \<Rightarrow> (ip4_addr \<times> udp_port \<times> bytes) option result"

record onion_node =
  proxy :: ip_proxy_server
  ip_source :: ip4_addr
  port_source :: udp_port

definition new_onion_node :: "ip4_addr \<Rightarrow> udp_port \<Rightarrow> ip4_addr \<Rightarrow> onion_node" where
  "new_onion_node uninit_ip uninit_port src_ip =
     \<lparr>proxy = set_proxied_connection \<lparr>mappings = {}, server_ip = src_ip, conn_source = None\<rparr>,
      ip_source = uninit_ip, port_source = uninit_port\<rparr>"

text \<open>What the gateway of a node hands to the UDP server and to the proxy.\<close>

definition node_udp :: "udp_service \<Rightarrow> onion_node \<Rightarrow> bytes \<Rightarrow> (onion_node \<times> bytes list) result" where
  "node_udp svc node packet =
     bind_r (us_unwrap svc None ONION_NETWORK_NODE_LISTEN_PORT packet) (\<lambda>r.
       case r of
         None \<Rightarrow> Inr (node, [])
       | Some (source_addr, source_port, plain_data) \<Rightarrow>
           let node = node\<lparr>ip_source := source_addr, port_source := source_port\<rparr>
           in bind_r (conn_side_handle (proxy node) plain_data) (\<lambda>(p, sent). Inr (node\<lparr>proxy := p\<rparr>, sent)))"

fun node_send_all :: "udp_service \<Rightarrow> onion_node \<Rightarrow> bytes list \<Rightarrow> bytes list result" where
  "node_send_all svc node [] = Inr []"
| "node_send_all svc node (d # ds) =
     bind_r (us_wrap svc (server_ip (proxy node)) (ip_source node) ONION_NETWORK_NODE_LISTEN_PORT (port_source node) d) (\<lambda>p.
     bind_r (node_send_all svc node ds) (\<lambda>ps. Inr (p # ps)))"

definition node_network :: "udp_service \<Rightarrow> onion_node \<Rightarrow> bytes \<Rightarrow> bytes list result" where
  "node_network svc node packet = bind_r (network_side_handle (proxy node) packet) (node_send_all svc node)"

text \<open>Both listen to the gateway, the proxy being the first that was added: the new state and what is sent.\<close>

definition node_recv :: "udp_service \<Rightarrow> onion_node \<Rightarrow> bytes \<Rightarrow> (onion_node \<times> bytes list) result" where
  "node_recv svc node packet =
     bind_r (node_network svc node packet) (\<lambda>back.
     bind_r (node_udp svc node packet) (\<lambda>(node, sent). Inr (node, back @ sent)))"

section \<open>The client\<close>

text \<open>The chain of UDP clients, each on the proxy of the one before.\<close>

fun onion_wrap :: "udp_service \<Rightarrow> ip4_addr \<Rightarrow> ip4_addr list \<Rightarrow> bytes \<Rightarrow> bytes result" where
  "onion_wrap svc src_ip [] data = Inr data"
| "onion_wrap svc src_ip (node # chain) data =
     bind_r (onion_wrap svc src_ip chain data) (us_wrap svc src_ip node CLIENT_PORT ONION_NETWORK_NODE_LISTEN_PORT)"

definition onion_send :: "udp_service \<Rightarrow> ip4_addr \<Rightarrow> ip4_addr list \<Rightarrow> bytes \<Rightarrow> bytes result" where
  "onion_send svc src_ip chain data = (if chain = [] then Inl Undefined else onion_wrap svc src_ip chain data)"

fun onion_recv :: "udp_service \<Rightarrow> ip4_addr \<Rightarrow> ip4_addr list \<Rightarrow> bytes \<Rightarrow> bytes option result" where
  "onion_recv svc src_ip [] data = Inr (Some data)"
| "onion_recv svc src_ip (node # chain) data =
     bind_r (us_unwrap svc (Some src_ip) CLIENT_PORT data) (\<lambda>r.
       case r of None \<Rightarrow> Inr None | Some (_, _, plain_data) \<Rightarrow> onion_recv svc src_ip chain plain_data)"

section \<open>The network\<close>

text \<open>The network hands a packet to the node that has its destination address, and what the node sends on, until the
  destination is none of the nodes; for \<open>n\<close> packets at most, and while the nodes send one packet for each.\<close>

fun travel :: "udp_service \<Rightarrow> nat \<Rightarrow> (ip4_addr \<rightharpoonup> onion_node) \<Rightarrow> bytes \<Rightarrow> ((ip4_addr \<rightharpoonup> onion_node) \<times> bytes) option" where
  "travel svc 0 nodes packet = None"
| "travel svc (Suc n) nodes packet =
     (case extract_ip4_header packet of
        Inl _ \<Rightarrow> None
      | Inr (header, _) \<Rightarrow>
          (case nodes (ip_dest_addr header) of
             None \<Rightarrow> Some (nodes, packet)
           | Some node \<Rightarrow>
               (case node_recv svc node packet of
                  Inr (node, [sent]) \<Rightarrow> travel svc n (nodes(ip_dest_addr header \<mapsto> node)) sent
                | _ \<Rightarrow> None)))"

section \<open>Rewriting\<close>

definition packet_of :: "ip4_header \<Rightarrow> bytes \<Rightarrow> bytes" where
  "packet_of h e = write_ip4_header (checksummed h) @ e"

lemma packet_of_not_Nil [simp]: "packet_of h e \<noteq> []"
  by (simp add: packet_of_def write_ip4_header_def)

lemma checksummed_updates [simp]:
  "checksummed ((checksummed h)\<lparr>ip_src_addr := s\<rparr>) = checksummed (h\<lparr>ip_src_addr := s\<rparr>)"
  "checksummed ((checksummed h)\<lparr>ip_dest_addr := s\<rparr>) = checksummed (h\<lparr>ip_dest_addr := s\<rparr>)"
  "ip_src_addr (checksummed h) = ip_src_addr h"
  by (simp_all add: checksummed_def)

lemma extract_packet_of: "flags h = 0 \<Longrightarrow> extract_ip4_header (packet_of h e) = Inr (checksummed h, sizeof_ip4_header)"
proof -
  assume "flags h = 0"
  then have "(checksummed h)\<lparr>flags := 0\<rparr> = checksummed h" by (simp add: checksummed_def)
  then show ?thesis by (simp add: packet_of_def)
qed

lemma rewrite_packet_of:
  assumes "flags h = 0"
  shows "rewrite_packet f (packet_of h e) = Inr (packet_of (f (checksummed h)) e)"
proof -
  define g where "g = f (checksummed h)"
  let ?g = "g\<lparr>ip_checksum := 0\<rparr>"
  have w: "store_at 0 (write_ip4_header ?g) (packet_of h e) = Inr (write_ip4_header ?g @ e)"
    by (simp add: store_at_def packet_of_def)
  have s: "store_at 10 (store16 c) (write_ip4_header ?g @ e) = Inr (write_ip4_header (g\<lparr>ip_checksum := c\<rparr>) @ e)" for c
    using write_ip4_header_split [where h = ?g and ck = c] by (simp add: store_at_def sizeof_ip4_header_def)
  have "rewrite_packet f (packet_of h e) = Inr (write_ip4_header (checksummed g) @ e)"
    by (simp add: rewrite_packet_def extract_packet_of [OF assms] g_def [symmetric] w s checksummed_def [of g])
  then show ?thesis by (simp add: packet_of_def g_def)
qed

lemma travel_step:
  "flags h = 0 \<Longrightarrow> nodes (ip_dest_addr h) = Some node \<Longrightarrow> node_recv svc node (packet_of h e) = Inr (node', [sent]) \<Longrightarrow>
   travel svc (Suc n) nodes (packet_of h e) = travel svc n (nodes(ip_dest_addr h \<mapsto> node')) sent"
  by (simp add: extract_packet_of)

lemma travel_done:
  "flags h = 0 \<Longrightarrow> nodes (ip_dest_addr h) = None \<Longrightarrow> travel svc (Suc n) nodes (packet_of h e) = Some (nodes, packet_of h e)"
  by (simp add: extract_packet_of)

declare travel.simps(2) [simp del]

section \<open>The service\<close>

text \<open>What the nodes and the client rely on: a packet that is sent names its source and its destination, and a receiver reads it as it
  was sent, with the source address that it has when it arrives, whatever addresses have been put in on the way.\<close>

locale datagrams =
  fixes svc :: udp_service
  assumes wrapped: "\<exists>h e. us_wrap svc s d sp dp data = Inr (packet_of h e) \<and> flags h = 0 \<and> ip_src_addr h = s \<and> ip_dest_addr h = d
    \<and> (\<forall>s' d' da p. us_unwrap svc da p (packet_of (h\<lparr>ip_src_addr := s', ip_dest_addr := d'\<rparr>) e) =
         Inr (if (da = None \<or> da = Some d') \<and> p = dp then Some (s', sp, data) else None))"
begin

text \<open>A packet with the header of the message or of the next layer.\<close>

definition layer :: "ip4_addr \<Rightarrow> ip4_addr \<Rightarrow> udp_port \<Rightarrow> udp_port \<Rightarrow> bytes \<Rightarrow> ip4_header \<Rightarrow> bytes \<Rightarrow> bool" where
  "layer s d sp dp data h e \<longleftrightarrow> us_wrap svc s d sp dp data = Inr (packet_of h e) \<and> flags h = 0 \<and> ip_src_addr h = s \<and> ip_dest_addr h = d
    \<and> (\<forall>s' d' da p. us_unwrap svc da p (packet_of (h\<lparr>ip_src_addr := s', ip_dest_addr := d'\<rparr>) e) =
         Inr (if (da = None \<or> da = Some d') \<and> p = dp then Some (s', sp, data) else None))"

lemma layerE: obtains h e where "layer s d sp dp data h e"
  using wrapped [of s d sp dp data] by (auto simp: layer_def)

lemma layer_from:
  "layer s d sp dp data h e \<Longrightarrow> us_unwrap svc da p (packet_of (h\<lparr>ip_src_addr := s'\<rparr>) e) =
     Inr (if (da = None \<or> da = Some d) \<and> p = dp then Some (s', sp, data) else None)"
proof -
  assume l: "layer s d sp dp data h e"
  have "h\<lparr>ip_src_addr := s'\<rparr> = h\<lparr>ip_src_addr := s', ip_dest_addr := d\<rparr>" using l by (simp add: layer_def)
  moreover have "us_unwrap svc da p (packet_of (h\<lparr>ip_src_addr := s', ip_dest_addr := d\<rparr>) e) =
      Inr (if (da = None \<or> da = Some d) \<and> p = dp then Some (s', sp, data) else None)" using l unfolding layer_def by blast
  ultimately show ?thesis by simp
qed

lemma layer_unchanged:
  "layer s d sp dp data h e \<Longrightarrow> us_unwrap svc da p (packet_of h e) =
     Inr (if (da = None \<or> da = Some d) \<and> p = dp then Some (s, sp, data) else None)"
proof -
  assume l: "layer s d sp dp data h e"
  have "h\<lparr>ip_src_addr := s\<rparr> = h" using l by (simp add: layer_def)
  then show ?thesis using layer_from [OF l, of da p s] by simp
qed

lemma layer_to:
  "layer s d sp dp data h e \<Longrightarrow> us_unwrap svc da p (packet_of (h\<lparr>ip_dest_addr := d'\<rparr>) e) =
     Inr (if (da = None \<or> da = Some d') \<and> p = dp then Some (s, sp, data) else None)"
proof -
  assume l: "layer s d sp dp data h e"
  have "h\<lparr>ip_dest_addr := d'\<rparr> = h\<lparr>ip_src_addr := s, ip_dest_addr := d'\<rparr>" using l by (simp add: layer_def)
  moreover have "us_unwrap svc da p (packet_of (h\<lparr>ip_src_addr := s, ip_dest_addr := d'\<rparr>) e) =
      Inr (if (da = None \<or> da = Some d') \<and> p = dp then Some (s, sp, data) else None)" using l unfolding layer_def by blast
  ultimately show ?thesis by simp
qed

text \<open>A new node that gets a layer forwards what is in it, and remembers where it came from.\<close>

lemma node_forwards:
  assumes "layer s c CLIENT_PORT ONION_NETWORK_NODE_LISTEN_PORT (packet_of h2 e2) h e" and "flags h2 = 0"
  shows "node_recv svc (new_onion_node u v c) (packet_of (h\<lparr>ip_src_addr := a\<rparr>) e)
    = Inr (\<lparr>proxy = \<lparr>mappings = {ip_dest_addr h2}, server_ip = c, conn_source = Some (ip_src_addr h2)\<rparr>, ip_source = a, port_source = CLIENT_PORT\<rparr>,
        [packet_of (h2\<lparr>ip_src_addr := c\<rparr>) e2])"
proof -
  have "packet_of ((checksummed h2)\<lparr>ip_src_addr := c\<rparr>) e2 = packet_of (h2\<lparr>ip_src_addr := c\<rparr>) e2" by (simp add: packet_of_def)
  then show ?thesis
    using assms(2)
    by (simp add: node_recv_def node_network_def network_side_handle_def new_onion_node_def set_proxied_connection_def node_udp_def
        layer_from [OF assms(1)] conn_side_handle_def extract_packet_of rewrite_packet_of Let_def)
qed

text \<open>A node with a client sends a packet of the network back, unless the UDP server takes it too.\<close>

lemma node_returns:
  assumes "flags h = 0" and "conn_source (proxy node) = Some ms" and "ms \<noteq> ip4_addr_empty"
    and "us_unwrap svc None ONION_NETWORK_NODE_LISTEN_PORT (packet_of h e) = Inr None"
    and "layer (server_ip (proxy node)) (ip_source node) ONION_NETWORK_NODE_LISTEN_PORT (port_source node) (packet_of (h\<lparr>ip_dest_addr := ms\<rparr>) e) h1 e1"
  shows "node_recv svc node (packet_of h e) = Inr (node, [packet_of h1 e1])"
proof -
  have "packet_of ((checksummed h)\<lparr>ip_dest_addr := ms\<rparr>) e = packet_of (h\<lparr>ip_dest_addr := ms\<rparr>) e" by (simp add: packet_of_def)
  then show ?thesis
    using assms by (simp add: node_recv_def node_network_def network_side_handle_def node_udp_def rewrite_packet_of layer_def)
qed

end

section \<open>Paths\<close>

text \<open>The nodes of a chain after a packet from \<open>a\<close> has passed: each remembers the node before it, and the source in
  the packet it has unwrapped, which is the client's \<open>src\<close> for all but the last, and \<open>ms\<close> for the last.\<close>

fun on_path :: "(ip4_addr \<rightharpoonup> onion_node) \<Rightarrow> ip4_addr \<Rightarrow> ip4_addr \<Rightarrow> ip4_addr \<Rightarrow> ip4_addr list \<Rightarrow> bool" where
  "on_path nodes a src ms [] = True"
| "on_path nodes a src ms (c # cs) =
     ((\<exists>m. nodes c = Some \<lparr>proxy = \<lparr>mappings = m, server_ip = c, conn_source = Some (if cs = [] then ms else src)\<rparr>,
         ip_source = a, port_source = CLIENT_PORT\<rparr>) \<and> on_path nodes c src ms cs)"

lemma on_path_other: "d \<notin> set cs \<Longrightarrow> on_path (nodes(d := n)) a src ms cs = on_path nodes a src ms cs"
  by (induction cs arbitrary: a) auto

lemma on_path_snoc:
  "on_path nodes a src ms (cs @ [c]) \<longleftrightarrow> on_path nodes a src src cs
     \<and> (\<exists>m. nodes c = Some \<lparr>proxy = \<lparr>mappings = m, server_ip = c, conn_source = Some ms\<rparr>, ip_source = last (a # cs), port_source = CLIENT_PORT\<rparr>)"
  by (induction cs arbitrary: a) auto

context datagrams
begin

text \<open>What the client wraps is a packet for the first node.\<close>

lemma onion_wrap_packet:
  assumes "flags h = 0"
  shows "\<exists>hc ec. onion_wrap svc src cs (packet_of h e) = Inr (packet_of hc ec) \<and> flags hc = 0
    \<and> ip_src_addr hc = (if cs = [] then ip_src_addr h else src) \<and> ip_dest_addr hc = (if cs = [] then ip_dest_addr h else hd cs)
    \<and> (cs = [] \<longrightarrow> hc = h \<and> ec = e)
    \<and> (\<forall>c cs'. cs = c # cs' \<longrightarrow> (\<exists>d. onion_wrap svc src cs' (packet_of h e) = Inr d \<and> layer src c CLIENT_PORT ONION_NETWORK_NODE_LISTEN_PORT d hc ec))"
proof (induction cs)
  case (Cons c cs)
  then obtain d where d: "onion_wrap svc src cs (packet_of h e) = Inr d" by blast
  obtain hc ec where l: "layer src c CLIENT_PORT ONION_NETWORK_NODE_LISTEN_PORT d hc ec" by (rule layerE)
  then have "us_wrap svc src c CLIENT_PORT ONION_NETWORK_NODE_LISTEN_PORT d = Inr (packet_of hc ec)" "flags hc = 0"
    "ip_src_addr hc = src" "ip_dest_addr hc = c" by (simp_all add: layer_def)
  then show ?case using d l by (intro exI [of _ hc] exI [of _ ec]) simp
qed (use assms in auto)

lemma onion_travels_out:
  assumes "flags h = 0" and "ip_dest_addr h \<notin> set cs"
  shows "onion_wrap svc src cs (packet_of h e) = Inr (packet_of hc ec) \<Longrightarrow> distinct cs \<Longrightarrow> nodes (ip_dest_addr h) = None \<Longrightarrow>
    \<forall>c \<in> set cs. \<exists>u v. nodes c = Some (new_onion_node u v c) \<Longrightarrow>
    (cs = [] \<longrightarrow> hc = h \<and> ec = e) \<Longrightarrow>
    (\<forall>c cs'. cs = c # cs' \<longrightarrow> (\<exists>d. onion_wrap svc src cs' (packet_of h e) = Inr d \<and> layer src c CLIENT_PORT ONION_NETWORK_NODE_LISTEN_PORT d hc ec)) \<Longrightarrow>
    \<exists>nodes'. travel svc (Suc (length cs)) nodes (packet_of (hc\<lparr>ip_src_addr := a\<rparr>) ec) = Some (nodes', packet_of (h\<lparr>ip_src_addr := last (a # cs)\<rparr>) e)
      \<and> on_path nodes' a src (ip_src_addr h) cs \<and> (\<forall>d. d \<notin> set cs \<longrightarrow> nodes' d = nodes d)"
  using assms(2)
proof (induction cs arbitrary: hc ec a nodes)
  case Nil
  then show ?case using assms(1) by (simp add: travel_done)
next
  case (Cons c cs)
  from Cons.prems(6) obtain d where d: "onion_wrap svc src cs (packet_of h e) = Inr d"
    and l: "layer src c CLIENT_PORT ONION_NETWORK_NODE_LISTEN_PORT d hc ec" by auto
  from onion_wrap_packet [OF assms(1), of src cs e] obtain h2 e2 where
    w: "onion_wrap svc src cs (packet_of h e) = Inr (packet_of h2 e2)" "flags h2 = 0"
      "ip_src_addr h2 = (if cs = [] then ip_src_addr h else src)" "cs = [] \<longrightarrow> h2 = h \<and> e2 = e"
      "\<forall>c cs'. cs = c # cs' \<longrightarrow> (\<exists>d. onion_wrap svc src cs' (packet_of h e) = Inr d \<and> layer src c CLIENT_PORT ONION_NETWORK_NODE_LISTEN_PORT d h2 e2)"
    by blast
  obtain u v where n: "nodes c = Some (new_onion_node u v c)" using Cons.prems(4) by auto
  have hc: "flags (hc\<lparr>ip_src_addr := a\<rparr>) = 0" "ip_dest_addr (hc\<lparr>ip_src_addr := a\<rparr>) = c" using l by (simp_all add: layer_def)
  let ?node = "\<lparr>proxy = \<lparr>mappings = {ip_dest_addr h2}, server_ip = c, conn_source = Some (ip_src_addr h2)\<rparr>, ip_source = a, port_source = CLIENT_PORT\<rparr>"
  have f: "node_recv svc (new_onion_node u v c) (packet_of (hc\<lparr>ip_src_addr := a\<rparr>) ec) = Inr (?node, [packet_of (h2\<lparr>ip_src_addr := c\<rparr>) e2])"
    using node_forwards [of src c h2 e2 hc ec u v a] l d w(1,2) by simp
  have nc: "ip_dest_addr h \<noteq> c" "ip_dest_addr h \<notin> set cs" using Cons.prems(7) by simp_all
  have fresh: "\<forall>x \<in> set cs. \<exists>u v. (nodes(c \<mapsto> ?node)) x = Some (new_onion_node u v x)"
    using Cons.prems(2,4) by auto
  have "distinct cs" "(nodes(c \<mapsto> ?node)) (ip_dest_addr h) = None" using Cons.prems(2,3) nc(1) by simp_all
  from Cons.IH [OF w(1) this fresh w(4,5) nc(2), of c] obtain nodes' where
    t: "travel svc (Suc (length cs)) (nodes(c \<mapsto> ?node)) (packet_of (h2\<lparr>ip_src_addr := c\<rparr>) e2) = Some (nodes', packet_of (h\<lparr>ip_src_addr := last (c # cs)\<rparr>) e)"
      "on_path nodes' c src (ip_src_addr h) cs" "\<forall>d. d \<notin> set cs \<longrightarrow> nodes' d = (nodes(c \<mapsto> ?node)) d" by blast
  have "travel svc (Suc (length (c # cs))) nodes (packet_of (hc\<lparr>ip_src_addr := a\<rparr>) ec)
      = travel svc (Suc (length cs)) (nodes(c \<mapsto> ?node)) (packet_of (h2\<lparr>ip_src_addr := c\<rparr>) e2)"
    using travel_step [OF hc(1) _ f, of nodes "Suc (length cs)"] hc(2) n by simp
  moreover have "nodes' c = Some ?node" using t(3) Cons.prems(2) by simp
  ultimately show ?case using t w(3) by (intro exI [of _ nodes']) auto
qed

lemma onion_recv_snoc:
  "onion_recv svc src (cs @ [c]) x = bind_r (onion_recv svc src cs x) (\<lambda>r. case r of None \<Rightarrow> Inr None | Some y \<Rightarrow> onion_recv svc src [c] y)"
  by (induction cs arbitrary: x) (auto simp: bind_r_assoc split: option.splits intro!: bind_r_cong)

text \<open>A packet for the last node of a path comes back through all of it.\<close>

lemma onion_travels_back:
  assumes "src \<noteq> ip4_addr_empty" and "nodes src = None"
  shows "cs \<noteq> [] \<Longrightarrow> on_path nodes src src ms cs \<Longrightarrow> ms \<noteq> ip4_addr_empty \<Longrightarrow> flags r = 0 \<Longrightarrow> ip_dest_addr r = last cs \<Longrightarrow>
    us_unwrap svc None ONION_NETWORK_NODE_LISTEN_PORT (packet_of r e) = Inr None \<Longrightarrow>
    \<exists>x. travel svc (Suc (length cs)) nodes (packet_of r e) = Some (nodes, x) \<and> onion_recv svc src cs x = Inr (Some (packet_of (r\<lparr>ip_dest_addr := ms\<rparr>) e))"
proof (induction cs arbitrary: ms r e rule: rev_induct)
  case (snoc c cs)
  let ?r = "packet_of (r\<lparr>ip_dest_addr := ms\<rparr>) e" and ?prev = "last (src # cs)"
  from snoc.prems(2) obtain m where p: "on_path nodes src src src cs"
    and n: "nodes c = Some \<lparr>proxy = \<lparr>mappings = m, server_ip = c, conn_source = Some ms\<rparr>, ip_source = ?prev, port_source = CLIENT_PORT\<rparr>"
    by (auto simp: on_path_snoc)
  obtain h1 e1 where l: "layer c ?prev ONION_NETWORK_NODE_LISTEN_PORT CLIENT_PORT ?r h1 e1" by (rule layerE)
  have step: "travel svc (Suc (Suc k)) nodes (packet_of r e) = travel svc (Suc k) nodes (packet_of h1 e1)" for k
  proof -
    have "node_recv svc (the (nodes c)) (packet_of r e) = Inr (the (nodes c), [packet_of h1 e1])"
      by (rule node_returns [OF snoc.prems(4) _ snoc.prems(3,6)]) (use l in \<open>simp_all add: n\<close>)
    from travel_step [OF snoc.prems(4) _ this, of nodes "Suc k"] snoc.prems(5) n
    have "travel svc (Suc (Suc k)) nodes (packet_of r e) = travel svc (Suc k) (nodes(c \<mapsto> the (nodes c))) (packet_of h1 e1)" by simp
    moreover have "nodes(c \<mapsto> the (nodes c)) = nodes" by (simp add: n fun_upd_idem_iff)
    ultimately show ?thesis by metis
  qed
  have h1: "flags h1 = 0" "ip_dest_addr h1 = ?prev" using l by (simp_all add: layer_def)
  show ?case
  proof (cases "cs = []")
    case True
    have "us_unwrap svc (Some src) CLIENT_PORT (packet_of h1 e1) = Inr (Some (c, ONION_NETWORK_NODE_LISTEN_PORT, ?r))"
      using layer_unchanged [OF l, of "Some src" CLIENT_PORT] True by simp
    then show ?thesis using step [of 0] True h1 assms(2) by (simp add: travel_done)
  next
    case False
    have "us_unwrap svc None ONION_NETWORK_NODE_LISTEN_PORT (packet_of h1 e1) = Inr None"
      using layer_unchanged [OF l] by (simp add: ONION_NETWORK_NODE_LISTEN_PORT_def CLIENT_PORT_def)
    with snoc.IH [OF False p assms(1) h1(1)] h1(2) False obtain x where
      x: "travel svc (Suc (length cs)) nodes (packet_of h1 e1) = Some (nodes, x)"
        "onion_recv svc src cs x = Inr (Some (packet_of (h1\<lparr>ip_dest_addr := src\<rparr>) e1))" by auto
    have "onion_recv svc src [c] (packet_of (h1\<lparr>ip_dest_addr := src\<rparr>) e1) = Inr (Some ?r)"
      using layer_to [OF l, of "Some src" CLIENT_PORT src] by simp
    then show ?thesis using step [of "length cs"] x by (simp add: onion_recv_snoc del: onion_recv.simps travel.simps)
  qed
qed simp

text \<open>A node that has a client sends what the client sends it back too.\<close>

lemma node_echoes:
  assumes "layer s (server_ip (proxy node)) sp ONION_NETWORK_NODE_LISTEN_PORT (packet_of h2 e2) h e" and "flags h2 = 0"
    and "conn_source (proxy node) = Some ms" and "ms \<noteq> ip4_addr_empty"
  shows "\<exists>node' h1 e1. node_recv svc node (packet_of h e) = Inr (node', [packet_of h1 e1, packet_of (h2\<lparr>ip_src_addr := server_ip (proxy node)\<rparr>) e2])
    \<and> ip_dest_addr h1 = ip_source node
    \<and> us_unwrap svc (Some (ip_source node)) (port_source node) (packet_of h1 e1)
        = Inr (Some (server_ip (proxy node), ONION_NETWORK_NODE_LISTEN_PORT, packet_of (h\<lparr>ip_dest_addr := ms\<rparr>) e))"
proof -
  obtain h1 e1 where l: "layer (server_ip (proxy node)) (ip_source node) ONION_NETWORK_NODE_LISTEN_PORT (port_source node) (packet_of (h\<lparr>ip_dest_addr := ms\<rparr>) e) h1 e1"
    by (rule layerE)
  have "packet_of ((checksummed h)\<lparr>ip_dest_addr := ms\<rparr>) e = packet_of (h\<lparr>ip_dest_addr := ms\<rparr>) e"
    "packet_of ((checksummed h2)\<lparr>ip_src_addr := x\<rparr>) e2 = packet_of (h2\<lparr>ip_src_addr := x\<rparr>) e2" for x by (simp_all add: packet_of_def)
  moreover have "flags h = 0" using assms(1) by (simp add: layer_def)
  moreover have "us_wrap svc (server_ip (proxy node)) (ip_source node) ONION_NETWORK_NODE_LISTEN_PORT (port_source node) (packet_of (h\<lparr>ip_dest_addr := ms\<rparr>) e)
      = Inr (packet_of h1 e1)" "ip_dest_addr h1 = ip_source node" using l by (simp_all add: layer_def)
  ultimately show ?thesis
    using assms(2-4) layer_unchanged [OF assms(1)] layer_unchanged [OF l]
    by (auto simp: node_recv_def node_network_def network_side_handle_def node_udp_def rewrite_packet_of extract_packet_of
        conn_side_handle_def Let_def intro!: exI [of _ h1] exI [of _ e1])
qed

end

section \<open>Datagrams of the present protocols\<close>

definition framework_udp :: udp_service where
  "framework_udp =
     \<lparr>us_wrap = (\<lambda>s d sp dp data.
        bind_r (udp_send (Some ()) \<lparr>udp_src_port = sp, udp_dest_port = dp, udp_len = 0, udp_checksum = 0\<rparr> data) (\<lambda>us.
        bind_r (ip4_send (Some ()) (ip4_single_header d (Some s) (Some ip_prot_udp) (length (snd (hd us)))) (snd (hd us))) (\<lambda>ps.
          Inr (snd (hd ps))))),
      us_unwrap = (\<lambda>da p packet.
        bind_r (ip4_recv \<lparr>ip_cond_src = None, ip_cond_dest = da, ip_cond_prot = Some ip_prot_udp\<rparr> packet) (\<lambda>r.
          case r of None \<Rightarrow> Inr None
          | Some (ip, datagram) \<Rightarrow> bind_r (udp_recv \<lparr>udp_cond_src = None, udp_cond_dest = Some p\<rparr> datagram) (\<lambda>r.
              Inr (map_option (\<lambda>(h, data). (ip_src_addr ip, udp_src_port h, data)) r))))\<rparr>"

interpretation onion: datagrams framework_udp
proof unfold_locales
  fix s d sp dp and data :: bytes
  define u where "u = udp_filled \<lparr>udp_src_port = sp, udp_dest_port = dp, udp_len = 0, udp_checksum = 0\<rparr> (length data)"
  define e where "e = write_udp_header u @ data"
  define h where "h = ip4_single_header d (Some s) (Some ip_prot_udp) (length e)"
  have h: "flags h = 0" "ip_src_addr h = s" "ip_dest_addr h = d" "ip_prot h = ip_prot_udp" by (simp_all add: h_def ip4_single_header_def)
  have u: "udp_src_port u = sp" "udp_dest_port u = dp" by (simp_all add: u_def udp_filled_def)
  have w: "us_wrap framework_udp s d sp dp data = Inr (packet_of h e)"
    by (simp add: framework_udp_def udp_send_frame ip4_send_frame packet_of_def u_def e_def h_def)
  have "us_unwrap framework_udp da p (packet_of (h\<lparr>ip_src_addr := s', ip_dest_addr := d'\<rparr>) e) =
      Inr (if (da = None \<or> da = Some d') \<and> p = dp then Some (s', sp, data) else None)" for s' d' da p
  proof -
    define g where "g = h\<lparr>ip_src_addr := s', ip_dest_addr := d'\<rparr>"
    let ?c = "\<lparr>ip_cond_src = None, ip_cond_dest = da, ip_cond_prot = Some ip_prot_udp\<rparr>"
    have sel: "ip4_sel ?c g \<longleftrightarrow> da = None \<or> da = Some d'" and "flags g = 0" and g: "ip_src_addr g = s'"
      using h by (auto simp: g_def ip4_sel_def opt_sel_def split: option.split)
    then have "ip4_recv ?c (packet_of g e) = Inr (if ip4_sel ?c g then Some (checksummed g, e) else None)"
      using ip4.rcv_frame [of "checksummed g" "write_ip4_header (checksummed g)" ?c e] by (simp add: packet_of_def)
    moreover have "udp_recv \<lparr>udp_cond_src = None, udp_cond_dest = Some q\<rparr> e = Inr (if q = dp then Some (u, data) else None)" for q
      using udp.rcv_frame [of u "write_udp_header u" "\<lparr>udp_cond_src = None, udp_cond_dest = Some q\<rparr>" data] u
      by (simp add: udp_sel_def opt_sel_def e_def)
    ultimately show ?thesis unfolding g_def [symmetric] by (simp add: framework_udp_def sel g u)
  qed
  with w h show "\<exists>h e. us_wrap framework_udp s d sp dp data = Inr (packet_of h e) \<and> flags h = 0 \<and> ip_src_addr h = s \<and> ip_dest_addr h = d
    \<and> (\<forall>s' d' da p. us_unwrap framework_udp da p (packet_of (h\<lparr>ip_src_addr := s', ip_dest_addr := d'\<rparr>) e) =
         Inr (if (da = None \<or> da = Some d') \<and> p = dp then Some (s', sp, data) else None))" by blast
qed

section \<open>Properties\<close>

lemma on_path_learns:
  "on_path nodes a src ms cs \<Longrightarrow> c \<in> set cs \<Longrightarrow> \<exists>n. nodes c = Some n \<and> conn_source (proxy n) \<in> {Some src, Some ms}"
  by (induction cs arbitrary: a) auto

text \<open>C14: A packet that a client sends through a chain of nodes that are new leaves the last node with that node's address
  for its source, and an answer to this node comes back to the client with the client's address for its
  destination.  Every node has learnt the client's address on the way.\<close>

theorem onion_round_trip:
  assumes "datagrams svc" and "chain \<noteq> []" and "distinct chain" and "flags h = 0"
    and "src \<noteq> ip4_addr_empty" and "ip_src_addr h \<noteq> ip4_addr_empty"
    and "\<forall>c \<in> set chain. \<exists>u v. nodes c = Some (new_onion_node u v c)" and "nodes src = None" and "nodes (ip_dest_addr h) = None"
  shows "\<exists>packet nodes'. onion_send svc src chain (packet_of h e) = Inr packet
    \<and> travel svc (Suc (length chain)) nodes packet = Some (nodes', packet_of (h\<lparr>ip_src_addr := last chain\<rparr>) e)
    \<and> (\<forall>c \<in> set chain. \<exists>n. nodes' c = Some n \<and> conn_source (proxy n) \<in> {Some src, Some (ip_src_addr h)})
    \<and> (\<forall>r e'. flags r = 0 \<longrightarrow> ip_dest_addr r = last chain \<longrightarrow> us_unwrap svc None ONION_NETWORK_NODE_LISTEN_PORT (packet_of r e') = Inr None \<longrightarrow>
         (\<exists>x. travel svc (Suc (length chain)) nodes' (packet_of r e') = Some (nodes', x)
           \<and> onion_recv svc src chain x = Inr (Some (packet_of (r\<lparr>ip_dest_addr := ip_src_addr h\<rparr>) e'))))"
proof -
  from datagrams.onion_wrap_packet [OF assms(1,4), of src chain e] assms(2) obtain hc ec where
    w: "onion_wrap svc src chain (packet_of h e) = Inr (packet_of hc ec)" "ip_src_addr hc = src"
      "chain = [] \<longrightarrow> hc = h \<and> ec = e"
      "\<forall>c cs'. chain = c # cs' \<longrightarrow> (\<exists>d. onion_wrap svc src cs' (packet_of h e) = Inr d
         \<and> datagrams.layer svc src c CLIENT_PORT ONION_NETWORK_NODE_LISTEN_PORT d hc ec)" by auto
  have out: "ip_dest_addr h \<notin> set chain" using assms(7,9) by auto
  from datagrams.onion_travels_out [OF assms(1,4) out w(1) assms(3,9,7) w(3,4), of src] obtain nodes' where
    t: "travel svc (Suc (length chain)) nodes (packet_of (hc\<lparr>ip_src_addr := src\<rparr>) ec) = Some (nodes', packet_of (h\<lparr>ip_src_addr := last (src # chain)\<rparr>) e)"
      "on_path nodes' src src (ip_src_addr h) chain" "\<forall>d. d \<notin> set chain \<longrightarrow> nodes' d = nodes d" by blast
  have "src \<notin> set chain" using assms(7,8) by auto
  then have "nodes' src = None" using t(3) assms(8) by simp
  note returns = datagrams.onion_travels_back [OF assms(1,5) this assms(2) t(2) assms(6)]
  have "hc\<lparr>ip_src_addr := src\<rparr> = hc" using w(2) by simp
  then have "onion_send svc src chain (packet_of h e) = Inr (packet_of (hc\<lparr>ip_src_addr := src\<rparr>) ec)"
    using w(1) assms(2) by (simp add: onion_send_def)
  then show ?thesis using t(1) assms(2) on_path_learns [OF t(2)] returns
    by (intro exI [of _ "packet_of (hc\<lparr>ip_src_addr := src\<rparr>) ec"] exI [of _ nodes']) simp
qed

theorem onion_round_trip_witness:
  "\<exists>packet nodes' h. onion_send framework_udp (Ip4_addr 10 0 0 1) [Ip4_addr 10 0 0 2, Ip4_addr 10 0 0 3] (packet_of (ip4_single_header (Ip4_addr 8 8 8 8) (Some (Ip4_addr 10 0 0 1)) None 0) [7]) = Inr packet
    \<and> travel framework_udp 3 [Ip4_addr 10 0 0 2 \<mapsto> new_onion_node ip4_addr_empty 0 (Ip4_addr 10 0 0 2),
         Ip4_addr 10 0 0 3 \<mapsto> new_onion_node ip4_addr_empty 0 (Ip4_addr 10 0 0 3)] packet = Some (nodes', packet_of h [7])
    \<and> ip_src_addr h = Ip4_addr 10 0 0 3 \<and> ip_dest_addr h = Ip4_addr 8 8 8 8"
proof -
  let ?src = "Ip4_addr 10 0 0 1" and ?a = "Ip4_addr 10 0 0 2" and ?b = "Ip4_addr 10 0 0 3"
  let ?nodes = "[?a \<mapsto> new_onion_node ip4_addr_empty 0 ?a, ?b \<mapsto> new_onion_node ip4_addr_empty 0 ?b]"
  let ?h = "ip4_single_header (Ip4_addr 8 8 8 8) (Some ?src) None 0"
  have h: "flags ?h = 0" "ip_src_addr ?h = ?src" "ip_dest_addr ?h = Ip4_addr 8 8 8 8" by (simp_all add: ip4_single_header_def)
  have n: "\<forall>c \<in> set [?a, ?b]. \<exists>u v. ?nodes c = Some (new_onion_node u v c)" by auto
  have p: "[?a, ?b] \<noteq> []" "distinct [?a, ?b]" "?src \<noteq> ip4_addr_empty" "ip_src_addr ?h \<noteq> ip4_addr_empty" "?nodes ?src = None"
    "?nodes (ip_dest_addr ?h) = None" using h by (simp_all add: ip4_addr_empty_def)
  from onion_round_trip [OF onion.datagrams_axioms p(1,2) h(1) p(3,4) n p(5,6), of "[7]"] obtain packet nodes' where
    "onion_send framework_udp ?src [?a, ?b] (packet_of ?h [7]) = Inr packet"
    "travel framework_udp (Suc (length [?a, ?b])) ?nodes packet = Some (nodes', packet_of (?h\<lparr>ip_src_addr := last [?a, ?b]\<rparr>) [7])" by blast
  then show ?thesis using h(3) by (intro exI [of _ packet] exI [of _ nodes'] exI [of _ "?h\<lparr>ip_src_addr := ?b\<rparr>"]) (simp add: eval_nat_numeral)
qed

end
