(* ===== verification/Spec2Isabelle.thy ===== *)
theory Spec2Isabelle
  imports Var_Len Circular_Queue Trie Text Ip4_Addr Routing Mac_Addr Ether2 Checksum Arp Ip4 Udp Icmp Octet_Text Emp Nsp Eap
    Ptp_Addr Ptp_Header Ptp_Text Ptp Dns_Name Dns Dns_Database Dns_Tool Multiplexer Msg_Boundary Net_Stack Net_Conversation
    Ptp_Net Net_Types Hexdump Net_Analyzer Arp_Tool Ping Media
    Virtual_Net Dns_Print Packets Commands Netcat Netcat_Ptp Net_Service Dns_Net Arp_Programs
    Hardware Iface Vnet_Socket Udata Net_Access Ping_Net Onion
begin

text \<open>
  A verification library for a networking framework in C++: protocol stacks that a program puts together
  from ``net accesses'' (an access to send through, and a receiver to set), with the protocols Ethernet, ARP,
  IPv4, ICMP, UDP, DNS and the framework's own PTP (source routing over actions), EAP, EMP and NSP, and the data
  structures they use.  The definitions translate \<^verbatim>\<open>src/lib\<close> and \<^verbatim>\<open>src/src\<close>;
  the host is a little-endian machine with 64-bit pointers and signed characters.

  \<^bold>\<open>Conventions.\<close>  Memory is a list of bytes (\<open>bytes\<close>).  A fallible operation returns \<open>'a result\<close>, that is
  \<open>fault + 'a\<close>: reads and writes beyond a buffer (\<open>Overread\<close>, \<open>Overwrite\<close>), null pointers, thrown exceptions and
  other undefined behaviour are faults.  Integers have the width of the source.  Loops that may not end are
  partial functions into \<open>option\<close>, so that not returning is a value, and the properties about them say when
  they return.  Uninitialised memory is an argument.

  \<^bold>\<open>Theories, in the order of the code.\<close>
  \<^item> \<open>Prelude\<close>: bytes, results, words in network order, the reader and writer lemmas, and the locales
    \<open>wire_codec\<close> (a header codec) and \<open>framed_protocol\<close> (a codec with a receiving filter), which every protocol
    interprets on its own functions.
  \<^item> \<open>Var_Len\<close> (\<^verbatim>\<open>lib/var_len_encoding\<close>), \<open>Text\<close> (\<^verbatim>\<open>lib/split_str\<close> and the
    conversions of the standard library the parsers use), \<open>Circular_Queue\<close> (\<^verbatim>\<open>utils/circular_queue.h\<close>,
    \<^verbatim>\<open>recv_queue.h\<close> and \<^verbatim>\<open>async_recv_listener.h\<close>, whose two threads are steps of an
    inductive relation), \<open>Trie\<close> (\<^verbatim>\<open>utils/trie.h\<close>, with the locale of a dictionary), \<open>Multiplexer\<close>
    (\<^verbatim>\<open>utils/multiplexer.h\<close>).
  \<^item> \<open>Ip4_Addr\<close>, \<open>Mac_Addr\<close>, \<open>Ptp_Addr\<close>, \<open>Octet_Text\<close>: addresses, subnets, text forms; \<open>Routing\<close>
    (\<^verbatim>\<open>abstract/routing\<close>): the contract of a longest-prefix table, interpreted by the IPv4 and PTP
    tables in their theories.
  \<^item> \<open>Ether2\<close>, \<open>Arp\<close>, \<open>Checksum\<close> and \<open>Ip4\<close>, \<open>Icmp\<close>, \<open>Udp\<close>, \<open>Emp\<close>, \<open>Nsp\<close>, \<open>Eap\<close>: one theory for each
    directory of \<^verbatim>\<open>src/protocols\<close>: header record, codec, \<^verbatim>\<open>send\<close>,
    \<^verbatim>\<open>connect_recv\<close> as a filter from a packet to what the listener is given, and the headers that
    the accesses build.
  \<^item> \<open>Ptp_Header\<close>, \<open>Ptp_Text\<close>, \<open>Ptp\<close> (\<^verbatim>\<open>src/protocols/ptp\<close>): actions, paths and their reversal, the
    node that executes the current action of a packet (\<open>handle_packet\<close>, recursive on local hops), and the path
    from end to end.
  \<^item> \<open>Dns_Name\<close>, \<open>Dns\<close>, \<open>Dns_Database\<close>, \<open>Dns_Tool\<close> (\<^verbatim>\<open>src/protocols/dns\<close>,
    \<^verbatim>\<open>src/tools/dns\<close>, \<^verbatim>\<open>src/main/dns\<close>): names with compression, messages, the record
    files and tries, the client's loop and the server's handler.
  \<^item> \<open>Msg_Boundary\<close> (\<^verbatim>\<open>src/protocols/msg_boundary\<close>): framing of messages in a stream and the
    receiver's state between packets.
  \<^item> \<open>Net_Stack\<close> (\<^verbatim>\<open>src/abstract/net_access\<close>, \<^verbatim>\<open>multi_recv_listener.h\<close>, and the
    accesses and generators in the protocol files): the objects of a stack in a heap, and the receiving and
    sending calls between them; \<open>Net_Conversation\<close>: a client and a server over any stack of the six protocols;
    \<open>Ptp_Net\<close>: the generator of PTP, whose accesses share a part of a split of the receiving side, and a
    client and a server behind their nodes; \<open>Net_Types\<close>: a typing of the objects that every operation keeps.
  \<^item> \<open>Media\<close> (\<^verbatim>\<open>abstract/sending\<close>, \<^verbatim>\<open>abstract/firewall\<close>,
    \<^verbatim>\<open>abstract/sniffer\<close>): sets of media, filters and sniffers around a medium or a receiver.
  \<^item> \<open>Virtual_Net\<close> (\<^verbatim>\<open>src/lib/linux/virtual_net.h\<close>): the network of local sockets that
    the programs run on, as a relation of interleaved steps over files and sockets, whose names are cut to 107
    characters; it refines the network of \<open>Ideal_Net\<close>, which has members only and carries the invariant, when the
    paths fit.  \<open>Packets\<close>
    (\<^verbatim>\<open>abstract/constructive_packet\<close>): the deque of a packet.  \<open>Dns_Print\<close>: the text of a message.
  \<^item> \<open>Hexdump\<close> (\<^verbatim>\<open>lib/hexdump.cpp\<close>), \<open>Net_Analyzer\<close>
    (\<^verbatim>\<open>src/tools/net_analyzer\<close>), \<open>Arp_Tool\<close> (\<^verbatim>\<open>src/tools/arp_tool\<close>) and \<open>Ping\<close>
    (\<^verbatim>\<open>src/tools/ping\<close>): the text of a hexdump, the description of a frame, the search, the scan
    and the announcements of ARP, and the echo loop.  A tool is given what it reads from its queue.

  \<^item> \<open>Commands\<close> (\<^verbatim>\<open>src/main\<close>): the command lines of the programs, up to the call that starts the
    tool.  \<open>Netcat\<close>, \<open>Netcat_Ptp\<close> (\<^verbatim>\<open>src/main/netcat\<close>): the text programs over Ethernet,
    IPv4 and PTP, as worlds of \<open>Net_Stack\<close>; a client's loop is taken for a number of rounds.
  \<^item> \<open>Net_Service\<close>: a stack under an answering application as a function on frames.  \<open>Dns_Net\<close>
    (\<^verbatim>\<open>src/main/dns/dns_server.cpp\<close>): the DNS server in its stack.  \<open>Arp_Programs\<close>
    (\<^verbatim>\<open>src/main/arp_scanner\<close>, \<^verbatim>\<open>src/main/arp_spoofer\<close>): the ARP tools on their
    Ethernet accesses, from the frames that arrive to what is sent and printed.
  \<^item> \<open>Hardware\<close>, \<open>Iface\<close>, \<open>Vnet_Socket\<close> (\<^verbatim>\<open>src/lib/linux\<close>,
    \<^verbatim>\<open>src/lib/macos\<close>): the addresses and the gateway of an interface, the interfaces and
    tunnels with their threads, and one object of the virtual network on each system with its
    descriptors.  What a system call answers is an argument.
  \<^item> \<open>Udata\<close> (\<^verbatim>\<open>utils/udata.h\<close>): the older encoders, with the buffer they write into.
    \<open>Net_Access\<close> (\<^verbatim>\<open>abstract/net_access\<close>): accesses made from others, and a
    \<^verbatim>\<open>multi_net_access\<close> whose accesses are destroyed in any order.  \<open>Ping_Net\<close>
    (\<^verbatim>\<open>src/main/ping\<close>): the ping tool on its stack, from frames to frames.  \<open>Onion\<close>
    (\<^verbatim>\<open>src/tools/onion_network\<close>, \<^verbatim>\<open>src/tools/proxy\<close>): the chain of
    address-translating nodes, over datagrams that the locale \<open>datagrams\<close> specifies.

  \<^bold>\<open>What is proved.\<close>  Codecs, texts and messages round-trip; what \<^verbatim>\<open>send\<close> emits is what the
  filters deliver; data structures refine their abstract types (ring buffer and bounded deque, trie and
  map, multiplexer and a list of predicates, message framing and a reference decoder); routing tables find
  the longest prefix; optimised code equals its reference (CRC-32); the PTP node ends on every packet and
  data sent along a path over local connections arrives at the node where all of them end, and nowhere when it would
  have to be passed on; the DNS client and server answer a question end to end; a
  stack of generators delivers each matching packet once, and replies go back to the peer; a scan of a
  subnet sends one request for each address; a ping returns when its echos are answered; a hexdump can be
  read back; a firewall lets nothing through that a filter blocks; no call in a stack reaches an object of the wrong class; the processes
  of a virtual network see one order of messages; a netcat server prints the lines of its clients.  Where the code is wrong
  the theorem says what it does, for instance \<open>is_inside_subnet_low_bits\<close>, \<open>dns_name_self_pointer_loops\<close>,
  \<open>str_to_emp_port_never_parses\<close> and \<open>dns_database_non_ascii\<close>.

  \<^bold>\<open>Not modelled.\<close>  TCP and the \<^verbatim>\<open>direct_connections\<close>, VPN and traceroute parts,
  which the build leaves out or which call interfaces the repository no longer has; what the system calls do
  beyond their answers, and the virtual interfaces of \<^verbatim>\<open>lib/linux\<close>, which are comments; \<^verbatim>\<open>remove_word\<close> of the trie, which does not compile; the
  readings of a clock and the loops of servers that only wait.  The conversion of a start of authority
  to bytes is modelled as the undefined behaviour it is: a DNS query that finds no record is the fault \<open>Undefined\<close>.  Destruction of accesses is
  modelled for the generator of PTP, where it can be observed (\<open>release\<close>).
\<close>

end
